(* ===== verification/Prelude.thy ===== *)
theory Prelude
  imports Main "HOL-Library.Sublist" "HOL-Library.Code_Target_Nat"
begin

text \<open>
  What every component of the development shares: JavaScript string operations on
  \<^typ>\<open>string\<close>, results that may be errors, and the insertion-ordered map that a
  JavaScript \<^verbatim>\<open>Map\<close> is.

  A string is a list of 8-bit characters: a code unit of the JavaScript string, the
  code units above \<^verbatim>\<open>0xFF\<close> being left out. Whitespace is what \<^verbatim>\<open>\s\<close> and
  \<^verbatim>\<open>trim\<close> take among those: tab, LF, VT, FF, CR, space and no-break space.
\<close>

named_theorems js_text \<open>unfolding rules of the JavaScript string operations\<close>

section \<open>Characters\<close>

abbreviation backslash :: char where
  "backslash \<equiv> CHR 0x5C"

abbreviation squote :: char where
  "squote \<equiv> CHR 0x27"

abbreviation dquote :: char where
  "dquote \<equiv> CHR 0x22"

abbreviation tab_char :: char where
  "tab_char \<equiv> CHR 0x09"

abbreviation newline_char :: char where
  "newline_char \<equiv> CHR 0x0A"

abbreviation cr_char :: char where
  "cr_char \<equiv> CHR 0x0D"

definition js_space :: "char \<Rightarrow> bool" where
  "js_space c \<longleftrightarrow> c \<in> {CHR 0x09, CHR 0x0A, CHR 0x0B, CHR 0x0C, CHR 0x0D, CHR '' '', CHR 0xA0}"

definition is_digit :: "char \<Rightarrow> bool" where
  "is_digit c \<longleftrightarrow> c \<in> set ''0123456789''"

definition in_range :: "char \<Rightarrow> char \<Rightarrow> char \<Rightarrow> bool" where
  "in_range lo hi c \<longleftrightarrow> of_char lo \<le> (of_char c :: nat) \<and> of_char c \<le> (of_char hi :: nat)"

definition is_upper :: "char \<Rightarrow> bool" where
  "is_upper c \<longleftrightarrow> in_range (CHR ''A'') (CHR ''Z'') c"

definition is_lower :: "char \<Rightarrow> bool" where
  "is_lower c \<longleftrightarrow> in_range (CHR ''a'') (CHR ''z'') c"

definition is_alpha :: "char \<Rightarrow> bool" where
  "is_alpha c \<longleftrightarrow> is_upper c \<or> is_lower c"

text \<open>ASCII case conversion: the strings the code converts are host names and methods.\<close>

definition lower_char :: "char \<Rightarrow> char" where
  "lower_char c = (if is_upper c then char_of ((of_char c :: nat) + 32) else c)"

definition upper_char :: "char \<Rightarrow> char" where
  "upper_char c = (if is_lower c then char_of ((of_char c :: nat) - 32) else c)"

definition to_lower :: "string \<Rightarrow> string" where
  "to_lower s = map lower_char s"

definition to_upper :: "string \<Rightarrow> string" where
  "to_upper s = map upper_char s"

lemma lower_char_idem [simp]: "lower_char (lower_char c) = lower_char c"
proof (cases "is_upper c")
  case True
  then have "\<not> is_upper (lower_char c)"
    by (auto simp: lower_char_def is_upper_def in_range_def)
  then show ?thesis by (simp add: lower_char_def [of "lower_char c"])
qed (simp add: lower_char_def)

lemma to_lower_idem [simp]: "to_lower (to_lower s) = to_lower s"
  by (simp add: to_lower_def)

lemma is_digit_range: "is_digit c \<longleftrightarrow> in_range (CHR ''0'') (CHR ''9'') c"
proof
  assume "is_digit c"
  then show "in_range (CHR ''0'') (CHR ''9'') c"
    by (auto simp: is_digit_def in_range_def)
next
  assume r: "in_range (CHR ''0'') (CHR ''9'') c"
  define n where "n = (of_char c :: nat)"
  have c: "c = char_of n" by (simp add: n_def)
  from r have "48 \<le> n" "n \<le> 57" by (simp_all add: in_range_def n_def)
  then have "n = 48 \<or> n = 49 \<or> n = 50 \<or> n = 51 \<or> n = 52 \<or> n = 53 \<or> n = 54 \<or> n = 55 \<or> n = 56 \<or> n = 57"
    by presburger
  then show "is_digit c" unfolding c by (elim disjE) (simp_all add: is_digit_def char_of_def bit_0)
qed

lemma js_space_simps [simp]: "js_space (CHR '' '')" "js_space tab_char" "js_space newline_char"
  "js_space cr_char" "\<not> js_space (CHR ''#'')" "\<not> js_space (CHR '':'')"
  by (simp_all add: js_space_def)

lemma not_digit_chars [simp]:
  "\<not> is_digit (CHR '':'')" "\<not> is_digit (CHR ''.'')" "\<not> is_digit (CHR ''/'')" "\<not> is_digit (CHR ''*'')"
  "\<not> is_digit (CHR ''~'')" "\<not> is_digit (CHR ''#'')" "\<not> is_digit (CHR '' '')" "\<not> is_digit dquote"
  "\<not> is_digit squote" "\<not> is_digit backslash"
  by (simp_all add: is_digit_def)

section \<open>Strings\<close>

definition starts_with :: "'a list \<Rightarrow> 'a list \<Rightarrow> bool" where
  "starts_with p s \<longleftrightarrow> take (length p) s = p"

definition ends_with :: "'a list \<Rightarrow> 'a list \<Rightarrow> bool" where
  "ends_with p s \<longleftrightarrow> length p \<le> length s \<and> drop (length s - length p) s = p"

lemma starts_with_iff [js_text]: "starts_with p s \<longleftrightarrow> (\<exists>r. s = p @ r)"
  unfolding starts_with_def by (metis append_eq_conv_conj append_take_drop_id)

lemma ends_with_iff [js_text]: "ends_with p s \<longleftrightarrow> (\<exists>r. s = r @ p)"
  unfolding ends_with_def by (metis append_take_drop_id diff_diff_cancel length_append
    append_eq_conv_conj le_add2 add_diff_cancel_right')

lemma starts_with_Nil [simp]: "starts_with [] s"
  by (simp add: starts_with_def)

lemma starts_with_Cons [simp]: "starts_with (c # p) s \<longleftrightarrow> (\<exists>r. s = c # r \<and> starts_with p r)"
  by (cases s) (auto simp: starts_with_def)

text \<open>\<^verbatim>\<open>s.trim()\<close>.\<close>

definition js_trim :: "string \<Rightarrow> string" where
  "js_trim s = rev (dropWhile js_space (rev (dropWhile js_space s)))"

text \<open>\<^verbatim>\<open>s.split(c)\<close> for a one-character separator: never empty, and \<^verbatim>\<open>[""]\<close> for
  the empty string.\<close>

fun split_on :: "'a \<Rightarrow> 'a list \<Rightarrow> 'a list list" where
  "split_on c [] = [[]]"
| "split_on c (x # xs) =
     (if x = c then [] # split_on c xs
      else (case split_on c xs of [] \<Rightarrow> [[x]] | w # ws \<Rightarrow> (x # w) # ws))"

text \<open>\<^verbatim>\<open>parts.join(sep)\<close>.\<close>

fun join_with :: "'a list \<Rightarrow> 'a list list \<Rightarrow> 'a list" where
  "join_with sep [] = []"
| "join_with sep [w] = w"
| "join_with sep (w # v # ws) = w @ sep @ join_with sep (v # ws)"

text \<open>\<^verbatim>\<open>s.indexOf(c)\<close> and \<^verbatim>\<open>s.lastIndexOf(c)\<close>, with \<^const>\<open>None\<close> for -1.\<close>

fun index_of :: "'a \<Rightarrow> 'a list \<Rightarrow> nat option" where
  "index_of c [] = None"
| "index_of c (x # xs) = (if x = c then Some 0 else map_option Suc (index_of c xs))"

fun last_index_of :: "'a \<Rightarrow> 'a list \<Rightarrow> nat option" where
  "last_index_of c [] = None"
| "last_index_of c (x # xs) =
     (case last_index_of c xs of Some i \<Rightarrow> Some (Suc i) | None \<Rightarrow> if x = c then Some 0 else None)"

lemma split_on_ne [simp]: "split_on c xs \<noteq> []"
  by (induction xs) (auto split: list.splits)

lemma join_split_on [simp]: "join_with [c] (split_on c xs) = xs"
proof (induction xs)
  case (Cons x xs)
  obtain w ws where ws: "split_on c xs = w # ws" by (cases "split_on c xs") auto
  with Cons show ?case by (cases ws) auto
qed simp

lemma split_on_no_sep: "w \<in> set (split_on c xs) \<Longrightarrow> c \<notin> set w"
proof (induction xs arbitrary: w)
  case (Cons x xs)
  obtain v vs where vs: "split_on c xs = v # vs" by (cases "split_on c xs") auto
  with Cons show ?case by (auto split: if_splits)
qed simp

lemma split_on_append_sep [simp]: "c \<notin> set w \<Longrightarrow> split_on c (w @ c # xs) = w # split_on c xs"
  by (induction w) auto

lemma split_on_id [simp]: "c \<notin> set w \<Longrightarrow> split_on c w = [w]"
  by (induction w) auto

lemma split_on_join:
  "ws \<noteq> [] \<Longrightarrow> \<forall>w\<in>set ws. c \<notin> set w \<Longrightarrow> split_on c (join_with [c] ws) = ws"
  by (induction "[c]" ws rule: join_with.induct) auto

lemma set_split_on: "(\<Union>w\<in>set (split_on c xs). set w) = set xs - {c}"
proof (induction xs)
  case (Cons x xs)
  obtain v vs where vs: "split_on c xs = v # vs" by (cases "split_on c xs") auto
  with Cons show ?case by (auto split: if_splits)
qed simp

lemma split_on_subset: "w \<in> set (split_on c xs) \<Longrightarrow> set w \<subseteq> set xs"
  using set_split_on [of c xs] by blast

lemma last_index_of_None [simp]: "last_index_of c xs = None \<longleftrightarrow> c \<notin> set xs"
  by (induction xs) (auto split: option.splits)

lemma last_index_of_absent [simp]: "c \<notin> set xs \<Longrightarrow> last_index_of c xs = None"
  by simp

lemma last_index_of_append_sep [simp]:
  "c \<notin> set ys \<Longrightarrow> last_index_of c (xs @ c # ys) = Some (length xs)"
  by (induction xs) auto

lemma last_index_of_Some:
  "last_index_of c xs = Some i \<Longrightarrow> i < length xs \<and> xs = take i xs @ c # drop (Suc i) xs \<and> c \<notin> set (drop (Suc i) xs)"
proof (induction xs arbitrary: i)
  case (Cons x xs)
  show ?case
  proof (cases "last_index_of c xs")
    case None
    with Cons.prems show ?thesis by (auto split: if_splits)
  next
    case (Some j)
    with Cons.prems Cons.IH show ?thesis by auto
  qed
qed simp

lemma index_of_None [simp]: "index_of c xs = None \<longleftrightarrow> c \<notin> set xs"
  by (induction xs) auto

lemma index_of_append_sep [simp]: "c \<notin> set xs \<Longrightarrow> index_of c (xs @ c # ys) = Some (length xs)"
  by (induction xs) auto

lemma index_of_Some:
  "index_of c xs = Some i \<Longrightarrow> i < length xs \<and> xs = take i xs @ c # drop (Suc i) xs \<and> c \<notin> set (take i xs)"
proof (induction xs arbitrary: i)
  case (Cons x xs)
  show ?case
  proof (cases "x = c")
    case True
    with Cons.prems show ?thesis by auto
  next
    case False
    with Cons.prems obtain j where "index_of c xs = Some j" "i = Suc j" by auto
    with Cons.IH [of j] False show ?thesis by auto
  qed
qed simp

lemma trim_subset: "set (js_trim s) \<subseteq> set s"
  unfolding js_trim_def by (metis set_rev set_dropWhileD subsetI)

lemma trim_id: "s = [] \<or> (\<not> js_space (hd s) \<and> \<not> js_space (last s)) \<Longrightarrow> js_trim s = s"
proof (elim disjE conjE)
  assume "\<not> js_space (hd s)" "\<not> js_space (last s)"
  moreover have "dropWhile p t = t" if "t = [] \<or> \<not> p (hd t)" for p :: "char \<Rightarrow> bool" and t
    using that by (cases t) auto
  ultimately show ?thesis by (simp add: js_trim_def hd_rev)
qed (simp add: js_trim_def)

lemma trim_ends: "js_trim s \<noteq> [] \<Longrightarrow> \<not> js_space (hd (js_trim s)) \<and> \<not> js_space (last (js_trim s))"
proof -
  assume ne: "js_trim s \<noteq> []"
  define t where "t = dropWhile js_space s"
  have u: "js_trim s = rev (dropWhile js_space (rev t))" by (simp add: js_trim_def t_def)
  have tne: "t \<noteq> []" using ne u by (cases t) auto
  have last: "\<not> js_space (last (js_trim s))"
    using ne unfolding u by (simp add: last_rev hd_dropWhile)
  have "prefix (js_trim s) t"
    unfolding u by (metis prefixI rev_append rev_rev_ident takeWhile_dropWhile_id)
  then have "hd (js_trim s) = hd t" using ne by (metis hd_append2 prefixE)
  then show ?thesis using last tne hd_dropWhile [of js_space s] by (simp add: t_def)
qed

lemma trim_idem [simp]: "js_trim (js_trim s) = js_trim s"
  using trim_ends trim_id by (cases "js_trim s = []") auto

text \<open>\<^verbatim>\<open>[...new Set(xs)]\<close>: the first of equal elements is kept.\<close>

fun unique_first :: "'a list \<Rightarrow> 'a list" where
  "unique_first [] = []"
| "unique_first (x # xs) = x # filter (\<lambda>y. y \<noteq> x) (unique_first xs)"

lemma unique_first_set [simp]: "set (unique_first xs) = set xs"
  by (induction xs) auto

lemma unique_first_distinct [simp]: "distinct (unique_first xs)"
  by (induction xs) auto

section \<open>Numbers as text\<close>

definition digit_value :: "char \<Rightarrow> nat" where
  "digit_value c = of_char c - 48"

text \<open>\<^verbatim>\<open>Number(s)\<close> for a run of digits.\<close>

definition decimal :: "string \<Rightarrow> nat" where
  "decimal s = foldl (\<lambda>n c. 10 * n + digit_value c) 0 s"

text \<open>\<^verbatim>\<open>String(n)\<close> for a natural number.\<close>

definition digit_char :: "nat \<Rightarrow> char" where
  "digit_char n = char_of (48 + n)"

fun show_nat :: "nat \<Rightarrow> string" where
  "show_nat n = (if n < 10 then [digit_char n] else show_nat (n div 10) @ [digit_char (n mod 10)])"

declare show_nat.simps [simp del]

text \<open>A decimal numeral without a leading zero.\<close>

definition canonical :: "string \<Rightarrow> bool" where
  "canonical s \<longleftrightarrow> s \<noteq> [] \<and> list_all is_digit s \<and> (hd s = CHR ''0'' \<longrightarrow> s = ''0'')"

lemma digit_value_char [simp]: "n < 10 \<Longrightarrow> digit_value (digit_char n) = n"
  by (simp add: digit_value_def digit_char_def)

lemma digit_char_digit [simp]: "n < 10 \<Longrightarrow> is_digit (digit_char n)"
  by (simp add: is_digit_range in_range_def digit_char_def)

lemma digit_char_value [simp]: "is_digit c \<Longrightarrow> digit_char (digit_value c) = c"
  by (simp add: is_digit_range in_range_def digit_char_def digit_value_def)

lemma digit_value_less: "is_digit c \<Longrightarrow> digit_value c < 10"
  by (auto simp: is_digit_range in_range_def digit_value_def)

lemma digit_value_zero: "is_digit c \<Longrightarrow> digit_value c = 0 \<longleftrightarrow> c = CHR ''0''"
proof
  assume "is_digit c" and v: "digit_value c = 0"
  then have "c = digit_char 0" using digit_char_value [of c] by simp
  then show "c = CHR ''0''" by (simp add: digit_char_def char_of_def bit_0)
qed (simp add: digit_value_def)

lemma decimal_Nil [simp]: "decimal [] = 0"
  by (simp add: decimal_def)

lemma decimal_snoc [simp]: "decimal (s @ [c]) = 10 * decimal s + digit_value c"
  by (simp add: decimal_def)

lemma show_nat_digits: "list_all is_digit (show_nat n)"
proof (induction n rule: show_nat.induct)
  case (1 n)
  then show ?case by (subst show_nat.simps) simp
qed

lemma show_nat_ne [simp]: "show_nat n \<noteq> []"
  by (subst show_nat.simps) simp

lemma decimal_show_nat [simp]: "decimal (show_nat n) = n"
proof (induction n rule: show_nat.induct)
  case (1 n)
  show ?case
  proof (cases "n < 10")
    case True
    then show ?thesis using decimal_snoc [of "[]"] by (simp add: show_nat.simps)
  next
    case False
    then show ?thesis using 1 by (subst show_nat.simps) simp
  qed
qed

lemma show_nat_inj [simp]: "show_nat m = show_nat n \<longleftrightarrow> m = n"
  by (metis decimal_show_nat)

lemma show_nat_canonical: "canonical (show_nat n)"
proof (induction n rule: show_nat.induct)
  case (1 n)
  show ?case
  proof (cases "n < 10")
    case True
    then show ?thesis by (simp add: canonical_def show_nat.simps [of n])
  next
    case False
    have "decimal ''0'' = 0" using decimal_snoc [of "[]" "CHR ''0''"] by (simp add: digit_value_def)
    with False have "show_nat (n div 10) \<noteq> ''0''"
      using decimal_show_nat [of "n div 10"] by (metis div_eq_0_iff zero_neq_numeral)
    then have "hd (show_nat (n div 10)) \<noteq> CHR ''0''"
      using 1 False by (auto simp: canonical_def)
    then show ?thesis using False show_nat_digits [of "n div 10"]
      by (subst show_nat.simps) (simp add: canonical_def)
  qed
qed

lemma show_nat_decimal: "canonical s \<Longrightarrow> show_nat (decimal s) = s"
proof (induction s rule: rev_induct)
  case (snoc c s)
  then have c: "is_digit c" by (simp add: canonical_def)
  show ?case
  proof (cases "s = []")
    case True
    then show ?thesis using c decimal_snoc [of "[]" c] digit_value_less [of c]
      by (simp add: show_nat.simps)
  next
    case False
    with snoc.prems have s: "canonical s" "hd s \<noteq> CHR ''0''" by (auto simp: canonical_def)
    have "decimal s \<noteq> 0"
    proof
      assume "decimal s = 0"
      then have "s = ''0''"
        using snoc.IH [OF s(1)] by (simp add: show_nat.simps digit_char_def char_of_def bit_0)
      with s(2) show False by simp
    qed
    then have "\<not> decimal (s @ [c]) < 10" "decimal (s @ [c]) div 10 = decimal s"
      "decimal (s @ [c]) mod 10 = digit_value c"
      using digit_value_less [OF c] by simp_all
    then show ?thesis using snoc.IH [OF s(1)] c
      by (subst show_nat.simps) (simp del: decimal_snoc)
  qed
qed (simp add: canonical_def)

lemma canonical_iff: "canonical s \<longleftrightarrow> (\<exists>n. s = show_nat n)"
  using show_nat_decimal show_nat_canonical by metis

section \<open>Results that may be errors\<close>

text \<open>A thrown error is \<^term>\<open>Inl e\<close>, a returned value \<^term>\<open>Inr x\<close>.\<close>

definition bind_e :: "'e + 'a \<Rightarrow> ('a \<Rightarrow> 'e + 'b) \<Rightarrow> 'e + 'b" where
  "bind_e m f = (case m of Inl e \<Rightarrow> Inl e | Inr x \<Rightarrow> f x)"

definition map_e :: "('a \<Rightarrow> 'b) \<Rightarrow> 'e + 'a \<Rightarrow> 'e + 'b" where
  "map_e f m = (case m of Inl e \<Rightarrow> Inl e | Inr x \<Rightarrow> Inr (f x))"

text \<open>A condition checked by a throwing statement.\<close>

definition ensure_e :: "bool \<Rightarrow> 'e \<Rightarrow> 'e + unit" where
  "ensure_e b e = (if b then Inr () else Inl e)"

text \<open>\<^verbatim>\<open>xs.map(f)\<close> for an \<^verbatim>\<open>f\<close> that may throw: the first error ends it.\<close>

fun traverse_e :: "('a \<Rightarrow> 'e + 'b) \<Rightarrow> 'a list \<Rightarrow> 'e + 'b list" where
  "traverse_e f [] = Inr []"
| "traverse_e f (x # xs) = bind_e (f x) (\<lambda>y. map_e ((#) y) (traverse_e f xs))"

lemma bind_e_simps [simp]: "bind_e (Inl e) f = Inl e" "bind_e (Inr x) f = f x"
  by (simp_all add: bind_e_def)

lemma map_e_simps [simp]: "map_e g (Inl e) = Inl e" "map_e g (Inr x) = Inr (g x)"
  by (simp_all add: map_e_def)

lemma bind_e_Inr [simp]: "bind_e m f = Inr y \<longleftrightarrow> (\<exists>x. m = Inr x \<and> f x = Inr y)"
  by (cases m) auto

lemma map_e_Inr [simp]: "map_e f m = Inr y \<longleftrightarrow> (\<exists>x. m = Inr x \<and> y = f x)"
  by (cases m) auto

lemma map_e_Inl [simp]: "map_e f m = Inl e \<longleftrightarrow> m = Inl e"
  by (cases m) auto

lemma ensure_e_Inr [simp]: "ensure_e b e = Inr u \<longleftrightarrow> b"
  by (simp add: ensure_e_def)

lemma ensure_e_Inl [simp]: "ensure_e b e = Inl e' \<longleftrightarrow> \<not> b \<and> e' = e"
  by (auto simp: ensure_e_def)

lemma bind_e_cong [fundef_cong]:
  "m = n \<Longrightarrow> (\<And>x. n = Inr x \<Longrightarrow> f x = g x) \<Longrightarrow> bind_e m f = bind_e n g"
  by (cases n) auto

lemma traverse_e_Inr:
  "traverse_e f xs = Inr ys \<longleftrightarrow> list_all2 (\<lambda>x y. f x = Inr y) xs ys"
  by (induction xs arbitrary: ys) (auto simp: list_all2_Cons1)

lemma traverse_e_Inr_map: "traverse_e f xs = Inr ys \<Longrightarrow> map f xs = map Inr ys"
  by (induction xs arbitrary: ys) auto

lemma traverse_e_all: "\<forall>x\<in>set xs. f x = Inr (g x) \<Longrightarrow> traverse_e f xs = Inr (map g xs)"
  by (induction xs) auto

lemma traverse_e_ok: "traverse_e f xs = Inr ys \<Longrightarrow> x \<in> set xs \<Longrightarrow> \<exists>y. f x = Inr y"
  by (induction xs arbitrary: ys) auto

lemma traverse_e_member: "traverse_e f xs = Inr ys \<Longrightarrow> y \<in> set ys \<Longrightarrow> \<exists>x\<in>set xs. f x = Inr y"
  by (induction xs arbitrary: ys) auto

lemma traverse_e_cong [fundef_cong]:
  "xs = ys \<Longrightarrow> (\<And>x. x \<in> set ys \<Longrightarrow> f x = g x) \<Longrightarrow> traverse_e f xs = traverse_e g ys"
  by (induction ys arbitrary: xs) auto

lemma sep_inject:
  "c \<notin> set u \<Longrightarrow> c \<notin> set w \<Longrightarrow> u @ c # t = w @ c # t' \<longleftrightarrow> u = w \<and> t = t'"
proof (induction u arbitrary: w)
  case Nil
  then show ?case by (cases w) auto
next
  case (Cons a u)
  then show ?case by (cases w) auto
qed

lemma split_on_append_slash: "split_on c (xs @ c # ys) = split_on c xs @ split_on c ys"
proof (induction xs)
  case (Cons x xs)
  obtain w ws where "split_on c xs = w # ws" by (cases "split_on c xs") auto
  with Cons show ?case by simp
qed simp

end
