(* ===== verification/Regex.thy ===== *)
theory Regex
  imports Prelude
begin

text \<open>
  The regular expressions the program writes and runs: an abstract syntax, the
  backtracking matcher of JavaScript's \<^verbatim>\<open>RegExp\<close> as the list of its successes in
  the order the matcher tries them, and a reader of the concrete syntax the rule
  compilers emit. Lookbehind, flags and named references are not in the fragment.

  A matcher state is the number of characters consumed, the rest of the text and the
  captures so far, the latest first.
\<close>

section \<open>Syntax and matching\<close>

text \<open>A character class: whether it is negated, and its ranges.\<close>

datatype cls = Cls bool "(char \<times> char) list"

fun cls_mem :: "cls \<Rightarrow> char \<Rightarrow> bool" where
  "cls_mem (Cls neg rs) c = ((\<exists>r\<in>set rs. in_range (fst r) (snd r) c) \<noteq> neg)"

definition cls_char :: "char \<Rightarrow> cls" where
  "cls_char c = Cls False [(c, c)]"

definition cls_digit :: cls where
  "cls_digit = Cls False [(CHR ''0'', CHR ''9'')]"

text \<open>\<^verbatim>\<open>.\<close>: anything but a line terminator.\<close>

definition cls_any :: cls where
  "cls_any = Cls True [(newline_char, newline_char), (cr_char, cr_char)]"

definition cls_space :: cls where
  "cls_space = Cls False [(CHR 0x09, CHR 0x0D), (CHR '' '', CHR '' ''), (CHR 0xA0, CHR 0xA0)]"

definition cls_nonspace :: cls where
  "cls_nonspace = Cls True [(CHR 0x09, CHR 0x0D), (CHR '' '', CHR '' ''), (CHR 0xA0, CHR 0xA0)]"

text \<open>\<^term>\<open>RStar g r\<close> is greedy when \<^term>\<open>g\<close>; \<^term>\<open>RAhead b r\<close> is a lookahead,
  negative unless \<^term>\<open>b\<close>; \<^term>\<open>RCap n r\<close> the capturing group number \<^term>\<open>n\<close>.\<close>

datatype re =
    REps
  | RCls cls
  | RSeq re re
  | RAlt re re
  | RStar bool re
  | RCap nat re
  | RBack nat
  | RAhead bool re
  | RBol
  | REol

type_synonym mstate = "nat \<times> string \<times> (nat \<times> string) list"

definition RChr :: "char \<Rightarrow> re" where
  "RChr c = RCls (cls_char c)"

definition RPlus :: "re \<Rightarrow> re" where
  "RPlus r = RSeq r (RStar True r)"

definition ROpt :: "re \<Rightarrow> re" where
  "ROpt r = RAlt r REps"

fun RLit :: "string \<Rightarrow> re" where
  "RLit [] = REps"
| "RLit (c # cs) = RSeq (RChr c) (RLit cs)"

fun RSeqs :: "re list \<Rightarrow> re" where
  "RSeqs [] = REps"
| "RSeqs (r # rs) = RSeq r (RSeqs rs)"

text \<open>A repetition that consumed nothing is not tried again, as the standard says.\<close>

function rm :: "re \<Rightarrow> mstate \<Rightarrow> mstate list" where
  "rm REps st = [st]"
| "rm (RCls k) st =
     (case st of (p, s, cs) \<Rightarrow>
       (case s of [] \<Rightarrow> [] | x # xs \<Rightarrow> if cls_mem k x then [(Suc p, xs, cs)] else []))"
| "rm (RSeq a b) st = concat (map (rm b) (rm a st))"
| "rm (RAlt a b) st = rm a st @ rm b st"
| "rm (RStar g r) st =
     (let more = concat (map (\<lambda>st'. if length (fst (snd st')) < length (fst (snd st))
                                    then rm (RStar g r) st' else []) (rm r st))
      in if g then more @ [st] else st # more)"
| "rm (RCap n r) st =
     map (\<lambda>st'. (fst st', fst (snd st'), (n, take (fst st' - fst st) (fst (snd st))) # snd (snd st')))
       (rm r st)"
| "rm (RBack n) st =
     (case st of (p, s, cs) \<Rightarrow>
       (let w = (case map_of cs n of None \<Rightarrow> [] | Some w \<Rightarrow> w)
        in if take (length w) s = w then [(p + length w, drop (length w) s, cs)] else []))"
| "rm (RAhead b r) st = (if (rm r st \<noteq> []) = b then [st] else [])"
| "rm RBol st = (if fst st = 0 then [st] else [])"
| "rm REol st = (if fst (snd st) = [] then [st] else [])"
  by pat_completeness auto
termination
  by (relation "measures [\<lambda>(r, st). size r, \<lambda>(r, st). length (fst (snd st))]") auto

declare rm.simps(5) [simp del]

text \<open>\<^verbatim>\<open>new RegExp(r).exec(s)\<close>: the first success at the first offset that has one, as
  the captures of that success with the whole match as number 0.\<close>

definition re_exec_at :: "re \<Rightarrow> string \<Rightarrow> nat \<Rightarrow> (nat \<times> string) list option" where
  "re_exec_at r s i =
     (case rm r (i, drop i s, []) of [] \<Rightarrow> None
      | (p, _, cs) # _ \<Rightarrow> Some ((0, take (p - i) (drop i s)) # cs))"

fun first_some :: "('a \<Rightarrow> 'b option) \<Rightarrow> 'a list \<Rightarrow> 'b option" where
  "first_some f [] = None"
| "first_some f (x # xs) = (case f x of Some y \<Rightarrow> Some y | None \<Rightarrow> first_some f xs)"

definition re_exec :: "re \<Rightarrow> string \<Rightarrow> (nat \<times> string) list option" where
  "re_exec r s = first_some (re_exec_at r s) [0..<Suc (length s)]"

definition re_test :: "re \<Rightarrow> string \<Rightarrow> bool" where
  "re_test r s \<longleftrightarrow> re_exec r s \<noteq> None"

text \<open>\<^verbatim>\<open>m[n]\<close>: the last capture of a group, \<^const>\<open>None\<close> for \<^verbatim>\<open>undefined\<close>.\<close>

definition cap :: "(nat \<times> string) list \<Rightarrow> nat \<Rightarrow> string option" where
  "cap cs n = map_of cs n"

lemma first_some_None: "first_some f xs = None \<longleftrightarrow> (\<forall>x\<in>set xs. f x = None)"
  by (induction xs) (auto split: option.splits)

lemma re_test_iff: "re_test r s \<longleftrightarrow> (\<exists>i\<le>length s. rm r (i, drop i s, []) \<noteq> [])"
proof -
  have at: "re_exec_at r s i = None \<longleftrightarrow> rm r (i, drop i s, []) = []" for i
    by (auto simp: re_exec_at_def split: list.splits prod.splits)
  have "set [0..<Suc (length s)] = {i. i \<le> length s}" by auto
  then show ?thesis
    by (simp add: re_test_def re_exec_def first_some_None at Bex_def del: upt_Suc)
qed

section \<open>The language of an expression\<close>

text \<open>What an expression with no anchor, back reference or lookahead matches.\<close>

fun plain :: "re \<Rightarrow> bool" where
  "plain REps = True"
| "plain (RCls k) = True"
| "plain (RSeq a b) = (plain a \<and> plain b)"
| "plain (RAlt a b) = (plain a \<and> plain b)"
| "plain (RStar g r) = plain r"
| "plain (RCap n r) = plain r"
| "plain _ = False"

fun lang :: "re \<Rightarrow> string set" where
  "lang REps = {[]}"
| "lang (RCls k) = {[x] |x. cls_mem k x}"
| "lang (RSeq a b) = {v @ w |v w. v \<in> lang a \<and> w \<in> lang b}"
| "lang (RAlt a b) = lang a \<union> lang b"
| "lang (RStar g r) = {concat ws |ws. set ws \<subseteq> lang r}"
| "lang (RCap n r) = lang r"
| "lang _ = {}"

definition rm_ends :: "re \<Rightarrow> mstate \<Rightarrow> (nat \<times> string) set" where
  "rm_ends r st = (\<lambda>st'. (fst st', fst (snd st'))) ` set (rm r st)"

definition word_ends :: "string set \<Rightarrow> nat \<Rightarrow> string \<Rightarrow> (nat \<times> string) set" where
  "word_ends A p s = {(p + length w, t) |w t. w \<in> A \<and> s = w @ t}"

lemma star_nonempty_parts:
  assumes "set ws \<subseteq> A"
  obtains vs where "concat vs = concat ws" "set vs \<subseteq> A" "[] \<notin> set vs"
proof (rule that)
  show "concat (filter (\<lambda>w. w \<noteq> []) ws) = concat ws" by (induction ws) auto
qed (use assms in auto)

lemma rm_ends_iff: "(q, t) \<in> rm_ends r st \<longleftrightarrow> (\<exists>ds. (q, t, ds) \<in> set (rm r st))"
  by (force simp: rm_ends_def)

lemma rm_ends_Star:
  assumes body: "\<And>p s cs. rm_ends r (p, s, cs) = word_ends (lang r) p s"
  shows "rm_ends (RStar g r) (p, s, cs) = word_ends (lang (RStar g r)) p s"
proof (induction "length s" arbitrary: p s cs rule: less_induct)
  case less
  have unfold: "rm_ends (RStar g r) (p, s, cs) = insert (p, s)
      (\<Union>st\<in>{st \<in> set (rm r (p, s, cs)). length (fst (snd st)) < length s}. rm_ends (RStar g r) st)"
    by (auto simp: rm_ends_def rm.simps(5) [of g r "(p, s, cs)"] Let_def)
  show ?case
  proof (rule set_eqI, rule iffI)
    fix e assume "e \<in> rm_ends (RStar g r) (p, s, cs)"
    then consider "e = (p, s)"
      | st where "st \<in> set (rm r (p, s, cs))" "length (fst (snd st)) < length s" "e \<in> rm_ends (RStar g r) st"
      by (auto simp: unfold)
    then show "e \<in> word_ends (lang (RStar g r)) p s"
    proof cases
      case 1
      then show ?thesis by (auto simp: word_ends_def intro!: exI [of _ "[]"])
    next
      case (2 st)
      obtain q t ds where st: "st = (q, t, ds)" by (cases st) auto
      with 2(1) body [of p s cs] have "(q, t) \<in> word_ends (lang r) p s"
        by (force simp: rm_ends_def)
      then obtain w where w: "w \<in> lang r" "s = w @ t" "q = p + length w"
        by (auto simp: word_ends_def)
      from 2 st less.hyps [of t q ds] have "e \<in> word_ends (lang (RStar g r)) q t" by simp
      then obtain ws u where u: "set ws \<subseteq> lang r" "t = concat ws @ u" "e = (q + length (concat ws), u)"
        by (auto simp: word_ends_def)
      have "set (w # ws) \<subseteq> lang r" "s = concat (w # ws) @ u" "e = (p + length (concat (w # ws)), u)"
        using w u by auto
      then show ?thesis unfolding word_ends_def lang.simps by blast
    qed
  next
    fix e assume "e \<in> word_ends (lang (RStar g r)) p s"
    then obtain ws u where ws: "set ws \<subseteq> lang r" "s = concat ws @ u" "e = (p + length (concat ws), u)"
      by (auto simp: word_ends_def)
    obtain vs where vs: "concat vs = concat ws" "set vs \<subseteq> lang r" "[] \<notin> set vs"
      using star_nonempty_parts [OF ws(1)] .
    show "e \<in> rm_ends (RStar g r) (p, s, cs)"
    proof (cases vs)
      case Nil
      have c: "concat ws = []" using vs(1) Nil by (metis concat.simps(1))
      have "e = (p, s)" unfolding ws(2,3) c by simp
      then show ?thesis by (simp add: unfold)
    next
      case (Cons v vs')
      define t where "t = concat vs' @ u"
      have s: "s = v @ t" using ws(2) vs(1) Cons by (simp add: t_def flip: vs(1))
      have v: "v \<in> lang r" "v \<noteq> []" using vs Cons by auto
      have "(p + length v, t) \<in> rm_ends r (p, s, cs)"
        using body v s by (auto simp: word_ends_def)
      then obtain ds where st: "(p + length v, t, ds) \<in> set (rm r (p, s, cs))"
        by (auto simp: rm_ends_def)
      have len: "length t < length s" using s v by simp
      have "set vs' \<subseteq> lang r" using vs(2) Cons by simp
      then have "e \<in> word_ends (lang (RStar g r)) (p + length v) t"
        using ws(3) vs(1) Cons t_def by (force simp: word_ends_def simp flip: vs(1))
      with less.hyps [OF len, of "p + length v" ds]
      have "e \<in> rm_ends (RStar g r) (p + length v, t, ds)" by simp
      with st len show ?thesis by (force simp: unfold)
    qed
  qed
qed

theorem rm_ends_plain:
  "plain r \<Longrightarrow> rm_ends r (p, s, cs) = word_ends (lang r) p s"
proof (induction r arbitrary: p s cs)
  case (RCls k)
  show ?case by (cases s) (auto simp: rm_ends_def word_ends_def)
next
  case (RSeq a b)
  have a: "rm_ends a (p, s, cs) = word_ends (lang a) p s" using RSeq by simp
  have b: "rm_ends b (q, t, ds) = word_ends (lang b) q t" for q t ds using RSeq by simp
  show ?case
  proof (rule set_eqI)
    fix e :: "nat \<times> string"
    obtain q t where e: "e = (q, t)" by (cases e)
    have "e \<in> rm_ends (RSeq a b) (p, s, cs) \<longleftrightarrow>
        (\<exists>q' t' ds. (q', t', ds) \<in> set (rm a (p, s, cs)) \<and> (q, t) \<in> rm_ends b (q', t', ds))"
      by (force simp: e rm_ends_def)
    also have "\<dots> \<longleftrightarrow> (\<exists>q' t'. (q', t') \<in> word_ends (lang a) p s \<and> (q, t) \<in> word_ends (lang b) q' t')"
      unfolding a [symmetric] b by (auto simp: rm_ends_iff)
    also have "\<dots> \<longleftrightarrow> e \<in> word_ends (lang (RSeq a b)) p s"
    proof
      assume "\<exists>q' t'. (q', t') \<in> word_ends (lang a) p s \<and> (q, t) \<in> word_ends (lang b) q' t'"
      then obtain v w where "v \<in> lang a" "w \<in> lang b" "s = (v @ w) @ t" "q = p + length (v @ w)"
        by (auto simp: word_ends_def)
      then show "e \<in> word_ends (lang (RSeq a b)) p s" by (force simp: e word_ends_def)
    next
      assume "e \<in> word_ends (lang (RSeq a b)) p s"
      then obtain v w where vw: "v \<in> lang a" "w \<in> lang b" "s = v @ w @ t" "q = p + length v + length w"
        by (auto simp: word_ends_def e)
      then have "(p + length v, w @ t) \<in> word_ends (lang a) p s"
        "(q, t) \<in> word_ends (lang b) (p + length v) (w @ t)" by (auto simp: word_ends_def)
      then show "\<exists>q' t'. (q', t') \<in> word_ends (lang a) p s \<and> (q, t) \<in> word_ends (lang b) q' t'"
        by blast
    qed
    finally show "e \<in> rm_ends (RSeq a b) (p, s, cs) \<longleftrightarrow> e \<in> word_ends (lang (RSeq a b)) p s" .
  qed
next
  case (RAlt a b)
  then show ?case by (auto simp: rm_ends_def word_ends_def image_Un)
next
  case (RStar g r)
  then show ?case using rm_ends_Star [of r g p s cs] by (simp del: lang.simps)
next
  case (RCap n r)
  then show ?case by (auto simp: rm_ends_def word_ends_def image_image)
qed (auto simp: rm_ends_def word_ends_def)

lemma rm_REol_ne: "rm (RSeq r REol) st \<noteq> [] \<longleftrightarrow> (\<exists>q. (q, []) \<in> rm_ends r st)"
proof -
  have keep: "concat (map (rm REol) sts) = filter (\<lambda>st'. fst (snd st') = []) sts" for sts
    by (induction sts) auto
  show ?thesis unfolding rm.simps(3) keep by (force simp: filter_empty_conv rm_ends_iff)
qed

text \<open>An expression anchored at both ends matches exactly the words of its body.\<close>

theorem anchored_test:
  assumes "plain r"
  shows "re_test (RSeq RBol (RSeq r REol)) s \<longleftrightarrow> s \<in> lang r"
proof -
  have "rm (RSeq RBol (RSeq r REol)) (i, drop i s, []) \<noteq> [] \<longleftrightarrow>
      i = 0 \<and> (\<exists>q. (q, []) \<in> rm_ends r (0, s, []))" for i
    using rm_REol_ne [of r "(i, drop i s, [])"] by (cases "i = 0") auto
  then have "re_test (RSeq RBol (RSeq r REol)) s \<longleftrightarrow> (\<exists>q. (q, []) \<in> rm_ends r (0, s, []))"
    by (auto simp: re_test_iff)
  then show ?thesis using rm_ends_plain [OF assms, of 0 s "[]"] by (simp add: word_ends_def)
qed

text \<open>An expression anchored at its start only matches the texts with a prefix in its
  language.\<close>

theorem anchored_start_test:
  assumes "plain r"
  shows "re_test (RSeq RBol r) s \<longleftrightarrow> (\<exists>w t. w \<in> lang r \<and> s = w @ t)"
proof -
  have "rm (RSeq RBol r) (i, drop i s, []) \<noteq> [] \<longleftrightarrow> i = 0 \<and> rm_ends r (0, s, []) \<noteq> {}" for i
    by (auto simp: rm_ends_def)
  then have "re_test (RSeq RBol r) s \<longleftrightarrow> rm_ends r (0, s, []) \<noteq> {}"
    by (auto simp: re_test_iff)
  then show ?thesis using rm_ends_plain [OF assms, of 0 s "[]"] by (auto simp: word_ends_def)
qed

section \<open>Languages of the common shapes\<close>

lemma lang_RChr [simp]: "lang (RChr c) = {[c]}"
proof -
  have "in_range c c x \<longleftrightarrow> x = c" for x by (auto simp: in_range_def)
  then show ?thesis by (auto simp: RChr_def cls_char_def)
qed

lemma plain_RChr [simp]: "plain (RChr c)"
  by (simp add: RChr_def)

lemma plain_RPlus [simp]: "plain (RPlus r) = plain r"
  by (simp add: RPlus_def)

lemma plain_RLit [simp]: "plain (RLit s)"
  by (induction s) auto

lemma lang_RLit [simp]: "lang (RLit s) = {s}"
  by (induction s) auto

lemma plain_RSeqs [simp]: "plain (RSeqs rs) = (\<forall>r\<in>set rs. plain r)"
  by (induction rs) auto

lemma lang_RSeqs_append:
  "lang (RSeqs (rs @ qs)) = {v @ w |v w. v \<in> lang (RSeqs rs) \<and> w \<in> lang (RSeqs qs)}"
proof (induction rs)
  case (Cons r rs)
  show ?case
    by (auto simp: Cons) (metis append.assoc)+
qed simp

lemma star_singletons: "{concat ws |ws. set ws \<subseteq> {[x] |x. P x}} = {w. \<forall>x\<in>set w. P x}"
proof (intro set_eqI iffI; clarify)
  fix ws x assume ws: "set ws \<subseteq> {[x] |x. P x}" and x: "x \<in> set (concat ws)"
  then obtain v where "v \<in> set ws" "x \<in> set v" by auto
  with ws show "P x" by auto
next
  fix w assume "\<forall>x\<in>set w. P x"
  then have "set (map (\<lambda>x. [x]) w) \<subseteq> {[x] |x. P x}" by auto
  moreover have "w = concat (map (\<lambda>x. [x]) w)" by simp
  ultimately show "\<exists>ws. w = concat ws \<and> set ws \<subseteq> {[x] |x. P x}" by blast
qed

lemma lang_star_cls: "lang (RStar g (RCls k)) = {w. \<forall>x\<in>set w. cls_mem k x}"
  by (simp add: star_singletons)

lemma lang_plus_cls: "lang (RPlus (RCls k)) = {w. w \<noteq> [] \<and> (\<forall>x\<in>set w. cls_mem k x)}"
proof -
  have "lang (RPlus (RCls k)) = {[x] @ w |x w. cls_mem k x \<and> (\<forall>y\<in>set w. cls_mem k y)}"
    unfolding RPlus_def lang.simps(2,3) lang_star_cls by blast
  also have "\<dots> = {w. w \<noteq> [] \<and> (\<forall>x\<in>set w. cls_mem k x)}"
    by (auto simp: neq_Nil_conv)
  finally show ?thesis .
qed

lemma cls_digit_mem [simp]: "cls_mem cls_digit c = is_digit c"
  by (simp add: cls_digit_def is_digit_range)

lemma in_range_self [simp]: "in_range c c x \<longleftrightarrow> x = c"
  by (auto simp: in_range_def)

section \<open>Reading the concrete syntax\<close>

text \<open>
  The syntax the rule compilers emit: characters, escapes, classes, groups,
  alternatives, the quantifiers \<^verbatim>\<open>* + ?\<close> and \<^verbatim>\<open>{d}\<close>, and the two anchors. A text is
  cut into tokens, and the tokens are read with a stack of open groups, each its
  finished alternatives and its current sequence, the latest first.
\<close>

datatype rtok =
    TCls cls
  | TStar
  | TPlus
  | TOpt
  | TRep nat
  | TOpen
  | TClose
  | TBar
  | TBol
  | TEol

fun cls_items :: "string \<Rightarrow> ((char \<times> char) list \<times> string) option" where
  "cls_items [] = None"
| "cls_items [a] = (if a = CHR '']'' then Some ([], []) else None)"
| "cls_items [a, b] =
     (if a = CHR '']'' then Some ([], [b])
      else if a = backslash then None
      else map_option (\<lambda>(rs, r). ((a, a) # rs, r)) (cls_items [b]))"
| "cls_items (a # b # c # r) =
     (if a = CHR '']'' then Some ([], b # c # r)
      else if a = backslash then
        map_option (\<lambda>(rs, r'). ((if b = CHR ''d'' then (CHR ''0'', CHR ''9'') else (b, b)) # rs, r'))
          (cls_items (c # r))
      else if b = CHR ''-'' \<and> c \<noteq> CHR '']'' then
        map_option (\<lambda>(rs, r'). ((a, c) # rs, r')) (cls_items r)
      else map_option (\<lambda>(rs, r'). ((a, a) # rs, r')) (cls_items (b # c # r)))"

lemma cls_items_length: "cls_items s = Some (rs, r) \<Longrightarrow> length r < length s"
proof (induction s arbitrary: rs r rule: cls_items.induct)
  case (4 a b c t)
  then show ?case by (fastforce split: if_splits)
qed (auto split: if_splits)

definition escape_cls :: "char \<Rightarrow> cls option" where
  "escape_cls c =
     (if c = CHR ''d'' then Some cls_digit
      else if is_alpha c \<or> is_digit c then None else Some (cls_char c))"

function re_lex :: "string \<Rightarrow> rtok list option" where
  "re_lex [] = Some []"
| "re_lex (c # cs) =
     (if c = backslash then
        (case cs of [] \<Rightarrow> None
         | e # r \<Rightarrow> (case escape_cls e of None \<Rightarrow> None
                     | Some k \<Rightarrow> map_option ((#) (TCls k)) (re_lex r)))
      else if c = CHR ''['' then
        (let (neg, body) = (case cs of [] \<Rightarrow> (False, [])
                            | n # r \<Rightarrow> if n = CHR ''^'' then (True, r) else (False, cs))
         in (case cls_items body of None \<Rightarrow> None
             | Some (rs, r) \<Rightarrow> map_option ((#) (TCls (Cls neg rs))) (re_lex r)))
      else if c = CHR ''('' then
        (if starts_with ''?:'' cs then map_option ((#) TOpen) (re_lex (drop 2 cs))
         else if starts_with ''?'' cs then None
         else map_option ((#) TOpen) (re_lex cs))
      else if c = CHR ''{'' then
        (case cs of d # e # r \<Rightarrow>
           if is_digit d \<and> e = CHR ''}'' then map_option ((#) (TRep (digit_value d))) (re_lex r) else None
         | _ \<Rightarrow> None)
      else if c = CHR '']'' \<or> c = CHR ''}'' then None
      else map_option ((#)
        (if c = CHR '')'' then TClose else if c = CHR ''|'' then TBar
         else if c = CHR ''*'' then TStar else if c = CHR ''+'' then TPlus
         else if c = CHR ''?'' then TOpt else if c = CHR ''^'' then TBol
         else if c = CHR ''$'' then TEol else if c = CHR ''.'' then TCls cls_any
         else TCls (cls_char c))) (re_lex cs))"
  by pat_completeness auto
termination
  by (relation "measure length") (auto dest!: cls_items_length split: list.splits if_splits)

text \<open>An item of a sequence and whether a quantifier may follow it: none may follow an
  anchor or another quantifier.\<close>

type_synonym frame = "re list \<times> (re \<times> bool) list"

definition frame_re :: "frame \<Rightarrow> re" where
  "frame_re f = foldl (\<lambda>acc a. RAlt a acc) (RSeqs (rev (map fst (snd f)))) (fst f)"

fun push_item :: "re \<times> bool \<Rightarrow> frame list \<Rightarrow> frame list option" where
  "push_item i ((alts, items) # fs) = Some ((alts, i # items) # fs)"
| "push_item i [] = None"

fun quantify :: "(re \<Rightarrow> re) \<Rightarrow> frame list \<Rightarrow> frame list option" where
  "quantify q ((alts, (r, True) # items) # fs) = Some ((alts, (q r, False) # items) # fs)"
| "quantify q _ = None"

fun re_step :: "rtok \<Rightarrow> frame list \<Rightarrow> frame list option" where
  "re_step (TCls k) fs = push_item (RCls k, True) fs"
| "re_step TBol fs = push_item (RBol, False) fs"
| "re_step TEol fs = push_item (REol, False) fs"
| "re_step TStar fs = quantify (RStar True) fs"
| "re_step TPlus fs = quantify RPlus fs"
| "re_step TOpt fs = quantify ROpt fs"
| "re_step (TRep n) fs = quantify (\<lambda>r. RSeqs (replicate n r)) fs"
| "re_step TOpen fs = Some (([], []) # fs)"
| "re_step TBar (f # fs) = Some ((RSeqs (rev (map fst (snd f))) # fst f, []) # fs)"
| "re_step TBar [] = None"
| "re_step TClose (f # g # fs) = push_item (frame_re f, True) (g # fs)"
| "re_step TClose _ = None"

fun re_go :: "rtok list \<Rightarrow> frame list \<Rightarrow> re option" where
  "re_go [] [f] = Some (frame_re f)"
| "re_go [] _ = None"
| "re_go (t # ts) fs = (case re_step t fs of None \<Rightarrow> None | Some fs' \<Rightarrow> re_go ts fs')"

definition re_parse :: "string \<Rightarrow> re option" where
  "re_parse s = (case re_lex s of None \<Rightarrow> None | Some ts \<Rightarrow> re_go ts [([], [])])"

text \<open>\<^verbatim>\<open>new RegExp(rx).test(s)\<close> for an \<^verbatim>\<open>rx\<close> of the fragment.\<close>

definition rx_matches :: "string \<Rightarrow> string \<Rightarrow> bool" where
  "rx_matches rx s \<longleftrightarrow> (case re_parse rx of None \<Rightarrow> False | Some r \<Rightarrow> re_test r s)"

declare re_lex.simps [simp del]

lemma re_lex_Nil [simp]: "re_lex [] = Some []"
  by (simp add: re_lex.simps)

lemmas re_lex_Cons = re_lex.simps(2)

end
