(* ===== verification/RuleText.thy ===== *)
theory RuleText
  imports Regex
begin

text \<open>
  The text layer of the rule inputs: the errors every rule compiler throws, the
  \<^verbatim>\<open>#\<close> comments of \<^verbatim>\<open>src/core/lib/line-comments.ts\<close>, and the whitespace-separated
  tokens of \<^verbatim>\<open>splitRuleTokens\<close> in \<^verbatim>\<open>acl/wildcard-rules.ts\<close>.
\<close>

text \<open>One constructor per \<^verbatim>\<open>throw\<close> of the rule compilers, with the values its message
  quotes.\<close>

datatype acl_error =
    GluedHash string
  | InvalidPattern string
  | InvalidPort string string
  | InvalidCidr string
  | EmptyLabel string
  | NonAsciiLabel string string
  | IllegalLabel string string
  | MixedWildcard string string
  | RegexSyntax string string
  | PartSyntax string string string string
  | ClassClash string string string string
  | ClassNonBoundary string string string
  | MissingGroup string string string nat
  | EscapeClash string string string string
  | GroupSyntax string string string string
  | GroupTwice string string string string
  | BraceSyntax string string string
  | ResolverSyntax string string string string
  | TopLevelBar string string string
  | LiteralBracket string string string
  | CorefileUnsafe string string string
  | MissingRegexPort string
  | NoMethod string
  | InvalidMethod string string
  | InvalidUrl string
  | UrlFragment string
  | UserInfo string string
  | QueryString string string
  | RegexScheme string string
  | MissingSchemeSep string
  | MissingPathSep string
  | MissingHost string
  | MissingUrl string
  | UrlWhitespace string
  | MissingPort string
  | ColonInHost string string
  | NotAnAddress string
  | NamesAHost string
  | NotIpv4 string
  | InvalidLogObject string
  | InvalidLogField string string string

type_synonym 'a acl = "acl_error + 'a"

section \<open>Comments\<close>

text \<open>What \<^verbatim>\<open>.*$\<close> takes: everything to the end, if there is no line terminator.\<close>

definition line_tail :: "string \<Rightarrow> bool" where
  "line_tail s \<longleftrightarrow> newline_char \<notin> set s \<and> cr_char \<notin> set s"

fun strip_spaced_comment :: "string \<Rightarrow> string" where
  "strip_spaced_comment [] = []"
| "strip_spaced_comment (c # cs) =
     (if js_space c \<and> cs \<noteq> [] \<and> hd cs = CHR ''#'' \<and> line_tail (tl cs) then [c]
      else c # strip_spaced_comment cs)"

definition stripLineComment :: "string \<Rightarrow> string" where
  "stripLineComment line =
     (if line \<noteq> [] \<and> hd line = CHR ''#'' \<and> line_tail (tl line) then []
      else strip_spaced_comment line)"

definition rejectGluedHash :: "string \<Rightarrow> unit acl" where
  "rejectGluedHash rule = ensure_e (CHR ''#'' \<notin> set rule) (GluedHash rule)"

section \<open>Tokens\<close>

text \<open>\<^verbatim>\<open>s.split(/\r?\n/)\<close>.\<close>

definition drop_cr :: "string \<Rightarrow> string" where
  "drop_cr s = (if s \<noteq> [] \<and> last s = cr_char then butlast s else s)"

definition split_lines :: "string \<Rightarrow> string list" where
  "split_lines s =
     (let ps = split_on newline_char s in map drop_cr (butlast ps) @ [last ps])"

text \<open>\<^verbatim>\<open>s.split(/\s+/)\<close>.\<close>

function split_spaces :: "string \<Rightarrow> string list" where
  "split_spaces [] = [[]]"
| "split_spaces (c # cs) =
     (if js_space c then [] # split_spaces (dropWhile js_space cs)
      else (case split_spaces cs of [] \<Rightarrow> [[c]] | w # ws \<Rightarrow> (c # w) # ws))"
  by pat_completeness auto
termination
  by (relation "measure length") (auto simp: le_imp_less_Suc length_dropWhile_le)

definition splitRuleTokens :: "string option \<Rightarrow> string list acl" where
  "splitRuleTokens rulesInput =
     (let tokens = (case rulesInput of None \<Rightarrow> []
        | Some s \<Rightarrow> filter (\<lambda>t. t \<noteq> [])
            (split_spaces (js_trim (join_with '' '' (map stripLineComment (split_lines s))))))
      in bind_e (traverse_e rejectGluedHash tokens) (\<lambda>_. Inr tokens))"

text \<open>The newline-separated inputs: one rule per line that is not blank.\<close>

definition split_rule_lines :: "string option \<Rightarrow> string list acl" where
  "split_rule_lines rulesInput =
     (let lines = (case rulesInput of None \<Rightarrow> []
        | Some s \<Rightarrow> filter (\<lambda>l. l \<noteq> []) (map (\<lambda>l. js_trim (stripLineComment l)) (split_lines s)))
      in bind_e (traverse_e rejectGluedHash lines) (\<lambda>_. Inr lines))"

section \<open>Lemmas\<close>

lemma strip_spaced_prefix: "prefix (strip_spaced_comment s) s"
  by (induction s) auto

lemma strip_prefix: "prefix (stripLineComment line) line"
  by (simp add: stripLineComment_def strip_spaced_prefix)

lemma strip_id: "CHR ''#'' \<notin> set line \<Longrightarrow> stripLineComment line = line"
proof -
  assume h: "CHR ''#'' \<notin> set line"
  then have "strip_spaced_comment line = line"
    by (induction line) (auto simp: neq_Nil_conv)
  then show ?thesis using h by (cases line) (auto simp: stripLineComment_def)
qed

lemma split_spaces_pieces:
  "w \<in> set (split_spaces s) \<Longrightarrow> set w \<subseteq> set s \<and> (\<forall>c\<in>set w. \<not> js_space c)"
proof (induction s arbitrary: w rule: split_spaces.induct)
  case (2 c cs)
  show ?case
  proof (cases "js_space c")
    case True
    with 2 set_dropWhileD [of _ js_space cs] show ?thesis by fastforce
  next
    case False
    with 2 show ?thesis by (fastforce split: list.splits)
  qed
qed simp

lemma traverse_reject: "traverse_e rejectGluedHash ts = Inr us \<Longrightarrow> t \<in> set ts \<Longrightarrow> CHR ''#'' \<notin> set t"
  using traverse_e_ok [of rejectGluedHash ts us t] by (auto simp: rejectGluedHash_def)

lemma splitRuleTokens_token:
  assumes "splitRuleTokens inp = Inr ts" and "t \<in> set ts"
  shows "t \<noteq> [] \<and> CHR ''#'' \<notin> set t \<and> (\<forall>c\<in>set t. \<not> js_space c)"
proof -
  obtain s where s: "inp = Some s"
    using assms by (cases inp) (auto simp: splitRuleTokens_def Let_def)
  have "\<exists>us. traverse_e rejectGluedHash ts = Inr us"
    using assms by (auto simp: splitRuleTokens_def Let_def)
  moreover have "t \<in> set (filter (\<lambda>t. t \<noteq> []) (split_spaces (js_trim (join_with '' '' (map stripLineComment (split_lines s))))))"
    using assms s by (auto simp: splitRuleTokens_def Let_def)
  ultimately show ?thesis
    using assms(2) traverse_reject split_spaces_pieces by fastforce
qed

lemma split_rule_lines_line:
  assumes "split_rule_lines inp = Inr ls" and "l \<in> set ls"
  shows "l \<noteq> [] \<and> CHR ''#'' \<notin> set l \<and> js_trim l = l"
proof -
  have "\<exists>us. traverse_e rejectGluedHash ls = Inr us"
    using assms by (auto simp: split_rule_lines_def Let_def)
  moreover have "l \<noteq> [] \<and> (\<exists>l'. l = js_trim l')"
    using assms by (auto simp: split_rule_lines_def Let_def split: option.splits)
  ultimately show ?thesis using assms(2) traverse_reject by fastforce
qed

end
