(* ===== verification/PartialWildcard.thy ===== *)
theory PartialWildcard
  imports RuleText
begin

text \<open>
  \<^verbatim>\<open>src/core/lib/acl/partial-wildcard.ts\<close>: the pattern compiler that allows a wildcard
  inside a label, and the checks on the regular expression of a \<^verbatim>\<open>~\<close> rule. Whether
  JavaScript's \<^verbatim>\<open>RegExp\<close> constructor takes a text is the argument \<^verbatim>\<open>syn\<close>: the message
  of the error it throws, \<^const>\<open>None\<close> where it takes the text.
\<close>

section \<open>Wildcard patterns\<close>

definition regex_meta :: "char \<Rightarrow> bool" where
  "regex_meta c \<longleftrightarrow> c \<in> set (''.+^$()[]{}|'' @ [backslash])"

text \<open>\<^verbatim>\<open>c.replace(REGEX_META, "\\$&")\<close>.\<close>

definition escape_meta :: "char \<Rightarrow> string" where
  "escape_meta c = (if regex_meta c then [backslash, c] else [c])"

text \<open>How a wildcard is spelled for one kind of separator.\<close>

record vocabulary =
  across :: string
  within :: string
  single :: string

definition DOMAIN :: vocabulary where
  "DOMAIN = \<lparr>across = ''.+'', within = ''[^.]+'', single = ''[^.]''\<rparr>"

definition PATH :: vocabulary where
  "PATH = \<lparr>across = ''.*'', within = ''[^/]+'', single = ''[^/]''\<rparr>"

fun atomToRegex :: "vocabulary \<Rightarrow> string \<Rightarrow> string" where
  "atomToRegex v [] = []"
| "atomToRegex v [c] =
     (if c = CHR ''*'' then within v else if c = CHR ''?'' then single v else escape_meta c)"
| "atomToRegex v (c # d # r) =
     (if c = CHR ''*'' then
        (if d = CHR ''*'' then across v @ atomToRegex v r else within v @ atomToRegex v (d # r))
      else if c = CHR ''?'' then single v @ atomToRegex v (d # r)
      else escape_meta c @ atomToRegex v (d # r))"

text \<open>\<^verbatim>\<open>HOST_LABEL\<close>.\<close>

definition host_label_char :: "char \<Rightarrow> bool" where
  "host_label_char c \<longleftrightarrow> is_alpha c \<or> is_digit c \<or> c \<in> set ''_*?-''"

definition checkHostLabel :: "string \<Rightarrow> string \<Rightarrow> unit acl" where
  "checkHostLabel label domain =
     (if label = [] then Inl (EmptyLabel domain)
      else if list_all host_label_char label then Inr ()
      else if \<exists>c\<in>set label. 128 \<le> (of_char c :: nat) then Inl (NonAsciiLabel domain label)
      else Inl (IllegalLabel domain label))"

definition dot_sep :: string where
  "dot_sep = [backslash, CHR ''.'']"

definition domainToRegexPartial :: "string \<Rightarrow> string acl" where
  "domainToRegexPartial domain =
     map_e (join_with dot_sep)
       (traverse_e (\<lambda>label. bind_e (checkHostLabel label domain) (\<lambda>_. Inr (atomToRegex DOMAIN label)))
         (split_on (CHR ''.'') domain))"

definition pathToRegexPartial :: "string \<Rightarrow> string" where
  "pathToRegexPartial path =
     (if path = [] then []
      else join_with ''/'' (map (atomToRegex PATH) (split_on (CHR ''/'') path)))"

definition valid_port :: "string \<Rightarrow> bool" where
  "valid_port port \<longleftrightarrow>
     port = ''*'' \<or>
     (port \<noteq> [] \<and> length port \<le> 5 \<and> list_all is_digit port \<and> hd port \<noteq> CHR ''0'' \<and>
      decimal port \<le> 65535)"

definition checkPort :: "string \<Rightarrow> string \<Rightarrow> unit acl" where
  "checkPort port rule = ensure_e (valid_port port) (InvalidPort rule port)"

definition port_regex :: "string \<Rightarrow> string" where
  "port_regex port = (if port = ''*'' then [backslash] @ ''d+'' else port)"

text \<open>The pattern test \<^verbatim>\<open>/^[^:]+:(?:\d+|\*)$/\<close>: one colon, a host before it and digits or
  a star after it.\<close>

definition wildcardToRegexPartial :: "string \<Rightarrow> string acl" where
  "wildcardToRegexPartial pattern =
     (case split_on (CHR '':'') pattern of
        [domain, port] \<Rightarrow>
          if domain \<noteq> [] \<and> (port = ''*'' \<or> (port \<noteq> [] \<and> list_all is_digit port))
          then map_e (\<lambda>d. d @ '':'' @ port_regex port) (domainToRegexPartial domain)
          else Inl (InvalidPattern pattern)
      | _ \<Rightarrow> Inl (InvalidPattern pattern))"

section \<open>Scanning a regular expression\<close>

text \<open>
  \<^verbatim>\<open>regexChars\<close>: each index but the one after a backslash, and whether it is inside a
  character class.
\<close>

fun regex_chars_from :: "nat \<Rightarrow> bool \<Rightarrow> string \<Rightarrow> (nat \<times> bool) list" where
  "regex_chars_from i inClass [] = []"
| "regex_chars_from i inClass (c # cs) =
     (i, inClass) #
     (if c = backslash then regex_chars_from (i + 2) inClass (drop 1 cs)
      else regex_chars_from (i + 1) (if inClass then c \<noteq> CHR '']'' else c = CHR ''['') cs)"

definition regexChars :: "string \<Rightarrow> (nat \<times> bool) list" where
  "regexChars regex = regex_chars_from 0 False regex"

definition char_at :: "string \<Rightarrow> nat \<Rightarrow> char option" where
  "char_at s i = (if i < length s then Some (s ! i) else None)"

fun top_bar :: "string \<Rightarrow> int \<Rightarrow> (nat \<times> bool) list \<Rightarrow> bool" where
  "top_bar regex depth [] = False"
| "top_bar regex depth ((i, inClass) # is) =
     (if inClass then top_bar regex depth is
      else if char_at regex i = Some (CHR ''('') then top_bar regex (depth + 1) is
      else if char_at regex i = Some (CHR '')'') then top_bar regex (depth - 1) is
      else if char_at regex i = Some (CHR ''|'') \<and> depth = 0 then True
      else top_bar regex depth is)"

definition hasTopLevelAlternation :: "string \<Rightarrow> bool" where
  "hasTopLevelAlternation regex = top_bar regex 0 (regexChars regex)"

definition RSet :: "string \<Rightarrow> re" where
  "RSet cs = RCls (Cls False (map (\<lambda>c. (c, c)) cs))"

definition RNotSet :: "string \<Rightarrow> re" where
  "RNotSet cs = RCls (Cls True (map (\<lambda>c. (c, c)) cs))"

definition RDigit :: re where
  "RDigit = RCls cls_digit"

definition RAlpha :: re where
  "RAlpha = RCls (Cls False [(CHR ''A'', CHR ''Z''), (CHR ''a'', CHR ''z'')])"

text \<open>\<^verbatim>\<open>/^\(\?<(?![=!])([^>]*)>/\<close>.\<close>

definition NAMED_GROUP :: re where
  "NAMED_GROUP = RSeqs [RBol, RLit ''(?<'', RAhead False (RSet ''=!''),
     RCap 1 (RStar True (RNotSet ''>'')), RChr (CHR ''>'')]"

text \<open>\<^verbatim>\<open>/^\((?!\?)/\<close>.\<close>

definition PLAIN_GROUP :: re where
  "PLAIN_GROUP = RSeqs [RBol, RChr (CHR ''(''), RAhead False (RChr (CHR ''?''))]"

definition capturingGroups :: "string \<Rightarrow> nat" where
  "capturingGroups regex =
     length (filter (\<lambda>(i, inClass). \<not> inClass \<and>
         (re_test PLAIN_GROUP (drop i regex) \<or> re_test NAMED_GROUP (drop i regex)))
       (regexChars regex))"

text \<open>\<^verbatim>\<open>HOST_LITERAL_ILLEGAL\<close>, \<^verbatim>\<open>COREFILE_UNSAFE\<close> and \<^verbatim>\<open>RE2_UNSUPPORTED\<close>.\<close>

definition HOST_LITERAL_ILLEGAL :: re where
  "HOST_LITERAL_ILLEGAL = RSeq (RChr backslash) (RSet ''[]'')"

definition COREFILE_UNSAFE :: re where
  "COREFILE_UNSAFE =
     RAlt (RSet [squote, CHR 0x60]) (RSeq (RChr (CHR ''{'')) (RSet ''$%''))"

definition RE2_UNSUPPORTED :: re where
  "RE2_UNSUPPORTED = RSeq RBol
     (RAlt (RSeqs [RLit ''(?'', ROpt (RChr (CHR ''<'')), RSet ''=!''])
       (RSeq (RChr backslash) (RCls (Cls False [(CHR ''1'', CHR ''9'')]))))"

text \<open>The loops of the checks stop at the first index that throws.\<close>

fun first_error :: "((nat \<times> bool) \<Rightarrow> acl_error option) \<Rightarrow> (nat \<times> bool) list \<Rightarrow> unit acl" where
  "first_error f [] = Inr ()"
| "first_error f (x # xs) = (case f x of Some e \<Rightarrow> Inl e | None \<Rightarrow> first_error f xs)"

definition whole_match :: "(nat \<times> string) list \<Rightarrow> string" where
  "whole_match cs = (case cap cs 0 of Some w \<Rightarrow> w | None \<Rightarrow> [])"

definition checkResolverRegexSyntax :: "string \<Rightarrow> string \<Rightarrow> string \<Rightarrow> unit acl" where
  "checkResolverRegexSyntax text label rule =
     first_error (\<lambda>(i, inClass). if inClass then None
       else map_option (\<lambda>m. ResolverSyntax rule label text (whole_match m))
         (re_exec RE2_UNSUPPORTED (drop i text))) (regexChars text)"

text \<open>\<^verbatim>\<open>/^\[([:.=])(?:\\(?:[\\\]]|(?![\\\]]))|\[(?!\1)|[^\]\\[])*?\1\]/\<close>.\<close>

definition POSIX_BRACKET :: re where
  "POSIX_BRACKET = RSeqs [RBol, RChr (CHR ''[''), RCap 1 (RSet '':.=''),
     RStar False (RAlt
       (RSeq (RChr backslash) (RAlt (RSet [backslash, CHR '']'']) (RAhead False (RSet [backslash, CHR '']'']))))
       (RAlt (RSeq (RChr (CHR ''['')) (RAhead False (RBack 1)))
         (RNotSet [CHR '']'', backslash, CHR ''['']))),
     RBack 1, RChr (CHR '']'')]"

text \<open>\<^verbatim>\<open>/^\[\^?\]/\<close>.\<close>

definition EMPTY_CLASS :: re where
  "EMPTY_CLASS = RSeqs [RBol, RChr (CHR ''[''), ROpt (RChr (CHR ''^'')), RChr (CHR '']'')]"

definition checkClasses :: "string \<Rightarrow> string \<Rightarrow> string \<Rightarrow> unit acl" where
  "checkClasses text label rule =
     first_error (\<lambda>(i, inClass).
       if char_at text i \<noteq> Some (CHR ''['') then None
       else (let rest = drop i text in
         (case re_exec POSIX_BRACKET rest of
            Some m \<Rightarrow> Some (ClassClash rule label text (whole_match m))
          | None \<Rightarrow>
              (if inClass then None
               else map_option (\<lambda>m. ClassClash rule label text (whole_match m))
                 (re_exec EMPTY_CLASS rest))))) (regexChars text)"

text \<open>\<^verbatim>\<open>/^(?:[dDwWsSbBnrtf]|[1-9](?!\d))/\<close> and \<^verbatim>\<open>/^(?:\d+|[A-Za-z])/\<close>.\<close>

definition PORTABLE_ESCAPE :: re where
  "PORTABLE_ESCAPE = RSeq RBol
     (RAlt (RSet ''dDwWsSbBnrtf'')
       (RSeq (RCls (Cls False [(CHR ''1'', CHR ''9'')])) (RAhead False RDigit)))"

definition OTHER_ESCAPE :: re where
  "OTHER_ESCAPE = RSeq RBol (RAlt (RPlus RDigit) RAlpha)"

definition checkPortableEscape ::
    "string \<Rightarrow> string \<Rightarrow> bool \<Rightarrow> nat \<Rightarrow> string \<Rightarrow> string \<Rightarrow> acl_error option" where
  "checkPortableEscape text rest inClass groups label rule =
     (if inClass \<and> char_at rest 0 = Some (CHR ''B'') then Some (ClassNonBoundary rule label text)
      else if \<not> inClass \<and> rest \<noteq> [] \<and> is_digit (hd rest) \<and> groups < digit_value (hd rest)
      then Some (MissingGroup rule label text groups)
      else None)"

definition checkEscapes :: "string \<Rightarrow> string \<Rightarrow> string \<Rightarrow> unit acl" where
  "checkEscapes text label rule =
     (let groups = capturingGroups text in
      first_error (\<lambda>(i, inClass).
        if char_at text i \<noteq> Some backslash then None
        else (let rest = drop (i + 1) text in
          (if re_test PORTABLE_ESCAPE rest then checkPortableEscape text rest inClass groups label rule
           else map_option (\<lambda>m. EscapeClash rule label text (whole_match m))
             (re_exec OTHER_ESCAPE rest)))) (regexChars text))"

text \<open>\<^verbatim>\<open>/^\(\?(?![:=!<])[^:)]*:?/\<close>.\<close>

definition GROUP_OPENING :: re where
  "GROUP_OPENING = RSeqs [RBol, RLit ''(?'', RAhead False (RSet '':=!<''),
     RStar True (RNotSet '':)''), ROpt (RChr (CHR '':''))]"

fun check_groups_from ::
    "string \<Rightarrow> string \<Rightarrow> string \<Rightarrow> string list \<Rightarrow> (nat \<times> bool) list \<Rightarrow> unit acl" where
  "check_groups_from text label rule names [] = Inr ()"
| "check_groups_from text label rule names ((i, inClass) # is) =
     (if inClass then check_groups_from text label rule names is
      else (let rest = drop i text in
        (case re_exec GROUP_OPENING rest of
           Some m \<Rightarrow> Inl (GroupSyntax rule label text (whole_match m))
         | None \<Rightarrow>
             (case Option.bind (re_exec NAMED_GROUP rest) (\<lambda>m. cap m 1) of
                None \<Rightarrow> check_groups_from text label rule names is
              | Some name \<Rightarrow>
                  (if name \<in> set names then Inl (GroupTwice rule label text name)
                   else check_groups_from text label rule (name # names) is)))))"

definition checkGroups :: "string \<Rightarrow> string \<Rightarrow> string \<Rightarrow> unit acl" where
  "checkGroups text label rule = check_groups_from text label rule [] (regexChars text)"

text \<open>\<^verbatim>\<open>/^\{\d+(?:,\d*)?\}/\<close>.\<close>

definition QUANTIFIER :: re where
  "QUANTIFIER = RSeqs [RBol, RChr (CHR ''{''), RPlus RDigit,
     ROpt (RSeq (RChr (CHR '','')) (RStar True RDigit)), RChr (CHR ''}'')]"

definition checkBraces :: "string \<Rightarrow> string \<Rightarrow> string \<Rightarrow> unit acl" where
  "checkBraces text label rule =
     first_error (\<lambda>(i, inClass).
       if inClass \<or> char_at text i \<noteq> Some (CHR ''{'') \<or> re_test QUANTIFIER (drop i text)
       then None else Some (BraceSyntax rule label text)) (regexChars text)"

definition checkRawRegexHalf :: "string \<Rightarrow> string \<Rightarrow> string \<Rightarrow> bool \<Rightarrow> unit acl" where
  "checkRawRegexHalf text label rule hostHalf =
     bind_e (checkClasses text label rule) (\<lambda>_.
     bind_e (checkEscapes text label rule) (\<lambda>_.
     bind_e (checkGroups text label rule) (\<lambda>_.
     bind_e (checkBraces text label rule) (\<lambda>_.
     bind_e (if hostHalf then checkResolverRegexSyntax text label rule else Inr ()) (\<lambda>_.
     bind_e (ensure_e (\<not> hasTopLevelAlternation text) (TopLevelBar rule label text)) (\<lambda>_.
     bind_e (ensure_e (\<not> (hostHalf \<and> re_test HOST_LITERAL_ILLEGAL text))
               (LiteralBracket rule label text)) (\<lambda>_.
     ensure_e (\<not> (hostHalf \<and> re_test COREFILE_UNSAFE text)) (CorefileUnsafe rule label text))))))))"

section \<open>Anchors and ports\<close>

definition endsAnchored :: "string \<Rightarrow> bool" where
  "endsAnchored regex \<longleftrightarrow>
     regex \<noteq> [] \<and> last regex = CHR ''$'' \<and>
     even (length (takeWhile (\<lambda>c. c = backslash) (tl (rev regex))))"

definition anchorRawRegex :: "string \<Rightarrow> string" where
  "anchorRawRegex regex =
     (if starts_with ''^'' regex then [] else ''^'') @ regex @
     (if endsAnchored regex then [] else ''$'')"

fun port_start_from :: "string \<Rightarrow> nat \<Rightarrow> (nat \<times> bool) list \<Rightarrow> nat option" where
  "port_start_from s bodyStart [] = None"
| "port_start_from s bodyStart ((i, inClass) # is) =
     (if inClass \<or> i < bodyStart then port_start_from s bodyStart is
      else if char_at s i = Some (CHR '':'') then Some i
      else if char_at s i = Some (CHR ''('') then
        (if char_at s (i + 1) = Some (CHR '':'') then Some i
         else if starts_with ''(?:'' (drop i s) then port_start_from s (i + 3) is
         else port_start_from s bodyStart is)
      else port_start_from s bodyStart is)"

definition portPatternStart :: "string \<Rightarrow> nat option" where
  "portPatternStart hostPlusPort = port_start_from hostPlusPort 0 (regexChars hostPlusPort)"

text \<open>The domain and, where the fragment names a port, the port pattern.\<close>

definition splitDomainFromPortPattern :: "string \<Rightarrow> string \<times> string option" where
  "splitDomainFromPortPattern hostPlusPort =
     (case portPatternStart hostPlusPort of
        None \<Rightarrow> (hostPlusPort, None)
      | Some start \<Rightarrow> (take start hostPlusPort, Some (drop start hostPlusPort)))"

definition splitRawRegexHost :: "(string \<Rightarrow> string option) \<Rightarrow> string \<Rightarrow> string acl" where
  "splitRawRegexHost syn pattern =
     (let regex = drop 1 pattern in
      (case syn regex of
         Some e \<Rightarrow> Inl (RegexSyntax pattern e)
       | None \<Rightarrow>
           bind_e (checkRawRegexHalf regex ''expression'' pattern False) (\<lambda>_.
             (case splitDomainFromPortPattern regex of
                (domain, None) \<Rightarrow> Inl (MissingRegexPort pattern)
              | (domain, Some _) \<Rightarrow>
                  (let host = (if starts_with ''^'' domain then drop 1 domain else domain) in
                   bind_e (checkRawRegexHalf host ''host half'' pattern True) (\<lambda>_.
                     (case syn host of
                        Some e \<Rightarrow> Inl (PartSyntax pattern ''host'' host e)
                      | None \<Rightarrow> Inr host)))))))"

end
