(* ===== verification/RegexMeaning.thy ===== *)
theory RegexMeaning
  imports PartialWildcard
begin

text \<open>
  The meaning of the regular expression texts the rule compilers emit, put together from
  the meaning of their parts. A text is read by \<^theory_text>\<open>re_parse\<close>, and between
  the two anchors it matches exactly its language.
\<close>

section \<open>What an emitted text means\<close>

text \<open>
  A text is read as tokens whatever follows it, and the tokens add items to the group
  that is open: \<^term>\<open>spells txt rs\<close>. Of interest is the language of those items,
  \<^term>\<open>means txt L\<close>, which is compositional.
\<close>

definition lexes :: "string \<Rightarrow> rtok list \<Rightarrow> bool" where
  "lexes txt us \<longleftrightarrow> (\<forall>rest. re_lex (txt @ rest) = map_option ((@) us) (re_lex rest))"

definition builds :: "rtok list \<Rightarrow> re list \<Rightarrow> bool" where
  "builds us rs \<longleftrightarrow>
     (\<exists>items. map fst items = rs \<and>
        (\<forall>ts alts seq fs. re_go (us @ ts) ((alts, seq) # fs) = re_go ts ((alts, rev items @ seq) # fs)))"

definition spells :: "string \<Rightarrow> re list \<Rightarrow> bool" where
  "spells txt rs \<longleftrightarrow> (\<exists>us. lexes txt us \<and> builds us rs)"

definition means :: "string \<Rightarrow> string set \<Rightarrow> bool" where
  "means txt L \<longleftrightarrow> (\<exists>rs. spells txt rs \<and> (\<forall>r\<in>set rs. plain r) \<and> lang (RSeqs rs) = L)"

definition conc :: "string set \<Rightarrow> string set \<Rightarrow> string set" where
  "conc A B = {v @ w |v w. v \<in> A \<and> w \<in> B}"

lemma concI: "v \<in> A \<Longrightarrow> w \<in> B \<Longrightarrow> v @ w \<in> conc A B"
  by (auto simp: conc_def)

lemma map_option_append:
  "map_option ((@) us) (map_option ((@) vs) x) = map_option ((@) (us @ vs)) x"
  by (cases x) auto

lemma map_option_Cons [simp]: "map_option ((@) [t]) x = map_option ((#) t) x"
  by (cases x) auto

lemma map_option_Nil [simp]: "map_option ((@) []) x = x"
  by (cases x) auto

lemma lexes_append: "lexes a us \<Longrightarrow> lexes b vs \<Longrightarrow> lexes (a @ b) (us @ vs)"
  by (simp only: lexes_def append_assoc map_option_append simp_thms)

lemma lexes_Nil [simp]: "lexes [] []"
  by (simp add: lexes_def)

lemma builds_Nil [simp]: "builds [] []"
  by (simp add: builds_def)

lemma builds_append:
  assumes "builds us rs" and "builds vs qs" shows "builds (us @ vs) (rs @ qs)"
proof -
  from assms obtain i j where i: "map fst i = rs" "map fst j = qs"
    and go: "\<And>ts alts seq fs. re_go (us @ ts) ((alts, seq) # fs) = re_go ts ((alts, rev i @ seq) # fs)"
      "\<And>ts alts seq fs. re_go (vs @ ts) ((alts, seq) # fs) = re_go ts ((alts, rev j @ seq) # fs)"
    unfolding builds_def by blast
  show ?thesis unfolding builds_def by (rule exI [of _ "i @ j"]) (simp add: i go)
qed

lemma spells_append: "spells a rs \<Longrightarrow> spells b qs \<Longrightarrow> spells (a @ b) (rs @ qs)"
  unfolding spells_def using lexes_append builds_append by blast

lemma means_Nil [simp]: "means [] {[]}"
  unfolding means_def spells_def by (rule exI [of _ "[]"]) (auto intro: exI [of _ "[]"])

lemma means_append:
  assumes "means a A" and "means b B" shows "means (a @ b) (conc A B)"
proof -
  from assms obtain rs qs where "spells a rs" "\<forall>r\<in>set rs. plain r" "lang (RSeqs rs) = A"
    "spells b qs" "\<forall>r\<in>set qs. plain r" "lang (RSeqs qs) = B" unfolding means_def by blast
  then show ?thesis unfolding means_def conc_def
    by (intro exI [of _ "rs @ qs"]) (auto simp only: spells_append lang_RSeqs_append set_append)
qed

lemma means_one:
  assumes "lexes txt us" and "builds us [r]" and "plain r" shows "means txt (lang r)"
  unfolding means_def using assms by (intro exI [of _ "[r]"]) (auto simp: spells_def)

lemma builds_TCls: "builds [TCls k] [RCls k]"
  unfolding builds_def by (rule exI [of _ "[(RCls k, True)]"]) simp

lemma builds_TPlus: "builds [TCls k, TPlus] [RPlus (RCls k)]"
  unfolding builds_def by (rule exI [of _ "[(RPlus (RCls k), False)]"]) simp

lemma builds_TStar: "builds [TCls k, TStar] [RStar True (RCls k)]"
  unfolding builds_def by (rule exI [of _ "[(RStar True (RCls k), False)]"]) simp

text \<open>A character that is not syntax stands for itself, and so does an escaped one.\<close>

definition rx_syntax :: "char \<Rightarrow> bool" where
  "rx_syntax c \<longleftrightarrow> regex_meta c \<or> c = CHR ''*'' \<or> c = CHR ''?''"

lemma lexes_plain_char: "\<not> rx_syntax c \<Longrightarrow> lexes [c] [TCls (cls_char c)]"
  by (auto simp: lexes_def rx_syntax_def regex_meta_def re_lex_Cons)

lemma lexes_escaped: "\<not> is_alpha c \<Longrightarrow> \<not> is_digit c \<Longrightarrow> lexes [backslash, c] [TCls (cls_char c)]"
proof -
  assume c: "\<not> is_alpha c" "\<not> is_digit c"
  moreover have "is_alpha (CHR ''d'')" by (simp add: is_alpha_def is_lower_def in_range_def)
  ultimately have "c \<noteq> CHR ''d''" by blast
  with c show ?thesis by (simp add: lexes_def re_lex_Cons escape_cls_def)
qed

lemma regex_meta_not_alnum: "regex_meta c \<Longrightarrow> \<not> is_alpha c \<and> \<not> is_digit c"
  by (auto simp: regex_meta_def is_alpha_def is_upper_def is_lower_def in_range_def is_digit_def)

lemma means_plain_char: "\<not> rx_syntax c \<Longrightarrow> means [c] {[c]}"
  using means_one [OF lexes_plain_char builds_TCls] by (simp flip: RChr_def)

lemma means_escaped: "\<not> is_alpha c \<Longrightarrow> \<not> is_digit c \<Longrightarrow> means [backslash, c] {[c]}"
  using means_one [OF lexes_escaped builds_TCls] by (simp flip: RChr_def)

lemma means_escape_meta: "c \<noteq> CHR ''*'' \<Longrightarrow> c \<noteq> CHR ''?'' \<Longrightarrow> means (escape_meta c) {[c]}"
  using means_escaped [of c] means_plain_char [of c] regex_meta_not_alnum [of c]
  by (auto simp: escape_meta_def rx_syntax_def)

lemma means_literal: "list_all (\<lambda>c. \<not> rx_syntax c) s \<Longrightarrow> means s {s}"
proof (induction s)
  case (Cons c s)
  then show ?case
    using means_append [OF means_plain_char [of c], of s "{s}"] by (simp add: conc_def)
qed simp

lemma re_test_bounded:
  assumes "\<forall>r\<in>set rs. plain r"
  shows "re_test (RSeqs (RBol # rs @ [REol])) s \<longleftrightarrow> s \<in> lang (RSeqs rs)"
proof -
  have cc: "concat (map f (concat xss)) = concat (map (\<lambda>xs. concat (map f xs)) xss)"
    for f :: "mstate \<Rightarrow> mstate list" and xss by (induction xss) auto
  have app: "rm (RSeqs (xs @ ys)) = (\<lambda>st. concat (map (rm (RSeqs ys)) (rm (RSeqs xs) st)))" for xs ys
  proof (induction xs)
    case (Cons x xs)
    then show ?case by (simp add: cc comp_def)
  qed (rule ext, simp)
  have eol: "rm (RSeq REol REps) = rm REol" by (rule ext) simp
  have same: "rm (RSeqs (RBol # rs @ [REol])) st = rm (RSeq RBol (RSeq (RSeqs rs) REol)) st" for st
    by (simp add: app eol)
  have "re_test (RSeqs (RBol # rs @ [REol])) s \<longleftrightarrow> re_test (RSeq RBol (RSeq (RSeqs rs) REol)) s"
    by (simp only: re_test_iff same)
  then show ?thesis using anchored_test [of "RSeqs rs" s] assms by simp
qed

text \<open>An emitted text between \<^verbatim>\<open>^\<close> and \<^verbatim>\<open>$\<close> matches exactly its language.\<close>

lemma means_anchored:
  assumes "means txt L" shows "rx_matches (''^'' @ txt @ ''$'') s \<longleftrightarrow> s \<in> L"
proof -
  from assms obtain rs us i where rs: "lexes txt us" "\<forall>r\<in>set rs. plain r" "lang (RSeqs rs) = L"
    and i: "map fst i = rs"
    and go: "\<And>ts alts seq fs. re_go (us @ ts) ((alts, seq) # fs) = re_go ts ((alts, rev i @ seq) # fs)"
    unfolding means_def spells_def builds_def by blast
  have "re_lex (''^'' @ txt @ ''$'') = Some (TBol # us @ [TEol])"
    using rs(1) by (simp add: lexes_def re_lex_Cons)
  then have "re_parse (''^'' @ txt @ ''$'') = Some (RSeqs (RBol # rs @ [REol]))"
    by (simp add: re_parse_def go frame_re_def rev_map i)
  then show ?thesis using re_test_bounded [of rs s] rs by (simp add: rx_matches_def)
qed

section \<open>Classes and repetitions\<close>

text \<open>\<^verbatim>\<open>.\<close> of the regular expressions takes no line terminator.\<close>

definition dot_char :: "char \<Rightarrow> bool" where
  "dot_char c \<longleftrightarrow> c \<noteq> newline_char \<and> c \<noteq> cr_char"

lemma cls_items_one:
  "c \<noteq> CHR '']'' \<Longrightarrow> c \<noteq> backslash \<Longrightarrow> cls_items (c # CHR '']'' # rest) = Some ([(c, c)], rest)"
  by (cases rest) (simp_all, cases "tl rest", auto simp: neq_Nil_conv)

lemma lexes_not_char:
  "c \<noteq> CHR '']'' \<Longrightarrow> c \<noteq> backslash \<Longrightarrow> lexes [CHR ''['', CHR ''^'', c, CHR '']''] [TCls (Cls True [(c, c)])]"
  by (simp add: lexes_def re_lex_Cons cls_items_one)

lemma lexes_dot: "lexes ''.'' [TCls cls_any]"
  by (simp add: lexes_def re_lex_Cons)

lemma lexes_plus: "lexes ''+'' [TPlus]"
  by (simp add: lexes_def re_lex_Cons)

lemma lexes_star: "lexes ''*'' [TStar]"
  by (simp add: lexes_def re_lex_Cons)

lemma cls_any_mem [simp]: "cls_mem cls_any c = dot_char c"
  by (auto simp: cls_any_def dot_char_def)

lemma means_single_cls: "lexes txt [TCls k] \<Longrightarrow> means txt {[x] |x. cls_mem k x}"
  using means_one [OF _ builds_TCls] by simp

lemma means_plus_cls: "lexes txt [TCls k] \<Longrightarrow> means (txt @ ''+'') {w. w \<noteq> [] \<and> (\<forall>x\<in>set w. cls_mem k x)}"
  using means_one [OF _ builds_TPlus, of "txt @ ''+''" k] lexes_append [OF _ lexes_plus, of "txt" "[TCls k]"]
  by (simp add: lang_plus_cls)

lemma means_star_cls: "lexes txt [TCls k] \<Longrightarrow> means (txt @ ''*'') {w. \<forall>x\<in>set w. cls_mem k x}"
  using means_one [OF _ builds_TStar, of "txt @ ''*''" k] lexes_append [OF _ lexes_star, of "txt" "[TCls k]"]
  by (simp add: lang_star_cls del: lang.simps)

lemma cls_items_close [simp]: "cls_items (CHR '']'' # rest) = Some ([], rest)"
proof (cases rest)
  case (Cons b r)
  then show ?thesis by (cases r) simp_all
qed simp

lemma lexes_range:
  "a \<noteq> CHR '']'' \<Longrightarrow> a \<noteq> backslash \<Longrightarrow> a \<noteq> CHR ''^'' \<Longrightarrow> b \<noteq> CHR '']'' \<Longrightarrow>
   lexes [CHR ''['', a, CHR ''-'', b, CHR '']''] [TCls (Cls False [(a, b)])]"
  by (simp add: lexes_def re_lex_Cons)

lemma lexes_pair_12:
  "lexes ''[12]'' [TCls (Cls False [(CHR ''1'', CHR ''1''), (CHR ''2'', CHR ''2'')])]"
  by (simp add: lexes_def re_lex_Cons cls_items_one)

lemma lexes_opt: "lexes ''?'' [TOpt]"
  by (simp add: lexes_def re_lex_Cons)

lemma lexes_rep: "is_digit d \<Longrightarrow> lexes [CHR ''{'', d, CHR ''}''] [TRep (digit_value d)]"
  by (simp add: lexes_def re_lex_Cons)

lemma lexes_bar: "lexes ''|'' [TBar]"
  by (simp add: lexes_def re_lex_Cons)

lemma lexes_close: "lexes '')'' [TClose]"
  by (simp add: lexes_def re_lex_Cons)

lemma lexes_open_group: "lexes ''(?:'' [TOpen]"
  by (simp add: lexes_def re_lex_Cons)

lemma lexes_open: "lexes (c # s) us \<Longrightarrow> c \<noteq> CHR ''?'' \<Longrightarrow> lexes (CHR ''('' # c # s) (TOpen # us)"
proof -
  assume h: "lexes (c # s) us" "c \<noteq> CHR ''?''"
  have "re_lex (CHR ''('' # c # s @ rest) = map_option ((@) [TOpen]) (re_lex (c # s @ rest))" for rest
    using h(2) by (simp add: re_lex_Cons [of "CHR ''(''"])
  then show ?thesis
    using h(1) map_option_append [of "[TOpen]" us] by (simp add: lexes_def del: map_option_Cons)
qed

lemma builds_TOpt: "builds [TCls k, TOpt] [ROpt (RCls k)]"
  unfolding builds_def by (rule exI [of _ "[(ROpt (RCls k), False)]"]) simp

lemma builds_TRep: "builds [TCls k, TRep n] [RSeqs (replicate n (RCls k))]"
  unfolding builds_def by (rule exI [of _ "[(RSeqs (replicate n (RCls k)), False)]"]) simp

lemma means_opt_cls: "lexes txt [TCls k] \<Longrightarrow> means (txt @ ''?'') (insert [] {[x] |x. cls_mem k x})"
  using means_one [OF _ builds_TOpt, of "txt @ ''?''" k] lexes_append [OF _ lexes_opt, of "txt" "[TCls k]"]
  by (simp add: ROpt_def)

lemma means_two_cls:
  "lexes txt [TCls k] \<Longrightarrow> means (txt @ ''{2}'') {[x, y] |x y. cls_mem k x \<and> cls_mem k y}"
proof -
  assume "lexes txt [TCls k]"
  moreover have "digit_value (CHR ''2'') = 2" by (simp add: digit_value_def)
  then have "lexes ''{2}'' [TRep 2]"
    using lexes_rep [of "CHR ''2''"] by (simp add: is_digit_def)
  ultimately have "lexes (txt @ ''{2}'') [TCls k, TRep 2]" using lexes_append by fastforce
  from means_one [OF this builds_TRep]
  have "means (txt @ ''{2}'') (lang (RSeqs (replicate 2 (RCls k))))" by simp
  moreover have "lang (RSeqs (replicate 2 (RCls k))) = {[x, y] |x y. cls_mem k x \<and> cls_mem k y}"
  proof (intro set_eqI iffI)
    fix w assume "w \<in> {[x, y] |x y. cls_mem k x \<and> cls_mem k y}"
    then obtain x y where w: "w = [x, y]" and "cls_mem k x" "cls_mem k y" by auto
    then have "[x] @ [y] @ [] \<in> lang (RSeqs (replicate 2 (RCls k)))"
      unfolding numeral_2_eq_2 replicate.simps RSeqs.simps lang.simps by blast
    then show "w \<in> lang (RSeqs (replicate 2 (RCls k)))" by (simp add: w)
  qed (auto simp: numeral_2_eq_2)
  ultimately show ?thesis by simp
qed

section \<open>Groups of alternatives\<close>

definition branch :: "rtok list \<Rightarrow> string set \<Rightarrow> bool" where
  "branch us L \<longleftrightarrow> (\<exists>rs. builds us rs \<and> (\<forall>r\<in>set rs. plain r) \<and> lang (RSeqs rs) = L)"

lemma means_branch: "means txt L \<longleftrightarrow> (\<exists>us. lexes txt us \<and> branch us L)"
  unfolding means_def spells_def branch_def by blast

lemma foldl_alt:
  "lang (foldl (\<lambda>acc a. RAlt a acc) r as) = lang r \<union> (\<Union>a\<in>set as. lang a)"
  "plain (foldl (\<lambda>acc a. RAlt a acc) r as) \<longleftrightarrow> plain r \<and> (\<forall>a\<in>set as. plain a)"
  by (induction as arbitrary: r) auto

lemma branches_build:
  assumes "list_all2 branch uss Ls" and "uss \<noteq> []" and "\<forall>a\<in>set alts. plain a"
  shows "\<exists>f. (\<forall>ts fs. re_go (join_with [TBar] uss @ ts) ((alts, []) # fs) = re_go ts (f # fs)) \<and>
    plain (frame_re f) \<and> lang (frame_re f) = \<Union>(set Ls) \<union> (\<Union>a\<in>set alts. lang a)"
  using assms
proof (induction "[TBar]" uss arbitrary: Ls alts rule: join_with.induct)
  case (2 us)
  then obtain L where Ls: "Ls = [L]" and "branch us L" by (auto simp: list_all2_Cons1)
  then obtain i where i: "\<forall>r\<in>set (map fst i). plain r" "lang (RSeqs (map fst i)) = L"
    "\<And>ts alts seq fs. re_go (us @ ts) ((alts, seq) # fs) = re_go ts ((alts, rev i @ seq) # fs)"
    unfolding branch_def builds_def by blast
  have "frame_re (alts, rev i) = foldl (\<lambda>acc a. RAlt a acc) (RSeqs (map fst i)) alts"
    by (simp add: frame_re_def rev_map)
  then show ?case using i 2 Ls
    by (intro exI [of _ "(alts, rev i)"]) (simp add: foldl_alt)
next
  case (3 us vs uss)
  then obtain L Ms where Ls: "Ls = L # Ms" "branch us L" "list_all2 branch (vs # uss) Ms"
    by (auto simp: list_all2_Cons1)
  then obtain i where i: "\<forall>r\<in>set (map fst i). plain r" "lang (RSeqs (map fst i)) = L"
    "\<And>ts alts seq fs. re_go (us @ ts) ((alts, seq) # fs) = re_go ts ((alts, rev i @ seq) # fs)"
    unfolding branch_def builds_def by blast
  define alts' where "alts' = RSeqs (map fst i) # alts"
  have "\<forall>a\<in>set alts'. plain a" using i(1) 3 by (simp add: alts'_def)
  then obtain f where "\<forall>ts fs. re_go (join_with [TBar] (vs # uss) @ ts) ((alts', []) # fs) = re_go ts (f # fs)"
    "plain (frame_re f)" "lang (frame_re f) = \<Union>(set Ms) \<union> (\<Union>a\<in>set alts'. lang a)"
    using 3(1) [of Ms alts'] Ls(3) by blast
  then show ?case
    by (intro exI [of _ f]) (auto simp: i(3) Ls(1) alts'_def i(2) rev_map)
qed simp

lemma join_lexes:
  "list_all2 lexes ws uss \<Longrightarrow> lexes (join_with ''|'' ws) (join_with [TBar] uss)"
proof (induction "''|''" ws arbitrary: uss rule: join_with.induct)
  case (3 w v ws)
  then obtain us vs uss' where "uss = us # vs # uss'" "lexes w us" "list_all2 lexes (v # ws) (vs # uss')"
    by (auto simp: list_all2_Cons1)
  then show ?case using 3 lexes_append lexes_bar by (metis join_with.simps(3))
qed (auto simp: list_all2_Cons1)

lemma means_alternatives:
  assumes "list_all2 means ws Ls" and "ws \<noteq> []"
  obtains uss where "lexes (join_with ''|'' ws) (join_with [TBar] uss)"
    "branch (TOpen # join_with [TBar] uss @ [TClose]) (\<Union>(set Ls))"
    "branch (TOpen # join_with [TBar] uss @ [TClose, TOpt]) (insert [] (\<Union>(set Ls)))"
proof -
  have "\<exists>uss. list_all2 lexes ws uss \<and> list_all2 branch uss Ls"
    using assms(1)
  proof (induction rule: list_all2_induct)
    case (Cons w ws L Ls)
    then obtain us uss where "lexes w us" "branch us L" "list_all2 lexes ws uss" "list_all2 branch uss Ls"
      unfolding means_branch by blast
    then show ?case by (intro exI [of _ "us # uss"]) simp
  qed simp
  then obtain uss where u: "list_all2 lexes ws uss" "list_all2 branch uss Ls" by blast
  then have ne: "uss \<noteq> []" using assms(2) by auto
  from branches_build [OF u(2) ne, of "[]"] obtain f where
    f: "\<forall>ts fs. re_go (join_with [TBar] uss @ ts) (([], []) # fs) = re_go ts (f # fs)"
      "plain (frame_re f)" "lang (frame_re f) = \<Union>(set Ls)" by auto
  have "branch (TOpen # join_with [TBar] uss @ [TClose]) (\<Union>(set Ls))"
    unfolding branch_def builds_def
    by (rule exI [of _ "[frame_re f]"]) (auto simp: f intro!: exI [of _ "[(frame_re f, True)]"])
  moreover have "branch (TOpen # join_with [TBar] uss @ [TClose, TOpt]) (insert [] (\<Union>(set Ls)))"
    unfolding branch_def builds_def
    by (rule exI [of _ "[ROpt (frame_re f)]"])
      (auto simp: f ROpt_def intro!: exI [of _ "[(ROpt (frame_re f), False)]"])
  ultimately show ?thesis using that [of uss] join_lexes [OF u(1)] by blast
qed

lemma means_group:
  assumes "list_all2 means ws Ls" and "ws \<noteq> []"
  shows "means (''(?:'' @ join_with ''|'' ws @ '')'') (\<Union>(set Ls))"
proof -
  obtain uss where "lexes (join_with ''|'' ws) (join_with [TBar] uss)"
    "branch (TOpen # join_with [TBar] uss @ [TClose]) (\<Union>(set Ls))"
    using means_alternatives [OF assms] by blast
  then show ?thesis unfolding means_branch
    using lexes_append [OF lexes_open_group lexes_append [OF _ lexes_close]] by fastforce
qed

lemma means_optional_group:
  assumes "list_all2 means ws Ls" and "ws \<noteq> []"
  shows "means (''(?:'' @ join_with ''|'' ws @ '')?'') (insert [] (\<Union>(set Ls)))"
proof -
  obtain uss where "lexes (join_with ''|'' ws) (join_with [TBar] uss)"
    "branch (TOpen # join_with [TBar] uss @ [TClose, TOpt]) (insert [] (\<Union>(set Ls)))"
    using means_alternatives [OF assms] by blast
  then show ?thesis unfolding means_branch
    using lexes_append [OF lexes_open_group lexes_append [OF _ lexes_append [OF lexes_close lexes_opt]]]
    by fastforce
qed

lemma means_capture:
  assumes "list_all2 means ws Ls" and "ws \<noteq> []"
    and "join_with ''|'' ws = c # s" and "c \<noteq> CHR ''?''"
  shows "means (''('' @ join_with ''|'' ws @ '')'') (\<Union>(set Ls))"
proof -
  obtain uss where u: "lexes (join_with ''|'' ws) (join_with [TBar] uss)"
    "branch (TOpen # join_with [TBar] uss @ [TClose]) (\<Union>(set Ls))"
    using means_alternatives [OF assms(1,2)] by blast
  have "lexes (c # s @ '')'') (join_with [TBar] uss @ [TClose])"
    using lexes_append [OF u(1) lexes_close] assms(3) by simp
  from lexes_open [OF this assms(4)] u(2) assms(3) show ?thesis
    unfolding means_branch by fastforce
qed

end
