(* ===== verification/WildcardLang.thy ===== *)
theory WildcardLang
  imports RegexMeaning
begin

text \<open>
  What a wildcard pattern means, apart from regular expressions, and the proof that the
  pattern compiler of \<^theory_text>\<open>PartialWildcard\<close> writes an expression with exactly
  that meaning. The two vocabularies of the code, domain labels and path segments, are
  two interpretations of one interface.
\<close>

section \<open>The meaning of a pattern\<close>

text \<open>\<^verbatim>\<open>**\<close> spans the separator, \<^verbatim>\<open>*\<close> and \<^verbatim>\<open>?\<close> do not.\<close>

datatype wtok = WLit char | WWithin | WAcross | WSingle

fun wild_toks :: "string \<Rightarrow> wtok list" where
  "wild_toks [] = []"
| "wild_toks [c] =
     [if c = CHR ''*'' then WWithin else if c = CHR ''?'' then WSingle else WLit c]"
| "wild_toks (c # d # r) =
     (if c = CHR ''*'' then
        (if d = CHR ''*'' then WAcross # wild_toks r else WWithin # wild_toks (d # r))
      else (if c = CHR ''?'' then WSingle else WLit c) # wild_toks (d # r))"

text \<open>Whether the tokens take a text: \<^term>\<open>sep\<close> is the separator, \<^term>\<open>zero\<close> whether
  \<^verbatim>\<open>**\<close> may take nothing.\<close>

fun wild_accepts :: "char \<Rightarrow> bool \<Rightarrow> wtok list \<Rightarrow> string \<Rightarrow> bool" where
  "wild_accepts sep zero [] s = (s = [])"
| "wild_accepts sep zero (WLit c # ts) [] = False"
| "wild_accepts sep zero (WLit c # ts) (x # xs) = (x = c \<and> wild_accepts sep zero ts xs)"
| "wild_accepts sep zero (WSingle # ts) [] = False"
| "wild_accepts sep zero (WSingle # ts) (x # xs) = (x \<noteq> sep \<and> wild_accepts sep zero ts xs)"
| "wild_accepts sep zero (WWithin # ts) [] = False"
| "wild_accepts sep zero (WWithin # ts) (x # xs) =
     (x \<noteq> sep \<and> (wild_accepts sep zero ts xs \<or> wild_accepts sep zero (WWithin # ts) xs))"
| "wild_accepts sep zero (WAcross # ts) [] = (zero \<and> wild_accepts sep zero ts [])"
| "wild_accepts sep zero (WAcross # ts) (x # xs) =
     ((zero \<and> wild_accepts sep zero ts (x # xs)) \<or>
      (dot_char x \<and> (wild_accepts sep zero ts xs \<or> wild_accepts sep zero (WAcross # ts) xs)))"

definition domain_accepts :: "string \<Rightarrow> string \<Rightarrow> bool" where
  "domain_accepts domain s = wild_accepts (CHR ''.'') False (wild_toks domain) s"

definition path_accepts :: "string \<Rightarrow> string \<Rightarrow> bool" where
  "path_accepts path s = wild_accepts (CHR ''/'') True (wild_toks path) s"

text \<open>One token takes a word, the rest the remainder.\<close>

fun tok_words :: "char \<Rightarrow> bool \<Rightarrow> wtok \<Rightarrow> string set" where
  "tok_words sep zero (WLit c) = {[c]}"
| "tok_words sep zero WSingle = {[x] |x. x \<noteq> sep}"
| "tok_words sep zero WWithin = {w. w \<noteq> [] \<and> (\<forall>x\<in>set w. x \<noteq> sep)}"
| "tok_words sep zero WAcross = {w. (zero \<or> w \<noteq> []) \<and> (\<forall>x\<in>set w. dot_char x)}"

lemma accepts_within:
  "wild_accepts sep zero (WWithin # ts) s \<longleftrightarrow>
   (\<exists>w t. s = w @ t \<and> w \<in> tok_words sep zero WWithin \<and> wild_accepts sep zero ts t)"
proof (induction s)
  case (Cons x xs)
  show ?case (is "?L = ?R")
  proof
    assume ?L
    then have x: "x \<noteq> sep" and
      "wild_accepts sep zero ts xs \<or> wild_accepts sep zero (WWithin # ts) xs" by auto
    then show ?R
    proof (elim disjE)
      assume "wild_accepts sep zero ts xs"
      with x show ?R by (intro exI [of _ "[x]"] exI [of _ xs]) simp_all
    next
      assume "wild_accepts sep zero (WWithin # ts) xs"
      then obtain w t where "xs = w @ t" "w \<in> tok_words sep zero WWithin" "wild_accepts sep zero ts t"
        using Cons by blast
      with x show ?R by (intro exI [of _ "x # w"] exI [of _ t]) simp
    qed
  next
    assume ?R
    then obtain w t where w: "x # xs = w @ t" "w \<noteq> []" "\<forall>y\<in>set w. y \<noteq> sep" "wild_accepts sep zero ts t"
      by auto
    then obtain v where v: "w = x # v" "xs = v @ t" by (cases w) auto
    show ?L
    proof (cases "v = []")
      case False
      then have "wild_accepts sep zero (WWithin # ts) xs" using Cons w v by auto
      then show ?thesis using w v by simp
    qed (use w v in auto)
  qed
qed simp

lemma accepts_across:
  "wild_accepts sep zero (WAcross # ts) s \<longleftrightarrow>
   (\<exists>w t. s = w @ t \<and> w \<in> tok_words sep zero WAcross \<and> wild_accepts sep zero ts t)"
proof (induction s)
  case (Cons x xs)
  show ?case (is "?L = ?R")
  proof
    assume ?L
    then consider "zero" "wild_accepts sep zero ts (x # xs)"
      | "dot_char x" "wild_accepts sep zero ts xs"
      | "dot_char x" "wild_accepts sep zero (WAcross # ts) xs" by auto
    then show ?R
    proof cases
      case 1
      then show ?thesis by (intro exI [of _ "[]"] exI [of _ "x # xs"]) simp_all
    next
      case 2
      then show ?thesis by (intro exI [of _ "[x]"] exI [of _ xs]) simp
    next
      case 3
      then obtain w t where "xs = w @ t" "w \<in> tok_words sep zero WAcross" "wild_accepts sep zero ts t"
        using Cons by blast
      with 3 show ?thesis by (intro exI [of _ "x # w"] exI [of _ t]) simp
    qed
  next
    assume ?R
    then obtain w t where w: "x # xs = w @ t" "zero \<or> w \<noteq> []" "\<forall>y\<in>set w. dot_char y" "wild_accepts sep zero ts t"
      by auto
    show ?L
    proof (cases w)
      case (Cons y v)
      with w have v: "y = x" "xs = v @ t" by auto
      show ?thesis
      proof (cases "v = []")
        case False
        then have "wild_accepts sep zero (WAcross # ts) xs" using Cons.IH w v Cons by auto
        then show ?thesis using w v Cons by simp
      qed (use w v Cons in auto)
    qed (use w in auto)
  qed
qed auto

lemma accepts_Cons:
  "wild_accepts sep zero (k # ts) s \<longleftrightarrow>
   (\<exists>w t. s = w @ t \<and> w \<in> tok_words sep zero k \<and> wild_accepts sep zero ts t)"
proof (cases k)
  case (WLit c)
  then show ?thesis by (cases s) auto
next
  case WSingle
  then show ?thesis by (cases s) (auto intro: exI [of _ "[_]"])
qed (simp_all add: accepts_within accepts_across del: wild_accepts.simps)

lemma accepts_append:
  "wild_accepts sep zero (ts @ us) s \<longleftrightarrow>
   (\<exists>v w. s = v @ w \<and> wild_accepts sep zero ts v \<and> wild_accepts sep zero us w)"
proof (induction ts arbitrary: s)
  case (Cons k ts)
  show ?case
  proof
    assume "wild_accepts sep zero ((k # ts) @ us) s"
    then obtain x v w where "s = (x @ v) @ w" "x \<in> tok_words sep zero k"
        "wild_accepts sep zero ts v" "wild_accepts sep zero us w"
      by (auto simp: accepts_Cons Cons.IH)
    then show "\<exists>v w. s = v @ w \<and> wild_accepts sep zero (k # ts) v \<and> wild_accepts sep zero us w"
      by (metis accepts_Cons)
  next
    assume "\<exists>v w. s = v @ w \<and> wild_accepts sep zero (k # ts) v \<and> wild_accepts sep zero us w"
    then obtain x v w where "s = x @ (v @ w)" "x \<in> tok_words sep zero k"
        "wild_accepts sep zero ts v" "wild_accepts sep zero us w"
      by (auto simp: accepts_Cons)
    then show "wild_accepts sep zero ((k # ts) @ us) s"
      unfolding append_Cons accepts_Cons Cons.IH by blast
  qed
qed simp

lemma wild_toks_sep:
  "c \<noteq> CHR ''*'' \<Longrightarrow> c \<noteq> CHR ''?'' \<Longrightarrow> wild_toks (a @ c # b) = wild_toks a @ WLit c # wild_toks b"
proof (induction a rule: wild_toks.induct)
  case 1
  then show ?case by (cases b) auto
next
  case (2 x)
  then show ?case by (cases b) auto
qed auto

section \<open>The interface of a vocabulary\<close>

text \<open>
  What the compiler of an atom relies on: each of the three spellings means what its
  wildcard means for the separator.
\<close>

definition wild_char :: "char \<Rightarrow> bool" where
  "wild_char c \<longleftrightarrow> c = CHR ''*'' \<or> c = CHR ''?''"

locale wildcard_vocabulary =
  fixes v :: vocabulary and sep :: char and zero :: bool
  assumes within_means: "means (within v) (tok_words sep zero WWithin)"
    and across_means: "means (across v) (tok_words sep zero WAcross)"
    and single_means: "means (single v) (tok_words sep zero WSingle)"
begin

lemma escaped_means: "\<not> wild_char c \<Longrightarrow> means (escape_meta c) (tok_words sep zero (WLit c))"
  by (simp add: means_escape_meta wild_char_def)

lemma accepts_set:
  "{s. wild_accepts sep zero (k # ts) s} = conc (tok_words sep zero k) {s. wild_accepts sep zero ts s}"
  by (auto simp: conc_def accepts_Cons)

lemma means_tok:
  "means x (tok_words sep zero k) \<Longrightarrow> means y {s. wild_accepts sep zero ts s} \<Longrightarrow>
   means (x @ y) {s. wild_accepts sep zero (k # ts) s}"
  unfolding accepts_set by (rule means_append)

lemma means_tok_last:
  "means x (tok_words sep zero k) \<Longrightarrow> means x {s. wild_accepts sep zero [k] s}"
  using means_tok [of x k "[]" "[]"] by simp

theorem atom_means: "means (atomToRegex v s) {t. wild_accepts sep zero (wild_toks s) t}"
proof (induction s rule: wild_toks.induct)
  case (2 c)
  then show ?case
    using means_tok_last within_means single_means escaped_means [of c]
    by (simp add: wild_char_def del: wild_accepts.simps tok_words.simps)
next
  case (3 c d r)
  then show ?case
    using means_tok within_means single_means across_means escaped_means [of c]
    by (simp add: wild_char_def del: wild_accepts.simps tok_words.simps)
qed simp

end

section \<open>The two vocabularies of the code\<close>

interpretation dom: wildcard_vocabulary DOMAIN "CHR ''.''" False
proof
  show "means (within DOMAIN) (tok_words (CHR ''.'') False WWithin)"
    using means_plus_cls [OF lexes_not_char [of "CHR ''.''"]] by (simp add: DOMAIN_def)
  show "means (single DOMAIN) (tok_words (CHR ''.'') False WSingle)"
    using means_single_cls [OF lexes_not_char [of "CHR ''.''"]] by (simp add: DOMAIN_def)
  show "means (across DOMAIN) (tok_words (CHR ''.'') False WAcross)"
    using means_plus_cls [OF lexes_dot] by (simp add: DOMAIN_def)
qed

interpretation pth: wildcard_vocabulary PATH "CHR ''/''" True
proof
  show "means (within PATH) (tok_words (CHR ''/'') True WWithin)"
    using means_plus_cls [OF lexes_not_char [of "CHR ''/''"]] by (simp add: PATH_def)
  show "means (single PATH) (tok_words (CHR ''/'') True WSingle)"
    using means_single_cls [OF lexes_not_char [of "CHR ''/''"]] by (simp add: PATH_def)
  show "means (across PATH) (tok_words (CHR ''/'') True WAcross)"
    using means_star_cls [OF lexes_dot] by (simp add: PATH_def)
qed

section \<open>Whole patterns\<close>

lemma accepts_lit_set: "{s. wild_accepts sep zero (WLit c # ts) s} = conc {[c]} {s. wild_accepts sep zero ts s}"
  unfolding conc_def by (auto simp: accepts_Cons)

lemma accepts_append_set:
  "{s. wild_accepts sep zero (ts @ us) s} = conc {s. wild_accepts sep zero ts s} {s. wild_accepts sep zero us s}"
  unfolding conc_def accepts_append by blast

text \<open>Pieces that mean their wildcards, joined by a text that means the separator.\<close>

lemma join_means:
  assumes "\<And>w. means (f w) {t. wild_accepts sep zero (wild_toks w) t}"
    and "means glue {[c]}" and "c \<noteq> CHR ''*''" "c \<noteq> CHR ''?''" and "ws \<noteq> []"
  shows "means (join_with glue (map f ws)) {t. wild_accepts sep zero (wild_toks (join_with [c] ws)) t}"
  using assms(5)
proof (induction "[c]" ws rule: join_with.induct)
  case (3 w v ws)
  have "means (f w @ glue @ join_with glue (map f (v # ws)))
      (conc {t. wild_accepts sep zero (wild_toks w) t}
        (conc {[c]} {t. wild_accepts sep zero (wild_toks (join_with [c] (v # ws))) t}))"
    using 3 by (intro means_append assms) simp_all
  then show ?case
    using assms(3,4) by (simp add: wild_toks_sep accepts_append_set accepts_lit_set)
qed (use assms in auto)

lemma means_dot_sep: "means dot_sep {''.''}"
  using means_escaped [of "CHR ''.''"]
  by (simp add: dot_sep_def is_alpha_def is_upper_def is_lower_def in_range_def is_digit_def)

lemma domainToRegexPartial_Inr:
  "domainToRegexPartial domain = Inr d \<Longrightarrow>
   d = join_with dot_sep (map (atomToRegex DOMAIN) (split_on (CHR ''.'') domain)) \<and>
   (\<forall>label\<in>set (split_on (CHR ''.'') domain). checkHostLabel label domain = Inr ())"
  unfolding domainToRegexPartial_def
  by (auto simp: traverse_e_Inr list_all2_conv_all_nth in_set_conv_nth
      intro!: arg_cong [where f = "join_with dot_sep"] nth_equalityI)

lemma domain_means:
  "domainToRegexPartial domain = Inr d \<Longrightarrow> means d {t. domain_accepts domain t}"
  using join_means [OF dom.atom_means means_dot_sep, of "split_on (CHR ''.'') domain"]
  by (auto simp: domain_accepts_def dest!: domainToRegexPartial_Inr)

lemma path_means: "means (pathToRegexPartial path) {t. path_accepts path t}"
proof -
  have "means ''/'' {''/''}"
    using means_plain_char [of "CHR ''/''"] by (simp add: rx_syntax_def regex_meta_def)
  then show ?thesis
    using join_means [OF pth.atom_means, of "''/''" "CHR ''/''" "split_on (CHR ''/'') path"]
    by (auto simp: path_accepts_def pathToRegexPartial_def)
qed

text \<open>The port half: any number for a star, the number itself otherwise.\<close>

definition port_accepts :: "string \<Rightarrow> string \<Rightarrow> bool" where
  "port_accepts port s \<longleftrightarrow> (if port = ''*'' then s \<noteq> [] \<and> list_all is_digit s else s = port)"

lemma lexes_digit: "lexes [backslash, CHR ''d''] [TCls cls_digit]"
  by (simp add: lexes_def re_lex_Cons escape_cls_def)

lemma digit_not_syntax: "is_digit c \<Longrightarrow> \<not> rx_syntax c"
  by (auto simp: is_digit_def rx_syntax_def regex_meta_def)

lemma port_means:
  assumes "port = ''*'' \<or> list_all is_digit port"
  shows "means (port_regex port) {s. port_accepts port s}"
proof (cases "port = ''*''")
  case True
  then show ?thesis
    using means_plus_cls [OF lexes_digit] by (simp add: port_regex_def port_accepts_def list_all_iff)
next
  case False
  then have "means port {port}"
    using assms by (intro means_literal) (auto simp: list_all_iff digit_not_syntax)
  with False show ?thesis by (simp add: port_regex_def port_accepts_def)
qed

definition host_port_accepts :: "string \<Rightarrow> string \<Rightarrow> string \<Rightarrow> bool" where
  "host_port_accepts domain port s \<longleftrightarrow>
     (\<exists>h p. s = h @ CHR '':'' # p \<and> domain_accepts domain h \<and> port_accepts port p)"

lemma means_colon: "means '':'' {'':''}"
  using means_plain_char [of "CHR '':''"] by (simp add: rx_syntax_def regex_meta_def)

lemma host_port_means:
  assumes "means d {t. domain_accepts domain t}" and "port = ''*'' \<or> list_all is_digit port"
  shows "means (d @ '':'' @ port_regex port) {s. host_port_accepts domain port s}"
proof -
  have "{s. host_port_accepts domain port s} =
      conc {t. domain_accepts domain t} (conc {'':''} {s. port_accepts port s})"
    unfolding conc_def host_port_accepts_def by auto
  then show ?thesis using assms port_means means_colon by (metis means_append)
qed

lemma split_on_two:
  "split_on c s = [a, b] \<longleftrightarrow> s = a @ c # b \<and> c \<notin> set a \<and> c \<notin> set b"
proof
  assume h: "split_on c s = [a, b]"
  then have "s = a @ c # b" using join_split_on [of c s] by simp
  moreover have "c \<notin> set a" "c \<notin> set b" using h split_on_no_sep [of _ c s] by auto
  ultimately show "s = a @ c # b \<and> c \<notin> set a \<and> c \<notin> set b" by simp
qed auto

lemma wildcardToRegexPartial_Inr:
  assumes "wildcardToRegexPartial pattern = Inr rx"
  obtains domain port d where "pattern = domain @ CHR '':'' # port" "CHR '':'' \<notin> set domain"
    "domain \<noteq> []" "port = ''*'' \<or> (port \<noteq> [] \<and> list_all is_digit port)"
    "domainToRegexPartial domain = Inr d" "rx = d @ '':'' @ port_regex port"
proof -
  from assms obtain domain port where sp: "split_on (CHR '':'') pattern = [domain, port]"
    by (auto simp: wildcardToRegexPartial_def split: list.splits)
  with assms show ?thesis
    using that [of domain port] by (auto simp: wildcardToRegexPartial_def split_on_two split: if_splits)
qed

end
