(* ===== verification/Ipv4.thy ===== *)
theory Ipv4
  imports WildcardLang
begin

text \<open>
  \<^verbatim>\<open>src/core/lib/acl/ipv4.ts\<close>: the regular expressions for an IPv4 address and a
  CIDR block, and the proof that they take exactly the dotted decimal numerals in range,
  written without a leading zero.
\<close>

section \<open>The source\<close>

definition OCTET :: string where
  "OCTET = ''(25[0-5]|2[0-4][0-9]|1[0-9]{2}|[1-9]?[0-9])''"

definition PREFIX :: string where
  "PREFIX = ''(3[0-2]|[12]?[0-9])''"

definition IPV4 :: string where
  "IPV4 = OCTET @ dot_sep @ OCTET @ dot_sep @ OCTET @ dot_sep @ OCTET"

definition OCTET_RE :: "string \<Rightarrow> bool" where
  "OCTET_RE s = rx_matches (''^'' @ OCTET @ ''$'') s"

definition IPV4_OR_CIDR :: "string \<Rightarrow> bool" where
  "IPV4_OR_CIDR s = rx_matches (''^'' @ IPV4 @ ''(?:/'' @ PREFIX @ '')?$'') s"

definition IPV4_CIDR :: "string \<Rightarrow> bool" where
  "IPV4_CIDR s = rx_matches (''^'' @ IPV4 @ ''/'' @ PREFIX @ ''$'') s"

definition has_wild :: "string \<Rightarrow> bool" where
  "has_wild s \<longleftrightarrow> CHR ''*'' \<in> set s \<or> CHR ''?'' \<in> set s"

definition isIpRuleAddress :: "string \<Rightarrow> bool" where
  "isIpRuleAddress host =
     (if \<not> has_wild host then IPV4_OR_CIDR host
      else (let octets = split_on (CHR ''.'') host in
        if 4 < length octets \<or> (length octets < 4 \<and> \<not> sublist ''**'' host) then False
        else list_all (\<lambda>octet. has_wild octet \<or> OCTET_RE octet) octets))"

section \<open>What the expressions take\<close>

definition upto_text :: "nat \<Rightarrow> string \<Rightarrow> bool" where
  "upto_text m s \<longleftrightarrow> canonical s \<and> decimal s \<le> m"

definition ipv4_text :: "nat list \<Rightarrow> string" where
  "ipv4_text os = join_with ''.'' (map show_nat os)"

definition octets :: "nat list \<Rightarrow> bool" where
  "octets os \<longleftrightarrow> length os = 4 \<and> list_all (\<lambda>n. n \<le> 255) os"

lemma upto_text_iff: "upto_text m s \<longleftrightarrow> (\<exists>n\<le>m. s = show_nat n)"
  unfolding upto_text_def canonical_iff by auto

lemma show_nat_1: "n < 10 \<Longrightarrow> show_nat n = [digit_char n]"
  by (simp add: show_nat.simps)

lemma show_nat_2: "10 \<le> n \<Longrightarrow> n < 100 \<Longrightarrow> show_nat n = [digit_char (n div 10), digit_char (n mod 10)]"
  by (subst show_nat.simps) (simp add: show_nat_1)

lemma show_nat_3:
  "100 \<le> n \<Longrightarrow> n < 1000 \<Longrightarrow>
   show_nat n = [digit_char (n div 100), digit_char (n div 10 mod 10), digit_char (n mod 10)]"
  by (subst show_nat.simps) (simp add: show_nat_2 div_mult2_eq [symmetric])

lemma in_range_digits:
  "in_range (CHR ''0'') (CHR ''9'') x \<longleftrightarrow> is_digit x"
  "in_range (CHR ''0'') (CHR ''5'') x \<longleftrightarrow> is_digit x \<and> digit_value x \<le> 5"
  "in_range (CHR ''0'') (CHR ''4'') x \<longleftrightarrow> is_digit x \<and> digit_value x \<le> 4"
  "in_range (CHR ''0'') (CHR ''2'') x \<longleftrightarrow> is_digit x \<and> digit_value x \<le> 2"
  "in_range (CHR ''1'') (CHR ''9'') x \<longleftrightarrow> is_digit x \<and> 1 \<le> digit_value x"
  by (auto simp: is_digit_range in_range_def digit_value_def)

lemma digit_literals:
  "is_digit (CHR ''1'')" "is_digit (CHR ''2'')" "is_digit (CHR ''3'')" "is_digit (CHR ''5'')"
  "digit_value (CHR ''1'') = 1" "digit_value (CHR ''2'') = 2" "digit_value (CHR ''3'') = 3"
  "digit_value (CHR ''5'') = 5"
  by (simp_all add: is_digit_def digit_value_def)

lemma digit_chars:
  "digit_char (Suc 0) = CHR ''1''" "digit_char 2 = CHR ''2''" "digit_char 3 = CHR ''3''"
  "digit_char 5 = CHR ''5''"
  by (simp_all add: digit_char_def char_of_def bit_0)

lemma decimal_short:
  "decimal [a] = digit_value a"
  "decimal [a, b] = 10 * digit_value a + digit_value b"
  "decimal [a, b, c] = 100 * digit_value a + 10 * digit_value b + digit_value c"
  by (simp_all add: decimal_def)

lemma canonical_short: "is_digit a \<Longrightarrow> a \<noteq> CHR ''0'' \<Longrightarrow> list_all is_digit s \<Longrightarrow> canonical (a # s)"
  "is_digit a \<Longrightarrow> canonical [a]"
  by (simp_all add: canonical_def)

definition octet_words :: "string set" where
  "octet_words =
     {[CHR ''2'', CHR ''5'', x] |x. is_digit x \<and> digit_value x \<le> 5} \<union>
     {[CHR ''2'', x, y] |x y. is_digit x \<and> digit_value x \<le> 4 \<and> is_digit y} \<union>
     {[CHR ''1'', x, y] |x y. is_digit x \<and> is_digit y} \<union>
     ({[x, y] |x y. is_digit x \<and> 1 \<le> digit_value x \<and> is_digit y} \<union> {[y] |y. is_digit y})"

lemma octet_words_eq: "octet_words = {s. upto_text 255 s}"
proof (intro set_eqI iffI)
  fix s assume "s \<in> octet_words"
  then consider x where "s = [CHR ''2'', CHR ''5'', x]" "is_digit x" "digit_value x \<le> 5"
    | x y where "s = [CHR ''2'', x, y]" "is_digit x" "digit_value x \<le> 4" "is_digit y"
    | x y where "s = [CHR ''1'', x, y]" "is_digit x" "is_digit y"
    | x y where "s = [x, y]" "is_digit x" "1 \<le> digit_value x" "is_digit y"
    | y where "s = [y]" "is_digit y"
    unfolding octet_words_def by blast
  then show "s \<in> {s. upto_text 255 s}"
  proof cases
    case (2 x y)
    then show ?thesis using digit_value_less [of y]
      by (simp add: upto_text_def decimal_short digit_literals canonical_short)
  next
    case (3 x y)
    then show ?thesis using digit_value_less [of x] digit_value_less [of y]
      by (simp add: upto_text_def decimal_short digit_literals canonical_short)
  next
    case (4 x y)
    then have "x \<noteq> CHR ''0''" using digit_value_zero [of x] by auto
    then show ?thesis using 4 digit_value_less [of x] digit_value_less [of y]
      by (simp add: upto_text_def decimal_short canonical_short)
  next
    case (5 y)
    then show ?thesis using digit_value_less [of y]
      by (simp add: upto_text_def decimal_short canonical_short)
  qed (simp add: upto_text_def decimal_short digit_literals canonical_short)
next
  fix s assume "s \<in> {s. upto_text 255 s}"
  then obtain n where n: "n \<le> 255" "s = show_nat n" by (auto simp: upto_text_iff)
  consider "n < 10" | "10 \<le> n" "n < 100" | "100 \<le> n" "n < 200" | "200 \<le> n" "n < 250" | "250 \<le> n" by linarith
  then show "s \<in> octet_words"
  proof cases
    case 3
    then have "n div 100 = 1" by simp
    with 3 n show ?thesis by (simp add: show_nat_3 octet_words_def digit_chars)
  next
    case 4
    then have "n div 100 = 2" "20 \<le> n div 10" "n div 10 \<le> 24" by simp_all
    moreover have "20 \<le> q \<Longrightarrow> q \<le> 24 \<Longrightarrow> q mod 10 \<le> 4" for q :: nat by presburger
    ultimately have "n div 100 = 2" "n div 10 mod 10 \<le> 4" by blast+
    with 4 n show ?thesis by (simp add: show_nat_3 octet_words_def digit_chars)
  next
    case 5
    with n have "n div 100 = 2" "n div 10 = 25" by simp_all
    moreover have "n mod 10 \<le> 5" using 5 n by presburger
    ultimately have "n div 100 = 2" "n div 10 mod 10 = 5" "n mod 10 \<le> 5" by simp_all
    with 5 n show ?thesis by (simp add: show_nat_3 octet_words_def digit_chars)
  qed (use n in \<open>auto simp: show_nat_1 show_nat_2 octet_words_def\<close>)
qed

lemma means_range:
  assumes "a \<noteq> CHR '']'' \<and> a \<noteq> backslash \<and> a \<noteq> CHR ''^'' \<and> b \<noteq> CHR '']''"
  shows "means [CHR ''['', a, CHR ''-'', b, CHR '']''] {[x] |x. in_range a b x}"
  using means_single_cls [OF lexes_range [of a b]] assms by simp

lemma means_cong: "means s A \<Longrightarrow> A = B \<Longrightarrow> s = t \<Longrightarrow> means t B"
  by simp

lemma means_lit_char: "\<not> rx_syntax c \<Longrightarrow> means s A \<Longrightarrow> means (c # s) {c # w |w. w \<in> A}"
  using means_append [OF means_plain_char, of c s A] by (simp add: conc_def)

lemma conc_chars:
  "conc {[x] |x. P x} {[y] |y. Q y} = {[x, y] |x y. P x \<and> Q y}"
proof (intro set_eqI iffI)
  fix w assume "w \<in> {[x, y] |x y. P x \<and> Q y}"
  then obtain x y where w: "w = [x, y]" and "P x" "Q y" by blast
  then have "[x] @ [y] \<in> conc {[x] |x. P x} {[y] |y. Q y}" unfolding conc_def by blast
  then show "w \<in> conc {[x] |x. P x} {[y] |y. Q y}" by (simp add: w)
qed (auto simp: conc_def)

lemma conc_opt: "conc (insert [] A) B = B \<union> conc A B"
  by (auto simp: conc_def) 

lemma digit_plain: "\<not> rx_syntax (CHR ''0'')" "\<not> rx_syntax (CHR ''1'')" "\<not> rx_syntax (CHR ''2'')"
  "\<not> rx_syntax (CHR ''3'')" "\<not> rx_syntax (CHR ''5'')" "\<not> rx_syntax (CHR ''/'')"
  by (simp_all add: rx_syntax_def regex_meta_def)

lemma means_OCTET: "means OCTET {s. upto_text 255 s}"
proof -
  let ?d = "{[y] |y. is_digit y}"
  let ?A = "{[CHR ''2'', CHR ''5'', x] |x. is_digit x \<and> digit_value x \<le> 5}"
  let ?B = "{[CHR ''2'', x, y] |x y. is_digit x \<and> digit_value x \<le> 4 \<and> is_digit y}"
  let ?C = "{[CHR ''1'', x, y] |x y. is_digit x \<and> is_digit y}"
  let ?D = "{[x, y] |x y. is_digit x \<and> 1 \<le> digit_value x \<and> is_digit y} \<union> ?d"
  have d: "means ''[0-9]'' ?d"
    using means_range [of "CHR ''0''" "CHR ''9''"] by (simp add: in_range_digits)
  have "means ''[0-5]'' {[x] |x. is_digit x \<and> digit_value x \<le> 5}"
    using means_range [of "CHR ''0''" "CHR ''5''"] by (simp add: in_range_digits)
  from means_lit_char [OF digit_plain(3) means_lit_char [OF digit_plain(5) this]]
  have A: "means ''25[0-5]'' ?A" by (rule means_cong) auto
  have "means ''[0-4]'' {[x] |x. is_digit x \<and> digit_value x \<le> 4}"
    using means_range [of "CHR ''0''" "CHR ''4''"] by (simp add: in_range_digits)
  from means_lit_char [OF digit_plain(3) means_append [OF this d]]
  have B: "means ''2[0-4][0-9]'' ?B" by (rule means_cong) (auto simp: conc_chars)
  have "lexes ''[0-9]'' [TCls (Cls False [(CHR ''0'', CHR ''9'')])]" by (rule lexes_range) simp_all
  from means_lit_char [OF digit_plain(2) means_two_cls [OF this]]
  have C: "means ''1[0-9]{2}'' ?C" by (rule means_cong) (auto simp: in_range_digits)
  have "lexes ''[1-9]'' [TCls (Cls False [(CHR ''1'', CHR ''9'')])]" by (rule lexes_range) simp_all
  from means_append [OF means_opt_cls [OF this] d]
  have D: "means ''[1-9]?[0-9]'' ?D"
    by (rule means_cong) (auto simp: in_range_digits conc_opt conc_chars)
  have "list_all2 means [''25[0-5]'', ''2[0-4][0-9]'', ''1[0-9]{2}'', ''[1-9]?[0-9]''] [?A, ?B, ?C, ?D]"
    using A B C D by simp
  from means_capture [OF this, of "CHR ''2''" "''5[0-5]|2[0-4][0-9]|1[0-9]{2}|[1-9]?[0-9]''"]
  have "means OCTET (\<Union>(set [?A, ?B, ?C, ?D]))" by (simp add: OCTET_def)
  moreover have "\<Union>(set [?A, ?B, ?C, ?D]) = {s. upto_text 255 s}"
    unfolding octet_words_eq [symmetric] octet_words_def by (simp add: Un_ac)
  ultimately show ?thesis by simp
qed

definition prefix_words :: "string set" where
  "prefix_words =
     {[CHR ''3'', x] |x. is_digit x \<and> digit_value x \<le> 2} \<union>
     ({[x, y] |x y. (x = CHR ''1'' \<or> x = CHR ''2'') \<and> is_digit y} \<union> {[y] |y. is_digit y})"

lemma prefix_words_eq: "prefix_words = {s. upto_text 32 s}"
proof (intro set_eqI iffI)
  fix s assume "s \<in> prefix_words"
  then consider x where "s = [CHR ''3'', x]" "is_digit x" "digit_value x \<le> 2"
    | x y where "s = [x, y]" "x = CHR ''1'' \<or> x = CHR ''2''" "is_digit y"
    | y where "s = [y]" "is_digit y"
    unfolding prefix_words_def by blast
  then show "s \<in> {s. upto_text 32 s}"
  proof cases
    case (2 x y)
    then show ?thesis using digit_value_less [of y]
      by (auto simp: upto_text_def decimal_short digit_literals canonical_short)
  next
    case (3 y)
    then show ?thesis using digit_value_less [of y]
      by (simp add: upto_text_def decimal_short canonical_short)
  qed (simp add: upto_text_def decimal_short digit_literals canonical_short)
next
  fix s assume "s \<in> {s. upto_text 32 s}"
  then obtain n where n: "n \<le> 32" "s = show_nat n" by (auto simp: upto_text_iff)
  consider "n < 10" | "10 \<le> n" "n < 20" | "20 \<le> n" "n < 30" | "30 \<le> n" by linarith
  then show "s \<in> prefix_words"
  proof cases
    case 2
    then have "n div 10 = 1" by simp
    with 2 n show ?thesis by (simp add: show_nat_2 prefix_words_def digit_chars)
  next
    case 3
    then have "n div 10 = 2" by simp
    with 3 n show ?thesis by (simp add: show_nat_2 prefix_words_def digit_chars)
  next
    case 4
    with n have "n div 10 = 3" "n mod 10 \<le> 2" by presburger+
    with 4 n show ?thesis by (simp add: show_nat_2 prefix_words_def digit_chars)
  qed (use n in \<open>auto simp: show_nat_1 prefix_words_def\<close>)
qed

lemma means_PREFIX: "means PREFIX {s. upto_text 32 s}"
proof -
  let ?d = "{[y] |y. is_digit y}"
  let ?A = "{[CHR ''3'', x] |x. is_digit x \<and> digit_value x \<le> 2}"
  let ?B = "{[x, y] |x y. (x = CHR ''1'' \<or> x = CHR ''2'') \<and> is_digit y} \<union> ?d"
  have d: "means ''[0-9]'' ?d"
    using means_range [of "CHR ''0''" "CHR ''9''"] by (simp add: in_range_digits)
  have "means ''[0-2]'' {[x] |x. is_digit x \<and> digit_value x \<le> 2}"
    using means_range [of "CHR ''0''" "CHR ''2''"] by (simp add: in_range_digits)
  from means_lit_char [OF digit_plain(4) this]
  have A: "means ''3[0-2]'' ?A" by (rule means_cong) auto
  from means_append [OF means_opt_cls [OF lexes_pair_12] d]
  have B: "means ''[12]?[0-9]'' ?B"
    by (rule means_cong) (auto simp: in_range_digits conc_opt conc_chars)
  have "list_all2 means [''3[0-2]'', ''[12]?[0-9]''] [?A, ?B]" using A B by simp
  from means_capture [OF this, of "CHR ''3''" "''[0-2]|[12]?[0-9]''"]
  have "means PREFIX (\<Union>(set [?A, ?B]))" by (simp add: PREFIX_def)
  moreover have "\<Union>(set [?A, ?B]) = {s. upto_text 32 s}"
    unfolding prefix_words_eq [symmetric] prefix_words_def by (simp add: Un_ac)
  ultimately show ?thesis by simp
qed

definition is_ipv4 :: "string \<Rightarrow> bool" where
  "is_ipv4 s \<longleftrightarrow> (let os = split_on (CHR ''.'') s in length os = 4 \<and> list_all (upto_text 255) os)"

lemma upto_text_chars: "upto_text m s \<Longrightarrow> c \<in> set s \<Longrightarrow> is_digit c"
  by (auto simp: upto_text_def canonical_def list_all_iff)

lemma length_four: "length xs = 4 \<Longrightarrow> \<exists>a b c d. xs = [a, b, c, d]"
  by (auto simp: length_Suc_conv numeral_eq_Suc)

lemma means_IPV4: "means IPV4 {s. is_ipv4 s}"
proof -
  let ?O = "{s. upto_text 255 s}"
  have "means IPV4 (conc ?O (conc {''.''} (conc ?O (conc {''.''} (conc ?O (conc {''.''} ?O))))))"
    unfolding IPV4_def by (intro means_append means_OCTET means_dot_sep)
  moreover have "conc ?O (conc {''.''} (conc ?O (conc {''.''} (conc ?O (conc {''.''} ?O))))) = {s. is_ipv4 s}"
    (is "?L = _")
  proof (intro set_eqI iffI)
    fix s assume "s \<in> ?L"
    then obtain a b c d where s: "s = a @ CHR ''.'' # b @ CHR ''.'' # c @ CHR ''.'' # d"
      and o: "upto_text 255 a" "upto_text 255 b" "upto_text 255 c" "upto_text 255 d"
      by (auto simp: conc_def)
    moreover have nd: "CHR ''.'' \<notin> set w" if "upto_text 255 w" for w
      using upto_text_chars [OF that, of "CHR ''.''"] by (auto simp: is_digit_def)
    ultimately show "s \<in> {s. is_ipv4 s}" using nd by (simp add: is_ipv4_def)
  next
    fix s assume "s \<in> {s. is_ipv4 s}"
    then obtain a b c d where sp: "split_on (CHR ''.'') s = [a, b, c, d]"
      using length_four [of "split_on (CHR ''.'') s"] by (auto simp: is_ipv4_def Let_def)
    with \<open>s \<in> {s. is_ipv4 s}\<close>
    have o: "upto_text 255 a" "upto_text 255 b" "upto_text 255 c" "upto_text 255 d"
      by (simp_all add: is_ipv4_def)
    have "a @ ''.'' @ b @ ''.'' @ c @ ''.'' @ d \<in> ?L"
      by (intro concI) (use o in simp_all)
    then show "s \<in> ?L"
      using join_split_on [of "CHR ''.''" s] sp by simp
  qed
  ultimately show ?thesis by simp
qed

lemma means_slash: "means ''/'' {''/''}"
  by (rule means_plain_char) (simp add: digit_plain)

lemma IPV4_CIDR_iff:
  "IPV4_CIDR s \<longleftrightarrow> (\<exists>a p. s = a @ CHR ''/'' # p \<and> is_ipv4 a \<and> upto_text 32 p)"
proof -
  have "means (IPV4 @ ''/'' @ PREFIX) (conc {s. is_ipv4 s} (conc {''/''} {s. upto_text 32 s}))"
    by (intro means_append means_IPV4 means_slash means_PREFIX)
  from means_anchored [OF this, of s] show ?thesis
    by (auto simp: IPV4_CIDR_def conc_def)
qed

lemma OCTET_RE_iff: "OCTET_RE s \<longleftrightarrow> upto_text 255 s"
  using means_anchored [OF means_OCTET] by (simp add: OCTET_RE_def)

lemma IPV4_OR_CIDR_iff: "IPV4_OR_CIDR s \<longleftrightarrow> is_ipv4 s \<or> IPV4_CIDR s"
proof -
  have "means (''/'' @ PREFIX) (conc {''/''} {s. upto_text 32 s})"
    by (intro means_append means_slash means_PREFIX)
  then have "means (''(?:'' @ join_with ''|'' [''/'' @ PREFIX] @ '')?'')
      (insert [] (\<Union>(set [conc {''/''} {s. upto_text 32 s}])))"
    by (intro means_optional_group) simp_all
  then have "means (''(?:/'' @ PREFIX @ '')?'') (insert [] (conc {''/''} {s. upto_text 32 s}))"
    by simp
  from means_anchored [OF means_append [OF means_IPV4 this], of s] show ?thesis
    by (auto simp: IPV4_OR_CIDR_def IPV4_CIDR_iff conc_def)
qed

end
