(* ===== verification/RawRegex.thy ===== *)
theory RawRegex
  imports RegexMeaning
begin

text \<open>
  What the checks of \<^verbatim>\<open>partial-wildcard.ts\<close> guarantee: ports are canonical numerals,
  an anchored expression is anchored once, the port pattern of a \<^verbatim>\<open>~\<close> rule is cut off
  without loss, and an accepted host half carries nothing that could leave the string it
  is written into.
\<close>

section \<open>Ports\<close>

lemma decimal_large: "length (show_nat n) \<le> k \<longleftrightarrow> n < 10 ^ k" if "0 < k"
  using that
proof (induction n arbitrary: k rule: show_nat.induct)
  case (1 n)
  show ?case
  proof (cases "n < 10")
    case True
    moreover have "(10::nat) \<le> 10 ^ k" using 1(2) self_le_power [of "10::nat" k] by simp
    ultimately show ?thesis using 1(2) by (simp add: show_nat.simps [of n])
  next
    case False
    obtain j where k: "k = Suc j" using 1(2) by (cases k) auto
    show ?thesis
    proof (cases "j = 0")
      case True
      then show ?thesis using False k by (subst show_nat.simps) simp
    next
      case j: False
      have "n div 10 < 10 ^ j \<longleftrightarrow> n < 10 ^ Suc j" by (simp add: div_less_iff_less_mult mult.commute)
      then show ?thesis using 1(1) [of j] False k j by (subst show_nat.simps) simp
    qed
  qed
qed

lemma show_nat_head: "hd (show_nat n) = CHR ''0'' \<longleftrightarrow> n = 0"
proof
  assume "hd (show_nat n) = CHR ''0''"
  then have "show_nat n = ''0''" using show_nat_canonical [of n] by (auto simp: canonical_def)
  then have "show_nat n = show_nat 0" by (simp add: show_nat.simps digit_char_def char_of_def bit_0)
  then show "n = 0" by simp
qed (simp add: show_nat.simps digit_char_def char_of_def bit_0)

lemma checkPort_iff:
  "checkPort port rule =
     (if port = ''*'' \<or> (\<exists>n. 1 \<le> n \<and> n \<le> 65535 \<and> port = show_nat n)
      then Inr () else Inl (InvalidPort rule port))"
proof -
  have "valid_port port \<longleftrightarrow> port = ''*'' \<or> (\<exists>n. 1 \<le> n \<and> n \<le> 65535 \<and> port = show_nat n)"
  proof (cases "port = ''*''")
    case False
    show ?thesis
    proof
      assume v: "valid_port port"
      with False have "canonical port" "hd port \<noteq> CHR ''0''" "decimal port \<le> 65535"
        by (auto simp: valid_port_def canonical_def)
      then show "port = ''*'' \<or> (\<exists>n. 1 \<le> n \<and> n \<le> 65535 \<and> port = show_nat n)"
        using show_nat_decimal [of port] show_nat_head [of "decimal port"]
        by (intro disjI2 exI [of _ "decimal port"]) simp
    next
      assume "port = ''*'' \<or> (\<exists>n. 1 \<le> n \<and> n \<le> 65535 \<and> port = show_nat n)"
      with False obtain n where n: "1 \<le> n" "n \<le> 65535" "port = show_nat n" by blast
      then show "valid_port port"
        using show_nat_head [of n] show_nat_digits [of n] decimal_large [of 5 n] by (simp add: valid_port_def)
    qed
  qed (simp add: valid_port_def)
  then show ?thesis by (simp add: checkPort_def ensure_e_def)
qed

text \<open>A port is accepted exactly when it is a star or the numeral, without a leading
  zero, of a number from 1 to 65535; any other text is the error that quotes it.\<close>

theorem checkPort_canonical:
  "checkPort port rule =
     (if port = ''*'' \<or> (\<exists>n. 1 \<le> n \<and> n \<le> 65535 \<and> port = show_nat n)
      then Inr () else Inl (InvalidPort rule port))"
  by (rule checkPort_iff)

section \<open>Anchors\<close>

lemma takeWhile_snoc: "\<not> P c \<Longrightarrow> takeWhile P (xs @ [c]) = takeWhile P xs"
  by (induction xs) auto

lemma endsAnchored_snoc: "endsAnchored (r @ ''$'') \<longleftrightarrow> even (length (takeWhile (\<lambda>c. c = backslash) (rev r)))"
  by (simp add: endsAnchored_def)

lemma anchored_starts: "starts_with ''^'' (anchorRawRegex r)"
  by (cases r) (auto simp: anchorRawRegex_def starts_with_def)

text \<open>Anchoring is idempotent on an expression that ends without an odd run of
  backslashes: what \<^verbatim>\<open>anchorRawRegex\<close> returns starts with its only added anchor and
  is left alone by a second pass.\<close>

theorem anchorRawRegex_idem:
  assumes "even (length (takeWhile (\<lambda>c. c = backslash) (rev regex)))"
  shows "endsAnchored (anchorRawRegex regex) \<and> starts_with ''^'' (anchorRawRegex regex) \<and>
    anchorRawRegex (anchorRawRegex regex) = anchorRawRegex regex"
proof -
  define body where "body = (if starts_with ''^'' regex then regex else CHR ''^'' # regex)"
  have eq: "anchorRawRegex regex = (if endsAnchored regex then body else body @ ''$'')"
    by (simp add: anchorRawRegex_def body_def)
  have "takeWhile (\<lambda>c. c = backslash) (rev (CHR ''^'' # r)) = takeWhile (\<lambda>c. c = backslash) (rev r)" for r
    by (simp add: takeWhile_snoc)
  then have tw: "takeWhile (\<lambda>c. c = backslash) (rev body) = takeWhile (\<lambda>c. c = backslash) (rev regex)"
    by (simp add: body_def)
  have "endsAnchored (CHR ''^'' # r) = endsAnchored r" if "r \<noteq> []" for r
    using that by (cases r rule: rev_cases) (auto simp: endsAnchored_def takeWhile_snoc)
  then have "endsAnchored body = endsAnchored regex"
    by (auto simp: body_def endsAnchored_def)
  then have e: "endsAnchored (anchorRawRegex regex)"
    unfolding eq using assms tw by (simp add: endsAnchored_snoc)
  moreover have "anchorRawRegex (anchorRawRegex regex) = anchorRawRegex regex"
    using e anchored_starts [of regex] by (simp add: anchorRawRegex_def [of "anchorRawRegex regex"])
  ultimately show ?thesis using anchored_starts by blast
qed

theorem anchorRawRegex_idem_witness:
  "endsAnchored (anchorRawRegex (''a$'' @ [backslash, backslash])) \<and>
    starts_with ''^'' (anchorRawRegex (''a$'' @ [backslash, backslash])) \<and>
    anchorRawRegex (anchorRawRegex (''a$'' @ [backslash, backslash])) =
      anchorRawRegex (''a$'' @ [backslash, backslash])"
  by (rule anchorRawRegex_idem) simp

section \<open>The port pattern of a host half\<close>

lemma port_start_bound: "port_start_from s b is = Some i \<Longrightarrow> \<exists>x\<in>set is. i = fst x \<and> \<not> snd x \<and>
    (char_at s i = Some (CHR '':'') \<or> (char_at s i = Some (CHR ''('') \<and> char_at s (i + 1) = Some (CHR '':'')))"
  by (induction s b "is" rule: port_start_from.induct) (auto split: if_splits)

lemma char_at_Some: "char_at s i = Some c \<longleftrightarrow> i < length s \<and> s ! i = c"
  by (auto simp: char_at_def)

lemma drop_char_at: "char_at s i = Some c \<Longrightarrow> drop i s = c # drop (Suc i) s"
  by (auto simp: char_at_Some Cons_nth_drop_Suc)

lemma split_recombines:
  "case splitDomainFromPortPattern frag of
     (domain, None) \<Rightarrow> domain = frag
   | (domain, Some port) \<Rightarrow> domain @ port = frag \<and> (starts_with '':'' port \<or> starts_with ''(:'' port)"
proof (cases "portPatternStart frag")
  case (Some i)
  from port_start_bound [OF Some [unfolded portPatternStart_def]]
  have "starts_with '':'' (drop i frag) \<or> starts_with ''(:'' (drop i frag)"
    by (auto dest!: drop_char_at)
  then show ?thesis by (simp add: splitDomainFromPortPattern_def Some)
qed (simp add: splitDomainFromPortPattern_def)

text \<open>Cutting the port pattern off a host half loses nothing: the two parts put together
  are the fragment, and a port pattern starts with its colon or the group that opens at it.\<close>

theorem splitDomainFromPortPattern_recombines:
  "case splitDomainFromPortPattern frag of
     (domain, None) \<Rightarrow> domain = frag
   | (domain, Some port) \<Rightarrow> domain @ port = frag \<and> (starts_with '':'' port \<or> starts_with ''(:'' port)"
  by (rule split_recombines)

section \<open>What the host half may hold\<close>

lemma re_test_cls: "c \<in> set s \<Longrightarrow> cls_mem k c \<Longrightarrow> re_test (RAlt (RCls k) r) s"
proof -
  assume c: "c \<in> set s" "cls_mem k c"
  then obtain i where "i < length s" "s ! i = c" by (auto simp: in_set_conv_nth)
  then obtain t where "drop i s = c # t" by (metis Cons_nth_drop_Suc)
  then show ?thesis using c \<open>i < length s\<close>
    unfolding re_test_iff by (intro exI [of _ i]) simp
qed

lemma host_half_safe:
  assumes "checkRawRegexHalf t label rule True = Inr ()"
  shows "squote \<notin> set t \<and> CHR 0x60 \<notin> set t"
proof -
  have "\<not> re_test COREFILE_UNSAFE t" using assms by (simp add: checkRawRegexHalf_def)
  then show ?thesis using re_test_cls [of _ t "Cls False (map (\<lambda>c. (c, c)) [squote, CHR 0x60])"]
    by (auto simp: COREFILE_UNSAFE_def RSet_def)
qed

lemma raw_host_safe: "splitRawRegexHost syn p = Inr h \<Longrightarrow> squote \<notin> set h"
  using host_half_safe by (auto simp: splitRawRegexHost_def Let_def split: option.splits prod.splits)

section \<open>Where the port pattern starts\<close>

text \<open>Reading an expression from the left: whether the next character is escaped, and whether it is
  in a character class.\<close>

fun scan_char :: "bool \<times> bool \<Rightarrow> char \<Rightarrow> bool \<times> bool" where
  "scan_char (escaped, inClass) c =
     (if escaped then (False, inClass)
      else if c = backslash then (True, inClass)
      else (False, if inClass then c \<noteq> CHR '']'' else c = CHR ''[''))"

definition scanned :: "string \<Rightarrow> bool \<times> bool" where
  "scanned pre = foldl scan_char (False, False) pre"

abbreviation plain_after :: "string \<Rightarrow> bool" where
  "plain_after pre \<equiv> scanned pre = (False, False)"

text \<open>A port pattern opens at a colon that is no escape's, no class's and no group's \<^verbatim>\<open>(?:\<close>, or at the
  group whose first character that colon is.\<close>

definition port_opens :: "string \<Rightarrow> string \<Rightarrow> bool" where
  "port_opens pre rest \<longleftrightarrow>
     plain_after pre \<and>
     (starts_with ''(:'' rest \<or> starts_with '':'' rest \<and> \<not> (\<exists>q. pre = q @ ''(?'' \<and> plain_after q))"

text \<open>The first place in the rest of an expression where one opens.\<close>

definition finds :: "string \<Rightarrow> string \<Rightarrow> nat option \<Rightarrow> bool" where
  "finds pre rest found \<longleftrightarrow>
     (case found of
        None \<Rightarrow> \<forall>p s. rest = p @ s \<longrightarrow> \<not> port_opens (pre @ p) s
      | Some i \<Rightarrow> \<exists>p s. rest = p @ s \<and> i = length pre + length p \<and> port_opens (pre @ p) s \<and>
          (\<forall>p' s'. rest = p' @ s' \<and> length p' < length p \<longrightarrow> \<not> port_opens (pre @ p') s'))"

lemma scanned_snoc [simp]: "scanned (pre @ [c]) = scan_char (scanned pre) c"
  by (simp add: scanned_def)

lemma scanned_two [simp]: "scanned (pre @ [c, d]) = scan_char (scan_char (scanned pre) c) d"
  by (simp add: scanned_def)

lemma finds_now: "port_opens pre rest \<Longrightarrow> finds pre rest (Some (length pre))"
  unfolding finds_def by (auto intro!: exI [of _ "[]"])

lemma finds_skip:
  assumes "\<not> port_opens pre (c # rest)" "finds (pre @ [c]) rest found" shows "finds pre (c # rest) found"
proof (cases found)
  case None
  have "\<not> port_opens (pre @ p) s" if "c # rest = p @ s" for p s
    using that assms None by (cases p) (auto simp: finds_def)
  then show ?thesis by (simp add: finds_def None)
next
  case (Some i)
  then obtain p s where p: "rest = p @ s" "i = length pre + length (c # p)" "port_opens (pre @ c # p) s"
    "\<forall>p' s'. rest = p' @ s' \<and> length p' < length p \<longrightarrow> \<not> port_opens (pre @ c # p') s'"
    using assms(2) by (auto simp: finds_def)
  have "\<not> port_opens (pre @ p') s'" if "c # rest = p' @ s'" "length p' < length (c # p)" for p' s'
    using that assms(1) p(4) by (cases p') auto
  then show ?thesis unfolding finds_def Some option.case
    using p(1-3) by (intro exI [of _ "c # p"] exI [of _ s]) auto
qed

text \<open>Before the body of a group \<^verbatim>\<open>(?:\<close>, at its question mark or its colon.\<close>

definition in_opening :: "nat \<Rightarrow> string \<Rightarrow> string \<Rightarrow> bool" where
  "in_opening k pre rest \<longleftrightarrow>
     (if k = 2 then \<exists>q. pre = q @ ''('' \<and> plain_after q \<and> starts_with ''?:'' rest
      else \<exists>q. pre = q @ ''(?'' \<and> plain_after q \<and> starts_with '':'' rest)"

definition body_known :: "nat \<Rightarrow> string \<Rightarrow> string \<Rightarrow> bool" where
  "body_known bodyStart pre rest \<longleftrightarrow>
     bodyStart \<le> length pre \<and> \<not> in_opening 2 pre rest \<and> \<not> in_opening 1 pre rest \<or>
     bodyStart = length pre + 2 \<and> in_opening 2 pre rest \<or> bodyStart = length pre + 1 \<and> in_opening 1 pre rest"

lemma opening_plain: "in_opening k pre rest \<Longrightarrow> plain_after pre"
  by (auto simp: in_opening_def split: if_splits)

lemma opening_snoc:
  "in_opening 2 (pre @ [c]) rest \<longleftrightarrow> c = CHR ''('' \<and> plain_after pre \<and> starts_with ''?:'' rest"
  "in_opening 1 (pre @ [c]) rest \<longleftrightarrow> c = CHR ''?'' \<and> (\<exists>q. pre = q @ ''('' \<and> plain_after q) \<and> starts_with '':'' rest"
proof -
  have "pre @ [c] = q @ ''(?'' \<longleftrightarrow> c = CHR ''?'' \<and> pre = q @ ''(''" for q
    by (metis append_Cons append_assoc append_Nil append1_eq_conv)
  then show "in_opening 1 (pre @ [c]) rest \<longleftrightarrow> c = CHR ''?'' \<and> (\<exists>q. pre = q @ ''('' \<and> plain_after q) \<and> starts_with '':'' rest"
    by (auto simp: in_opening_def)
qed (auto simp: in_opening_def)

lemma port_start_finds:
  assumes "scanned pre = (False, inClass)" "body_known bodyStart pre rest"
  shows "finds pre rest (port_start_from (pre @ rest) bodyStart (regex_chars_from (length pre) inClass rest))"
  using assms
proof (induction "length rest" arbitrary: pre rest bodyStart inClass rule: less_induct)
  case less
  show ?case
  proof (cases rest)
    case Nil
    then show ?thesis by (simp add: finds_def port_opens_def)
  next
    case (Cons c cs)
    have at: "char_at (pre @ c # cs) (length pre) = Some c" by (simp add: char_at_def)
    have next_at: "char_at (pre @ c # cs) (length pre + 1) = Some d \<longleftrightarrow> starts_with [d] cs" for d
      by (cases cs) (auto simp: char_at_def nth_append)
    have bound: "bodyStart \<le> length pre + 2" using less.prems(2) by (auto simp: body_known_def)
    have ih: "scanned (pre @ [c]) = (False, inClass') \<Longrightarrow> body_known b (pre @ [c]) cs \<Longrightarrow>
        finds (pre @ [c]) cs (port_start_from (pre @ c # cs) b (regex_chars_from (Suc (length pre)) inClass' cs))"
      for inClass' b
      using less.hyps [of cs "pre @ [c]" inClass' b] Cons by simp
    consider (escape) "c = backslash" | (cls) "c \<noteq> backslash" inClass | (out) "c \<noteq> backslash" "\<not> inClass" by blast
    then show ?thesis
    proof cases
      case escape
      have no: "\<not> port_opens pre rest" using Cons escape by (simp add: port_opens_def)
      have no2: "\<not> port_opens (pre @ [c]) cs" using escape less.prems(1) by (simp add: port_opens_def)
      have step: "port_start_from (pre @ rest) bodyStart (regex_chars_from (length pre) inClass rest) =
          port_start_from (pre @ rest) bodyStart (regex_chars_from (length pre + 2) inClass (drop 1 cs))"
        using Cons escape at by simp
      show ?thesis
      proof (cases cs)
        case Nil
        then show ?thesis using step no no2 Cons finds_skip [of pre c "[]" None] by (simp add: finds_def)
      next
        case cs: (Cons d ds)
        have "scanned (pre @ [c, d]) = (False, inClass)" using escape less.prems(1) by simp
        moreover have "body_known bodyStart (pre @ [c, d]) ds"
          using bound opening_snoc [of "pre @ [c]" d ds] escape less.prems(1) by (auto simp: body_known_def)
        ultimately have "finds ((pre @ [c]) @ [d]) ds
            (port_start_from (pre @ rest) bodyStart (regex_chars_from (length pre + 2) inClass ds))"
          using less.hyps [of ds "pre @ [c, d]" inClass bodyStart] Cons cs by simp
        then show ?thesis using step finds_skip no no2 Cons cs by simp
      qed
    next
      case cls
      have no: "\<not> port_opens pre rest" using less.prems(1) cls by (simp add: port_opens_def)
      have "bodyStart \<le> length pre"
        using less.prems cls opening_plain [of _ pre rest] by (auto simp: body_known_def)
      moreover have "\<not> (\<exists>q. pre = q @ ''('' \<and> plain_after q)" using less.prems(1) cls by auto
      ultimately have "body_known bodyStart (pre @ [c]) cs"
        using less.prems(1) cls unfolding body_known_def opening_snoc by simp
      then have "finds (pre @ [c]) cs (port_start_from (pre @ c # cs) bodyStart
          (regex_chars_from (Suc (length pre)) (c \<noteq> CHR '']'') cs))"
        using ih less.prems(1) cls by simp
      then show ?thesis using finds_skip no Cons cls by simp
    next
      case out
      have plain: "plain_after pre" using less.prems(1) out by simp
      have sc: "scanned (pre @ [c]) = (False, c = CHR ''['')" using plain out by simp
      consider (mark) "in_opening 2 pre rest" "bodyStart = length pre + 2"
        | (colon) "in_opening 1 pre rest" "bodyStart = length pre + 1"
        | (body) "\<not> in_opening 2 pre rest" "\<not> in_opening 1 pre rest" "bodyStart \<le> length pre"
        using less.prems(2) unfolding body_known_def by blast
      then show ?thesis
      proof cases
        case mark
        then obtain q where q: "pre = q @ ''(''" "plain_after q" "c = CHR ''?''" "starts_with '':'' cs"
          using Cons by (auto simp: in_opening_def)
        have "body_known bodyStart (pre @ [c]) cs" unfolding body_known_def opening_snoc using mark(2) q by auto
        then show ?thesis using ih [OF sc] finds_skip [of pre c cs] Cons mark(2) q(3) out(2) by (simp add: port_opens_def)
      next
        case colon
        then obtain q where q: "pre = q @ ''(?''" "plain_after q" "c = CHR '':''"
          using Cons by (auto simp: in_opening_def)
        have "body_known bodyStart (pre @ [c]) cs" unfolding body_known_def opening_snoc using colon(2) q(3) by auto
        moreover have "\<not> port_opens pre (c # cs)" using q by (auto simp: port_opens_def)
        ultimately show ?thesis using ih [OF sc] finds_skip [of pre c cs] Cons colon(2) q(3) out(2) by simp
      next
        case body
        consider (port) "c = CHR '':''" | (group) "c = CHR ''(''" | (other) "c \<noteq> CHR '':''" "c \<noteq> CHR ''(''" by blast
        then show ?thesis
        proof cases
          case port
          then have "port_opens pre rest" using body(2) plain Cons by (auto simp: port_opens_def in_opening_def)
          from finds_now [OF this] show ?thesis using port body(3) at out Cons by simp
        next
          case group
          show ?thesis
          proof (cases "starts_with '':'' cs")
            case True
            then have "port_opens pre rest" using plain Cons group by (auto simp: port_opens_def)
            from finds_now [OF this] show ?thesis using group body(3) at next_at [of "CHR '':''"] True out Cons by simp
          next
            case False
            let ?b = "if starts_with ''?:'' cs then length pre + 3 else bodyStart"
            have "body_known ?b (pre @ [c]) cs" using group plain body(3) unfolding body_known_def opening_snoc by auto
            moreover have "\<not> port_opens pre (c # cs)" using group False by (auto simp: port_opens_def)
            moreover have "port_start_from (pre @ c # cs) bodyStart (regex_chars_from (length pre) inClass (c # cs)) =
                port_start_from (pre @ c # cs) ?b (regex_chars_from (Suc (length pre)) (c = CHR ''['') cs)"
              using group False out body(3) at next_at [of "CHR '':''"] by auto
            ultimately show ?thesis using ih [OF sc] finds_skip [of pre c cs] Cons by metis
          qed
        next
          case other
          have "body_known bodyStart (pre @ [c]) cs"
            using other body Cons unfolding body_known_def opening_snoc by (auto simp: in_opening_def)
          moreover have "\<not> port_opens pre (c # cs)" using other by (auto simp: port_opens_def)
          ultimately show ?thesis using ih [OF sc] finds_skip [of pre c cs] Cons other out at by simp
        qed
      qed
    qed
  qed
qed

lemma portPatternStart_finds: "finds [] regex (portPatternStart regex)"
proof -
  have "body_known 0 [] regex" by (simp add: body_known_def in_opening_def)
  then show ?thesis
    using port_start_finds [of "[]" False 0 regex] by (simp add: scanned_def portPatternStart_def regexChars_def)
qed

text \<open>C4. A \<^verbatim>\<open>~\<close> host rule is accepted only if it compiles whole, names a port and has
  a host half that compiles alone and holds neither a quote nor a backtick; the host half
  returned is the rule's text up to the first place a port pattern opens, with exactly its one leading
  anchor gone where it has one.\<close>

theorem splitRawRegexHost_safe:
  assumes "splitRawRegexHost syn (CHR ''~'' # regex) = Inr host"
  shows "syn regex = None \<and> syn host = None \<and> squote \<notin> set host \<and> CHR 0x60 \<notin> set host \<and>
    \<not> hasTopLevelAlternation regex \<and> \<not> hasTopLevelAlternation host \<and>
    (\<exists>start port. regex = start @ host @ port \<and> start = (if starts_with ''^'' regex then ''^'' else []) \<and>
       port_opens (start @ host) port \<and>
       (\<forall>pre rest. regex = pre @ rest \<and> length pre < length (start @ host) \<longrightarrow> \<not> port_opens pre rest))"
proof -
  obtain i where i: "portPatternStart regex = Some i"
    using assms by (auto simp: splitRawRegexHost_def splitDomainFromPortPattern_def split: option.splits prod.splits)
  obtain domain port where p: "regex = domain @ port" "i = length domain" "port_opens domain port"
    "\<forall>pre rest. regex = pre @ rest \<and> length pre < length domain \<longrightarrow> \<not> port_opens pre rest"
    using portPatternStart_finds [of regex] i by (auto simp: finds_def)
  have sp: "splitDomainFromPortPattern regex = (domain, Some port)"
    using p(1,2) i by (simp add: splitDomainFromPortPattern_def)
  from assms sp have h: "host = (if starts_with ''^'' domain then drop 1 domain else domain)"
    "syn regex = None" "syn host = None" "checkRawRegexHalf regex ''expression'' (CHR ''~'' # regex) False = Inr ()"
    "checkRawRegexHalf host ''host half'' (CHR ''~'' # regex) True = Inr ()"
    by (auto simp: splitRawRegexHost_def Let_def split: option.splits if_splits)
  then have alt: "\<not> hasTopLevelAlternation regex" "\<not> hasTopLevelAlternation host"
    by (simp_all add: checkRawRegexHalf_def)
  let ?start = "if starts_with ''^'' regex then ''^'' else []"
  have "starts_with ''^'' regex \<longleftrightarrow> starts_with ''^'' domain"
    using p(1,3) by (cases domain) (auto simp: port_opens_def)
  then have "domain = ?start @ host" using h(1) by auto
  then have r: "regex = ?start @ host @ port" "?start @ host = domain" using p(1) by simp_all
  have "\<exists>start port. regex = start @ host @ port \<and> start = ?start \<and> port_opens (start @ host) port \<and>
       (\<forall>pre rest. regex = pre @ rest \<and> length pre < length (start @ host) \<longrightarrow> \<not> port_opens pre rest)"
    by (rule exI [of _ ?start], rule exI [of _ port]) (use r(1) p(3,4) in \<open>simp only: r(2) simp_thms\<close>)
  then show ?thesis using h(2,3) alt host_half_safe [OF h(5)] by blast
qed

theorem splitRawRegexHost_safe_witness:
  "\<exists>start port. ''^(?:api|www)[.:]example:(80|443)'' = start @ ''(?:api|www)[.:]example'' @ port \<and> start = ''^'' \<and>
     port_opens (start @ ''(?:api|www)[.:]example'') port"
proof -
  have "splitRawRegexHost (\<lambda>_. None) (CHR ''~'' # ''^(?:api|www)[.:]example:(80|443)'') =
      Inr ''(?:api|www)[.:]example''"
    by code_simp
  from splitRawRegexHost_safe [OF this] show ?thesis by simp
qed

end
