(* ===== verification/UrlRules.thy ===== *)
theory UrlRules
  imports WildcardLang RawRegex
begin

text \<open>
  \<^verbatim>\<open>src/core/lib/acl/url-rules.ts\<close>: the compiler of a rule that names methods and a URL.
  The argument \<^verbatim>\<open>syn\<close> is JavaScript's \<^verbatim>\<open>RegExp\<close> constructor, as in
  \<^theory_text>\<open>PartialWildcard\<close>.
\<close>

section \<open>The source\<close>

datatype url_scheme = Https | Http

fun DEFAULT_PORT :: "url_scheme \<Rightarrow> string" where
  "DEFAULT_PORT Https = ''443''"
| "DEFAULT_PORT Http = ''80''"

record url_rule =
  ur_methods :: "string list option"
  ur_schemes :: "url_scheme list"
  ur_authorityRegex :: string
  ur_pathRegex :: string
  ur_hostRegex :: string
  ur_isRegex :: bool
  ur_raw :: string

text \<open>\<^verbatim>\<open>s.split(/[|,]/)\<close>.\<close>

fun split_by :: "('a \<Rightarrow> bool) \<Rightarrow> 'a list \<Rightarrow> 'a list list" where
  "split_by P [] = [[]]"
| "split_by P (x # xs) =
     (if P x then [] # split_by P xs
      else (case split_by P xs of [] \<Rightarrow> [[x]] | w # ws \<Rightarrow> (x # w) # ws))"

definition is_method :: "string \<Rightarrow> bool" where
  "is_method t \<longleftrightarrow> t \<noteq> [] \<and> list_all is_alpha t"

definition parseMethods :: "string \<Rightarrow> string \<Rightarrow> string list option acl" where
  "parseMethods spec rule =
     (let tokens = filter (\<lambda>t. t \<noteq> [])
            (map js_trim (split_by (\<lambda>c. c = CHR ''|'' \<or> c = CHR '','') spec)) in
      if tokens = [] then Inl (NoMethod rule)
      else if ''*'' \<in> set tokens then Inr None
      else bind_e (traverse_e (\<lambda>t. ensure_e (is_method t) (InvalidMethod t rule)) tokens)
        (\<lambda>_. Inr (Some (unique_first (map to_upper tokens)))))"

text \<open>\<^verbatim>\<open>/^(https?):\/\/([^/]+)(\/.*)?$/\<close>.\<close>

definition match_url :: "string \<Rightarrow> (url_scheme \<times> string \<times> string) option" where
  "match_url url =
     (let parts = (\<lambda>scheme rest.
            let authority = takeWhile (\<lambda>c. c \<noteq> CHR ''/'') rest;
                path = dropWhile (\<lambda>c. c \<noteq> CHR ''/'') rest
            in if authority \<noteq> [] \<and> line_tail path then Some (scheme, authority, path) else None)
      in if starts_with ''https://'' url then parts Https (drop 8 url)
         else if starts_with ''http://'' url then parts Http (drop 7 url)
         else None)"

definition splitUrl :: "string \<Rightarrow> string \<Rightarrow> (url_scheme \<times> string \<times> string) acl" where
  "splitUrl url rule =
     (case match_url url of
        None \<Rightarrow> Inl (InvalidUrl rule)
      | Some m \<Rightarrow> if CHR ''#'' \<in> set url then Inl (UrlFragment rule) else Inr m)"

definition SLASH_TOKEN :: re where
  "SLASH_TOKEN = RSeqs [ROpt (RChr backslash), RChr (CHR ''/'')]"

definition SCHEME_SEP :: re where
  "SCHEME_SEP = RSeqs [RChr (CHR '':''), ROpt (RChr backslash), RChr (CHR ''/''),
     ROpt (RChr backslash), RChr (CHR ''/'')]"

text \<open>The index and the text of the first match.\<close>

definition re_find :: "re \<Rightarrow> string \<Rightarrow> (nat \<times> string) option" where
  "re_find r s =
     first_some (\<lambda>i. map_option (\<lambda>m. (i, whole_match m)) (re_exec_at r s i)) [0..<Suc (length s)]"

definition RAW_REGEX_SCHEMES :: "string \<Rightarrow> url_scheme list option" where
  "RAW_REGEX_SCHEMES = map_of [(''https'', [Https]), (''http'', [Http]), (''https?'', [Https, Http])]"

definition rawRegexSchemes :: "string \<Rightarrow> string \<Rightarrow> url_scheme list acl" where
  "rawRegexSchemes pre rule =
     (let scheme = (if starts_with ''^'' pre then drop 1 pre else pre) in
      case RAW_REGEX_SCHEMES scheme of
        None \<Rightarrow> Inl (RegexScheme scheme rule)
      | Some schemes \<Rightarrow> Inr schemes)"

definition rejectUserinfo :: "string \<Rightarrow> string \<Rightarrow> unit acl" where
  "rejectUserinfo host rule = ensure_e (CHR ''@'' \<notin> set host) (UserInfo host rule)"

definition check_compiles ::
    "(string \<Rightarrow> string option) \<Rightarrow> string \<Rightarrow> string \<Rightarrow> string \<Rightarrow> unit acl" where
  "check_compiles syn rule label fragment =
     (case syn fragment of None \<Rightarrow> Inr () | Some e \<Rightarrow> Inl (PartSyntax rule label fragment e))"

text \<open>The schemes, the host regex, the authority regex and the path regex.\<close>

definition splitRawRegexUrl ::
    "(string \<Rightarrow> string option) \<Rightarrow> string \<Rightarrow> string \<Rightarrow> (url_scheme list \<times> string \<times> string \<times> string) acl" where
  "splitRawRegexUrl syn regex rule =
     bind_e (checkRawRegexHalf regex ''expression'' rule False) (\<lambda>_.
     case re_find SCHEME_SEP regex of
       None \<Rightarrow> Inl (MissingSchemeSep rule)
     | Some (sepIndex, sepText) \<Rightarrow>
       bind_e (rawRegexSchemes (take sepIndex regex) rule) (\<lambda>schemes.
       let hostStart = sepIndex + length sepText in
       case re_find SLASH_TOKEN (drop hostStart regex) of
         None \<Rightarrow> Inl (MissingPathSep rule)
       | Some (pathIndex, _) \<Rightarrow>
         (let pathStart = hostStart + pathIndex;
              hostPart = take pathIndex (drop hostStart regex);
              pathPart = drop pathStart regex in
          bind_e (checkRawRegexHalf hostPart ''host half'' rule False) (\<lambda>_.
          bind_e (checkRawRegexHalf pathPart ''path half'' rule False) (\<lambda>_.
          bind_e (rejectUserinfo hostPart rule) (\<lambda>_.
          let hostOnly = fst (splitDomainFromPortPattern hostPart) in
          bind_e (checkRawRegexHalf hostOnly ''host half'' rule True) (\<lambda>_.
          let hostRegex = anchorRawRegex hostPart;
              authorityRegex = anchorRawRegex hostOnly;
              pathRegex = ''^'' @ pathPart in
          bind_e (check_compiles syn rule ''host'' hostRegex) (\<lambda>_.
          bind_e (check_compiles syn rule ''host-only'' authorityRegex) (\<lambda>_.
          bind_e (check_compiles syn rule ''path'' pathRegex) (\<lambda>_.
          Inr (schemes, hostRegex, authorityRegex, pathRegex))))))))))) "

definition rejectQuery :: "string \<Rightarrow> string \<Rightarrow> unit acl" where
  "rejectQuery path rule =
     (case index_of (CHR ''?'') path of
        None \<Rightarrow> Inr ()
      | Some query \<Rightarrow>
          ensure_e (\<not> (CHR ''='' \<in> set (drop query path) \<or> CHR ''&'' \<in> set (drop query path)))
            (QueryString (drop query path) rule))"

text \<open>\<^verbatim>\<open>s.slice(0, s.lastIndexOf(":"))\<close>.\<close>

definition before_last_colon :: "string \<Rightarrow> string" where
  "before_last_colon s =
     (case last_index_of (CHR '':'') s of Some i \<Rightarrow> take i s | None \<Rightarrow> butlast s)"

text \<open>The host and the port of an authority, empty where it names none.\<close>

definition split_authority :: "string \<Rightarrow> string \<times> string" where
  "split_authority authority =
     (case last_index_of (CHR '':'') authority of
        Some i \<Rightarrow>
          if CHR '']'' \<notin> set (drop (Suc i) authority)
          then (take i authority, drop (Suc i) authority) else (authority, [])
      | None \<Rightarrow> (authority, []))"

definition authority_port :: "url_scheme \<Rightarrow> string \<Rightarrow> string" where
  "authority_port scheme port =
     (if port = ''*'' then ''[0-9]+'' else if port = [] then DEFAULT_PORT scheme else port)"

definition compileUrl ::
    "(string \<Rightarrow> string option) \<Rightarrow> string list option \<Rightarrow> string \<Rightarrow> string \<Rightarrow> url_rule acl" where
  "compileUrl syn methods url rule =
     (if starts_with ''~'' url then
        (let regex = drop 1 url in
         case syn regex of
           Some e \<Rightarrow> Inl (RegexSyntax rule e)
         | None \<Rightarrow>
             map_e (\<lambda>(schemes, hostRegex, authorityRegex, pathRegex).
               \<lparr>ur_methods = methods, ur_schemes = schemes, ur_authorityRegex = authorityRegex,
                ur_pathRegex = pathRegex, ur_hostRegex = hostRegex, ur_isRegex = True, ur_raw = rule\<rparr>)
               (splitRawRegexUrl syn regex rule))
      else
        bind_e (splitUrl url rule) (\<lambda>(scheme, authority, path).
        bind_e (rejectUserinfo authority rule) (\<lambda>_.
        bind_e (rejectQuery path rule) (\<lambda>_.
        let (host, port) = split_authority authority in
        bind_e (ensure_e (host \<noteq> []) (MissingHost rule)) (\<lambda>_.
        bind_e (if port \<noteq> [] then checkPort port rule else Inr ()) (\<lambda>_.
        bind_e (wildcardToRegexPartial
                  (host @ '':'' @ (if port = [] then DEFAULT_PORT scheme else port))) (\<lambda>combined.
        let hostRegex = before_last_colon combined in
        Inr \<lparr>ur_methods = methods, ur_schemes = [scheme],
             ur_authorityRegex = ''^'' @ hostRegex @ '':'' @ authority_port scheme port @ ''$'',
             ur_pathRegex = (if path = [] then ''^/'' else ''^'' @ pathToRegexPartial path @ ''$''),
             ur_hostRegex = hostRegex, ur_isRegex = False, ur_raw = rule\<rparr>)))))))"

definition convertUrlRule :: "(string \<Rightarrow> string option) \<Rightarrow> string \<Rightarrow> url_rule acl" where
  "convertUrlRule syn rule =
     (let trimmed = js_trim rule in
      if \<not> list_ex js_space trimmed then Inl (MissingUrl trimmed)
      else
        (let methodSpec = takeWhile (\<lambda>c. \<not> js_space c) trimmed;
             url = js_trim (dropWhile js_space (dropWhile (\<lambda>c. \<not> js_space c) trimmed)) in
         if list_ex js_space url then Inl (UrlWhitespace trimmed)
         else bind_e (parseMethods methodSpec trimmed) (\<lambda>methods. compileUrl syn methods url trimmed)))"

definition buildUrlRules :: "(string \<Rightarrow> string option) \<Rightarrow> string option \<Rightarrow> url_rule list acl" where
  "buildUrlRules syn rulesInput =
     bind_e (split_rule_lines rulesInput) (\<lambda>lines. traverse_e (convertUrlRule syn) lines)"

section \<open>Literal URLs\<close>

fun scheme_text :: "url_scheme \<Rightarrow> string" where
  "scheme_text Https = ''https://''"
| "scheme_text Http = ''http://''"

lemma match_url_text:
  assumes "match_url url = Some (scheme, authority, path)"
  shows "url = scheme_text scheme @ authority @ path \<and> authority \<noteq> [] \<and>
    CHR ''/'' \<notin> set authority \<and> (path = [] \<or> starts_with ''/'' path)"
proof -
  have "\<exists>rest. url = scheme_text scheme @ rest \<and> authority = takeWhile (\<lambda>c. c \<noteq> CHR ''/'') rest \<and>
      path = dropWhile (\<lambda>c. c \<noteq> CHR ''/'') rest \<and> authority \<noteq> []"
    using assms by (auto simp: match_url_def Let_def split: if_splits)
  then obtain rest where r: "url = scheme_text scheme @ rest"
    "authority = takeWhile (\<lambda>c. c \<noteq> CHR ''/'') rest" "path = dropWhile (\<lambda>c. c \<noteq> CHR ''/'') rest" "authority \<noteq> []"
    by blast
  have "rest = authority @ path" by (simp add: r(2,3))
  moreover have "CHR ''/'' \<notin> set authority" unfolding r(2) by (auto dest: set_takeWhileD)
  moreover have "path = [] \<or> starts_with ''/'' path"
    unfolding r(3) by (induction rest) auto
  ultimately show ?thesis using r by simp
qed

lemma port_regex_no_colon:
  "port = ''*'' \<or> list_all is_digit port \<Longrightarrow> CHR '':'' \<notin> set (port_regex port)"
  by (auto simp: port_regex_def list_all_iff)

lemma authority_port_means:
  assumes "port = [] \<or> valid_port port"
  shows "means (authority_port scheme port)
    {s. port_accepts (if port = [] then DEFAULT_PORT scheme else port) s}"
proof -
  consider "port = ''*''" | "port = []" | "port \<noteq> ''*''" "port \<noteq> []" "list_all is_digit port"
    using assms unfolding valid_port_def by blast
  then show ?thesis
  proof cases
    case 1
    have "lexes ''[0-9]'' [TCls (Cls False [(CHR ''0'', CHR ''9'')])]" by (rule lexes_range) simp_all
    from means_plus_cls [OF this] show ?thesis
      using 1 by (simp add: authority_port_def port_accepts_def list_all_iff is_digit_range)
  next
    case 2
    have "list_all (\<lambda>c. \<not> rx_syntax c) (DEFAULT_PORT scheme)"
      by (cases scheme) (simp_all add: digit_not_syntax is_digit_def)
    from means_literal [OF this] show ?thesis
      using 2 by (cases scheme) (simp_all add: authority_port_def port_accepts_def)
  next
    case 3
    then have "means port {port}"
      by (intro means_literal) (auto simp: list_all_iff digit_not_syntax)
    with 3 show ?thesis by (simp add: authority_port_def port_accepts_def)
  qed
qed

text \<open>What the compiler of a literal URL returns.\<close>

lemma compileUrl_literal:
  assumes "compileUrl syn methods url rule = Inr u" and "\<not> starts_with ''~'' url"
  obtains scheme authority path host port d where
    "match_url url = Some (scheme, authority, path)" "CHR ''#'' \<notin> set url" "CHR ''@'' \<notin> set authority"
    "rejectQuery path rule = Inr ()" "split_authority authority = (host, port)" "host \<noteq> []"
    "port = [] \<or> valid_port port" "domainToRegexPartial host = Inr d"
    "u = \<lparr>ur_methods = methods, ur_schemes = [scheme],
          ur_authorityRegex = ''^'' @ d @ '':'' @ authority_port scheme port @ ''$'',
          ur_pathRegex = (if path = [] then ''^/'' else ''^'' @ pathToRegexPartial path @ ''$''),
          ur_hostRegex = d, ur_isRegex = False, ur_raw = rule\<rparr>"
proof -
  from assms obtain scheme authority path where m: "splitUrl url rule = Inr (scheme, authority, path)"
    by (auto simp: compileUrl_def simp del: starts_with_Cons)
  obtain host port where a: "split_authority authority = (host, port)" by (cases "split_authority authority")
  from assms m a obtain combined where c:
    "CHR ''@'' \<notin> set authority" "rejectQuery path rule = Inr ()" "host \<noteq> []" "port = [] \<or> valid_port port"
    "wildcardToRegexPartial (host @ '':'' @ (if port = [] then DEFAULT_PORT scheme else port)) = Inr combined"
    "u = \<lparr>ur_methods = methods, ur_schemes = [scheme],
          ur_authorityRegex = ''^'' @ before_last_colon combined @ '':'' @ authority_port scheme port @ ''$'',
          ur_pathRegex = (if path = [] then ''^/'' else ''^'' @ pathToRegexPartial path @ ''$''),
          ur_hostRegex = before_last_colon combined, ur_isRegex = False, ur_raw = rule\<rparr>"
    by (auto simp: compileUrl_def rejectUserinfo_def checkPort_def Let_def simp del: starts_with_Cons
        split: if_splits)
  let ?port = "if port = [] then DEFAULT_PORT scheme else port"
  obtain domain port' d where w: "host @ '':'' @ ?port = domain @ CHR '':'' # port'" "CHR '':'' \<notin> set domain"
    "domain \<noteq> []" "port' = ''*'' \<or> (port' \<noteq> [] \<and> list_all is_digit port')"
    "domainToRegexPartial domain = Inr d" "combined = d @ '':'' @ port_regex port'"
    by (rule wildcardToRegexPartial_Inr [OF c(5)])
  have "CHR '':'' \<notin> set port'" using w(4) by (auto simp: list_all_iff)
  moreover have "CHR '':'' \<notin> set ?port"
    using c(4) by (cases scheme) (auto simp: valid_port_def list_all_iff)
  ultimately have "rev ?port @ CHR '':'' # rev host = rev port' @ CHR '':'' # rev domain \<Longrightarrow> host = domain"
    using sep_inject [of "CHR '':''" "rev ?port" "rev port'"] by simp
  moreover have "rev ?port @ CHR '':'' # rev host = rev port' @ CHR '':'' # rev domain"
    using arg_cong [OF w(1), of rev] by simp
  ultimately have "host = domain" by blast
  moreover have "before_last_colon combined = d"
    using w(4,6) port_regex_no_colon [of port'] by (auto simp: before_last_colon_def)
  moreover have "match_url url = Some (scheme, authority, path)" "CHR ''#'' \<notin> set url"
    using m by (auto simp: splitUrl_def split: option.splits if_splits)
  ultimately show ?thesis using that a c w(5) by simp
qed

lemma convertUrlRule_parts:
  assumes "convertUrlRule syn rule = Inr u"
  obtains spec methods url where "parseMethods spec (js_trim rule) = Inr methods"
    "compileUrl syn methods url (js_trim rule) = Inr u" "suffix url (js_trim rule)" "\<not> list_ex js_space url"
proof -
  let ?t = "js_trim rule"
  let ?rest = "dropWhile js_space (dropWhile (\<lambda>c. \<not> js_space c) ?t)"
  from assms obtain methods where m: "parseMethods (takeWhile (\<lambda>c. \<not> js_space c) ?t) ?t = Inr methods"
    "compileUrl syn methods (js_trim ?rest) ?t = Inr u" "\<not> list_ex js_space (js_trim ?rest)"
    by (auto simp: convertUrlRule_def Let_def split: if_splits)
  have suf: "suffix ?rest ?t"
    by (meson suffix_dropWhile suffix_order.trans)
  have "?rest = [] \<or> \<not> js_space (hd ?rest) \<and> \<not> js_space (last ?rest)"
  proof (cases "?rest = []")
    case False
    then have "last ?rest = last ?t" using suf unfolding suffix_def by (metis last_appendR)
    moreover have "?t \<noteq> []" using False by auto
    ultimately show ?thesis using trim_ends [of rule] hd_dropWhile [OF False] by simp
  qed blast
  then have "js_trim ?rest = ?rest" by (rule trim_id)
  with m suf show ?thesis using that by simp
qed

lemma any_path: "rx_matches ''^/'' p \<longleftrightarrow> starts_with ''/'' p"
proof -
  have "re_parse ''^/'' = Some (RSeq RBol (RSeq (RChr (CHR ''/'')) REps))"
    by (simp add: re_parse_def re_lex_Cons frame_re_def RChr_def)
  moreover have "re_test (RSeq RBol (RSeq (RChr (CHR ''/'')) REps)) p \<longleftrightarrow> starts_with ''/'' p"
    by (subst anchored_start_test) auto
  ultimately show ?thesis by (simp add: rx_matches_def)
qed

text \<open>How an authority names a port: after a colon with no colon and no bracket behind it. A bracket
  behind the last colon is that of an address, which names none.\<close>

definition names_port :: "string \<Rightarrow> string \<Rightarrow> string \<Rightarrow> bool" where
  "names_port authority host port \<longleftrightarrow>
     authority = host @ '':'' @ port \<and> CHR '':'' \<notin> set port \<and> CHR '']'' \<notin> set port"

definition names_no_port :: "string \<Rightarrow> bool" where
  "names_no_port authority \<longleftrightarrow> (\<forall>host port. \<not> names_port authority host port)"

lemma split_authority_names:
  assumes "split_authority authority = (host, port)"
  shows "names_port authority host port \<or> names_no_port authority \<and> host = authority \<and> port = []"
proof (cases "last_index_of (CHR '':'') authority")
  case None
  then show ?thesis using assms by (auto simp: split_authority_def names_no_port_def names_port_def)
next
  case (Some i)
  note i = last_index_of_Some [OF Some]
  have last: "names_port authority h p \<Longrightarrow> p = drop (Suc i) authority" for h p
    using Some by (auto simp: names_port_def)
  show ?thesis
  proof (cases "CHR '']'' \<in> set (drop (Suc i) authority)")
    case True
    then have "names_no_port authority" using last unfolding names_no_port_def names_port_def by metis
    then show ?thesis using assms True Some by (simp add: split_authority_def)
  next
    case False
    then show ?thesis using assms Some i by (auto simp: split_authority_def names_port_def)
  qed
qed

text \<open>C3. The two expressions a literal URL compiles to mean the URL: the authority one takes
  exactly the \<^verbatim>\<open>host:port\<close> texts whose host fits the wildcards of the host written, and whose port is
  the one written behind it, or the default of the scheme where the URL names none or an empty one;
  the path one takes exactly the paths that fit, any path where the rule names none.\<close>

theorem url_rule_exact:
  assumes "convertUrlRule syn rule = Inr u" and "\<not> ur_isRegex u"
  shows "\<exists>scheme authority path host port.
    suffix (scheme_text scheme @ authority @ path) (js_trim rule) \<and> CHR ''/'' \<notin> set authority \<and>
    (path = [] \<or> starts_with ''/'' path) \<and> host \<noteq> [] \<and>
    (names_port authority host port \<or> names_no_port authority \<and> host = authority \<and> port = []) \<and>
    ur_schemes u = [scheme] \<and>
    (\<forall>s. rx_matches (ur_authorityRegex u) s \<longleftrightarrow>
       host_port_accepts host (if port = [] then DEFAULT_PORT scheme else port) s) \<and>
    (\<forall>p. rx_matches (ur_pathRegex u) p \<longleftrightarrow>
       (if path = [] then starts_with ''/'' p else path_accepts path p))"
proof -
  obtain spec methods url where c: "compileUrl syn methods url (js_trim rule) = Inr u" "suffix url (js_trim rule)"
    using convertUrlRule_parts [OF assms(1)] by metis
  have "\<not> starts_with ''~'' url"
  proof
    assume "starts_with ''~'' url"
    with c(1) assms(2) show False by (auto simp: compileUrl_def Let_def split: option.splits)
  qed
  with c(1) obtain scheme authority path host port d where l:
    "match_url url = Some (scheme, authority, path)"
    "split_authority authority = (host, port)" "port = [] \<or> valid_port port" "domainToRegexPartial host = Inr d"
    "u = \<lparr>ur_methods = methods, ur_schemes = [scheme],
          ur_authorityRegex = ''^'' @ d @ '':'' @ authority_port scheme port @ ''$'',
          ur_pathRegex = (if path = [] then ''^/'' else ''^'' @ pathToRegexPartial path @ ''$''),
          ur_hostRegex = d, ur_isRegex = False, ur_raw = js_trim rule\<rparr>" "host \<noteq> []"
    using compileUrl_literal by metis
  let ?port = "if port = [] then DEFAULT_PORT scheme else port"
  have auth: "means (d @ '':'' @ authority_port scheme port) {s. host_port_accepts host ?port s}"
  proof -
    have "{s. host_port_accepts host ?port s} =
        conc {t. domain_accepts host t} (conc {'':''} {s. port_accepts ?port s})"
      unfolding conc_def host_port_accepts_def by auto
    then show ?thesis using domain_means [OF l(4)] authority_port_means [OF l(3)] means_colon
      by (metis means_append)
  qed
  have "rx_matches (ur_authorityRegex u) s \<longleftrightarrow> host_port_accepts host ?port s" for s
    using means_anchored [OF auth, of s] by (simp add: l(5))
  moreover have "rx_matches (ur_pathRegex u) p \<longleftrightarrow>
      (if path = [] then starts_with ''/'' p else path_accepts path p)" for p
    using means_anchored [OF path_means, of path p] by (simp add: l(5) any_path)
  moreover have "url = scheme_text scheme @ authority @ path" "CHR ''/'' \<notin> set authority"
    "path = [] \<or> starts_with ''/'' path" using match_url_text [OF l(1)] by auto
  moreover have "ur_schemes u = [scheme]" by (simp add: l(5))
  ultimately show ?thesis using c(2) l(6) split_authority_names [OF l(2)] by blast
qed

theorem url_rule_exact_witness:
  "\<exists>scheme authority path host port.
    suffix (scheme_text scheme @ authority @ path) (js_trim ''GET https://*.b.example:8443/a/**'') \<and>
    CHR ''/'' \<notin> set authority \<and>
    (path = [] \<or> starts_with ''/'' path) \<and> host \<noteq> [] \<and>
    (names_port authority host port \<or> names_no_port authority \<and> host = authority \<and> port = []) \<and>
    [Https] = [scheme] \<and>
    (\<forall>s. rx_matches (''^[^.]+'' @ dot_sep @ ''b'' @ dot_sep @ ''example:8443$'') s \<longleftrightarrow>
       host_port_accepts host (if port = [] then DEFAULT_PORT scheme else port) s) \<and>
    (\<forall>p. rx_matches ''^/a/.*$'' p \<longleftrightarrow>
       (if path = [] then starts_with ''/'' p else path_accepts path p))"
proof -
  define u where "u = \<lparr>ur_methods = Some [''GET''], ur_schemes = [Https],
    ur_authorityRegex = ''^[^.]+'' @ dot_sep @ ''b'' @ dot_sep @ ''example:8443$'', ur_pathRegex = ''^/a/.*$'',
    ur_hostRegex = ''[^.]+'' @ dot_sep @ ''b'' @ dot_sep @ ''example'', ur_isRegex = False,
    ur_raw = ''GET https://*.b.example:8443/a/**''\<rparr>"
  have "convertUrlRule (\<lambda>_. None) ''GET https://*.b.example:8443/a/**'' = Inr u"
    unfolding u_def by code_simp
  from url_rule_exact [OF this] show ?thesis by (simp add: u_def)
qed

section \<open>Methods\<close>

lemma upper_char_upper: "is_alpha c \<Longrightarrow> is_upper (upper_char c)"
  by (auto simp: is_alpha_def is_upper_def is_lower_def in_range_def upper_char_def)

lemma parseMethods_Some:
  assumes "parseMethods spec rule = Inr (Some ms)"
  shows "ms \<noteq> [] \<and> distinct ms \<and> (\<forall>m\<in>set ms. m \<noteq> [] \<and> list_all is_upper m)"
proof -
  let ?ts = "filter (\<lambda>t. t \<noteq> []) (map js_trim (split_by (\<lambda>c. c = CHR ''|'' \<or> c = CHR '','') spec))"
  obtain us where t: "?ts \<noteq> []" "traverse_e (\<lambda>t. ensure_e (is_method t) (InvalidMethod t rule)) ?ts = Inr us"
    "ms = unique_first (map to_upper ?ts)"
    using assms by (auto simp: parseMethods_def Let_def split: if_splits)
  have "is_method t" if "t \<in> set ?ts" for t using traverse_e_ok [OF t(2) that] by simp
  then have "\<forall>m\<in>set ms. m \<noteq> [] \<and> list_all is_upper m"
    using upper_char_upper by (fastforce simp: t(3) is_method_def to_upper_def list_all_iff)
  moreover have "ms \<noteq> []" unfolding t(3) using t(1) by (cases ?ts) simp_all
  ultimately show ?thesis by (simp add: t(3))
qed

section \<open>Regular expression rules\<close>

lemma check_compiles_Inr [simp]: "check_compiles syn rule label fragment = Inr x \<longleftrightarrow> syn fragment = None"
  by (simp add: check_compiles_def split: option.splits)

lemma splitRawRegexUrl_Inr:
  assumes "splitRawRegexUrl syn regex rule = Inr (schemes, hostRegex, authorityRegex, pathRegex)"
  shows "\<exists>pre hostPart pathPart. rawRegexSchemes pre rule = Inr schemes \<and> CHR ''@'' \<notin> set hostPart \<and>
    hostRegex = anchorRawRegex hostPart \<and>
    authorityRegex = anchorRawRegex (fst (splitDomainFromPortPattern hostPart)) \<and>
    pathRegex = ''^'' @ pathPart \<and>
    checkRawRegexHalf (fst (splitDomainFromPortPattern hostPart)) ''host half'' rule True = Inr () \<and>
    syn hostRegex = None \<and> syn authorityRegex = None \<and> syn pathRegex = None"
proof -
  from assms obtain i t where i: "re_find SCHEME_SEP regex = Some (i, t)"
    by (auto simp: splitRawRegexUrl_def split: option.splits)
  from assms i obtain j w where j: "re_find SLASH_TOKEN (drop (i + length t) regex) = Some (j, w)"
    by (auto simp: splitRawRegexUrl_def Let_def split: option.splits)
  note f = assms [unfolded splitRawRegexUrl_def Let_def rejectUserinfo_def]
  show ?thesis
    by (rule exI [of _ "take i regex"], rule exI [of _ "take j (drop (i + length t) regex)"],
        rule exI [of _ "drop (i + length t + j) regex"]) (use f in \<open>auto simp: i j\<close>)
qed

lemma url_regex_safe:
  assumes "convertUrlRule syn rule = Inr u" and "ur_isRegex u"
  shows "ur_schemes u \<in> {[Https], [Http], [Https, Http]} \<and>
    (\<forall>rx\<in>{ur_hostRegex u, ur_authorityRegex u, ur_pathRegex u}. syn rx = None \<and> starts_with ''^'' rx) \<and>
    CHR ''@'' \<notin> set (ur_hostRegex u) \<and> squote \<notin> set (ur_authorityRegex u) \<and>
    CHR 0x60 \<notin> set (ur_authorityRegex u) \<and>
    (\<forall>ms. ur_methods u = Some ms \<longrightarrow> ms \<noteq> [] \<and> distinct ms \<and> (\<forall>m\<in>set ms. list_all is_upper m))"
proof -
  obtain spec methods url where p: "parseMethods spec (js_trim rule) = Inr methods"
    "compileUrl syn methods url (js_trim rule) = Inr u"
    using convertUrlRule_parts [OF assms(1)] by metis
  have "starts_with ''~'' url"
  proof (rule ccontr)
    assume "\<not> starts_with ''~'' url"
    with p(2) show False using compileUrl_literal assms(2) by (metis url_rule.select_convs(6))
  qed
  with p(2) obtain schemes hostRegex authorityRegex pathRegex where r:
    "splitRawRegexUrl syn (drop 1 url) (js_trim rule) = Inr (schemes, hostRegex, authorityRegex, pathRegex)"
    "ur_methods u = methods" "ur_schemes u = schemes" "ur_authorityRegex u = authorityRegex"
    "ur_pathRegex u = pathRegex" "ur_hostRegex u = hostRegex"
    by (auto simp: compileUrl_def Let_def split: option.splits)
  from splitRawRegexUrl_Inr [OF r(1)]
  obtain pre hostPart pathPart where s: "rawRegexSchemes pre (js_trim rule) = Inr schemes"
    "CHR ''@'' \<notin> set hostPart" "hostRegex = anchorRawRegex hostPart"
    "authorityRegex = anchorRawRegex (fst (splitDomainFromPortPattern hostPart))" "pathRegex = ''^'' @ pathPart"
    "checkRawRegexHalf (fst (splitDomainFromPortPattern hostPart)) ''host half'' (js_trim rule) True = Inr ()"
    "syn hostRegex = None" "syn authorityRegex = None" "syn pathRegex = None"
    by blast
  have quotes: "squote \<notin> set authorityRegex" "CHR 0x60 \<notin> set authorityRegex" "CHR ''@'' \<notin> set hostRegex"
    using host_half_safe [OF s(6)] s(2) by (auto simp: s(3,4) anchorRawRegex_def)
  have "schemes \<in> {[Https], [Http], [Https, Http]}"
    using s(1) by (auto simp: rawRegexSchemes_def RAW_REGEX_SCHEMES_def Let_def split: if_splits option.splits)
  moreover have "starts_with ''^'' hostRegex" "starts_with ''^'' authorityRegex" "starts_with ''^'' pathRegex"
    using anchored_starts by (simp_all only: s(3,4)) (simp add: s(5))
  moreover have "\<forall>ms. methods = Some ms \<longrightarrow> ms \<noteq> [] \<and> distinct ms \<and> (\<forall>m\<in>set ms. list_all is_upper m)"
    using p(1) parseMethods_Some by blast
  ultimately show ?thesis using quotes s(7-9) r by simp
qed

text \<open>A \<^verbatim>\<open>~\<close> URL rule is accepted only with three expressions that compile on their
  own, all anchored at their start and the two over the host at their end too; the host is
  never matched against a user name, and the part the resolver's allowlist is made of holds
  no quote and no backtick.\<close>

theorem url_regex_rule_safe:
  assumes "convertUrlRule syn rule = Inr u" and "ur_isRegex u"
  shows "ur_schemes u \<in> {[Https], [Http], [Https, Http]} \<and>
    (\<forall>rx\<in>{ur_hostRegex u, ur_authorityRegex u, ur_pathRegex u}. syn rx = None \<and> starts_with ''^'' rx) \<and>
    CHR ''@'' \<notin> set (ur_hostRegex u) \<and> squote \<notin> set (ur_authorityRegex u) \<and>
    CHR 0x60 \<notin> set (ur_authorityRegex u) \<and>
    (\<forall>ms. ur_methods u = Some ms \<longrightarrow> ms \<noteq> [] \<and> distinct ms \<and> (\<forall>m\<in>set ms. list_all is_upper m))"
  using assms by (rule url_regex_safe)

theorem url_regex_rule_safe_witness:
  "starts_with ''^'' ''^a(:8443)?$'' \<and> starts_with ''^'' ''^a$'' \<and> starts_with ''^'' ''^/x'' \<and>
   CHR ''@'' \<notin> set ''^a(:8443)?$'' \<and> squote \<notin> set ''^a$'' \<and> CHR 0x60 \<notin> set ''^a$'' \<and>
   distinct [''GET'', ''PUT''] \<and> list_all is_upper ''GET'' \<and> list_all is_upper ''PUT''"
proof -
  define u where "u = \<lparr>ur_methods = Some [''GET'', ''PUT''], ur_schemes = [Https],
    ur_authorityRegex = ''^a$'', ur_pathRegex = ''^/x'', ur_hostRegex = ''^a(:8443)?$'', ur_isRegex = True,
    ur_raw = ''get|PUT ~https://a(:8443)?/x''\<rparr>"
  have "convertUrlRule (\<lambda>_. None) ''get|PUT ~https://a(:8443)?/x'' = Inr u"
    unfolding u_def by code_simp
  from url_regex_rule_safe [OF this] show ?thesis by (simp add: u_def)
qed

end
