(* ===== verification/WildcardRules.thy ===== *)
theory WildcardRules
  imports Ipv4 UrlRules RawRegex "HOL-Library.Word"
begin

text \<open>
  \<^verbatim>\<open>src/core/lib/acl/wildcard-rules.ts\<close>: the strict pattern compiler of the
  \<^verbatim>\<open>universal\<close> engine, the conversion of a CIDR block to an expression over address
  texts, and the parsers of the rule inputs.
\<close>

unbundle bit_operations_syntax

section \<open>The source\<close>

definition wild_escape :: "char \<Rightarrow> string" where
  "wild_escape c = (if c = CHR ''?'' then ''[^.]'' else escape_meta c)"

definition domain_part :: "string \<Rightarrow> string \<Rightarrow> string acl" where
  "domain_part domain part =
     bind_e (checkHostLabel part domain) (\<lambda>_.
       if part = ''**'' then Inr ''.+''
       else if part = ''*'' then Inr ''[^.]+''
       else if CHR ''*'' \<in> set part then Inl (MixedWildcard domain part)
       else Inr (concat (map wild_escape part)))"

text \<open>\<^verbatim>\<open>Number(octet) & (0xff << (8 - bits)) & 0xff\<close>.\<close>

definition masked_octet :: "nat \<Rightarrow> nat \<Rightarrow> nat" where
  "masked_octet bits octet =
     unat ((of_nat octet :: 32 word) AND push_bit (8 - bits) 0xFF AND 0xFF)"

definition cidr_octet :: "nat \<Rightarrow> nat \<Rightarrow> nat \<Rightarrow> string" where
  "cidr_octet pre i octet =
     (let bits = min (pre - 8 * i) 8 in
      if bits = 0 then ''[0-9]+''
      else (let low = masked_octet bits octet in
        if bits = 8 then show_nat low
        else ''(?:'' @ join_with ''|'' (map (\<lambda>n. show_nat (low + n)) [0..<2 ^ (8 - bits)]) @ '')''))"

definition cidrToRegex :: "string \<Rightarrow> string" where
  "cidrToRegex cidr =
     (case split_on (CHR ''/'') cidr of
        address # pre # _ \<Rightarrow>
          (let os = split_on (CHR ''.'') address in
           join_with dot_sep (map (\<lambda>(i, o'). cidr_octet (decimal pre) i (decimal o')) (zip [0..<length os] os)))
      | _ \<Rightarrow> [])"

text \<open>\<^verbatim>\<open>/^[\d.]+\/\d+$/\<close>.\<close>

definition looks_like_cidr :: "string \<Rightarrow> bool" where
  "looks_like_cidr domain \<longleftrightarrow>
     (case split_on (CHR ''/'') domain of
        [a, p] \<Rightarrow> a \<noteq> [] \<and> list_all (\<lambda>c. is_digit c \<or> c = CHR ''.'') a \<and> p \<noteq> [] \<and> list_all is_digit p
      | _ \<Rightarrow> False)"

definition domainToRegex :: "string \<Rightarrow> string acl" where
  "domainToRegex domain =
     (if looks_like_cidr domain then
        (if IPV4_CIDR domain then Inr (cidrToRegex domain) else Inl (InvalidCidr domain))
      else map_e (join_with dot_sep) (traverse_e (domain_part domain) (split_on (CHR ''.'') domain)))"

definition wildcardToRegex :: "string \<Rightarrow> string acl" where
  "wildcardToRegex pattern =
     (case split_on (CHR '':'') pattern of
        [domain, port] \<Rightarrow>
          if domain \<noteq> [] then
            bind_e (checkPort port pattern) (\<lambda>_.
              map_e (\<lambda>d. d @ '':'' @ port_regex port) (domainToRegex domain))
          else Inl (InvalidPattern pattern)
      | _ \<Rightarrow> Inl (InvalidPattern pattern))"

definition convertRule :: "(string \<Rightarrow> string option) \<Rightarrow> string \<Rightarrow> string acl" where
  "convertRule syn rule =
     (if starts_with ''~'' rule then
        bind_e (splitRawRegexHost syn rule) (\<lambda>_. Inr (anchorRawRegex (drop 1 rule)))
      else map_e (\<lambda>rx. ''^'' @ rx @ ''$'') (wildcardToRegex rule))"

definition parseAndValidateRules :: "(string \<Rightarrow> string option) \<Rightarrow> string option \<Rightarrow> string list acl" where
  "parseAndValidateRules syn rulesInput =
     bind_e (splitRuleTokens rulesInput) (\<lambda>rules.
     bind_e (traverse_e (convertRule syn) rules) (\<lambda>_. Inr rules))"

definition completeRulePort :: "string \<Rightarrow> string" where
  "completeRulePort rule =
     (if \<not> starts_with ''~'' rule then (if CHR '':'' \<in> set rule then rule else rule @ '':*'')
      else (let regex = drop 1 rule in
        if snd (splitDomainFromPortPattern regex) \<noteq> None then rule
        else ''~'' @ (if endsAnchored regex then butlast regex else regex) @ '':'' @ [backslash] @ ''d+''))"

text \<open>\<^verbatim>\<open>splitKnownBlockedLines\<close>.\<close>

definition splitKnownBlockedLines :: "string option \<Rightarrow> string list acl" where
  "splitKnownBlockedLines rulesInput = split_rule_lines rulesInput"

definition isKnownBlockedUrlRule :: "string \<Rightarrow> bool" where
  "isKnownBlockedUrlRule line \<longleftrightarrow> list_ex js_space (js_trim line)"

definition parse_known_blocked :: "(string \<Rightarrow> string option) \<Rightarrow> string \<Rightarrow> string acl" where
  "parse_known_blocked syn line =
     (if isKnownBlockedUrlRule line then bind_e (convertUrlRule syn line) (\<lambda>_. Inr line)
      else (let completed = completeRulePort line in
        bind_e (convertRule syn completed) (\<lambda>_. Inr completed)))"

definition parseAndValidateKnownBlockedRules ::
    "(string \<Rightarrow> string option) \<Rightarrow> string option \<Rightarrow> string list acl" where
  "parseAndValidateKnownBlockedRules syn rulesInput =
     bind_e (splitKnownBlockedLines rulesInput) (\<lambda>lines. traverse_e (parse_known_blocked syn) lines)"

section \<open>The strict compiler and the partial one\<close>

lemma atomToRegex_no_star:
  "CHR ''*'' \<notin> set s \<Longrightarrow> atomToRegex DOMAIN s = concat (map wild_escape s)"
proof (induction DOMAIN s rule: atomToRegex.induct)
  case 2
  then show ?case by (auto simp: wild_escape_def DOMAIN_def)
next
  case (3 c d r)
  then show ?case by (auto simp: wild_escape_def DOMAIN_def)
qed simp

lemma domain_part_atom:
  "domain_part domain part = Inr r \<Longrightarrow>
   checkHostLabel part domain = Inr () \<and> r = atomToRegex DOMAIN part"
  by (auto simp: domain_part_def atomToRegex_no_star split: if_splits) (simp_all add: DOMAIN_def)

lemma domainToRegex_partial:
  assumes "domainToRegex domain = Inr d" and "\<not> looks_like_cidr domain"
  shows "domainToRegexPartial domain = Inr d"
proof -
  let ?labels = "split_on (CHR ''.'') domain"
  obtain rs where d: "traverse_e (domain_part domain) ?labels = Inr rs" "d = join_with dot_sep rs"
    using assms by (auto simp: domainToRegex_def)
  have "traverse_e (\<lambda>label. bind_e (checkHostLabel label domain) (\<lambda>_. Inr (atomToRegex DOMAIN label))) ?labels
      = Inr rs"
    using d(1) unfolding traverse_e_Inr
    by (rule list_all2_mono) (auto dest: domain_part_atom)
  then show ?thesis by (simp add: domainToRegexPartial_def d)
qed

lemma wildcardToRegex_Inr:
  assumes "wildcardToRegex pattern = Inr rx"
  obtains domain port d where "split_on (CHR '':'') pattern = [domain, port]" "domain \<noteq> []"
    "valid_port port" "domainToRegex domain = Inr d" "rx = d @ '':'' @ port_regex port"
proof -
  from assms obtain domain port where sp: "split_on (CHR '':'') pattern = [domain, port]"
    by (auto simp: wildcardToRegex_def split: list.splits)
  with assms show ?thesis
    using that [of domain port] by (auto simp: wildcardToRegex_def checkPort_def split: if_splits)
qed

lemma strict_partial:
  assumes "wildcardToRegex (domain @ CHR '':'' # port) = Inr rx"
    and "CHR '':'' \<notin> set domain" and "\<not> looks_like_cidr domain"
  shows "wildcardToRegexPartial (domain @ CHR '':'' # port) = Inr rx"
  using assms(1)
proof (rule wildcardToRegex_Inr)
  fix domain' port' d
  assume h: "split_on (CHR '':'') (domain @ CHR '':'' # port) = [domain', port']" "domain' \<noteq> []"
    "valid_port port'" "domainToRegex domain' = Inr d" "rx = d @ '':'' @ port_regex port'"
  then have d: "domain' = domain" using assms(2) by simp
  have "port' = ''*'' \<or> (port' \<noteq> [] \<and> list_all is_digit port')"
    using h(3) by (auto simp: valid_port_def)
  then show ?thesis
    using h d domainToRegex_partial [of domain d] assms(3) by (simp add: wildcardToRegexPartial_def)
qed

section \<open>CIDR blocks\<close>

text \<open>The number an address stands for, and the bits of an octet that a prefix leaves free.\<close>

definition addr :: "nat list \<Rightarrow> nat" where
  "addr os = foldl (\<lambda>n o'. 256 * n + o') 0 os"

definition ipv4_word :: "nat list \<Rightarrow> 32 word" where
  "ipv4_word os = of_nat (addr os)"

definition keep :: "nat \<Rightarrow> nat \<Rightarrow> nat" where
  "keep p i = 8 - min (p - 8 * i) 8"

lemma bit_small: "bit (m::nat) n \<Longrightarrow> m < 2 ^ k \<Longrightarrow> n < k"
  by (metis bit_take_bit_iff take_bit_nat_eq_self)

lemma masked_nat:
  assumes "m < (256::nat)" "k \<le> 8"
  shows "m AND (push_bit k 255 AND 255) = push_bit k (drop_bit k m)"
proof (rule bit_eqI)
  fix n
  have m: "(255::nat) = mask 8" by (simp add: mask_eq_exp_minus_1)
  have b: "bit m n \<Longrightarrow> n < 8" using bit_small [of m n 8] assms by simp
  show "bit (m AND (push_bit k 255 AND 255)) n = bit (push_bit k (drop_bit k m)) n"
    unfolding m using b assms(2) by (auto simp: bit_simps)
qed

lemma masked_word:
  assumes "m < (256::nat)" "k \<le> 8"
  shows "unat ((of_nat m :: 32 word) AND push_bit k 0xFF AND 0xFF) = m div 2 ^ k * 2 ^ k"
proof -
  have "k \<in> {0,1,2,3,4,5,6,7,8}" using assms by auto
  then have p: "unat (push_bit k 0xFF :: 32 word) = push_bit k 255"
    by (auto simp: push_bit_eq_mult)
  have "unat (of_nat m :: 32 word) = m" using assms by (simp add: unsigned_of_nat take_bit_nat_eq_self)
  then have "unat ((of_nat m :: 32 word) AND (push_bit k 0xFF AND 0xFF)) = m AND (push_bit k 255 AND 255)"
    by (simp only: unsigned_and_eq p) simp
  then show ?thesis using masked_nat [OF assms]
    by (simp add: and.assoc push_bit_eq_mult drop_bit_eq_div)
qed


lemma div_pair:
  fixes x x' y y' :: nat
  assumes "y < 256" "y' < 256" "j \<le> 8"
  shows "(256 * x + y) div 2 ^ j = (256 * x' + y') div 2 ^ j \<longleftrightarrow> x = x' \<and> y div 2 ^ j = y' div 2 ^ j"
proof -
  have p: "256 = (2::nat) ^ (8 - j) * 2 ^ j" using assms(3)
    by (simp flip: power_add)
  have d: "(256 * x + y) div 2 ^ j = 2 ^ (8 - j) * x + y div 2 ^ j" for x y :: nat
  proof -
    have "256 * x + y = y + (2 ^ (8 - j) * x) * 2 ^ j" by (subst p) simp
    moreover have "(y + A * 2 ^ j) div 2 ^ j = A + y div 2 ^ j" for A by simp
    ultimately show ?thesis by metis
  qed
  have l: "y div 2 ^ j < 2 ^ (8 - j)" if "y < 256" for y :: nat
    using that by (subst div_less_iff_less_mult) (simp_all add: p [symmetric])
  show ?thesis
  proof
    assume "(256 * x + y) div 2 ^ j = (256 * x' + y') div 2 ^ j"
    then have e: "2 ^ (8 - j) * x + y div 2 ^ j = 2 ^ (8 - j) * x' + y' div 2 ^ j" by (simp add: d)
    then have "(2 ^ (8 - j) * x + y div 2 ^ j) div 2 ^ (8 - j) = (2 ^ (8 - j) * x' + y' div 2 ^ j) div 2 ^ (8 - j)" by simp
    then have "x = x'" using l [OF assms(1)] l [OF assms(2)] by simp
    with e show "x = x' \<and> y div 2 ^ j = y' div 2 ^ j" by simp
  qed (simp add: d)
qed
lemma div_shift: "(256 * x + y) div 2 ^ (8 + j) = x div 2 ^ j" if "y < (256::nat)"
proof -
  have "(256 * x + y) div 2 ^ (8 + j) = (256 * x + y) div 256 div 2 ^ j"
    by (simp add: power_add div_mult2_eq)
  then show ?thesis using that by simp
qed

lemma addr_block:
  assumes "a < 256" "b < 256" "c < 256" "d < 256" "a' < 256" "b' < 256" "c' < 256" "d' < 256" "p \<le> 32"
  shows "addr [a,b,c,d] div 2 ^ (32 - p) = addr [a',b',c',d'] div 2 ^ (32 - p) \<longleftrightarrow>
    a div 2 ^ keep p 0 = a' div 2 ^ keep p 0 \<and> b div 2 ^ keep p 1 = b' div 2 ^ keep p 1 \<and>
    c div 2 ^ keep p 2 = c' div 2 ^ keep p 2 \<and> d div 2 ^ keep p 3 = d' div 2 ^ keep p 3"
proof -
  have addr: "addr [a,b,c,d] = 256 * (256 * (256 * a + b) + c) + d" for a b c d by (simp add: addr_def)
  have z: "x div 2 ^ 8 = 0" if "x < (256::nat)" for x using that by simp
  consider "p \<le> 8" | "8 < p" "p \<le> 16" | "16 < p" "p \<le> 24" | "24 < p" by linarith
  then show ?thesis
  proof cases
    case 1
    then have s: "32 - p = 8 + (8 + (8 + (8 - p)))" "keep p 0 = 8 - p" "keep p 1 = 8" "keep p 2 = 8" "keep p 3 = 8"
      using assms(9) by (simp_all add: keep_def)
    show ?thesis unfolding addr s by (simp only: div_shift z assms) simp
  next
    case 2
    then have s: "32 - p = 8 + (8 + (16 - p))" "keep p 0 = 0" "keep p 1 = 16 - p" "keep p 2 = 8" "keep p 3 = 8" "16 - p \<le> 8"
      by (simp_all add: keep_def)
    show ?thesis unfolding addr s using div_pair [of b b' "16 - p" a a'] s(6) assms
      by (simp only: div_shift z) simp
  next
    case 3
    then have s: "32 - p = 8 + (24 - p)" "keep p 0 = 0" "keep p 1 = 0" "keep p 2 = 24 - p" "keep p 3 = 8" "24 - p \<le> 8"
      by (simp_all add: keep_def)
    show ?thesis unfolding addr s
      using div_pair [of c c' "24 - p" "256 * a + b" "256 * a' + b'"] div_pair [of b b' 0 a a'] s(6) assms
      by (simp only: div_shift z) simp
  next
    case 4
    then have s: "keep p 0 = 0" "keep p 1 = 0" "keep p 2 = 0" "keep p 3 = 32 - p" "32 - p \<le> 8"
      using assms by (simp_all add: keep_def)
    show ?thesis unfolding addr s(1-4)
      using div_pair [of d d' "32 - p" "256 * (256 * a + b) + c" "256 * (256 * a' + b') + c'"]
        div_pair [of c c' 0 "256 * a + b" "256 * a' + b'"] div_pair [of b b' 0 a a'] s(5) assms
      by simp
  qed
qed

lemma ipv4_word_drop:
  assumes "N < 2 ^ 32"
  shows "unat (drop_bit j (of_nat N :: 32 word)) = N div 2 ^ j"
proof -
  have "unat (of_nat N :: 32 word) = N" using assms by (simp add: unsigned_of_nat take_bit_nat_eq_self)
  then have "unat (drop_bit j (of_nat N :: 32 word)) = drop_bit j (take_bit 32 N)"
    by (simp only: unsigned_drop_bit_eq) simp
  then show ?thesis using assms by (simp add: take_bit_nat_eq_self drop_bit_eq_div)
qed
lemma masked_octet_eq: "m \<le> 255 \<Longrightarrow> masked_octet bits m = m div 2 ^ (8 - bits) * 2 ^ (8 - bits)"
  using masked_word [of m "8 - bits"] by (simp add: masked_octet_def)

lemma block_values:
  fixes v m :: nat
  shows "(\<exists>n<2 ^ k. v = m div 2 ^ k * 2 ^ k + n) \<longleftrightarrow> v div 2 ^ k = m div 2 ^ k"
proof
  assume "v div 2 ^ k = m div 2 ^ k"
  then show "\<exists>n<2 ^ k. v = m div 2 ^ k * 2 ^ k + n"
    by (metis div_mult_mod_eq mod_less_divisor zero_less_numeral zero_less_power)
qed auto

definition digit_word :: "string \<Rightarrow> bool" where
  "digit_word w \<longleftrightarrow> w \<noteq> [] \<and> list_all is_digit w"

lemma show_nat_digit_word [simp]: "digit_word (show_nat n)"
  by (simp add: digit_word_def show_nat_digits)

lemma digit_word_free: "digit_word w \<Longrightarrow> \<not> is_digit c \<Longrightarrow> c \<notin> set w"
  by (auto simp: digit_word_def list_all_iff)

lemma means_show_nat: "means (show_nat n) {show_nat n}"
  using show_nat_digits [of n]
  by (intro means_literal) (auto simp: list_all_iff digit_not_syntax)

lemma means_any_number: "means ''[0-9]+'' {w. digit_word w}"
proof -
  have "lexes ''[0-9]'' [TCls (Cls False [(CHR ''0'', CHR ''9'')])]" by (rule lexes_range) simp_all
  from means_plus_cls [OF this] show ?thesis
    by (simp add: in_range_digits digit_word_def list_all_iff)
qed

lemma cidr_octet_means:
  assumes "m \<le> 255"
  obtains L where "means (cidr_octet p i m) L" "\<forall>w\<in>L. digit_word w"
    "\<And>v. v \<le> 255 \<Longrightarrow> show_nat v \<in> L \<longleftrightarrow> v div 2 ^ keep p i = m div 2 ^ keep p i"
proof -
  define bits where "bits = min (p - 8 * i) 8"
  have keep: "keep p i = 8 - bits" by (simp add: keep_def bits_def)
  let ?low = "masked_octet bits m"
  have "bits \<le> 8" by (simp add: bits_def)
  then consider "bits = 0" | "bits = 8" | "0 < bits" "bits < 8" by linarith
  then show ?thesis
  proof cases
    case 1
    then have c: "cidr_octet p i m = ''[0-9]+''" by (simp add: cidr_octet_def flip: bits_def)
    have "v div 2 ^ keep p i = 0" if "v \<le> 255" for v :: nat using that by (simp add: keep 1)
    then show ?thesis using assms
      by (intro that [of "{w. digit_word w}"]) (simp_all add: c means_any_number)
  next
    case 2
    then have c: "cidr_octet p i m = show_nat m"
      using assms by (simp add: cidr_octet_def masked_octet_eq flip: bits_def)
    show ?thesis by (rule that [of "{show_nat m}"]) (simp_all add: c means_show_nat keep 2)
  next
    case 3
    let ?vs = "map (\<lambda>n. show_nat (?low + n)) [0..<2 ^ (8 - bits)]"
    let ?Ls = "map (\<lambda>n. {show_nat (?low + n)}) [0..<2 ^ (8 - bits)]"
    have c: "cidr_octet p i m = ''(?:'' @ join_with ''|'' ?vs @ '')''"
      using 3 by (simp add: cidr_octet_def flip: bits_def)
    have "list_all2 means ?vs ?Ls"
      by (simp add: list_all2_conv_all_nth means_show_nat)
    then have "means (cidr_octet p i m) (\<Union>(set ?Ls))"
      unfolding c by (rule means_group) simp
    moreover have "show_nat v \<in> \<Union>(set ?Ls) \<longleftrightarrow> v div 2 ^ keep p i = m div 2 ^ keep p i" for v
      using block_values [of "8 - bits" v m] assms by (auto simp: keep masked_octet_eq)
    moreover have "\<forall>w\<in>\<Union>(set ?Ls). digit_word w" by auto
    ultimately show ?thesis using that by blast
  qed
qed

lemma conc_sep:
  assumes "\<forall>w\<in>A. c \<notin> set w" and "c \<notin> set u"
  shows "u @ c # t \<in> conc A (conc {[c]} B) \<longleftrightarrow> u \<in> A \<and> t \<in> B"
  using assms sep_inject [of c u] by (fastforce simp: conc_def)

lemma dot_free: "digit_word w \<Longrightarrow> CHR ''.'' \<notin> set w"
  by (rule digit_word_free) (simp_all add: is_digit_def)

lemma split_ipv4_text:
  "split_on (CHR ''.'') (ipv4_text [a, b, c, d]) = [show_nat a, show_nat b, show_nat c, show_nat d]"
  unfolding ipv4_text_def by (subst split_on_join) (auto simp: dot_free)

lemma ipv4_text_chars: "x \<in> set (ipv4_text [a, b, c, d]) \<Longrightarrow> is_digit x \<or> x = CHR ''.''"
  using show_nat_digits by (fastforce simp: ipv4_text_def list_all_iff)

lemma ipv4_text_free:
  "\<not> is_digit x \<Longrightarrow> x \<noteq> CHR ''.'' \<Longrightarrow> x \<notin> set (ipv4_text [a, b, c, d])"
  using ipv4_text_chars by blast

lemma address_block_means:
  assumes "a \<le> 255" "b \<le> 255" "c \<le> 255" "d \<le> 255" "p \<le> 32"
  obtains L where
    "means (cidrToRegex (ipv4_text [a, b, c, d] @ CHR ''/'' # show_nat p)) L"
    "\<forall>w\<in>L. CHR '':'' \<notin> set w"
    "\<And>a' b' c' d'. list_all (\<lambda>n. n \<le> 255) [a', b', c', d'] \<Longrightarrow>
       ipv4_text [a', b', c', d'] \<in> L \<longleftrightarrow>
       addr [a', b', c', d'] div 2 ^ (32 - p) = addr [a, b, c, d] div 2 ^ (32 - p)"
proof -
  obtain A where A: "means (cidr_octet p 0 a) A" "\<forall>w\<in>A. digit_word w"
    "\<And>v. v \<le> 255 \<Longrightarrow> show_nat v \<in> A \<longleftrightarrow> v div 2 ^ keep p 0 = a div 2 ^ keep p 0"
    using cidr_octet_means [OF assms(1), of p 0] by blast
  obtain B where B: "means (cidr_octet p 1 b) B" "\<forall>w\<in>B. digit_word w"
    "\<And>v. v \<le> 255 \<Longrightarrow> show_nat v \<in> B \<longleftrightarrow> v div 2 ^ keep p 1 = b div 2 ^ keep p 1"
    using cidr_octet_means [OF assms(2), of p 1] by blast
  obtain C where C: "means (cidr_octet p 2 c) C" "\<forall>w\<in>C. digit_word w"
    "\<And>v. v \<le> 255 \<Longrightarrow> show_nat v \<in> C \<longleftrightarrow> v div 2 ^ keep p 2 = c div 2 ^ keep p 2"
    using cidr_octet_means [OF assms(3), of p 2] by blast
  obtain D where D: "means (cidr_octet p 3 d) D" "\<forall>w\<in>D. digit_word w"
    "\<And>v. v \<le> 255 \<Longrightarrow> show_nat v \<in> D \<longleftrightarrow> v div 2 ^ keep p 3 = d div 2 ^ keep p 3"
    using cidr_octet_means [OF assms(4), of p 3] by blast
  let ?L = "conc A (conc {''.''} (conc B (conc {''.''} (conc C (conc {''.''} D)))))"
  have slash: "CHR ''/'' \<notin> set (ipv4_text [a, b, c, d])" "CHR ''/'' \<notin> set (show_nat p)"
    by (rule ipv4_text_free, simp_all add: is_digit_def digit_word_free)
  have cut: "cidrToRegex (ipv4_text [a, b, c, d] @ CHR ''/'' # show_nat p) =
      cidr_octet p 0 a @ dot_sep @ cidr_octet p 1 b @ dot_sep @ cidr_octet p 2 c @ dot_sep @ cidr_octet p 3 d"
    by (simp add: cidrToRegex_def slash split_ipv4_text Let_def upt_rec
        numeral_2_eq_2 numeral_3_eq_3)
  have "means (cidrToRegex (ipv4_text [a, b, c, d] @ CHR ''/'' # show_nat p)) ?L"
    unfolding cut by (intro means_append A B C D means_dot_sep)
  moreover have "\<forall>w\<in>?L. CHR '':'' \<notin> set w"
    using A(2) B(2) C(2) D(2) digit_word_free [of _ "CHR '':''"]
    by (fastforce simp: conc_def is_digit_def)
  moreover have "ipv4_text [a', b', c', d'] \<in> ?L \<longleftrightarrow>
      addr [a', b', c', d'] div 2 ^ (32 - p) = addr [a, b, c, d] div 2 ^ (32 - p)"
    if v: "list_all (\<lambda>n. n \<le> 255) [a', b', c', d']" for a' b' c' d'
  proof -
    have t: "ipv4_text [a', b', c', d'] =
        show_nat a' @ CHR ''.'' # show_nat b' @ CHR ''.'' # show_nat c' @ CHR ''.'' # show_nat d'"
      by (simp add: ipv4_text_def)
    have "ipv4_text [a', b', c', d'] \<in> ?L \<longleftrightarrow>
        show_nat a' \<in> A \<and> show_nat b' \<in> B \<and> show_nat c' \<in> C \<and> show_nat d' \<in> D"
      using A(2) B(2) C(2) dot_free unfolding t by (simp add: conc_sep)
    also have "\<dots> \<longleftrightarrow> addr [a', b', c', d'] div 2 ^ (32 - p) = addr [a, b, c, d] div 2 ^ (32 - p)"
      using addr_block [of a' b' c' d' a b c d p] v assms A(3) B(3) C(3) D(3) by simp
    finally show ?thesis .
  qed
  ultimately show ?thesis using that by blast
qed

lemma is_ipv4_text: "list_all (\<lambda>n. n \<le> 255) [a, b, c, d] \<Longrightarrow> is_ipv4 (ipv4_text [a, b, c, d])"
  by (auto simp: is_ipv4_def Let_def split_ipv4_text upto_text_iff)

lemma cidr_domain:
  assumes "list_all (\<lambda>n. n \<le> 255) [a, b, c, d]" "p \<le> 32"
  shows "domainToRegex (ipv4_text [a, b, c, d] @ CHR ''/'' # show_nat p) =
    Inr (cidrToRegex (ipv4_text [a, b, c, d] @ CHR ''/'' # show_nat p))"
proof -
  have "split_on (CHR ''/'') (ipv4_text [a, b, c, d] @ CHR ''/'' # show_nat p) =
      [ipv4_text [a, b, c, d], show_nat p]"
    using ipv4_text_free [of "CHR ''/''" a b c d] digit_word_free [of "show_nat p" "CHR ''/''"]
    by (simp add: is_digit_def)
  moreover have "ipv4_text [a, b, c, d] \<noteq> []" by (simp add: ipv4_text_def)
  ultimately have "looks_like_cidr (ipv4_text [a, b, c, d] @ CHR ''/'' # show_nat p)"
    using ipv4_text_chars show_nat_digits by (auto simp: looks_like_cidr_def list_all_iff)
  moreover have "IPV4_CIDR (ipv4_text [a, b, c, d] @ CHR ''/'' # show_nat p)"
    unfolding IPV4_CIDR_iff using is_ipv4_text [OF assms(1)] assms(2) upto_text_iff by blast
  ultimately show ?thesis by (simp add: domainToRegex_def)
qed

section \<open>Properties of the host rules\<close>

text \<open>C2. A CIDR rule compiles to an expression that matches the text of exactly the
  addresses of its block, as 32-bit words that agree on the bits the prefix fixes, at the
  port the rule names.\<close>

theorem convertRule_cidr_exact:
  assumes "list_all (\<lambda>n. n \<le> 255) [a, b, c, d]" and "p \<le> 32"
    and "list_all (\<lambda>n. n \<le> 255) [a', b', c', d']"
    and "port = ''*'' \<or> (\<exists>n. 1 \<le> n \<and> n \<le> 65535 \<and> port = show_nat n)"
  shows "\<exists>rx. convertRule syn (ipv4_text [a, b, c, d] @ ''/'' @ show_nat p @ '':'' @ port) = Inr rx \<and>
    (rx_matches rx (ipv4_text [a', b', c', d'] @ '':'' @ show_nat q) \<longleftrightarrow>
       drop_bit (32 - p) (ipv4_word [a', b', c', d']) = drop_bit (32 - p) (ipv4_word [a, b, c, d]) \<and>
       (port = ''*'' \<or> port = show_nat q))"
proof -
  let ?dom = "ipv4_text [a, b, c, d] @ CHR ''/'' # show_nat p"
  have ab: "a \<le> 255" "b \<le> 255" "c \<le> 255" "d \<le> 255" using assms(1) by simp_all
  obtain L where L: "means (cidrToRegex ?dom) L" "\<forall>w\<in>L. CHR '':'' \<notin> set w"
    "ipv4_text [a', b', c', d'] \<in> L \<longleftrightarrow>
       addr [a', b', c', d'] div 2 ^ (32 - p) = addr [a, b, c, d] div 2 ^ (32 - p)"
    using address_block_means [OF ab assms(2)] assms(3) by metis
  have nc: "CHR '':'' \<notin> set (ipv4_text [k, l, m, n])" for k l m n
    by (rule ipv4_text_free) (simp_all add: is_digit_def)
  have port: "port = ''*'' \<or> list_all is_digit port" "checkPort port rule = Inr ()" "CHR '':'' \<notin> set port" for rule
    using assms(4) show_nat_digits digit_word_free [of _ "CHR '':''"]
    by (auto simp: checkPort_iff is_digit_def)
  have split: "split_on (CHR '':'') (?dom @ CHR '':'' # port) = [?dom, port]"
    using nc port(3) digit_word_free [of "show_nat p" "CHR '':''"]
    by (intro split_on_two [THEN iffD2]) (simp add: is_digit_def)
  have ne: "ipv4_text [a, b, c, d] \<noteq> []" by (simp add: ipv4_text_def)
  have "\<not> starts_with ''~'' (ipv4_text [a, b, c, d] @ t)" for t
    using ne ipv4_text_chars [of "hd (ipv4_text [a, b, c, d])" a b c d]
    by (cases "ipv4_text [a, b, c, d]") (auto simp: is_digit_def)
  then have conv: "convertRule syn (?dom @ '':'' @ port) =
      Inr (''^'' @ (cidrToRegex ?dom @ '':'' @ port_regex port) @ ''$'')"
    using split cidr_domain [OF assms(1,2)] port(2) ne
    by (simp add: convertRule_def wildcardToRegex_def)
  let ?P = "{s. port_accepts port s}"
  have "means (cidrToRegex ?dom @ '':'' @ port_regex port) (conc L (conc {'':''} ?P))"
    by (intro means_append L means_colon port_means port)
  from means_anchored [OF this, of "ipv4_text [a', b', c', d'] @ '':'' @ show_nat q"]
  have "rx_matches (''^'' @ (cidrToRegex ?dom @ '':'' @ port_regex port) @ ''$'')
      (ipv4_text [a', b', c', d'] @ '':'' @ show_nat q) \<longleftrightarrow>
      ipv4_text [a', b', c', d'] \<in> L \<and> port_accepts port (show_nat q)"
    using conc_sep [OF L(2) nc, of a' b' c' d' "show_nat q" ?P] by simp
  moreover have "port_accepts port (show_nat q) \<longleftrightarrow> port = ''*'' \<or> port = show_nat q"
    using show_nat_digits by (auto simp: port_accepts_def)
  moreover have "drop_bit (32 - p) (ipv4_word [a', b', c', d']) = drop_bit (32 - p) (ipv4_word [a, b, c, d]) \<longleftrightarrow>
      addr [a', b', c', d'] div 2 ^ (32 - p) = addr [a, b, c, d] div 2 ^ (32 - p)"
  proof -
    have lt: "addr [k, l, m, n] < 2 ^ 32" if "list_all (\<lambda>n. n \<le> 255) [k, l, m, n]" for k l m n
      using that by (simp add: addr_def)
    show ?thesis unfolding ipv4_word_def
      using ipv4_word_drop [OF lt [OF assms(1)], of "32 - p"] ipv4_word_drop [OF lt [OF assms(3)], of "32 - p"]
        unsigned_word_eqI by metis
  qed
  ultimately show ?thesis using L(3) conv by simp
qed

theorem convertRule_cidr_exact_witness:
  "\<exists>rx. convertRule (\<lambda>_. None) (ipv4_text [10, 1, 0, 0] @ ''/'' @ show_nat 20 @ '':'' @ ''443'') = Inr rx \<and>
    (rx_matches rx (ipv4_text [10, 1, 15, 200] @ '':'' @ show_nat 443) \<longleftrightarrow>
       drop_bit (32 - 20) (ipv4_word [10, 1, 15, 200]) = drop_bit (32 - 20) (ipv4_word [10, 1, 0, 0]) \<and>
       (''443'' = ''*'' \<or> ''443'' = show_nat 443))"
proof (rule convertRule_cidr_exact)
  have "''443'' = show_nat 443" by code_simp
  then show "''443'' = ''*'' \<or> (\<exists>n. 1 \<le> n \<and> n \<le> 65535 \<and> ''443'' = show_nat n)"
    by (intro disjI2 exI [of _ 443]) simp
qed simp_all

text \<open>C1. A wildcard rule that is not a CIDR block compiles to an expression that matches a
  \<^verbatim>\<open>host:port\<close> text exactly when the host fits the wildcards of the domain, label by
  label, and the port is the one named, or any number for a star.\<close>

theorem convertRule_wildcard_exact:
  assumes "convertRule syn (domain @ '':'' @ port) = Inr rx"
    and "CHR '':'' \<notin> set domain" and "\<not> starts_with ''~'' domain" and "\<not> looks_like_cidr domain"
  shows "rx_matches rx s \<longleftrightarrow> host_port_accepts domain port s"
proof -
  have dne: "domain \<noteq> []"
    using assms(1) by (cases domain) (auto simp: convertRule_def wildcardToRegex_def split: list.splits if_splits)
  then have "\<not> starts_with ''~'' (domain @ '':'' @ port)"
    using assms(3) by (cases domain) auto
  then obtain w where w: "wildcardToRegex (domain @ CHR '':'' # port) = Inr w" "rx = ''^'' @ w @ ''$''"
    using assms(1) by (auto simp: convertRule_def)
  from w(1) show ?thesis
  proof (rule wildcardToRegex_Inr)
    fix domain' port' d
    assume h: "split_on (CHR '':'') (domain @ CHR '':'' # port) = [domain', port']" "domain' \<noteq> []"
      "valid_port port'" "domainToRegex domain' = Inr d" "w = d @ '':'' @ port_regex port'"
    have "domain @ CHR '':'' # port = domain' @ CHR '':'' # port' \<and> CHR '':'' \<notin> set domain'"
      using h(1) unfolding split_on_two by blast
    then have eq: "domain' = domain" "port' = port" using sep_inject assms(2) by metis+
    have "means d {t. domain_accepts domain t}"
      using domain_means domainToRegex_partial h(4) eq assms(4) by blast
    moreover have "port = ''*'' \<or> list_all is_digit port"
      using h(3) eq by (auto simp: valid_port_def)
    ultimately have "means w {s. host_port_accepts domain port s}"
      using host_port_means h(5) eq by simp
    from means_anchored [OF this] show ?thesis by (simp add: w(2))
  qed
qed

theorem convertRule_wildcard_exact_witness:
  "rx_matches (''^'' @ ''[^.]+'' @ dot_sep @ ''ex[^.]mple'' @ dot_sep @ ''com:443$'') ''a.example.com:443'' \<longleftrightarrow>
   host_port_accepts ''*.ex?mple.com'' ''443'' ''a.example.com:443''"
  by (rule convertRule_wildcard_exact [of "\<lambda>_. None"]) code_simp+

text \<open>The strict compiler and the one that allows a wildcard inside a label are the same
  function on every pattern the strict one takes, CIDR blocks apart: one rule means the
  same under both engines.\<close>

theorem compilers_agree:
  assumes "wildcardToRegex (domain @ '':'' @ port) = Inr rx"
    and "CHR '':'' \<notin> set domain" and "\<not> looks_like_cidr domain"
  shows "wildcardToRegexPartial (domain @ '':'' @ port) = Inr rx"
  using strict_partial assms by simp

theorem compilers_agree_witness:
  "wildcardToRegexPartial (''**.a-b.org'' @ '':'' @ ''*'') = Inr (''.+'' @ dot_sep @ ''a-b'' @ dot_sep @ ''org:'' @ [backslash] @ ''d+'')"
  by (rule compilers_agree) code_simp+

section \<open>Round trips of the rule inputs\<close>

lemma completeRulePort_colon:
  "\<not> starts_with ''~'' line \<Longrightarrow> completeRulePort (completeRulePort line) = completeRulePort line"
  by (cases line) (auto simp: completeRulePort_def)

lemma completeRulePort_regex:
  assumes "starts_with ''~'' line" and "convertRule syn line = Inr rx"
  shows "completeRulePort line = line"
proof -
  have "snd (splitDomainFromPortPattern (drop 1 line)) \<noteq> None"
    using assms by (auto simp: convertRule_def splitRawRegexHost_def Let_def split: option.splits prod.splits)
  then show ?thesis using assms(1) by (auto simp: completeRulePort_def Let_def simp del: starts_with_Cons)
qed

lemma completeRulePort_starts: "starts_with ''~'' line \<Longrightarrow> starts_with ''~'' (completeRulePort line)"
  by (auto simp: completeRulePort_def Let_def)

lemma trim_spaces: "list_ex js_space (js_trim s) \<Longrightarrow> list_ex js_space s"
  using trim_subset by (fastforce simp: list_ex_iff)

lemma completed_chars:
  "\<forall>c\<in>set (completeRulePort line). c \<in> set line \<or> c \<in> {CHR '':'', CHR ''*'', backslash, CHR ''d'', CHR ''+'', CHR ''~''}"
  by (auto simp: completeRulePort_def Let_def dest: in_set_butlastD in_set_dropD)

lemma trim_free: "js_trim s = s \<longleftrightarrow> s = [] \<or> \<not> js_space (hd s) \<and> \<not> js_space (last s)"
  using trim_id [of s] trim_ends [of s] by (cases "s = []") auto

lemma completed_ends:
  assumes "line \<noteq> []" "js_trim line = line"
  shows "completeRulePort line \<noteq> [] \<and> js_trim (completeRulePort line) = completeRulePort line"
proof -
  have e: "\<not> js_space (hd line)" "\<not> js_space (last line)" using assms trim_free by auto
  have s: "\<not> js_space (CHR ''~'')" "\<not> js_space (CHR ''*'')" "\<not> js_space (CHR ''+'')"
    by (simp_all add: js_space_def)
  show ?thesis unfolding trim_free using e assms(1) s
    by (auto simp: completeRulePort_def Let_def)
qed

lemma parse_known_blocked_again:
  assumes "parse_known_blocked syn line = Inr l" and "js_trim line = line" and "line \<noteq> []"
  shows "parse_known_blocked syn l = Inr l"
proof (cases "isKnownBlockedUrlRule line")
  case True
  with assms show ?thesis by (auto simp: parse_known_blocked_def)
next
  case False
  with assms obtain rx where l: "l = completeRulePort line" "convertRule syn l = Inr rx"
    by (auto simp: parse_known_blocked_def Let_def)
  have again: "completeRulePort l = l"
  proof (cases "starts_with ''~'' line")
    case True
    then show ?thesis using completeRulePort_starts completeRulePort_regex l by blast
  next
    case False
    then show ?thesis using completeRulePort_colon l by blast
  qed
  have "\<not> isKnownBlockedUrlRule l"
  proof
    assume "isKnownBlockedUrlRule l"
    then obtain c where c: "c \<in> set l" "js_space c"
      using trim_spaces [of l] by (auto simp: isKnownBlockedUrlRule_def list_ex_iff)
    then have "c \<in> set line" using completed_chars [of line] by (auto simp: l(1) js_space_def)
    then show False using False c(2) assms(2) by (auto simp: isKnownBlockedUrlRule_def list_ex_iff)
  qed
  then show ?thesis using l(2) by (simp add: parse_known_blocked_def again)
qed

text \<open>What an accepted line keeps of the line it came from.\<close>

lemma parsed_line:
  assumes "parse_known_blocked syn line = Inr l" and "line \<noteq> []" "js_trim line = line"
    and "CHR ''#'' \<notin> set line" "newline_char \<notin> set line"
  shows "l \<noteq> [] \<and> js_trim l = l \<and> CHR ''#'' \<notin> set l \<and> newline_char \<notin> set l"
proof -
  have "l = line \<or> l = completeRulePort line"
    using assms(1) by (auto simp: parse_known_blocked_def Let_def split: if_splits)
  then show ?thesis using assms completed_ends [of line] completed_chars [of line] by auto
qed

lemma split_lines_newline: "l \<in> set (split_lines s) \<Longrightarrow> newline_char \<notin> set l"
proof -
  assume "l \<in> set (split_lines s)"
  then have "l = last (split_on newline_char s) \<or> (\<exists>p\<in>set (split_on newline_char s). l = drop_cr p)"
    by (auto simp: split_lines_def Let_def dest: in_set_butlastD)
  then obtain p where p: "p \<in> set (split_on newline_char s)" "l = p \<or> l = drop_cr p"
    using last_in_set [OF split_on_ne [of newline_char s]] by blast
  then show ?thesis using split_on_no_sep [of p newline_char s]
    by (auto simp: drop_cr_def dest: in_set_butlastD split: if_splits)
qed

lemma split_rule_lines_newline:
  "split_rule_lines inp = Inr ls \<Longrightarrow> l \<in> set ls \<Longrightarrow> newline_char \<notin> set l"
proof -
  assume h: "split_rule_lines inp = Inr ls" "l \<in> set ls"
  then obtain s k where "k \<in> set (split_lines s)" "l = js_trim (stripLineComment k)"
    by (auto simp: split_rule_lines_def Let_def split: option.splits)
  then show ?thesis
    using split_lines_newline trim_subset [of "stripLineComment k"] strip_prefix [of k] set_mono_prefix by blast
qed

lemma split_rule_lines_join:
  assumes "\<forall>l\<in>set ls. l \<noteq> [] \<and> js_trim l = l \<and> CHR ''#'' \<notin> set l \<and> newline_char \<notin> set l"
  shows "split_rule_lines (Some (join_with [newline_char] ls)) = Inr ls"
proof (cases "ls = []")
  case True
  then show ?thesis by (simp add: split_rule_lines_def split_lines_def stripLineComment_def js_trim_def)
next
  case False
  have cr: "drop_cr l = l" if "l \<in> set ls" for l
  proof -
    have "l \<noteq> []" "js_trim l = l" using assms that by auto
    then have "\<not> js_space (last l)" using trim_free by auto
    then have "last l \<noteq> cr_char" by auto
    then show ?thesis by (simp add: drop_cr_def)
  qed
  have "split_lines (join_with [newline_char] ls) = map drop_cr (butlast ls) @ [last ls]"
    using assms False by (simp add: split_lines_def split_on_join)
  also have "map drop_cr (butlast ls) = butlast ls"
    using cr by (intro map_idI) (auto dest: in_set_butlastD)
  finally have sp: "split_lines (join_with [newline_char] ls) = ls" using False by simp
  have "map (\<lambda>l. js_trim (stripLineComment l)) ls = ls"
    using assms by (intro map_idI) (auto simp: strip_id)
  moreover have "filter (\<lambda>l. l \<noteq> []) ls = ls" using assms by (intro filter_True) auto
  moreover have "traverse_e rejectGluedHash ls = Inr (map (\<lambda>_. ()) ls)"
    using assms by (intro traverse_e_all) (auto simp: rejectGluedHash_def)
  ultimately show ?thesis by (simp add: split_rule_lines_def sp)
qed

text \<open>What the parser of \<^verbatim>\<open>known-blocked-rules\<close> returns, joined by newlines, is parsed
  to itself: the completed rules pass through the container's environment unchanged.\<close>

theorem known_blocked_roundtrip:
  assumes "parseAndValidateKnownBlockedRules syn inp = Inr ls"
  shows "parseAndValidateKnownBlockedRules syn (Some (join_with [newline_char] ls)) = Inr ls"
proof -
  obtain ks where ks: "split_rule_lines inp = Inr ks" "traverse_e (parse_known_blocked syn) ks = Inr ls"
    using assms by (auto simp: parseAndValidateKnownBlockedRules_def splitKnownBlockedLines_def)
  have k: "k \<noteq> [] \<and> CHR ''#'' \<notin> set k \<and> js_trim k = k \<and> newline_char \<notin> set k" if "k \<in> set ks" for k
    using split_rule_lines_line [OF ks(1) that] split_rule_lines_newline [OF ks(1) that] by blast
  have l: "\<exists>k\<in>set ks. parse_known_blocked syn k = Inr l" if "l \<in> set ls" for l
    by (rule traverse_e_member [OF ks(2) that])
  have good: "\<forall>l\<in>set ls. l \<noteq> [] \<and> js_trim l = l \<and> CHR ''#'' \<notin> set l \<and> newline_char \<notin> set l"
    using l k parsed_line by metis
  have "\<forall>l\<in>set ls. parse_known_blocked syn l = Inr l"
    using l k parse_known_blocked_again by metis
  then have "traverse_e (parse_known_blocked syn) ls = Inr (map (\<lambda>l. l) ls)"
    by (rule traverse_e_all)
  then show ?thesis
    using split_rule_lines_join [OF good] by (simp add: parseAndValidateKnownBlockedRules_def splitKnownBlockedLines_def)
qed

theorem known_blocked_roundtrip_witness:
  "parseAndValidateKnownBlockedRules (\<lambda>_. None)
     (Some (join_with [newline_char] [''a.example:*'', ''GET https://b.example/x'', ''c.example:443''])) =
   Inr [''a.example:*'', ''GET https://b.example/x'', ''c.example:443'']"
proof (rule known_blocked_roundtrip)
  show "parseAndValidateKnownBlockedRules (\<lambda>_. None)
      (Some (''a.example # lookup'' @ [newline_char] @ ''GET https://b.example/x'' @ [newline_char, newline_char] @ ''c.example:443'')) =
    Inr [''a.example:*'', ''GET https://b.example/x'', ''c.example:443'']"
    by code_simp
qed

end
