(* ===== verification/HaproxyMatchers.thy ===== *)
theory HaproxyMatchers
  imports WildcardLang
begin

text \<open>
  \<^verbatim>\<open>src/core/lib/acl/haproxy-matchers.ts\<close>: the narrowing of a compiled expression to a
  string or prefix comparison where that is exact, and the escaping of a value for the
  configuration parser. The escaper of the resolver's CEL expressions
  (\<^verbatim>\<open>coredns-config.ts\<close>) meets the same interface.
\<close>

section \<open>The source\<close>

definition HOST_ONLY :: string where
  "HOST_ONLY = ''host_only,regsub('' @ [backslash] @ ''.$,)''"

definition HOSTNAME_CHARSET :: string where
  "HOSTNAME_CHARSET = ''^[A-Za-z0-9._-]+$''"

definition haproxy_special :: "char \<Rightarrow> bool" where
  "haproxy_special c \<longleftrightarrow> c \<in> {backslash, CHR ''#'', squote, dquote, CHR '' ''}"

definition escapeForHaproxy :: "string \<Rightarrow> string" where
  "escapeForHaproxy value = concat (map (\<lambda>c. if haproxy_special c then [backslash, c] else [c]) value)"

definition escapeForCel :: "string \<Rightarrow> string" where
  "escapeForCel regex = concat (map (\<lambda>c. if c = backslash then [backslash, backslash] else [c]) regex)"

record matcher =
  m_op :: string
  m_pattern :: string

definition literal_char :: "char \<Rightarrow> bool" where
  "literal_char c \<longleftrightarrow> is_alpha c \<or> is_digit c \<or> c \<in> set ''_~:@%-/''"

text \<open>\<^verbatim>\<open>LITERAL_BODY\<close>, and \<^verbatim>\<open>unescape\<close>, which undoes its one escape.\<close>

fun literal_body :: "string \<Rightarrow> bool" where
  "literal_body [] = True"
| "literal_body [c] = literal_char c"
| "literal_body (c # d # r) =
     (if c = backslash then d = CHR ''.'' \<and> literal_body r else literal_char c \<and> literal_body (d # r))"

fun unescape_dots :: "string \<Rightarrow> string" where
  "unescape_dots [] = []"
| "unescape_dots [c] = [c]"
| "unescape_dots (c # d # r) =
     (if c = backslash \<and> d = CHR ''.'' then CHR ''.'' # unescape_dots r else c # unescape_dots (d # r))"

text \<open>\<^verbatim>\<open>/^\^(.+)\$$/.exec(hostRegex)?.[1]\<close>.\<close>

definition anchored_body :: "string \<Rightarrow> string option" where
  "anchored_body s =
     (if 3 \<le> length s \<and> hd s = CHR ''^'' \<and> last s = CHR ''$'' \<and> line_tail (butlast (tl s))
      then Some (butlast (tl s)) else None)"

definition hostMatcher :: "string \<Rightarrow> matcher" where
  "hostMatcher hostRegex =
     (case anchored_body hostRegex of
        Some body \<Rightarrow>
          if literal_body body then \<lparr>m_op = ''-m str'', m_pattern = to_lower (unescape_dots body)\<rparr>
          else \<lparr>m_op = ''-m reg -i'', m_pattern = hostRegex\<rparr>
      | None \<Rightarrow> \<lparr>m_op = ''-m reg -i'', m_pattern = hostRegex\<rparr>)"

definition pathMatcher :: "string \<Rightarrow> matcher" where
  "pathMatcher pathRegex =
     (let body = drop 1 pathRegex;
          (op', rest) =
            (if ends_with ''$'' body then
               (let b = butlast body in
                if ends_with ''.*'' b then (''-m beg'', butlast (butlast b)) else (''-m str'', b))
             else (''-m beg'', body))
      in if \<not> starts_with ''/'' rest \<or> \<not> literal_body rest
         then \<lparr>m_op = ''-m reg'', m_pattern = pathRegex\<rparr>
         else \<lparr>m_op = op', m_pattern = unescape_dots rest\<rparr>)"

section \<open>The interface of an escaper\<close>

text \<open>
  What a reader of escaped text promises: nothing is read from nothing, a character that
  is not special stands for itself, and a special one is read after a backslash. Any such
  reader gets back what was escaped.
\<close>

locale escaper =
  fixes special :: "char \<Rightarrow> bool" and ok :: "char \<Rightarrow> bool" and decode :: "string \<Rightarrow> string option"
  assumes decode_Nil: "decode [] = Some []"
    and decode_plain: "ok c \<Longrightarrow> \<not> special c \<Longrightarrow> decode (c # r) = map_option ((#) c) (decode r)"
    and decode_escaped: "special c \<Longrightarrow> decode (backslash # c # r) = map_option ((#) c) (decode r)"
begin

definition escape :: "string \<Rightarrow> string" where
  "escape s = concat (map (\<lambda>c. if special c then [backslash, c] else [c]) s)"

theorem decode_escape: "list_all ok s \<Longrightarrow> decode (escape s) = Some s"
  by (induction s) (auto simp: escape_def decode_Nil decode_plain decode_escaped)

end

text \<open>
  The two readers, as the comments of the code state them. HAProxy's word parser folds the
  five special characters after a backslash and leaves any other backslash alone; a special
  one met bare ends the word. CEL takes only a doubled backslash, and a quote ends the
  literal.
\<close>

definition word_special :: "char \<Rightarrow> bool" where
  "word_special c \<longleftrightarrow> c = backslash \<or> c = squote \<or> c = dquote \<or> c = CHR '' '' \<or> c = CHR ''#''"

fun haproxy_word :: "string \<Rightarrow> string option" where
  "haproxy_word [] = Some []"
| "haproxy_word [c] = (if word_special c \<and> c \<noteq> backslash then None else Some [c])"
| "haproxy_word (c # d # r) =
     (if c = backslash then
        (if word_special d then map_option ((#) d) (haproxy_word r)
         else map_option ((#) c) (haproxy_word (d # r)))
      else if word_special c then None
      else map_option ((#) c) (haproxy_word (d # r)))"

fun cel_literal :: "string \<Rightarrow> string option" where
  "cel_literal [] = Some []"
| "cel_literal [c] = (if c = backslash \<or> c = squote then None else Some [c])"
| "cel_literal (c # d # r) =
     (if c = squote then None
      else if c = backslash then (if d = backslash then map_option ((#) c) (cel_literal r) else None)
      else map_option ((#) c) (cel_literal (d # r)))"

lemma escaped_special: "haproxy_special c \<longleftrightarrow> word_special c"
  by (auto simp: haproxy_special_def word_special_def)

interpretation hap: escaper haproxy_special "\<lambda>_. True" haproxy_word
proof
  show "haproxy_word (c # r) = map_option ((#) c) (haproxy_word r)" if "\<not> haproxy_special c" for c r
    using that unfolding escaped_special by (cases r) (auto simp: word_special_def)
qed (auto simp: escaped_special)

interpretation cel: escaper "\<lambda>c. c = backslash" "\<lambda>c. c \<noteq> squote" cel_literal
proof
  show "cel_literal (c # r) = map_option ((#) c) (cel_literal r)" if "c \<noteq> squote" "c \<noteq> backslash" for c r
    using that by (cases r) auto
qed auto

text \<open>HAProxy's word parser reads back exactly the value \<^verbatim>\<open>escapeForHaproxy\<close> escaped:
  no \<^verbatim>\<open>#\<close>, quote, blank or backslash of a rule shortens or changes the ACL it is in.\<close>

theorem escapeForHaproxy_roundtrip: "haproxy_word (escapeForHaproxy value) = Some value"
  using hap.decode_escape [of "value"] by (simp add: escapeForHaproxy_def hap.escape_def list_all_iff)

lemma cel_roundtrip: "squote \<notin> set regex \<Longrightarrow> cel_literal (escapeForCel regex) = Some regex"
proof -
  assume "squote \<notin> set regex"
  then have "list_all (\<lambda>c. c \<noteq> squote) regex" by (auto simp: list_all_iff)
  moreover have "(\<lambda>c. if c = backslash then [backslash, backslash] else [c]) =
      (\<lambda>c. if c = backslash then [backslash, c] else [c])" by (rule ext) simp
  ultimately show ?thesis using cel.decode_escape [of regex] by (simp add: escapeForCel_def cel.escape_def)
qed

text \<open>A regular expression without a quote reaches CEL's engine as written.\<close>

theorem escapeForCel_roundtrip:
  assumes "squote \<notin> set regex"
  shows "cel_literal (escapeForCel regex) = Some regex"
  using assms by (rule cel_roundtrip)

theorem escapeForCel_roundtrip_witness:
  "cel_literal (escapeForCel (''^a'' @ dot_sep @ ''b$'')) = Some (''^a'' @ dot_sep @ ''b$'')"
  by (rule escapeForCel_roundtrip) (simp add: dot_sep_def)

section \<open>Narrowing is exact\<close>

lemma literal_char_plain: "literal_char c \<Longrightarrow> \<not> rx_syntax c"
  by (auto simp: literal_char_def rx_syntax_def regex_meta_def is_alpha_def is_upper_def is_lower_def in_range_def
      is_digit_def)

lemma literal_body_means: "literal_body b \<Longrightarrow> means b {unescape_dots b}"
proof (induction b rule: literal_body.induct)
  case (2 c)
  then show ?case using means_plain_char [of c] literal_char_plain by simp
next
  case (3 c d r)
  show ?case
  proof (cases "c = backslash")
    case True
    with 3 have "means (dot_sep @ r) (conc {''.''} {unescape_dots r})"
      by (intro means_append means_dot_sep) simp
    with True 3 show ?thesis by (simp add: dot_sep_def conc_def)
  next
    case False
    with 3 have "means ([c] @ d # r) (conc {[c]} {unescape_dots (d # r)})"
      by (intro means_append means_plain_char literal_char_plain) auto
    with False show ?thesis by (simp add: conc_def)
  qed
qed simp

text \<open>An expression with no end anchor matches the texts with a prefix in its language.\<close>

lemma means_start:
  assumes "means s L" shows "rx_matches (''^'' @ s) t \<longleftrightarrow> (\<exists>w\<in>L. starts_with w t)"
proof -
  from assms obtain rs us i where rs: "lexes s us" "\<forall>r\<in>set rs. plain r" "lang (RSeqs rs) = L"
    and i: "map fst i = rs"
    and go: "\<And>ts alts seq fs. re_go (us @ ts) ((alts, seq) # fs) = re_go ts ((alts, rev i @ seq) # fs)"
    unfolding means_def spells_def builds_def by blast
  have "re_lex (s @ []) = map_option ((@) us) (re_lex [])" using rs(1) unfolding lexes_def by blast
  then have "re_lex (''^'' @ s) = Some (TBol # us)" by (simp add: re_lex_Cons)
  then have "re_parse (''^'' @ s) = Some (RSeqs (RBol # rs))"
    using go [of "[]"] by (simp add: re_parse_def frame_re_def rev_map i)
  moreover have "re_test (RSeqs (RBol # rs)) t \<longleftrightarrow> (\<exists>w u. w \<in> L \<and> t = w @ u)"
    using anchored_start_test [of "RSeqs rs" t] rs by simp
  ultimately show ?thesis by (auto simp: rx_matches_def starts_with_iff)
qed

text \<open>The flag \<^verbatim>\<open>i\<close>: a text matches when one that differs from it in case only does.\<close>

definition rx_matches_nocase :: "string \<Rightarrow> string \<Rightarrow> bool" where
  "rx_matches_nocase rx s \<longleftrightarrow> (\<exists>t. to_lower t = to_lower s \<and> rx_matches rx t)"

lemma anchored_body_text: "anchored_body s = Some b \<Longrightarrow> s = ''^'' @ b @ ''$''"
proof -
  assume "anchored_body s = Some b"
  then have h: "3 \<le> length s" "hd s = CHR ''^''" "last s = CHR ''$''" "b = butlast (tl s)"
    by (auto simp: anchored_body_def split: if_splits)
  then obtain c t where s: "s = c # t" "t \<noteq> []" by (cases s; cases "tl s") auto
  then have "butlast t @ ''$'' = t"
    using append_butlast_last_id [OF s(2)] h(3) by (metis last_ConsR)
  then show ?thesis using h s by simp
qed

text \<open>C5. A host match that is narrowed to a string comparison accepts exactly the names, as
  HAProxy lowercases them, that the expression matches without regard to case.\<close>

theorem hostMatcher_exact:
  assumes "m_op (hostMatcher hostRegex) = ''-m str''"
  shows "to_lower s = m_pattern (hostMatcher hostRegex) \<longleftrightarrow> rx_matches_nocase hostRegex s"
proof -
  from assms obtain b where b: "anchored_body hostRegex = Some b" "literal_body b"
    "m_pattern (hostMatcher hostRegex) = to_lower (unescape_dots b)"
    by (auto simp: hostMatcher_def split: option.splits if_splits)
  have "rx_matches hostRegex t \<longleftrightarrow> t = unescape_dots b" for t
    using means_anchored [OF literal_body_means [OF b(2)], of t] anchored_body_text [OF b(1)] by simp
  then show ?thesis unfolding rx_matches_nocase_def b(3) by metis
qed

theorem hostMatcher_exact_witness:
  "to_lower ''Repo.Example'' = m_pattern (hostMatcher (''^Repo'' @ dot_sep @ ''example$'')) \<longleftrightarrow>
   rx_matches_nocase (''^Repo'' @ dot_sep @ ''example$'') ''Repo.Example''"
  by (rule hostMatcher_exact) code_simp

lemma ends_with_snoc: "ends_with ''$'' body \<Longrightarrow> body = butlast body @ ''$''"
  by (auto simp: ends_with_iff)

lemma ends_with_dot_star: "ends_with ''.*'' b \<Longrightarrow> b = butlast (butlast b) @ ''.*''"
  by (auto simp: ends_with_iff butlast_append)

lemma means_any_text: "means ''.*'' {w. list_all dot_char w}"
  using means_star_cls [OF lexes_dot] by (simp add: list_all_iff)

text \<open>A path match that is narrowed, to a comparison or to a prefix, accepts exactly the
  paths the expression matches; a path is a request's, so it has no line terminator.\<close>

theorem pathMatcher_exact:
  assumes "starts_with ''^'' pathRegex" and "list_all dot_char s"
  shows "(m_op (pathMatcher pathRegex) = ''-m str'' \<longrightarrow>
       (s = m_pattern (pathMatcher pathRegex) \<longleftrightarrow> rx_matches pathRegex s)) \<and>
    (m_op (pathMatcher pathRegex) = ''-m beg'' \<longrightarrow>
       (starts_with (m_pattern (pathMatcher pathRegex)) s \<longleftrightarrow> rx_matches pathRegex s))"
proof -
  obtain body where rx: "pathRegex = ''^'' @ body" using assms(1) by auto
  consider "ends_with ''$'' body" "ends_with ''.*'' (butlast body)"
    | "ends_with ''$'' body" "\<not> ends_with ''.*'' (butlast body)" | "\<not> ends_with ''$'' body" by blast
  then show ?thesis
  proof cases
    case 1
    let ?l = "butlast (butlast (butlast body))"
    have b: "body = ?l @ ''.*'' @ ''$''"
      using ends_with_snoc [OF 1(1)] ends_with_dot_star [OF 1(2)] by (metis append.assoc)
    show ?thesis
    proof (cases "starts_with ''/'' ?l \<and> literal_body ?l")
      case True
      then have m: "pathMatcher pathRegex = \<lparr>m_op = ''-m beg'', m_pattern = unescape_dots ?l\<rparr>"
        using 1 by (simp add: pathMatcher_def rx Let_def del: starts_with_Cons)
      have "means (?l @ ''.*'') (conc {unescape_dots ?l} {w. list_all dot_char w})"
        using True by (intro means_append literal_body_means means_any_text) simp
      from means_anchored [OF this, of s]
      have "rx_matches pathRegex s \<longleftrightarrow> s \<in> conc {unescape_dots ?l} {w. list_all dot_char w}"
        by (subst rx, subst b) simp
      also have "\<dots> \<longleftrightarrow> starts_with (unescape_dots ?l) s"
        using assms(2) by (auto simp: conc_def starts_with_iff)
      finally show ?thesis by (simp add: m)
    next
      case False
      then show ?thesis using 1 by (simp add: pathMatcher_def rx Let_def del: starts_with_Cons)
    qed
  next
    case 2
    let ?l = "butlast body"
    have b: "body = ?l @ ''$''" by (rule ends_with_snoc [OF 2(1)])
    show ?thesis
    proof (cases "starts_with ''/'' ?l \<and> literal_body ?l")
      case True
      then have m: "pathMatcher pathRegex = \<lparr>m_op = ''-m str'', m_pattern = unescape_dots ?l\<rparr>"
        using 2 by (simp add: pathMatcher_def rx Let_def del: starts_with_Cons)
      have "rx_matches pathRegex s \<longleftrightarrow> s = unescape_dots ?l"
        using means_anchored [OF literal_body_means, of ?l s] True by (subst rx, subst b) simp
      then show ?thesis by (auto simp: m)
    next
      case False
      then show ?thesis using 2 by (simp add: pathMatcher_def rx Let_def del: starts_with_Cons)
    qed
  next
    case 3
    show ?thesis
    proof (cases "starts_with ''/'' body \<and> literal_body body")
      case True
      then have m: "pathMatcher pathRegex = \<lparr>m_op = ''-m beg'', m_pattern = unescape_dots body\<rparr>"
        using 3 by (simp add: pathMatcher_def rx Let_def del: starts_with_Cons)
      have "rx_matches pathRegex s \<longleftrightarrow> starts_with (unescape_dots body) s"
        using means_start [OF literal_body_means, of body s] True by (simp add: rx)
      then show ?thesis by (simp add: m)
    next
      case False
      then show ?thesis using 3 by (simp add: pathMatcher_def rx Let_def del: starts_with_Cons)
    qed
  qed
qed

theorem pathMatcher_exact_witness:
  "(starts_with (m_pattern (pathMatcher ''^/v1/.*$'')) ''/v1/keys'' \<longleftrightarrow> rx_matches ''^/v1/.*$'' ''/v1/keys'') \<and>
   m_op (pathMatcher ''^/v1/.*$'') = ''-m beg''"
proof -
  have "m_op (pathMatcher ''^/v1/.*$'') = ''-m beg''" by code_simp
  then show ?thesis using pathMatcher_exact [of "''^/v1/.*$''" "''/v1/keys''"] by (simp add: dot_char_def)
qed

end
