(* ===== verification/HaproxyRules.thy ===== *)
theory HaproxyRules
  imports WildcardRules HaproxyMatchers
begin

text \<open>
  \<^verbatim>\<open>src/core/lib/acl/haproxy-rules.ts\<close>: the rule inputs compiled into the matchers that
  haproxy.cfg and the Corefile are built from.
\<close>

section \<open>The source\<close>

definition HOST_IS_ADDRESS :: string where
  "HOST_IS_ADDRESS = ''^'' @ IPV4 @ ''$''"

definition INTERNAL_RANGES :: "string list" where
  "INTERNAL_RANGES = [''0.0.0.0/8'', ''127.0.0.0/8'', ''169.254.0.0/16'', ''100.64.0.0/10'',
     ''192.0.0.0/24'', ''168.63.129.16/32'', ''::1/128'', ''fe80::/10'']"

datatype host_match = HmWildcard | HmHostPort | HmHostBareFull

record compiled_rule =
  cr_id :: string
  cr_hostMatch :: host_match
  cr_hostRegex :: string
  cr_port :: "string option"
  cr_pathRegex :: string
  cr_methods :: "string list option"
  cr_raw :: string

record compiled_ip_rule =
  ci_id :: string
  ci_address :: string
  ci_hostMatch :: host_match
  ci_port :: "string option"
  ci_raw :: string

record compiled_tls_rule =
  ct_id :: string
  ct_hostMatch :: host_match
  ct_hostRegex :: string
  ct_port :: "string option"
  ct_raw :: string

text \<open>An input left out is the empty list, as \<^verbatim>\<open>?? []\<close> reads it.\<close>

record rule_inputs =
  ri_https :: "string list"
  ri_http :: "string list"
  ri_url :: "url_rule list"
  ri_ip :: "string list"
  ri_tls :: "string list"

record compiled_rule_set =
  rs_https :: "compiled_rule list"
  rs_http :: "compiled_rule list"
  rs_ip :: "compiled_ip_rule list"
  rs_tls :: "compiled_tls_rule list"
  rs_resolverHosts :: "string list"

definition splitHostRule :: "string \<Rightarrow> (string \<times> string) acl" where
  "splitHostRule pattern =
     (case last_index_of (CHR '':'') pattern of
        None \<Rightarrow> Inl (MissingPort pattern)
      | Some i \<Rightarrow>
          (let port = drop (Suc i) pattern; host = take i pattern in
           bind_e (checkPort port pattern) (\<lambda>_.
           bind_e (ensure_e (CHR '':'' \<notin> set host) (ColonInHost host pattern)) (\<lambda>_.
           Inr (host, port)))))"

definition hostOnlyRegexOfRule :: "(string \<Rightarrow> string option) \<Rightarrow> string \<Rightarrow> string acl" where
  "hostOnlyRegexOfRule syn pattern =
     (if starts_with ''~'' pattern then splitRawRegexHost syn pattern
      else bind_e (splitHostRule pattern) (\<lambda>(host, port). domainToRegexPartial host))"

definition hostOnlyRegexOfUrlRule :: "url_rule \<Rightarrow> string" where
  "hostOnlyRegexOfUrlRule rule =
     (let authority = butlast (drop 1 (ur_authorityRegex rule)) in
      if ur_isRegex rule then authority else before_last_colon authority)"

definition urlRuleToMatcher :: "url_rule \<Rightarrow> string \<times> string option" where
  "urlRuleToMatcher rule =
     (let hostOnly = hostOnlyRegexOfUrlRule rule;
          port = drop (length hostOnly + 1) (butlast (drop 1 (ur_authorityRegex rule)))
      in (''^'' @ hostOnly @ ''$'', if port = ''[0-9]+'' then None else Some port))"

definition hostRuleToMatcher ::
    "(string \<Rightarrow> string option) \<Rightarrow> string \<Rightarrow> (host_match \<times> string \<times> string option) acl" where
  "hostRuleToMatcher syn pattern =
     (if starts_with ''~'' pattern then
        bind_e (splitRawRegexHost syn pattern) (\<lambda>_.
          Inr (HmHostPort, anchorRawRegex (drop 1 pattern), None))
      else
        bind_e (splitHostRule pattern) (\<lambda>(host, port).
        bind_e (hostOnlyRegexOfRule syn pattern) (\<lambda>hostOnly.
          Inr (HmWildcard, ''^'' @ hostOnly @ ''$'', if port = ''*'' then None else Some port))))"

definition compile_host_rule :: "(string \<Rightarrow> string option) \<Rightarrow> string \<Rightarrow> compiled_rule acl" where
  "compile_host_rule syn pattern =
     map_e (\<lambda>(hostMatch, hostRegex, port).
       \<lparr>cr_id = [], cr_hostMatch = hostMatch, cr_hostRegex = hostRegex, cr_port = port,
        cr_pathRegex = ''^/'', cr_methods = None, cr_raw = pattern\<rparr>)
       (hostRuleToMatcher syn pattern)"

definition compile_url_rule :: "url_rule \<Rightarrow> compiled_rule" where
  "compile_url_rule rule =
     (if ur_isRegex rule then
        \<lparr>cr_id = [], cr_hostMatch = HmHostBareFull, cr_hostRegex = ur_hostRegex rule, cr_port = None,
         cr_pathRegex = ur_pathRegex rule, cr_methods = ur_methods rule, cr_raw = ur_raw rule\<rparr>
      else (let (hostRegex, port) = urlRuleToMatcher rule in
        \<lparr>cr_id = [], cr_hostMatch = HmWildcard, cr_hostRegex = hostRegex, cr_port = port,
         cr_pathRegex = ur_pathRegex rule, cr_methods = ur_methods rule, cr_raw = ur_raw rule\<rparr>))"

text \<open>\<^verbatim>\<open>out.forEach((rule, i) => ...)\<close>.\<close>

definition number_rules :: "string \<Rightarrow> compiled_rule list \<Rightarrow> compiled_rule list" where
  "number_rules p rules =
     map (\<lambda>(i, r). r\<lparr>cr_id := p @ show_nat i\<rparr>) (zip [0..<length rules] rules)"

definition compileSchemeRules ::
    "(string \<Rightarrow> string option) \<Rightarrow> string list \<Rightarrow> url_rule list \<Rightarrow> url_scheme \<Rightarrow> compiled_rule list acl" where
  "compileSchemeRules syn hostRules urlRules scheme =
     map_e (\<lambda>hosts. number_rules (case scheme of Https \<Rightarrow> ''s'' | Http \<Rightarrow> ''p'')
         (hosts @ map compile_url_rule (filter (\<lambda>r. scheme \<in> set (ur_schemes r)) urlRules)))
       (traverse_e (compile_host_rule syn) hostRules)"

definition compile_ip_rule ::
    "(string \<Rightarrow> string option) \<Rightarrow> nat \<times> string \<Rightarrow> compiled_ip_rule acl" where
  "compile_ip_rule syn ir =
     (let (index, rule) = ir; name = ''ip'' @ show_nat index in
      if starts_with ''~'' rule then
        bind_e (splitRawRegexHost syn rule) (\<lambda>_.
          Inr \<lparr>ci_id = name, ci_address = anchorRawRegex (drop 1 rule), ci_hostMatch = HmHostPort,
               ci_port = None, ci_raw = rule\<rparr>)
      else
        (case last_index_of (CHR '':'') rule of
           None \<Rightarrow> Inl (MissingPort rule)
         | Some i \<Rightarrow>
             (let address = take i rule; port = drop (Suc i) rule in
              bind_e (ensure_e (isIpRuleAddress address) (NotAnAddress rule)) (\<lambda>_.
              bind_e (checkPort port rule) (\<lambda>_.
              if \<not> IPV4_OR_CIDR address then
                bind_e (convertRule syn rule) (\<lambda>rx.
                  Inr \<lparr>ci_id = name, ci_address = rx, ci_hostMatch = HmHostPort, ci_port = None,
                       ci_raw = rule\<rparr>)
              else
                Inr \<lparr>ci_id = name, ci_address = address, ci_hostMatch = HmWildcard,
                     ci_port = (if port = ''*'' then None else Some port), ci_raw = rule\<rparr>)))))"

definition compileIpRules ::
    "(string \<Rightarrow> string option) \<Rightarrow> string list \<Rightarrow> compiled_ip_rule list acl" where
  "compileIpRules syn rules = traverse_e (compile_ip_rule syn) (zip [0..<length rules] rules)"

definition compile_tls_rule ::
    "(string \<Rightarrow> string option) \<Rightarrow> nat \<times> string \<Rightarrow> compiled_tls_rule acl" where
  "compile_tls_rule syn ir =
     (let (index, pattern) = ir in
      map_e (\<lambda>(hostMatch, hostRegex, port).
        \<lparr>ct_id = ''tls'' @ show_nat index, ct_hostMatch = hostMatch, ct_hostRegex = hostRegex,
         ct_port = port, ct_raw = pattern\<rparr>) (hostRuleToMatcher syn pattern))"

text \<open>\<^verbatim>\<open>resolverHosts\<close>: in input order and without repeats.\<close>

definition add_host :: "string \<Rightarrow> string list \<Rightarrow> string list" where
  "add_host regex hosts = (if regex \<in> set hosts then hosts else hosts @ [regex])"

fun add_hosts :: "(string \<Rightarrow> string option) \<Rightarrow> string list \<Rightarrow> string list \<Rightarrow> string list acl" where
  "add_hosts syn [] hosts = Inr hosts"
| "add_hosts syn (pattern # patterns) hosts =
     bind_e (hostOnlyRegexOfRule syn pattern) (\<lambda>regex. add_hosts syn patterns (add_host regex hosts))"

definition resolverHosts :: "(string \<Rightarrow> string option) \<Rightarrow> rule_inputs \<Rightarrow> string list acl" where
  "resolverHosts syn inputs =
     bind_e (add_hosts syn (ri_https inputs) []) (\<lambda>hosts.
     bind_e (add_hosts syn (ri_http inputs) hosts) (\<lambda>hosts.
     bind_e (add_hosts syn (ri_tls inputs) hosts) (\<lambda>hosts.
     Inr (foldl (\<lambda>hs rule. add_host (hostOnlyRegexOfUrlRule rule) hs) hosts (ri_url inputs)))))"

definition compileRuleSet :: "(string \<Rightarrow> string option) \<Rightarrow> rule_inputs \<Rightarrow> compiled_rule_set acl" where
  "compileRuleSet syn inputs =
     bind_e (compileSchemeRules syn (ri_https inputs) (ri_url inputs) Https) (\<lambda>https.
     bind_e (compileSchemeRules syn (ri_http inputs) (ri_url inputs) Http) (\<lambda>http.
     bind_e (compileIpRules syn (ri_ip inputs)) (\<lambda>ip.
     bind_e (traverse_e (compile_tls_rule syn) (zip [0..<length (ri_tls inputs)] (ri_tls inputs))) (\<lambda>tls.
     bind_e (resolverHosts syn inputs) (\<lambda>hosts.
     Inr \<lparr>rs_https = https, rs_http = http, rs_ip = ip, rs_tls = tls, rs_resolverHosts = hosts\<rparr>)))))"

section \<open>Identifiers\<close>

definition all_ids :: "compiled_rule_set \<Rightarrow> string list" where
  "all_ids rs = map cr_id (rs_https rs) @ map cr_id (rs_http rs) @ map ci_id (rs_ip rs) @ map ct_id (rs_tls rs)"

lemma number_rules_ids: "map cr_id (number_rules p rules) = map (\<lambda>i. p @ show_nat i) [0..<length rules]"
  by (rule nth_equalityI) (simp_all add: number_rules_def)

lemma traverse_e_indexed:
  assumes "traverse_e f (zip [0..<length xs] xs) = Inr ys" and "\<And>i x y. f (i, x) = Inr y \<Longrightarrow> g y = p @ show_nat i"
  shows "map g ys = map (\<lambda>i. p @ show_nat i) [0..<length xs]"
proof -
  have l: "list_all2 (\<lambda>ix y. f ix = Inr y) (zip [0..<length xs] xs) ys"
    using assms(1) by (simp add: traverse_e_Inr)
  then have "length ys = length xs" by (auto dest: list_all2_lengthD)
  moreover have "g (ys ! i) = p @ show_nat i" if "i < length xs" for i
    using list_all2_nthD [OF l, of i] that assms(2) by simp
  ultimately show ?thesis by (intro nth_equalityI) simp_all
qed

lemma compile_ids:
  assumes "compileRuleSet syn inputs = Inr rs"
  shows "\<exists>a b c d. all_ids rs = map (\<lambda>i. ''s'' @ show_nat i) [0..<a] @ map (\<lambda>i. ''p'' @ show_nat i) [0..<b] @
    map (\<lambda>i. ''ip'' @ show_nat i) [0..<c] @ map (\<lambda>i. ''tls'' @ show_nat i) [0..<d]"
proof -
  from assms obtain https http ip tls hosts where r:
    "compileSchemeRules syn (ri_https inputs) (ri_url inputs) Https = Inr https"
    "compileSchemeRules syn (ri_http inputs) (ri_url inputs) Http = Inr http"
    "compileIpRules syn (ri_ip inputs) = Inr ip"
    "traverse_e (compile_tls_rule syn) (zip [0..<length (ri_tls inputs)] (ri_tls inputs)) = Inr tls"
    "rs = \<lparr>rs_https = https, rs_http = http, rs_ip = ip, rs_tls = tls, rs_resolverHosts = hosts\<rparr>"
    by (auto simp: compileRuleSet_def)
  have "map ci_id ip = map (\<lambda>i. ''ip'' @ show_nat i) [0..<length (ri_ip inputs)]"
    using r(3) unfolding compileIpRules_def
    by (rule traverse_e_indexed) (auto simp: compile_ip_rule_def Let_def split: if_splits option.splits)
  moreover have "map ct_id tls = map (\<lambda>i. ''tls'' @ show_nat i) [0..<length (ri_tls inputs)]"
    using r(4) by (rule traverse_e_indexed) (auto simp: compile_tls_rule_def)
  moreover obtain a b where "map cr_id https = map (\<lambda>i. ''s'' @ show_nat i) [0..<a]"
    "map cr_id http = map (\<lambda>i. ''p'' @ show_nat i) [0..<b]"
    using r(1,2) by (auto simp: compileSchemeRules_def number_rules_ids)
  ultimately show ?thesis
    unfolding all_ids_def r(5) compiled_rule_set.select_convs by metis
qed

text \<open>Every rule of a compiled set has an identifier of its own, over all four kinds.\<close>

lemma compileRuleSet_ids_distinct:
  assumes "compileRuleSet syn inputs = Inr rs"
  shows "distinct (all_ids rs)"
proof -
  obtain a b c d where "all_ids rs = map (\<lambda>i. ''s'' @ show_nat i) [0..<a] @ map (\<lambda>i. ''p'' @ show_nat i) [0..<b] @
      map (\<lambda>i. ''ip'' @ show_nat i) [0..<c] @ map (\<lambda>i. ''tls'' @ show_nat i) [0..<d]"
    using compile_ids [OF assms] by blast
  then show ?thesis by (auto simp: distinct_map inj_on_def)
qed

section \<open>The resolver's allowlist\<close>

lemma add_host_set [simp]: "set (add_host h hs) = insert h (set hs)"
  by (auto simp: add_host_def)

lemma add_host_distinct: "distinct hs \<Longrightarrow> distinct (add_host h hs)"
  by (simp add: add_host_def)

lemma add_hosts_Inr:
  "add_hosts syn ps hs = Inr out \<Longrightarrow>
   set out = set hs \<union> {h. \<exists>p\<in>set ps. hostOnlyRegexOfRule syn p = Inr h} \<and> (distinct hs \<longrightarrow> distinct out)"
proof (induction ps arbitrary: hs)
  case (Cons p ps)
  then obtain h where "hostOnlyRegexOfRule syn p = Inr h" "add_hosts syn ps (add_host h hs) = Inr out" by auto
  with Cons.IH [of "add_host h hs"] add_host_distinct show ?case by auto
qed simp

lemma foldl_add_host:
  "set (foldl (\<lambda>hs rule. add_host (f rule) hs) hs rules) = set hs \<union> f ` set rules"
  "distinct hs \<Longrightarrow> distinct (foldl (\<lambda>hs rule. add_host (f rule) hs) hs rules)"
  by (induction rules arbitrary: hs) (auto simp: add_host_distinct)

definition rule_names :: "(string \<Rightarrow> string option) \<Rightarrow> rule_inputs \<Rightarrow> string set" where
  "rule_names syn inputs =
     {h. \<exists>p\<in>set (ri_https inputs @ ri_http inputs @ ri_tls inputs). hostOnlyRegexOfRule syn p = Inr h} \<union>
     hostOnlyRegexOfUrlRule ` set (ri_url inputs)"

lemma resolverHosts_Inr:
  assumes "resolverHosts syn inputs = Inr hosts"
  shows "set hosts = rule_names syn inputs \<and> distinct hosts"
proof -
  from assms obtain a b c where h: "add_hosts syn (ri_https inputs) [] = Inr a"
    "add_hosts syn (ri_http inputs) a = Inr b" "add_hosts syn (ri_tls inputs) b = Inr c"
    "hosts = foldl (\<lambda>hs rule. add_host (hostOnlyRegexOfUrlRule rule) hs) c (ri_url inputs)"
    by (auto simp: resolverHosts_def)
  from add_hosts_Inr [OF h(1)] add_hosts_Inr [OF h(2)] add_hosts_Inr [OF h(3)] show ?thesis
    by (auto simp: h(4) foldl_add_host rule_names_def)
qed

lemma host_rule_name:
  "hostRuleToMatcher syn p = Inr (HmWildcard, rx, port) \<Longrightarrow>
   \<exists>h. hostOnlyRegexOfRule syn p = Inr h \<and> rx = ''^'' @ h @ ''$''"
  by (auto simp: hostRuleToMatcher_def split: if_splits)

lemma number_rules_member:
  "r \<in> set (number_rules q rules) \<Longrightarrow> \<exists>r'\<in>set rules. \<exists>i. r = r'\<lparr>cr_id := i\<rparr>"
  unfolding number_rules_def by (auto dest!: set_zip_rightD)

lemma scheme_rule_name:
  assumes "compileSchemeRules syn ps us scheme = Inr rules" and "r \<in> set rules" and "cr_hostMatch r = HmWildcard"
  shows "\<exists>h. cr_hostRegex r = ''^'' @ h @ ''$'' \<and>
    ((\<exists>p\<in>set ps. hostOnlyRegexOfRule syn p = Inr h) \<or> h \<in> hostOnlyRegexOfUrlRule ` set us)"
proof -
  from assms(1) obtain hosts where h: "traverse_e (compile_host_rule syn) ps = Inr hosts"
    and "\<exists>q. rules = number_rules q (hosts @ map compile_url_rule (filter (\<lambda>r. scheme \<in> set (ur_schemes r)) us))"
    by (auto simp: compileSchemeRules_def)
  then obtain r' i where r': "r' \<in> set hosts \<or> (\<exists>u\<in>set us. r' = compile_url_rule u)" "r = r'\<lparr>cr_id := i\<rparr>"
    using assms(2) number_rules_member by (fastforce simp del: One_nat_def)
  from r'(1) show ?thesis
  proof
    assume "r' \<in> set hosts"
    then obtain p where "p \<in> set ps" "compile_host_rule syn p = Inr r'"
      using traverse_e_member [OF h] by blast
    then show ?thesis using assms(3) host_rule_name by (fastforce simp: compile_host_rule_def r'(2))
  next
    assume "\<exists>u\<in>set us. r' = compile_url_rule u"
    then show ?thesis using assms(3)
      by (auto simp: compile_url_rule_def urlRuleToMatcher_def Let_def r'(2) split: if_splits)
  qed
qed

text \<open>C6. The resolver's allowlist lists, once each, exactly the names of the host, TLS and
  URL rules, and a wildcard rule is matched on the very expression the allowlist holds,
  anchored: the proxy and the resolver accept the same names.\<close>

theorem resolverHosts_complete:
  assumes "compileRuleSet syn inputs = Inr rs"
  shows "set (rs_resolverHosts rs) = rule_names syn inputs \<and> distinct (rs_resolverHosts rs) \<and>
    (\<forall>r\<in>set (rs_https rs) \<union> set (rs_http rs). cr_hostMatch r = HmWildcard \<longrightarrow>
       (\<exists>h\<in>set (rs_resolverHosts rs). cr_hostRegex r = ''^'' @ h @ ''$'')) \<and>
    (\<forall>r\<in>set (rs_tls rs). ct_hostMatch r = HmWildcard \<longrightarrow>
       (\<exists>h\<in>set (rs_resolverHosts rs). ct_hostRegex r = ''^'' @ h @ ''$''))"
proof -
  from assms obtain https http ip tls hosts where r:
    "compileSchemeRules syn (ri_https inputs) (ri_url inputs) Https = Inr https"
    "compileSchemeRules syn (ri_http inputs) (ri_url inputs) Http = Inr http"
    "traverse_e (compile_tls_rule syn) (zip [0..<length (ri_tls inputs)] (ri_tls inputs)) = Inr tls"
    "resolverHosts syn inputs = Inr hosts"
    "rs = \<lparr>rs_https = https, rs_http = http, rs_ip = ip, rs_tls = tls, rs_resolverHosts = hosts\<rparr>"
    by (auto simp: compileRuleSet_def)
  have hosts: "set hosts = rule_names syn inputs" "distinct hosts"
    using resolverHosts_Inr [OF r(4)] by auto
  have "\<exists>h\<in>set hosts. cr_hostRegex q = ''^'' @ h @ ''$''"
    if "q \<in> set https \<union> set http" "cr_hostMatch q = HmWildcard" for q
    using that scheme_rule_name [OF r(1)] scheme_rule_name [OF r(2)]
    unfolding hosts rule_names_def by fastforce
  moreover have "\<exists>h\<in>set hosts. ct_hostRegex q = ''^'' @ h @ ''$''"
    if q: "q \<in> set tls" and w: "ct_hostMatch q = HmWildcard" for q
  proof -
    obtain ip where ip: "ip \<in> set (zip [0..<length (ri_tls inputs)] (ri_tls inputs))"
      "compile_tls_rule syn ip = Inr q" using traverse_e_member [OF r(3) q] by blast
    then have "snd ip \<in> set (ri_tls inputs)" by (metis in_set_zip nth_mem)
    moreover obtain rx port where "hostRuleToMatcher syn (snd ip) = Inr (HmWildcard, rx, port)"
      "ct_hostRegex q = rx" using ip(2) w by (auto simp: compile_tls_rule_def Let_def split: prod.splits)
    ultimately show ?thesis
      using host_rule_name [of syn "snd ip" rx port] unfolding hosts rule_names_def by auto
  qed
  ultimately show ?thesis using hosts by (simp add: r(5))
qed

definition sample_inputs :: rule_inputs where
  "sample_inputs = \<lparr>ri_https = [''a:*''], ri_http = [''a:80''], ri_url = [], ri_ip = [], ri_tls = [''b.c:443'']\<rparr>"

definition sample_rules :: compiled_rule_set where
  "sample_rules =
     \<lparr>rs_https = [\<lparr>cr_id = ''s0'', cr_hostMatch = HmWildcard, cr_hostRegex = ''^a$'', cr_port = None,
        cr_pathRegex = ''^/'', cr_methods = None, cr_raw = ''a:*''\<rparr>],
      rs_http = [\<lparr>cr_id = ''p0'', cr_hostMatch = HmWildcard, cr_hostRegex = ''^a$'', cr_port = Some ''80'',
        cr_pathRegex = ''^/'', cr_methods = None, cr_raw = ''a:80''\<rparr>], rs_ip = [],
      rs_tls = [\<lparr>ct_id = ''tls0'', ct_hostMatch = HmWildcard, ct_hostRegex = ''^b'' @ dot_sep @ ''c$'',
        ct_port = Some ''443'', ct_raw = ''b.c:443''\<rparr>], rs_resolverHosts = [''a'', ''b'' @ dot_sep @ ''c'']\<rparr>"

lemma sample_compiles: "compileRuleSet (\<lambda>_. None) sample_inputs = Inr sample_rules"
  by code_simp

theorem resolverHosts_complete_witness:
  "set (rs_resolverHosts sample_rules) = rule_names (\<lambda>_. None) sample_inputs \<and>
   distinct (rs_resolverHosts sample_rules)"
  using resolverHosts_complete [OF sample_compiles] by blast

section \<open>Quotes\<close>

lemma join_chars: "c \<in> set (join_with glue ws) \<Longrightarrow> c \<in> set glue \<or> (\<exists>w\<in>set ws. c \<in> set w)"
  by (induction glue ws rule: join_with.induct) auto

lemma atom_chars:
  "c \<in> set (atomToRegex v s) \<Longrightarrow>
   c \<in> set s \<or> c = backslash \<or> c \<in> set (across v) \<or> c \<in> set (within v) \<or> c \<in> set (single v)"
  by (induction v s rule: atomToRegex.induct) (auto simp: escape_meta_def split: if_splits)

lemma host_label_quote [simp]: "\<not> host_label_char squote"
  by (simp add: host_label_char_def is_alpha_def is_upper_def is_lower_def in_range_def)

lemma domain_quote_free:
  assumes "domainToRegexPartial domain = Inr d" shows "squote \<notin> set d"
proof
  assume "squote \<in> set d"
  then obtain l where l: "l \<in> set (split_on (CHR ''.'') domain)" "squote \<in> set (atomToRegex DOMAIN l)"
    using domainToRegexPartial_Inr [OF assms] join_chars by (fastforce simp: dot_sep_def)
  then have "squote \<in> set l" using atom_chars [OF l(2)] by (simp add: DOMAIN_def)
  moreover have "list_all host_label_char l"
    using domainToRegexPartial_Inr [OF assms] l(1) by (auto simp: checkHostLabel_def split: if_splits)
  ultimately show False by (auto simp: list_all_iff)
qed

lemma host_rule_quote_free: "hostOnlyRegexOfRule syn p = Inr h \<Longrightarrow> squote \<notin> set h"
proof (cases "starts_with ''~'' p")
  case True
  assume "hostOnlyRegexOfRule syn p = Inr h"
  with True have "splitRawRegexHost syn p = Inr h" by (simp add: hostOnlyRegexOfRule_def del: starts_with_Cons)
  then show ?thesis using raw_host_safe by blast
next
  case False
  assume "hostOnlyRegexOfRule syn p = Inr h"
  with False show ?thesis using domain_quote_free by (auto simp: hostOnlyRegexOfRule_def simp del: starts_with_Cons)
qed

lemma url_rule_quote_free:
  assumes "convertUrlRule syn line = Inr u" shows "squote \<notin> set (hostOnlyRegexOfUrlRule u)"
proof (cases "ur_isRegex u")
  case True
  then show ?thesis using url_regex_safe [OF assms True]
    by (auto simp: hostOnlyRegexOfUrlRule_def dest: in_set_butlastD in_set_dropD)
next
  case False
  obtain spec methods url where c: "compileUrl syn methods url (js_trim line) = Inr u"
    using convertUrlRule_parts [OF assms] by metis
  have "\<not> starts_with ''~'' url"
  proof
    assume "starts_with ''~'' url"
    with c False show False by (auto simp: compileUrl_def Let_def split: option.splits)
  qed
  with c obtain scheme port host d where l: "port = [] \<or> valid_port port" "domainToRegexPartial host = Inr d"
    "ur_authorityRegex u = ''^'' @ d @ '':'' @ authority_port scheme port @ ''$''" "\<not> ur_isRegex u"
    using compileUrl_literal by (metis url_rule.select_convs(3,6))
  have "CHR '':'' \<notin> set (authority_port scheme port)"
    using l(1) by (cases scheme) (auto simp: authority_port_def valid_port_def list_all_iff)
  then have "hostOnlyRegexOfUrlRule u = d"
    by (simp add: hostOnlyRegexOfUrlRule_def l(3,4) before_last_colon_def butlast_append)
  then show ?thesis using domain_quote_free [OF l(2)] by simp
qed

lemma resolver_quote_free:
  assumes "buildUrlRules syn urlInput = Inr (ri_url inputs)" and "compileRuleSet syn inputs = Inr rs"
    and "h \<in> set (rs_resolverHosts rs)"
  shows "squote \<notin> set h"
proof -
  have "resolverHosts syn inputs = Inr (rs_resolverHosts rs)" using assms(2) by (auto simp: compileRuleSet_def)
  then have "h \<in> rule_names syn inputs" using resolverHosts_Inr assms(3) by blast
  moreover have "\<exists>line. convertUrlRule syn line = Inr u" if "u \<in> set (ri_url inputs)" for u
    using assms(1) that by (auto simp: buildUrlRules_def dest: traverse_e_member)
  ultimately show ?thesis
    using host_rule_quote_free url_rule_quote_free unfolding rule_names_def by blast
qed

end
