(* ===== verification/RuleBlock.thy ===== *)
theory RuleBlock
  imports HaproxyRules
begin

text \<open>
  \<^verbatim>\<open>src/core/lib/acl/haproxy-rule-block.ts\<close>: the acls of a scheme's rules and the deny
  that enforces them, as the lines of haproxy.cfg.
\<close>

section \<open>The source\<close>

definition deniesEverything :: "compiled_rule list \<Rightarrow> string \<Rightarrow> bool" where
  "deniesEverything rules mode \<longleftrightarrow> mode \<noteq> ''audit'' \<and> rules = []"

text \<open>The state of the loop: the lines so far and the two maps of the code.\<close>

record block_state =
  bs_lines :: "string list"
  bs_aclForHost :: "string \<rightharpoonup> string"
  bs_hostAclOf :: "string \<rightharpoonup> string"

definition matcher_key :: "matcher \<Rightarrow> string" where
  "matcher_key m = m_op m @ '' '' @ m_pattern m"

definition host_acl_line :: "string \<Rightarrow> matcher \<Rightarrow> string" where
  "host_acl_line name m =
     ''    acl '' @ name @ '' var(txn.host) '' @ m_op m @ '' '' @ escapeForHaproxy (m_pattern m)"

definition bare_full_lines :: "string \<Rightarrow> string \<Rightarrow> string list" where
  "bare_full_lines rid hostRegex =
     [''    http-request set-var(txn.'' @ rid @ ''_ok) bool(false)'',
      ''    http-request set-var(txn.'' @ rid @ ''_ok) bool(true) if is_default_port { var(txn.host) -m reg -i '' @
        hostRegex @ '' }'',
      ''    http-request set-var(txn.'' @ rid @ ''_ok) bool(true) if { var(txn.host_full) -m reg -i '' @
        hostRegex @ '' }'',
      ''    acl '' @ rid @ ''_host var(txn.'' @ rid @ ''_ok) -m bool'']"

definition port_lines :: "compiled_rule \<Rightarrow> string list" where
  "port_lines r =
     (case cr_port r of None \<Rightarrow> []
      | Some p \<Rightarrow> if p = [] then [] else [''    acl '' @ cr_id r @ ''_port dst_port '' @ p])"

text \<open>The host acl of one rule.\<close>

definition host_step :: "compiled_rule \<Rightarrow> block_state \<Rightarrow> block_state" where
  "host_step r st =
     (let hostRegex = escapeForHaproxy (cr_hostRegex r);
          own = cr_id r @ ''_host'' in
      case cr_hostMatch r of
        HmHostPort \<Rightarrow>
          st\<lparr>bs_lines := bs_lines st @ [''    acl '' @ own @ '' var(txn.host_port) -m reg -i '' @ hostRegex]\<rparr>
      | HmHostBareFull \<Rightarrow> st\<lparr>bs_lines := bs_lines st @ bare_full_lines (cr_id r) hostRegex\<rparr>
      | HmWildcard \<Rightarrow>
          (let host = hostMatcher (cr_hostRegex r); key = matcher_key host;
               shared = bs_aclForHost st key in
           \<lparr>bs_lines = bs_lines st @ (if shared = None then [host_acl_line own host] else []) @ port_lines r,
            bs_aclForHost = (if shared = None then (bs_aclForHost st)(key \<mapsto> own) else bs_aclForHost st),
            bs_hostAclOf = (bs_hostAclOf st)(cr_id r \<mapsto> (case shared of None \<Rightarrow> own | Some a \<Rightarrow> a))\<rparr>))"

definition path_lines :: "compiled_rule \<Rightarrow> string list" where
  "path_lines r =
     (let path = pathMatcher (cr_pathRegex r) in
      [''    acl '' @ cr_id r @ ''_path path '' @ m_op path @ '' '' @ escapeForHaproxy (m_pattern path)] @
      (case cr_methods r of None \<Rightarrow> []
       | Some ms \<Rightarrow> [''    acl '' @ cr_id r @ ''_method method '' @ join_with '' '' ms]))"

definition rule_step :: "compiled_rule \<Rightarrow> block_state \<Rightarrow> block_state" where
  "rule_step r st =
     (let st' = host_step r (st\<lparr>bs_lines := bs_lines st @ [''    # '' @ cr_raw r]\<rparr>)
      in st'\<lparr>bs_lines := bs_lines st' @ path_lines r\<rparr>)"

text \<open>The host acl a rule's clause names.\<close>

definition host_acl_of :: "block_state \<Rightarrow> compiled_rule \<Rightarrow> string" where
  "host_acl_of st r = (case bs_hostAclOf st (cr_id r) of Some a \<Rightarrow> a | None \<Rightarrow> cr_id r @ ''_host'')"

definition clause :: "block_state \<Rightarrow> compiled_rule \<Rightarrow> string" where
  "clause st r =
     host_acl_of st r @
     (case cr_port r of None \<Rightarrow> [] | Some p \<Rightarrow> if p = [] then [] else '' '' @ cr_id r @ ''_port'') @
     '' '' @ cr_id r @ ''_path'' @
     (case cr_methods r of None \<Rightarrow> [] | Some _ \<Rightarrow> '' '' @ cr_id r @ ''_method'')"

definition start_lines :: "compiled_rule list \<Rightarrow> url_scheme \<Rightarrow> string list" where
  "start_lines rules scheme =
     (if list_ex (\<lambda>r. cr_hostMatch r = HmHostPort) rules
      then [''    http-request set-var-fmt(txn.host_port) %[var(txn.host)]:%[dst_port]''] else []) @
     (if list_ex (\<lambda>r. cr_hostMatch r = HmHostBareFull) rules
      then [''    acl is_default_port dst_port '' @ DEFAULT_PORT scheme,
            ''    http-request set-var-fmt(txn.host_full) %[var(txn.host)]:%[dst_port]''] else [])"

definition run_rules :: "compiled_rule list \<Rightarrow> url_scheme \<Rightarrow> block_state" where
  "run_rules rules scheme =
     foldl (\<lambda>st r. rule_step r st)
       \<lparr>bs_lines = start_lines rules scheme, bs_aclForHost = Map.empty, bs_hostAclOf = Map.empty\<rparr> rules"

definition deny_unless :: string where
  "deny_unless = ''    http-request deny unless { var(txn.allowed) -m bool }''"

definition allow_line :: "string \<Rightarrow> string" where
  "allow_line c = ''    http-request set-var(txn.allowed) bool(true) if !{ var(txn.allowed) -m bool } '' @ c"

definition ruleBlock :: "compiled_rule list \<Rightarrow> string \<Rightarrow> url_scheme \<Rightarrow> string list" where
  "ruleBlock rules mode scheme =
     (if mode = ''audit'' then
        [''    # audit records without enforcing, so nothing is blocked here.'', []]
      else if deniesEverything rules mode then
        [''    # No rules for this scheme, so nothing is permitted.'', ''    http-request deny'', []]
      else (let st = run_rules rules scheme in
        bs_lines st @ [[]] @
        [''    http-request set-var(txn.allowed) bool(false)''] @
        map (\<lambda>r. allow_line (clause st r)) rules @
        [deny_unless, []]))"

section \<open>The lines that name an acl\<close>

text \<open>HAProxy ors the acls of one name, so what a name means is every line that declares it: the
  lines that start with a prefix, the name and the character that ends it.\<close>

definition named :: "string \<Rightarrow> char \<Rightarrow> string \<Rightarrow> string list \<Rightarrow> string list" where
  "named prefix' stop name lines = filter (starts_with (prefix' @ name @ [stop])) lines"




lemma named_Nil [simp]: "named p c n [] = []"
  by (simp add: named_def)

text \<open>The name a line declares.\<close>

definition name_in :: "string \<Rightarrow> char \<Rightarrow> string \<Rightarrow> string option" where
  "name_in prefix' stop line =
     (if starts_with prefix' line \<and> stop \<in> set (drop (length prefix') line)
      then Some (takeWhile (\<lambda>c. c \<noteq> stop) (drop (length prefix') line)) else None)"




section \<open>The acls of a rule\<close>











lemma rule_step_maps:
  "bs_aclForHost (rule_step r st) = bs_aclForHost (host_step r st)"
  "bs_hostAclOf (rule_step r st) = bs_hostAclOf (host_step r st)"
  by (cases "cr_hostMatch r"; simp add: rule_step_def host_step_def Let_def)+


lemma not_acl [simp]:
  "name_in ''    acl '' c (''    # '' @ x) = None" "name_in ''    acl '' c (''    http-request '' @ x) = None"
  "name_in ''    http-request set-var(txn.'' c (''    # '' @ x) = None"
  "name_in ''    http-request set-var(txn.'' c (''    acl '' @ x) = None"
  by (simp_all add: name_in_def)


















section \<open>Sharing a host acl\<close>
























section \<open>The deny\<close>

definition denies :: "string \<Rightarrow> bool" where
  "denies line \<longleftrightarrow> starts_with ''    http-request deny'' line"

text \<open>A line that neither ends a request's evaluation nor resolves a name.\<close>

definition inert :: "string \<Rightarrow> bool" where
  "inert line \<longleftrightarrow> line = [] \<or> starts_with ''    # '' line \<or> starts_with ''    acl '' line \<or>
     starts_with ''    http-request set-var'' line"

lemma inert_not_denies: "inert line \<Longrightarrow> \<not> denies line"
  by (auto simp: inert_def denies_def)

lemma path_lines_inert: "list_all inert (path_lines r)"
  by (auto simp: path_lines_def Let_def inert_def split: option.splits)

lemma port_lines_inert: "list_all inert (port_lines r)"
  by (auto simp: port_lines_def inert_def split: option.splits if_splits)

lemma host_step_inert: "list_all inert (bs_lines st) \<Longrightarrow> list_all inert (bs_lines (host_step r st))"
  using port_lines_inert [of r]
  by (cases "cr_hostMatch r")
    (auto simp: host_step_def Let_def bare_full_lines_def host_acl_line_def inert_def split: if_splits)

lemma rule_step_inert: "list_all inert (bs_lines st) \<Longrightarrow> list_all inert (bs_lines (rule_step r st))"
  using path_lines_inert [of r] host_step_inert [of "st\<lparr>bs_lines := bs_lines st @ [''    # '' @ cr_raw r]\<rparr>" r]
  by (simp add: rule_step_def Let_def) (simp add: inert_def)

lemma run_rules_inert: "list_all inert (bs_lines (run_rules rules scheme))"
proof -
  have fold: "list_all inert (bs_lines st) \<Longrightarrow> list_all inert (bs_lines (foldl (\<lambda>st r. rule_step r st) st rules))" for st
    by (induction rules arbitrary: st) (simp_all add: rule_step_inert)
  have "list_all inert (start_lines rules scheme)"
    by (simp add: start_lines_def inert_def)
  then show ?thesis unfolding run_rules_def by (intro fold) simp
qed

lemma allow_line_inert: "inert (allow_line c)" "inert []"
  "inert ''    http-request set-var(txn.allowed) bool(false)''"
  by (simp_all add: allow_line_def inert_def)

lemma ruleBlock_inert: "l \<in> set (ruleBlock rules mode scheme) \<Longrightarrow> inert l \<or> denies l"
  using run_rules_inert [of rules scheme] allow_line_inert
  by (auto simp: ruleBlock_def deniesEverything_def Let_def list_all_iff inert_def [of "''    # audit records without enforcing, so nothing is blocked here.''"]
      inert_def [of "''    # No rules for this scheme, so nothing is permitted.''"] denies_def deny_unless_def split: if_splits)

text \<open>C9. An enforcing block ends in exactly one deny and nothing else in it denies: with no
  rule the deny carries no condition, with rules it spares what a rule allowed. An audit
  block has none.\<close>

theorem ruleBlock_denies:
  "\<exists>pre. filter denies pre = [] \<and>
     ruleBlock rules mode scheme =
       pre @ (if mode = ''audit'' then []
              else [if rules = [] then ''    http-request deny'' else deny_unless]) @ [[]]"
proof (cases "mode = ''audit''")
  case True
  then show ?thesis
    by (intro exI [of _ "[''    # audit records without enforcing, so nothing is blocked here.'']"])
      (simp add: ruleBlock_def denies_def)
next
  case enforcing: False
  show ?thesis
  proof (cases "rules = []")
    case True
    with enforcing show ?thesis
      by (intro exI [of _ "[''    # No rules for this scheme, so nothing is permitted.'']"])
        (simp add: ruleBlock_def deniesEverything_def denies_def)
  next
    case False
    let ?st = "run_rules rules scheme"
    let ?pre = "bs_lines ?st @ [[]] @ [''    http-request set-var(txn.allowed) bool(false)''] @
        map (\<lambda>r. allow_line (clause ?st r)) rules"
    have "filter denies ?pre = []"
      unfolding filter_empty_conv using run_rules_inert allow_line_inert inert_not_denies
      by (auto simp: list_all_iff)
    with enforcing False show ?thesis
      by (intro exI [of _ ?pre]) (simp add: ruleBlock_def deniesEverything_def Let_def)
  qed
qed

end
