(* ===== verification/TrafficEvent.thy ===== *)
theory TrafficEvent
  imports Prelude
begin

text \<open>
  The domain model of the log parsers under \<^verbatim>\<open>src/core/lib/log\<close>: the authority of a
  request (\<^verbatim>\<open>authority.ts\<close>), what a termination state says about a request that never
  arrived whole (\<^verbatim>\<open>termination.ts\<close>), the event a parser yields and the decisions over a
  timeline (\<^verbatim>\<open>traffic-event.ts\<close>). A time is kept in milliseconds, where the code divides
  by 1000.
\<close>

section \<open>Authorities\<close>

text \<open>\<^term>\<open>None\<close> is the port of an authority without a separator.\<close>

definition splitHostPort :: "string \<Rightarrow> string \<times> string option" where
  "splitHostPort authority =
     (case last_index_of (CHR '':'') authority of
        None \<Rightarrow> (authority, None)
      | Some colon \<Rightarrow>
          if colon = 0 \<or> CHR '']'' \<in> set (drop (Suc colon) authority) then (authority, None)
          else (take colon authority, Some (drop (Suc colon) authority)))"

definition sniHost :: "string \<Rightarrow> string" where
  "sniHost sni = to_lower sni"

definition ruleHost :: "string \<Rightarrow> string" where
  "ruleHost host =
     (let s = sniHost host in if s \<noteq> [] \<and> last s = CHR ''.'' then butlast s else s)"

definition PROXY_ADDRESS :: string where
  "PROXY_ADDRESS = ''198.19.255.1''"

definition PROXY_SUBNET :: string where
  "PROXY_SUBNET = ''198.19.255.0/24''"

definition UNKNOWN_HOST :: string where
  "UNKNOWN_HOST = ''(unknown)''"

section \<open>Termination states\<close>

definition BAD_REQUEST_METHOD :: string where
  "BAD_REQUEST_METHOD = ''<BADREQ>''"

text \<open>\<^verbatim>\<open>s[i]\<close>: \<^const>\<open>None\<close> past the end.\<close>

definition char_of_state :: "string \<Rightarrow> nat \<Rightarrow> char option" where
  "char_of_state s i = (if i < length s then Some (s ! i) else None)"

definition incompleteReason :: "string \<Rightarrow> string \<Rightarrow> string option" where
  "incompleteReason ts meth =
     (let cause = char_of_state ts 0 in
      if cause = Some (CHR ''P'') then None
      else if char_of_state ts 1 \<noteq> Some (CHR ''R'') then
        (if meth = BAD_REQUEST_METHOD then Some ''no-request'' else None)
      else if cause = Some (CHR ''C'') then Some ''client-aborted''
      else if cause = Some (CHR ''c'') then Some ''client-timeout''
      else Some ''no-request'')"

section \<open>Events\<close>

datatype traffic_action = Allow | Block | AuditAction | Discovery | Incomplete | Failed

datatype traffic_protocol = HttpsP | HttpP | TlsP | TcpP | DnsP

record traffic_event =
  te_time :: nat
  te_action :: traffic_action
  te_protocol :: traffic_protocol
  te_host :: string
  te_port :: "nat option"
  te_queryType :: "string option"
  te_method :: "string option"
  te_url :: "string option"
  te_status :: "int option"
  te_bytes :: "nat option"
  te_reason :: "string option"
  te_destination :: "string option"
  te_wouldBlock :: "string option"
  te_extensions :: "(string \<times> (string \<times> string) list) list option"

text \<open>An event with no optional field set.\<close>

definition bare_event :: "nat \<Rightarrow> traffic_action \<Rightarrow> traffic_protocol \<Rightarrow> string \<Rightarrow> traffic_event" where
  "bare_event time action protocol host =
     \<lparr>te_time = time, te_action = action, te_protocol = protocol, te_host = host, te_port = None,
      te_queryType = None, te_method = None, te_url = None, te_status = None, te_bytes = None,
      te_reason = None, te_destination = None, te_wouldBlock = None, te_extensions = None\<rparr>"

definition FAILURE_REASONS :: "string set" where
  "FAILURE_REASONS = {''origin-unreachable'', ''origin-no-response'', ''origin-aborted'', ''dns-failed''}"

definition actionFor :: "string option \<Rightarrow> bool \<Rightarrow> traffic_action" where
  "actionFor reason isAudit =
     (case reason of
        Some r \<Rightarrow> if r \<in> FAILURE_REASONS then Failed else Block
      | None \<Rightarrow> if isAudit then AuditAction else Allow)"

definition CLIENT_ENDED_REASONS :: "string set" where
  "CLIENT_ENDED_REASONS = {''client-aborted'', ''client-timeout''}"

definition client_ended :: "traffic_event \<Rightarrow> bool" where
  "client_ended e \<longleftrightarrow> (case te_reason e of Some r \<Rightarrow> r \<in> CLIENT_ENDED_REASONS | None \<Rightarrow> False)"

section \<open>Decisions over a timeline\<close>

definition completed_hosts :: "traffic_event list \<Rightarrow> string set" where
  "completed_hosts timeline =
     set (map (\<lambda>e. ruleHost (te_host e))
       (filter (\<lambda>e. te_protocol e \<noteq> DnsP \<and> te_action e \<noteq> Incomplete \<and> te_host e \<noteq> UNKNOWN_HOST) timeline))"

definition clientEndedNoise :: "traffic_event list \<Rightarrow> traffic_event \<Rightarrow> bool" where
  "clientEndedNoise timeline e \<longleftrightarrow>
     te_action e = Incomplete \<and> client_ended e \<and> ruleHost (te_host e) \<in> completed_hosts timeline"

record connected_hosts =
  ch_any :: "string set"
  ch_blocked :: "string set"

definition connectedHosts :: "traffic_event list \<Rightarrow> connected_hosts" where
  "connectedHosts timeline =
     (let es = filter (\<lambda>e. \<not> (te_protocol e = DnsP \<or> te_action e = Incomplete)) timeline in
      \<lparr>ch_any = set (map (\<lambda>e. ruleHost (te_host e)) es),
       ch_blocked = set (map (\<lambda>e. ruleHost (te_host e)) (filter (\<lambda>e. te_action e = Block) es))\<rparr>)"

definition isRedundantDns :: "traffic_event \<Rightarrow> connected_hosts \<Rightarrow> bool" where
  "isRedundantDns e connected \<longleftrightarrow>
     (if te_protocol e \<noteq> DnsP \<or> te_action e = Discovery then False
      else if te_action e = Block then te_host e \<in> ch_blocked connected
      else te_host e \<in> ch_any connected)"

section \<open>Properties\<close>

lemma ruleHost_lower: "ruleHost host = ruleHost (to_lower host)"
  by (simp add: ruleHost_def sniHost_def)

text \<open>An authority splits without loss: with a port, the host, the separator and the port
  are the authority, and neither the port holds a bracket nor is the host empty; without one,
  the host is all of it. A bracketed IPv6 literal keeps its colons.\<close>

theorem splitHostPort_lossless:
  "case splitHostPort authority of
     (host, None) \<Rightarrow> host = authority
   | (host, Some port) \<Rightarrow> authority = host @ '':'' @ port \<and> host \<noteq> [] \<and> CHR '':'' \<notin> set port \<and> CHR '']'' \<notin> set port"
proof (cases "last_index_of (CHR '':'') authority")
  case (Some i)
  from last_index_of_Some [OF this]
  have i: "i < length authority" "authority = take i authority @ CHR '':'' # drop (Suc i) authority"
    "CHR '':'' \<notin> set (drop (Suc i) authority)" by auto
  show ?thesis
  proof (cases "i = 0 \<or> CHR '']'' \<in> set (drop (Suc i) authority)")
    case True
    then show ?thesis by (simp add: splitHostPort_def Some)
  next
    case False
    moreover have "take i authority \<noteq> []" using False i(1) by auto
    ultimately show ?thesis using i(2,3) by (simp add: splitHostPort_def Some)
  qed
qed (simp add: splitHostPort_def)

text \<open>What a report leaves out of its timeline: \<^verbatim>\<open>clientEndedNoise\<close> and
  \<^verbatim>\<open>isRedundantDns\<close> together.\<close>

definition omitted :: "traffic_event list \<Rightarrow> traffic_event \<Rightarrow> bool" where
  "omitted timeline e \<longleftrightarrow> clientEndedNoise timeline e \<or> isRedundantDns e (connectedHosts timeline)"

text \<open>C40. Whatever a report leaves out is covered by an event it keeps: one that is not a
  lookup, names the same host, and is itself a block where the one left out is a blocked
  lookup.\<close>

theorem omitted_covered:
  assumes "omitted timeline e"
  shows "\<exists>f\<in>set timeline. \<not> omitted timeline f \<and> te_protocol f \<noteq> DnsP \<and>
    ruleHost (te_host f) \<in> {te_host e, ruleHost (te_host e)} \<and>
    (te_action e = Block \<longrightarrow> te_action f = Block)"
proof -
  have kept: "\<not> omitted timeline f" if "te_protocol f \<noteq> DnsP" "te_action f \<noteq> Incomplete" for f
    using that by (simp add: omitted_def clientEndedNoise_def isRedundantDns_def)
  from assms consider "clientEndedNoise timeline e" | "isRedundantDns e (connectedHosts timeline)"
    by (auto simp: omitted_def)
  then show ?thesis
  proof cases
    case 1
    then obtain f where "f \<in> set timeline" "te_protocol f \<noteq> DnsP" "te_action f \<noteq> Incomplete"
      "ruleHost (te_host f) = ruleHost (te_host e)" "te_action e = Incomplete"
      by (fastforce simp: clientEndedNoise_def completed_hosts_def)
    then show ?thesis using kept by force
  next
    case 2
    then obtain f where "f \<in> set timeline" "te_protocol f \<noteq> DnsP" "te_action f \<noteq> Incomplete"
      "ruleHost (te_host f) = te_host e" "te_action e = Block \<longrightarrow> te_action f = Block"
      by (fastforce simp: isRedundantDns_def connectedHosts_def Let_def split: if_splits)
    then show ?thesis using kept by blast
  qed
qed

definition sample_timeline :: "traffic_event list" where
  "sample_timeline =
     [(bare_event 1 Block DnsP ''a.example'')\<lparr>te_reason := Some ''dns-not-allowed''\<rparr>,
      (bare_event 2 Block HttpsP ''a.example'')\<lparr>te_reason := Some ''not-allowed'', te_port := Some 443\<rparr>]"

theorem omitted_covered_witness:
  "\<exists>f\<in>set sample_timeline. \<not> omitted sample_timeline f \<and> te_protocol f \<noteq> DnsP \<and>
    ruleHost (te_host f) \<in> {te_host (hd sample_timeline), ruleHost (te_host (hd sample_timeline))} \<and>
    (te_action (hd sample_timeline) = Block \<longrightarrow> te_action f = Block)"
proof (rule omitted_covered)
  show "omitted sample_timeline (hd sample_timeline)" by code_simp
qed

end
