(* ===== verification/LogScan.thy ===== *)
theory LogScan
  imports TrafficEvent
begin

text \<open>
  What the log parsers share: the opening and the restarts a log shows by its startup
  markers, and the insertion-ordered \<^verbatim>\<open>Map\<close> they fold events into. Both are interfaces
  with the facts the parsers rest on, proved once.
\<close>

section \<open>Startup markers\<close>

text \<open>
  A scan keeps whether the first line that counts is a startup marker, and how many
  markers came after that line.
\<close>

locale line_scan =
  fixes counts :: "'l \<Rightarrow> bool" and starts :: "'l \<Rightarrow> bool"
  assumes starts_counts: "starts l \<Longrightarrow> counts l"
begin

definition scan_step :: "'l \<Rightarrow> bool option \<times> nat \<Rightarrow> bool option \<times> nat" where
  "scan_step l st =
     (if \<not> counts l then st
      else (case st of (None, n) \<Rightarrow> (Some (starts l), n)
            | (Some h, n) \<Rightarrow> (Some h, if starts l then Suc n else n)))"

lemma scan_after: "fold scan_step ls (Some h, n) = (Some h, n + length (filter starts ls))"
  by (induction ls arbitrary: n) (auto simp: scan_step_def dest: starts_counts)

theorem scan_meaning:
  "fold scan_step ls (None, 0) =
     (case filter counts ls of [] \<Rightarrow> (None, 0)
      | l # rest \<Rightarrow> (Some (starts l), length (filter starts rest)))"
proof (induction ls)
  case (Cons l ls)
  have f: "filter (\<lambda>x. counts x \<and> starts x) ls = filter starts ls"
    by (induction ls) (auto dest: starts_counts)
  have "scan_step l (None, 0) = (if counts l then (Some (starts l), 0) else (None, 0))"
    by (simp add: scan_step_def)
  with Cons f show ?case by (simp add: scan_after)
qed simp

end

section \<open>Insertion-ordered maps\<close>

text \<open>\<^verbatim>\<open>map.set(k, f(map.get(k)))\<close> on a JavaScript \<^verbatim>\<open>Map\<close>: the value under a known key
  is replaced in place, a new key goes to the end.\<close>

fun omap_update :: "'k \<Rightarrow> ('v option \<Rightarrow> 'v) \<Rightarrow> ('k \<times> 'v) list \<Rightarrow> ('k \<times> 'v) list" where
  "omap_update k f [] = [(k, f None)]"
| "omap_update k f ((k', v) # m) = (if k' = k then (k, f (Some v)) # m else (k', v) # omap_update k f m)"

lemma omap_update_get: "map_of (omap_update k f m) k' = (if k' = k then Some (f (map_of m k)) else map_of m k')"
  by (induction m) auto

lemma omap_update_keys:
  "map fst (omap_update k f m) = (if k \<in> fst ` set m then map fst m else map fst m @ [k])"
  by (induction m) force+

lemma omap_update_distinct: "distinct (map fst m) \<Longrightarrow> distinct (map fst (omap_update k f m))"
  by (simp add: omap_update_keys)

lemma filter_key:
  "distinct (map fst m) \<Longrightarrow>
     filter (\<lambda>kv. fst kv = k) m = (case map_of m k of None \<Rightarrow> [] | Some v \<Rightarrow> [(k, v)])"
proof (induction m)
  case (Cons kv m)
  have "k \<notin> fst ` set m \<Longrightarrow> filter (\<lambda>kv. fst kv = k) m = []" by (force simp: filter_empty_conv)
  with Cons show ?case by (auto split: option.splits)
qed simp

lemma map_filter_append: "List.map_filter f (xs @ ys) = List.map_filter f xs @ List.map_filter f ys"
  by (simp add: List.map_filter_def)

lemma map_filter_single: "List.map_filter f [x] = (case f x of None \<Rightarrow> [] | Some y \<Rightarrow> [y])"
  by (simp add: List.map_filter_def split: option.splits)

text \<open>A scan's component that only the lines of one kind touch.\<close>

lemma fold_map_filter:
  assumes "\<And>x st. g (f x st) = (case h x of None \<Rightarrow> g st | Some y \<Rightarrow> k y (g st))"
  shows "g (fold f xs st) = fold k (List.map_filter h xs) (g st)"
  by (induction xs arbitrary: st) (auto simp: assms List.map_filter_def split: option.splits)

text \<open>
  A parser that folds each element into the value under its key. A contract on the values
  is what makes the fold lose nothing: every element weighs in exactly once.
\<close>

locale accumulator =
  fixes key :: "'e \<Rightarrow> 'k" and fresh :: "'e \<Rightarrow> 'v" and merge :: "'v \<Rightarrow> 'e \<Rightarrow> 'v"
    and holds :: "'v \<Rightarrow> 'e list \<Rightarrow> bool"
  assumes fresh_holds: "holds (fresh e) [e]"
    and merge_holds: "holds v es \<Longrightarrow> holds (merge v e) (es @ [e])"
begin

definition add :: "'e \<Rightarrow> ('k \<times> 'v) list \<Rightarrow> ('k \<times> 'v) list" where
  "add e m = omap_update (key e) (\<lambda>old. case old of None \<Rightarrow> fresh e | Some v \<Rightarrow> merge v e) m"

definition collect :: "'e list \<Rightarrow> ('k \<times> 'v) list" where
  "collect es = fold add es []"

text \<open>The elements under a key, in order.\<close>

definition under :: "'e list \<Rightarrow> 'k \<Rightarrow> 'e list" where
  "under es k = filter (\<lambda>e. key e = k) es"

lemma collect_snoc: "collect (es @ [e]) = add e (collect es)"
  by (simp add: collect_def)

lemma collect_keys: "set (map fst (collect es)) = key ` set es \<and> distinct (map fst (collect es))"
proof (induction es rule: rev_induct)
  case (snoc e es)
  have "set (map fst (add e (collect es))) = insert (key e) (set (map fst (collect es)))"
    by (auto simp: add_def omap_update_keys)
  moreover have "distinct (map fst (add e (collect es)))"
    using snoc by (simp add: add_def omap_update_distinct del: map_append)
  ultimately show ?case using snoc by (simp add: collect_snoc)
qed (simp add: collect_def)

lemma collect_get:
  "case map_of (collect es) k of None \<Rightarrow> under es k = [] | Some v \<Rightarrow> holds v (under es k)"
proof (induction es rule: rev_induct)
  case (snoc e es)
  then show ?case
    by (auto simp: collect_snoc add_def omap_update_get under_def fresh_holds merge_holds split: option.splits)
qed (simp add: collect_def under_def)

theorem collect_holds: "(k, v) \<in> set (collect es) \<Longrightarrow> holds v (under es k) \<and> under es k \<noteq> []"
proof -
  assume kv: "(k, v) \<in> set (collect es)"
  then have "map_of (collect es) k = Some v" using collect_keys by (simp add: map_of_eq_Some_iff)
  then have "holds v (under es k)" using collect_get [of es k] by simp
  moreover have "k \<in> key ` set es" using collect_keys [of es] kv by force
  then have "under es k \<noteq> []" by (auto simp: under_def filter_empty_conv)
  ultimately show ?thesis by blast
qed

end

text \<open>When a value weighs as much as the elements it holds, nothing is lost or counted twice.\<close>

locale weighing_accumulator = accumulator key fresh merge holds
  for key :: "'e \<Rightarrow> 'k" and fresh :: "'e \<Rightarrow> 'v" and merge :: "'v \<Rightarrow> 'e \<Rightarrow> 'v"
    and holds :: "'v \<Rightarrow> 'e list \<Rightarrow> bool" +
  fixes weight :: "'v \<Rightarrow> nat" and load :: "'e \<Rightarrow> nat"
  assumes holds_weight: "holds v es \<Longrightarrow> weight v = sum_list (map load es)"
begin

lemma sum_parts:
  assumes "distinct ks" and "key ` set es \<subseteq> set ks"
  shows "sum_list (map (\<lambda>k. sum_list (map load (under es k))) ks) = sum_list (map load es)"
  using assms(2)
proof (induction es)
  case (Cons e es)
  have split: "sum_list (map (\<lambda>k. (if key e = k then load e else 0) + f k) ks) = load e + sum_list (map f ks)"
    if "key e \<in> set ks" for f
    using assms(1) that
  proof (induction ks)
    case (Cons k ks)
    have zero: "key e \<notin> set ks \<Longrightarrow>
        sum_list (map (\<lambda>k. (if key e = k then load e else 0) + f k) ks) = sum_list (map f ks)"
      by (induction ks) auto
    from Cons zero show ?case by auto
  qed simp
  have "under (e # es) k = (if key e = k then e # under es k else under es k)" for k
    by (simp add: under_def)
  then have "sum_list (map load (under (e # es) k)) =
      (if key e = k then load e else 0) + sum_list (map load (under es k))" for k by simp
  then show ?case using split [of "\<lambda>k. sum_list (map load (under es k))"] Cons by simp
qed (simp add: under_def)

theorem collect_weight: "sum_list (map (\<lambda>kv. weight (snd kv)) (collect es)) = sum_list (map load es)"
proof -
  have "map (\<lambda>kv. weight (snd kv)) (collect es) =
      map (\<lambda>k. sum_list (map load (under es k))) (map fst (collect es))"
    using collect_holds holds_weight by auto
  then have "sum_list (map (\<lambda>kv. weight (snd kv)) (collect es)) =
      sum_list (map (\<lambda>k. sum_list (map load (under es k))) (map fst (collect es)))" by (rule arg_cong)
  also have "\<dots> = sum_list (map load es)"
    using collect_keys [of es] by (intro sum_parts) auto
  finally show ?thesis .
qed

end

end
