(* ===== verification/LogPattern.thy ===== *)
theory LogPattern
  imports LogScan PartialWildcard
begin

text \<open>
  The line formats of the proxy and resolver logs as abstract expressions with numbered
  captures, and the calculus that says what the backtracking matcher of such an expression
  returns first: \<^verbatim>\<open>r.exec(line)\<close> of an anchored expression is its first success.
\<close>

named_theorems first_intros \<open>first successes of the pieces of a log format\<close>

section \<open>Pieces\<close>

definition cls_word :: cls where
  "cls_word = Cls False [(CHR ''A'', CHR ''Z''), (CHR ''a'', CHR ''z''), (CHR ''0'', CHR ''9''), (CHR ''_'', CHR ''_'')]"

text \<open>\<^verbatim>\<open>\d+\<close>, \<^verbatim>\<open>\w+\<close>, \<^verbatim>\<open>\S+\<close> and \<^verbatim>\<open>\S*\<close>.\<close>

definition RDigits :: re where
  "RDigits = RPlus (RCls cls_digit)"

definition RWords :: re where
  "RWords = RPlus (RCls cls_word)"

definition RSolid :: re where
  "RSolid = RPlus (RCls cls_nonspace)"

definition RSolid0 :: re where
  "RSolid0 = RStar True (RCls cls_nonspace)"

text \<open>\<^verbatim>\<open>m[n]\<close> where the group always takes part, and the empty text where it does not.\<close>

definition group :: "(nat \<times> string) list \<Rightarrow> nat \<Rightarrow> string" where
  "group m n = (case cap m n of Some w \<Rightarrow> w | None \<Rightarrow> [])"

section \<open>The first success\<close>

definition first :: "re \<Rightarrow> mstate \<Rightarrow> mstate \<Rightarrow> bool" where
  "first r st st' \<longleftrightarrow> (\<exists>rest. rm r st = st' # rest)"

lemma first_exec: "first r (0, s, []) (p, t, cs) \<Longrightarrow> re_exec r s = Some ((0, take p s) # cs)"
proof -
  assume "first r (0, s, []) (p, t, cs)"
  then have "re_exec_at r s 0 = Some ((0, take p s) # cs)" by (auto simp: first_def re_exec_at_def)
  moreover have "[0..<Suc (length s)] = 0 # [Suc 0..<Suc (length s)]" by (rule upt_conv_Cons) simp
  ultimately show ?thesis by (simp add: re_exec_def del: upt_Suc)
qed

lemma first_Seq: "first a st st' \<Longrightarrow> first b st' st'' \<Longrightarrow> first (RSeq a b) st st''"
  by (auto simp: first_def)

lemma first_Eps [first_intros]: "first REps st st"
  by (simp add: first_def)

lemma first_Bol [first_intros]: "first RBol (0, s, cs) (0, s, cs)"
  by (simp add: first_def)

lemma first_Eol [first_intros]: "first REol (p, [], cs) (p, [], cs)"
  by (simp add: first_def)

lemma first_Chr: "first (RChr c) (p, c # s, cs) (Suc p, s, cs)"
  by (simp add: first_def RChr_def cls_char_def in_range_def)

lemma rm_RLit: "rm (RLit w) (p, s, cs) = (if take (length w) s = w then [(p + length w, drop (length w) s, cs)] else [])"
proof (induction w arbitrary: p s)
  case (Cons c w)
  then show ?case by (cases s) (auto simp: RChr_def cls_char_def in_range_def)
qed simp

lemma first_Lit [first_intros]: "s = w @ t \<Longrightarrow> first (RLit w) (p, s, cs) (p + length w, t, cs)"
  by (simp add: first_def rm_RLit)

lemma first_Cap [first_intros]:
  "first r (p, s, cs) (q, t, ds) \<Longrightarrow> w = take (q - p) s \<Longrightarrow> first (RCap n r) (p, s, cs) (q, t, (n, w) # ds)"
  by (auto simp: first_def)

lemma first_AltL: "first a st st' \<Longrightarrow> first (RAlt a b) st st'"
  by (auto simp: first_def)

lemma first_AltR: "rm a st = [] \<Longrightarrow> first b st st' \<Longrightarrow> first (RAlt a b) st st'"
  by (auto simp: first_def)

text \<open>A greedy run of a class takes all of it first, and then what is left of it.\<close>

lemma rm_run:
  assumes "list_all (cls_mem k) w" "t = [] \<or> \<not> cls_mem k (hd t)"
  shows "rm (RStar True (RCls k)) (p, w @ t, cs) =
    map (\<lambda>i. (p + i, drop i (w @ t), cs)) (rev [0..<Suc (length w)])"
  using assms(1)
proof (induction w arbitrary: p)
  case Nil
  then show ?case using assms(2) by (cases t) (simp_all add: rm.simps(5))
next
  case (Cons c w)
  have "rm (RStar True (RCls k)) (p, (c # w) @ t, cs) = rm (RStar True (RCls k)) (Suc p, w @ t, cs) @ [(p, (c # w) @ t, cs)]"
    using Cons.prems by (subst rm.simps(5)) simp
  also have "\<dots> = map (\<lambda>i. (Suc p + i, drop i (w @ t), cs)) (rev [0..<Suc (length w)]) @ [(p, (c # w) @ t, cs)]"
    using Cons by simp
  also have "\<dots> = map (\<lambda>i. (p + i, drop i ((c # w) @ t), cs)) (rev [0..<Suc (length (c # w))])"
  proof -
    have "[0..<Suc (length (c # w))] = 0 # map Suc [0..<Suc (length w)]"
      unfolding map_Suc_upt by (simp add: upt_conv_Cons del: upt_Suc)
    then have r: "rev [0..<Suc (length (c # w))] = map Suc (rev [0..<Suc (length w)]) @ [0]"
      by (simp add: rev_map del: upt_Suc)
    show ?thesis unfolding r by simp
  qed
  finally show ?case .
qed

lemma first_run:
  assumes "list_all (cls_mem k) w" "t = [] \<or> \<not> cls_mem k (hd t)"
  shows "first (RStar True (RCls k)) (p, w @ t, cs) (p + length w, t, cs)"
  unfolding first_def rm_run [OF assms] by simp

lemma first_run1:
  assumes "list_all (cls_mem k) w" "w \<noteq> []" "t = [] \<or> \<not> cls_mem k (hd t)"
  shows "first (RPlus (RCls k)) (p, w @ t, cs) (p + length w, t, cs)"
proof -
  obtain c v where w: "w = c # v" using assms(2) by (cases w) auto
  then have "first (RCls k) (p, w @ t, cs) (Suc p, v @ t, cs)" using assms(1) by (simp add: first_def)
  moreover have "first (RStar True (RCls k)) (Suc p, v @ t, cs) (Suc p + length v, t, cs)"
    using assms w by (intro first_run) simp_all
  ultimately show ?thesis unfolding RPlus_def using w by (auto intro: first_Seq)
qed

section \<open>A whole line\<close>

text \<open>The matcher reads the rest of the line first to these captures.\<close>

definition reads :: "re \<Rightarrow> mstate \<Rightarrow> (nat \<times> string) list \<Rightarrow> bool" where
  "reads r st ds \<longleftrightarrow> (\<exists>q. first r st (q, [], ds))"

lemma reads_exec: "reads r (0, s, []) cs \<Longrightarrow> \<exists>whole. re_exec r s = Some ((0, whole) # cs)"
  using first_exec by (auto simp: reads_def)

lemma reads_Seq: "first a st st' \<Longrightarrow> reads b st' ds \<Longrightarrow> reads (RSeq a b) st ds"
  unfolding reads_def by (blast intro: first_Seq)

text \<open>A sequence read from the left: a literal, a captured run of a class, one of three words.\<close>

lemma reads_Bol [first_intros]: "reads r (0, s, cs) ds \<Longrightarrow> reads (RSeq RBol r) (0, s, cs) ds"
  by (rule reads_Seq [OF first_Bol])

lemma reads_Lit [first_intros]: "reads r (p + length w, t, cs) ds \<Longrightarrow> reads (RSeq (RLit w) r) (p, w @ t, cs) ds"
  by (rule reads_Seq [OF first_Lit]) simp_all

lemma reads_run [first_intros]:
  assumes "list_all (cls_mem k) w" "w \<noteq> []" "t = [] \<or> \<not> cls_mem k (hd t)"
    and "reads r (p + length w, t, (n, w) # cs) ds"
  shows "reads (RSeq (RCap n (RPlus (RCls k))) r) (p, w @ t, cs) ds"
  using assms by (intro reads_Seq [OF first_Cap [OF first_run1]]) simp_all

lemma reads_words [first_intros]:
  assumes "d \<in> {a, b, c}" "take (length a) (b @ t) \<noteq> a" "take (length a) (c @ t) \<noteq> a" "take (length b) (c @ t) \<noteq> b"
    and "reads r (p + length d, t, (n, d) # cs) ds"
  shows "reads (RSeq (RCap n (RAlt (RLit a) (RAlt (RLit b) (RLit c)))) r) (p, d @ t, cs) ds"
proof -
  have "first (RAlt (RLit a) (RAlt (RLit b) (RLit c))) (p, d @ t, cs) (p + length d, t, cs)"
    using assms(1-4) by (auto simp: first_def rm_RLit)
  then show ?thesis using assms(5) by (intro reads_Seq [OF first_Cap]) auto
qed

lemma reads_end [first_intros]: "reads (RSeq REol REps) (p, [], cs) cs"
  by (rule reads_Seq [OF first_Eol]) (auto simp: reads_def intro: first_Eps)

lemma reads_opt_end [first_intros]:
  "w \<noteq> [] \<Longrightarrow> reads r (p, [], cs) ds \<Longrightarrow> reads (RSeq (ROpt (RSeq (RLit w) a)) r) (p, [], cs) ds"
  by (rule reads_Seq [of _ _ "(p, [], cs)"]) (simp_all add: ROpt_def first_def rm_RLit)

lemma digits_cls: "list_all (cls_mem cls_digit) w \<longleftrightarrow> list_all is_digit w"
proof -
  have "cls_mem cls_digit = is_digit" by (intro ext) (simp add: cls_digit_def is_digit_range)
  then show ?thesis by simp
qed

lemma show_nat_cls [simp]: "list_all (cls_mem cls_digit) (show_nat n)"
  using show_nat_digits by (simp add: digits_cls)

lemma reads_digits [first_intros]:
  assumes "list_all is_digit w" "w \<noteq> []" "t = [] \<or> \<not> is_digit (hd t)"
    and "reads r (p + length w, t, (n, w) # cs) ds"
  shows "reads (RSeq (RCap n RDigits) r) (p, w @ t, cs) ds"
proof -
  have "t = [] \<or> \<not> cls_mem cls_digit (hd t)"
    using assms(3) by (simp add: cls_digit_def is_digit_range)
  then show ?thesis unfolding RDigits_def using assms(1,2,4)
    by (intro reads_run) (simp_all add: digits_cls)
qed

lemma rm_RDigits_no [simp]: "s = [] \<or> \<not> is_digit (hd s) \<Longrightarrow> rm RDigits (p, s, cs) = []"
  by (cases s) (auto simp: RDigits_def RPlus_def cls_digit_def is_digit_range)

lemma reads_bytes_end [first_intros]:
  assumes "bytes = ''-'' \<or> (bytes \<noteq> [] \<and> list_all is_digit bytes)"
    and "reads r (p + length bytes, [], (n, bytes) # cs) ds"
  shows "reads (RSeq (RCap n (RAlt RDigits (RLit ''-''))) r) (p, bytes, cs) ds"
proof -
  have "first (RAlt RDigits (RLit ''-'')) (p, bytes, cs) (p + length bytes, [], cs)"
  proof (cases "bytes = ''-''")
    case True
    then show ?thesis by (intro first_AltR) (simp_all add: first_def rm_RLit is_digit_def del: RLit.simps)
  next
    case False
    then show ?thesis using first_run1 [of cls_digit bytes "[]" p cs] assms
      by (intro first_AltL) (simp add: RDigits_def digits_cls)
  qed
  then show ?thesis using assms(2) by (intro reads_Seq [OF first_Cap]) simp_all
qed

end
