(* ===== verification/ProxyLog.thy ===== *)
theory ProxyLog
  imports LogPattern
begin

text \<open>
  \<^verbatim>\<open>src/core/lib/log/proxy-log-tally.ts\<close>, \<^verbatim>\<open>proxy-notices.ts\<close> and
  \<^verbatim>\<open>start-marker.ts\<close>: what the lines of a proxy log that are no event say about the log
  itself. The tally is the interface of \<^verbatim>\<open>LogScan\<close> for startup markers. A time is kept in
  milliseconds.
\<close>

section \<open>Notices\<close>

definition PROXY_LOG_BARRIER :: string where
  "PROXY_LOG_BARRIER = ''buildcage log barrier''"

definition PROXY_START_MARKER :: string where
  "PROXY_START_MARKER = ''buildcage haproxy starting''"

text \<open>\<^verbatim>\<open>/^(\d+) events? dropped\0?$/\<close>.\<close>

definition RING_DROPPED :: re where
  "RING_DROPPED = RSeqs [RBol, RCap 1 RDigits, RLit '' event'', ROpt (RLit ''s''), RLit '' dropped'',
     ROpt (RChr (CHR 0x00)), REol]"

definition ringDropped :: "string \<Rightarrow> nat option" where
  "ringDropped trimmed =
     (case re_exec RING_DROPPED trimmed of None \<Rightarrow> None | Some m \<Rightarrow> Some (decimal (group m 1)))"

section \<open>The tally\<close>

definition LINE_PREFIX :: string where
  "LINE_PREFIX = ''buildcage ''"

text \<open>\<^verbatim>\<open>/^buildcage haproxy starting (\d+)$/\<close>.\<close>

definition START :: re where
  "START = RSeqs [RBol, RLit (PROXY_START_MARKER @ '' ''), RCap 1 RDigits, REol]"

record proxy_log_tally =
  pl_startedAt :: "nat option"
  pl_headIntact :: bool
  pl_unparsed :: nat
  pl_restarts :: nat
  pl_dropped :: nat

text \<open>The variables \<^verbatim>\<open>createProxyLogTally\<close> closes over.\<close>

record tally_state =
  ts_startedAt :: "nat option"
  ts_headIntact :: "bool option"
  ts_unparsed :: nat
  ts_restarts :: nat
  ts_dropped :: nat

definition createProxyLogTally :: tally_state where
  "createProxyLogTally =
     \<lparr>ts_startedAt = None, ts_headIntact = None, ts_unparsed = 0, ts_restarts = 0, ts_dropped = 0\<rparr>"

text \<open>\<^verbatim>\<open>headIntact ??= b\<close>.\<close>

definition head_is :: "bool \<Rightarrow> tally_state \<Rightarrow> tally_state" where
  "head_is b st = st\<lparr>ts_headIntact := Some (case ts_headIntact st of None \<Rightarrow> b | Some h \<Rightarrow> h)\<rparr>"

definition tally_event :: "tally_state \<Rightarrow> tally_state" where
  "tally_event st = head_is False st"

definition tally_other :: "string \<Rightarrow> tally_state \<Rightarrow> tally_state" where
  "tally_other line st =
     (let trimmed = js_trim line in
      if trimmed = [] then st
      else case ringDropped trimmed of
        Some lost \<Rightarrow> (head_is False st)\<lparr>ts_dropped := ts_dropped st + lost\<rparr>
      | None \<Rightarrow>
          (let start = re_exec START trimmed;
               st1 = (if start \<noteq> None \<and> ts_headIntact st \<noteq> None
                      then st\<lparr>ts_restarts := Suc (ts_restarts st)\<rparr> else st);
               st2 = head_is (start \<noteq> None) st1;
               st3 = (case start of
                        Some m \<Rightarrow> if ts_startedAt st2 = None
                          then st2\<lparr>ts_startedAt := Some (decimal (group m 1))\<rparr> else st2
                      | None \<Rightarrow> st2)
           in if starts_with LINE_PREFIX trimmed \<and> start = None \<and> \<not> starts_with PROXY_LOG_BARRIER trimmed
              then st3\<lparr>ts_unparsed := Suc (ts_unparsed st3)\<rparr> else st3))"

definition tally_result :: "tally_state \<Rightarrow> proxy_log_tally" where
  "tally_result st =
     \<lparr>pl_startedAt = ts_startedAt st,
      pl_headIntact = (case ts_headIntact st of None \<Rightarrow> False | Some h \<Rightarrow> h),
      pl_unparsed = ts_unparsed st, pl_restarts = ts_restarts st, pl_dropped = ts_dropped st\<rparr>"

section \<open>What a pass over a log tells\<close>

text \<open>A line a parser read as an event, or any other.\<close>

datatype log_item = EventLine | OtherLine string

fun tally_item :: "log_item \<Rightarrow> tally_state \<Rightarrow> tally_state" where
  "tally_item EventLine st = tally_event st"
| "tally_item (OtherLine line) st = tally_other line st"

text \<open>The kinds of line the tally tells apart.\<close>

fun counted :: "log_item \<Rightarrow> bool" where
  "counted EventLine = True"
| "counted (OtherLine line) = (js_trim line \<noteq> [])"

fun lost_lines :: "log_item \<Rightarrow> nat option" where
  "lost_lines EventLine = None"
| "lost_lines (OtherLine line) = (if js_trim line = [] then None else ringDropped (js_trim line))"

fun marker :: "log_item \<Rightarrow> nat option" where
  "marker EventLine = None"
| "marker (OtherLine line) =
     (if js_trim line = [] \<or> ringDropped (js_trim line) \<noteq> None then None
      else map_option (\<lambda>m. decimal (group m 1)) (re_exec START (js_trim line)))"

fun unreadable :: "log_item \<Rightarrow> bool" where
  "unreadable EventLine = False"
| "unreadable (OtherLine line) =
     (js_trim line \<noteq> [] \<and> ringDropped (js_trim line) = None \<and> re_exec START (js_trim line) = None \<and>
      starts_with LINE_PREFIX (js_trim line) \<and> \<not> starts_with PROXY_LOG_BARRIER (js_trim line))"

definition is_marker :: "log_item \<Rightarrow> bool" where
  "is_marker l \<longleftrightarrow> marker l \<noteq> None"

interpretation proxy: line_scan counted is_marker
proof
  show "is_marker l \<Longrightarrow> counted l" for l by (cases l) (auto simp: is_marker_def split: if_splits)
qed

lemma tally_item_scan:
  "(ts_headIntact (tally_item l st), ts_restarts (tally_item l st)) =
     proxy.scan_step l (ts_headIntact st, ts_restarts st)"
  by (cases l)
    (auto simp: tally_event_def tally_other_def head_is_def proxy.scan_step_def is_marker_def Let_def
      split: option.splits)

lemma tally_item_rest:
  "ts_unparsed (tally_item l st) = ts_unparsed st + (if unreadable l then 1 else 0)"
  "ts_dropped (tally_item l st) = ts_dropped st + (case lost_lines l of None \<Rightarrow> 0 | Some n \<Rightarrow> n)"
  "ts_startedAt (tally_item l st) = (case ts_startedAt st of None \<Rightarrow> marker l | Some t \<Rightarrow> Some t)"
  by (cases l; auto simp: tally_event_def tally_other_def head_is_def Let_def split: option.splits)+

lemma tally_fold_scan:
  "(ts_headIntact (fold tally_item ls st), ts_restarts (fold tally_item ls st)) =
     fold proxy.scan_step ls (ts_headIntact st, ts_restarts st)"
  by (induction ls arbitrary: st) (simp_all flip: tally_item_scan)

lemma tally_fold_rest:
  "ts_unparsed (fold tally_item ls st) = ts_unparsed st + length (filter unreadable ls)"
  "ts_dropped (fold tally_item ls st) = ts_dropped st + sum_list (List.map_filter lost_lines ls)"
  "ts_startedAt (fold tally_item ls st) =
     (case ts_startedAt st of None \<Rightarrow> (case List.map_filter marker ls of [] \<Rightarrow> None | t # _ \<Rightarrow> Some t) | Some t \<Rightarrow> Some t)"
  by (induction ls arbitrary: st) (auto simp: tally_item_rest List.map_filter_def split: option.splits)

text \<open>C38. A pass over a proxy log tells the log's beginning by its first non-blank line alone,
  the restarts by the markers after that line and the start by the first marker; it counts
  every unreadable line of the proxy's own, and every line an announcement says was lost,
  exactly once.\<close>

theorem tally_meaning:
  "tally_result (fold tally_item ls createProxyLogTally) =
     \<lparr>pl_startedAt = (case List.map_filter marker ls of [] \<Rightarrow> None | t # _ \<Rightarrow> Some t),
      pl_headIntact = (case filter counted ls of [] \<Rightarrow> False | l # _ \<Rightarrow> is_marker l),
      pl_unparsed = length (filter unreadable ls),
      pl_restarts = (case filter counted ls of [] \<Rightarrow> 0 | _ # rest \<Rightarrow> length (filter is_marker rest)),
      pl_dropped = sum_list (List.map_filter lost_lines ls)\<rparr>"
proof -
  have "(ts_headIntact (fold tally_item ls createProxyLogTally), ts_restarts (fold tally_item ls createProxyLogTally)) =
      (case filter counted ls of [] \<Rightarrow> (None, 0)
       | l # rest \<Rightarrow> (Some (is_marker l), length (filter is_marker rest)))"
    unfolding tally_fold_scan using proxy.scan_meaning [of ls] by (simp add: createProxyLogTally_def)
  then show ?thesis
    by (auto simp: tally_result_def tally_fold_rest createProxyLogTally_def split: list.splits)
qed

end
