(* ===== verification/ConfigSections.thy ===== *)
theory ConfigSections
  imports RuleBlock ProxyLog
begin

text \<open>
  \<^verbatim>\<open>src/core/lib/acl/haproxy-sections.ts\<close> and \<^verbatim>\<open>haproxy-internal-dst.ts\<close>: the
  sections of haproxy.cfg that hold no rule, as their lines, and the acl that says a
  destination is internal. A character of a comment line outside ASCII stands as its UTF-8
  bytes.
\<close>

section \<open>Sections without rules\<close>

definition LOG_RING :: string where
  "LOG_RING = ''buildcage''"

definition START_MARKER_SCRIPT :: string where
  "START_MARKER_SCRIPT = ''/etc/s6-overlay/s6-rc.d/haproxy/data/start-marker.lua''"

record preamble_spec =
  ps_global :: "string list"
  ps_defaults :: "string list"

definition preamble :: "preamble_spec \<Rightarrow> string list" where
  "preamble spec =
     [''# Generated by buildcage. Do not edit.'',
      [],
      ''global'',
      ''    log ring@'' @ LOG_RING @ '' len 16384 format raw local0'',
      ''    tune.lua.bool-sample-conversion normal'',
      ''    lua-load '' @ START_MARKER_SCRIPT,
      ''    user haproxy'',
      ''    group haproxy'',
      ''    dns-accept-family ipv4''] @
     ps_global spec @
     [[],
      ''defaults'',
      ''    log global'',
      ''    timeout connect 5s'',
      ''    timeout tunnel 1h''] @
     ps_defaults spec @
     [[],
      ''# Readiness for s6-notifyoncheck, and the dropped-log count for the report.'',
      ''# Not reachable from the network.'',
      ''frontend health'',
      ''    bind /var/run/haproxy-health.sock mode 666'',
      ''    mode http'',
      ''    no log'',
      ''    monitor-uri /health'',
      ''    http-request use-service prometheus-exporter if { path /metrics }'',
      [],
      ''# Logs the query of each request, which the report waits to see in the log'',
      ''# before reading it. Not reachable from the network.'',
      ''frontend log_barrier'',
      ''    bind /var/run/haproxy-barrier.sock mode 600'',
      ''    mode http'',
      ''    log-format '' @ [dquote] @ PROXY_LOG_BARRIER @ '' %HQ'' @ [dquote],
      ''    http-request return status 204'',
      [],
      ''ring '' @ LOG_RING,
      ''    format raw'',
      ''    size 1048576'',
      ''    maxlen 16384'',
      ''    timeout connect 5s'',
      ''    server log unix@/var/run/haproxy-log/socket'',
      []]"

definition resolversSection :: "string list" where
  "resolversSection =
     [''# Real resolution happens once a request has already passed the rule'',
      ''# ACLs below; the build'' @ [squote] @ ''s own resolver (CoreDNS) never gives out a real'',
      ''# answer, so this is the only place a name becomes an address.'',
      ''resolvers buildcage'',
      ''    parse-resolv-conf'',
      ''    hold valid 60s'',
      ''    resolve_retries 4'',
      ''    timeout retry 1s'',
      ''    accepted_payload_size 8192'',
      []]"

definition originBackends :: "string \<Rightarrow> string list" where
  "originBackends systemCaFile =
     [''# The only place a request reaches the origin, so where its certificate is'',
      ''# checked; a blocked request never gets here. The SNI is the port-free'',
      ''# txn.host the rules judged, since a certificate is verified against a name,'',
      ''# not a name and port.'',
      ''backend origin_tls'',
      ''    mode http'',
      ''    server origin 0.0.0.0 ssl verify required ca-file '' @ systemCaFile @ '' sni var(txn.host)'',
      [],
      ''backend origin_plain'',
      ''    mode http'',
      ''    server origin 0.0.0.0'',
      []]"

section \<open>Internal destinations\<close>

record internal_dst_options =
  io_internalAddrs :: "string list"
  io_hostAddressFile :: "string option"

text \<open>An empty file name is falsy.\<close>

definition internalDstAcl :: "string \<Rightarrow> internal_dst_options \<Rightarrow> string \<Rightarrow> string list" where
  "internalDstAcl name opts fetch =
     [''    acl '' @ name @ '' '' @ fetch @ '' -m ip '' @ join_with '' '' (io_internalAddrs opts)] @
     (case io_hostAddressFile opts of
        Some file \<Rightarrow> if file = [] then [] else [''    acl '' @ name @ '' '' @ fetch @ '' -m ip -f '' @ file]
      | None \<Rightarrow> [])"

definition var_dst :: string where
  "var_dst = ''var(txn.dst)''"

lemma subseq_in_order:
  assumes xs: "subseq xs as" and ys: "subseq ys bs"
  shows "subseq (xs @ ys) (pre @ as @ mid @ bs @ post)"
proof -
  have "subseq ([] @ xs) (pre @ as)" "subseq ([] @ ys @ []) (mid @ bs @ post)"
    by (intro list_emb_append_mono xs ys list_emb_Nil)+
  from list_emb_append_mono [OF this] show ?thesis by simp
qed

section \<open>What a line does\<close>

text \<open>A line that looks a name up, and one that ends a connection or a request.\<close>

definition resolving :: "string \<Rightarrow> bool" where
  "resolving line \<longleftrightarrow> starts_with ''    http-request do-resolve'' line \<or>
     starts_with ''    tcp-request content do-resolve'' line"

definition rejecting :: "string \<Rightarrow> bool" where
  "rejecting line \<longleftrightarrow> denies line \<or> starts_with ''    tcp-request content reject'' line"

definition accepting :: "string \<Rightarrow> bool" where
  "accepting line \<longleftrightarrow> starts_with ''    tcp-request content accept'' line"

lemma acl_not_accepting: "filter accepting (internalDstAcl name opts fetch) = []"
  by (auto simp: internalDstAcl_def accepting_def filter_empty_conv split: option.splits if_splits)

lemma block_not_resolving: "inert l \<or> denies l \<Longrightarrow> \<not> resolving l"
  by (auto simp: inert_def denies_def resolving_def)

lemma ruleBlock_not_resolving: "filter resolving (ruleBlock rules mode scheme) = []"
  unfolding filter_empty_conv using ruleBlock_inert block_not_resolving by blast

lemma acl_not_resolving: "filter resolving (internalDstAcl name opts fetch) = []"
  by (auto simp: internalDstAcl_def resolving_def filter_empty_conv split: option.splits if_splits)

lemma sections_not_resolving: "filter resolving resolversSection = []"
  by code_simp

end
