(* ===== verification/DetectFrontend.thy ===== *)
theory DetectFrontend
  imports ConfigSections
begin

text \<open>
  \<^verbatim>\<open>src/core/lib/acl/haproxy-detect-frontend.ts\<close>: the single listener of the inspect
  engine, which passes a connection through or hands it to one of the inspected frontends.
\<close>

section \<open>The source\<close>

record detect_frontend_spec =
  df_listenPort :: nat
  df_tlsStagePort :: nat
  df_plainStagePort :: nat
  df_ipRules :: "compiled_ip_rule list"
  df_tlsHosts :: "compiled_tls_rule list"
  df_proxyAddress :: string
  df_guard :: internal_dst_options

text \<open>A port that is there and not empty, as the code's truthiness test reads it.\<close>

definition port_text :: "string option \<Rightarrow> string option" where
  "port_text p = (case p of Some t \<Rightarrow> if t = [] then None else Some t | None \<Rightarrow> None)"

definition tlsCond :: "compiled_tls_rule \<Rightarrow> string" where
  "tlsCond host =
     ct_id host @ ''_sni'' @
     (case port_text (ct_port host) of Some _ \<Rightarrow> '' '' @ ct_id host @ ''_port'' | None \<Rightarrow> []) @ '' sni_is_name''"

definition pass_cond :: string where
  "pass_cond = ''{ var(txn.pass) -m found }''"

definition ip_rule_lines :: "compiled_ip_rule \<Rightarrow> string list" where
  "ip_rule_lines rule =
     [''    # '' @ ci_raw rule,
      (if ci_hostMatch rule = HmHostPort
       then ''    acl '' @ ci_id rule @ ''_dst var(txn.dst_str) -m reg '' @ escapeForHaproxy (ci_address rule)
       else ''    acl '' @ ci_id rule @ ''_dst dst '' @ ci_address rule)] @
     (case port_text (ci_port rule) of Some p \<Rightarrow> [''    acl '' @ ci_id rule @ ''_port dst_port '' @ p] | None \<Rightarrow> [])"

definition ip_pass_line :: "compiled_ip_rule \<Rightarrow> string" where
  "ip_pass_line r =
     ''    tcp-request content set-var(txn.pass) int(1) if '' @ ci_id r @ ''_dst'' @
     (case port_text (ci_port r) of Some _ \<Rightarrow> '' '' @ ci_id r @ ''_port'' | None \<Rightarrow> []) @ '' !dns_routed''"

text \<open>The destination that would come straight back to this listener.\<close>

definition self_cond :: "nat \<Rightarrow> string" where
  "self_cond listenPort = pass_cond @ '' ip_dst_internal { dst_port '' @ show_nat listenPort @ '' }''"

definition ip_passthrough :: "nat \<Rightarrow> compiled_ip_rule list \<Rightarrow> string \<Rightarrow> internal_dst_options \<Rightarrow> string list" where
  "ip_passthrough listenPort ipRules proxyAddress guard =
     (let self = self_cond listenPort in
      (if list_ex (\<lambda>r. ci_hostMatch r = HmHostPort) ipRules
       then [''    tcp-request content set-var-fmt(txn.dst_str) %[dst]:%[dst_port]''] else []) @
      [''    # dst is the proxy only when the name went through this container'' @ [squote] @ ''s DNS.'',
       ''    acl dns_routed dst '' @ proxyAddress] @
      concat (map ip_rule_lines ipRules) @
      [[]] @ map ip_pass_line ipRules @
      [''    tcp-request content set-var(txn.proto) str(tcp) if '' @ pass_cond] @
      internalDstAcl ''ip_dst_internal'' guard ''dst'' @
      [''    tcp-request content set-var(txn.reason) str(internal-address) if '' @ self,
       ''    tcp-request content reject if '' @ self,
       ''    tcp-request content accept if '' @ pass_cond])"

definition tls_rule_lines :: "compiled_tls_rule \<Rightarrow> string list" where
  "tls_rule_lines host =
     [''    # '' @ ct_raw host,
      (if ct_hostMatch host = HmHostPort
       then ''    acl '' @ ct_id host @ ''_sni var(txn.sni_port) -m reg -i '' @ escapeForHaproxy (ct_hostRegex host)
       else ''    acl '' @ ct_id host @ ''_sni req.ssl_sni -m reg -i '' @ escapeForHaproxy (ct_hostRegex host))] @
     (case port_text (ct_port host) of Some p \<Rightarrow> [''    acl '' @ ct_id host @ ''_port dst_port '' @ p] | None \<Rightarrow> [])"

definition tls_pass_line :: "compiled_tls_rule \<Rightarrow> string" where
  "tls_pass_line host = ''    tcp-request content set-var(txn.pass) int(1) if '' @ tlsCond host"

definition tls_resolve_lines :: "internal_dst_options \<Rightarrow> string list" where
  "tls_resolve_lines guard =
     [''    tcp-request content set-var(txn.sni) req.ssl_sni,regsub([^A-Za-z0-9._-],_,g) if '' @ pass_cond,
      ''    tcp-request content set-var(txn.proto) str(tls) if '' @ pass_cond,
      [],
      ''    tcp-request content do-resolve(txn.dst,buildcage,ipv4) req.ssl_sni,lower if '' @ pass_cond,
      ''    tcp-request content set-var(txn.reason) str(dns-failed) if '' @ pass_cond @ '' !{ var(txn.dst) -m found }'',
      ''    tcp-request content reject if '' @ pass_cond @ '' !{ var(txn.dst) -m found }'',
      ''    tcp-request content set-dst var(txn.dst) if { var(txn.dst) -m found }''] @
     internalDstAcl ''pass_dst_internal'' guard var_dst @
     [''    tcp-request content set-var(txn.reason) str(internal-address) if '' @ pass_cond @ '' pass_dst_internal'',
      ''    tcp-request content reject if '' @ pass_cond @ '' pass_dst_internal'']"

definition tls_passthrough :: "compiled_tls_rule list \<Rightarrow> internal_dst_options \<Rightarrow> string list" where
  "tls_passthrough tlsHosts guard =
     (if list_ex (\<lambda>h. ct_hostMatch h = HmHostPort) tlsHosts
      then [''    tcp-request content set-var-fmt(txn.sni_port) %[req.ssl_sni]:%[dst_port] if { req.ssl_sni -m found }''] else []) @
     [[], ''    acl sni_is_name req.ssl_sni -m reg '' @ HOSTNAME_CHARSET] @
     concat (map tls_rule_lines tlsHosts) @
     [[]] @ map tls_pass_line tlsHosts @
     tls_resolve_lines guard"

definition detect_head :: "nat \<Rightarrow> string list" where
  "detect_head listenPort =
     [''# One listener for everything redirected here. The first bytes say whether'',
      ''# this is a handshake or a plain request, so no port has to be declared as'',
      ''# one or the other in advance.'',
      ''frontend detect'',
      ''    bind *:'' @ show_nat listenPort,
      ''    mode tcp'',
      ''    tcp-request inspect-delay 5s'',
      []]"

definition pass_log_lines :: "string list" where
  "pass_log_lines =
     [[],
      ''    tcp-request content set-log-level silent unless { var(txn.pass) -m found }'',
      ''    log-format '' @ [dquote] @ ''buildcage %[date(0,ms)] pass %[var(txn.proto)] %B ts=%ts '' @ ''reason=%[var(txn.reason)] dst=%[dst]:%[dst_port] sni=%[var(txn.sni)]'' @ [dquote],
      []]"

definition inspect_accept_lines :: "string list" where
  "inspect_accept_lines =
     [''    # `accept` ends content-rule evaluation, so it comes after every rule'',
      ''    # that needs the request buffer (the SNI capture and resolution above).'',
      ''    # Separate rules: while a ClientHello is incomplete the first one waits'',
      ''    # for the rest, where an `||` would accept on its first segment.'',
      ''    tcp-request content accept if { req.ssl_hello_type 1 }'',
      ''    tcp-request content accept if { req.len gt 0 }'',
      []]"

definition detect_tail :: "detect_frontend_spec \<Rightarrow> string list" where
  "detect_tail spec =
     [''    acl is_tls req.ssl_hello_type 1'',
      ''    use_backend to_tls if is_tls'',
      ''    default_backend to_plain'',
      [],
      ''backend passthrough'',
      ''    mode tcp'',
      ''    server origin 0.0.0.0'',
      [],
      ''backend to_tls'',
      ''    mode tcp'',
      ''    server s 127.0.0.1:'' @ show_nat (df_tlsStagePort spec) @ '' send-proxy-v2'',
      [],
      ''backend to_plain'',
      ''    mode tcp'',
      ''    server s 127.0.0.1:'' @ show_nat (df_plainStagePort spec) @ '' send-proxy-v2'',
      []]"

definition detectFrontend :: "detect_frontend_spec \<Rightarrow> string list" where
  "detectFrontend spec =
     (let hasPassthrough = (df_ipRules spec \<noteq> [] \<or> df_tlsHosts spec \<noteq> []) in
      detect_head (df_listenPort spec) @
      (if hasPassthrough
       then [''    # Passed through untouched: judged before anything is decrypted.''] @
         (if df_ipRules spec \<noteq> []
          then ip_passthrough (df_listenPort spec) (df_ipRules spec) (df_proxyAddress spec) (df_guard spec) else []) @
         (if df_tlsHosts spec \<noteq> [] then tls_passthrough (df_tlsHosts spec) (df_guard spec) else []) @
         pass_log_lines
       else [''    no log'', []]) @
      inspect_accept_lines @
      (if hasPassthrough then [''    use_backend passthrough if { var(txn.pass) -m found }'', []] else []) @
      detect_tail spec)"

section \<open>The order of the listener\<close>

lemma ip_rule_lines_not_accepting: "filter accepting (concat (map ip_rule_lines rules)) = []"
  by (auto simp: ip_rule_lines_def accepting_def filter_empty_conv split: option.splits)

lemma tls_rule_lines_not_accepting: "filter accepting (concat (map tls_rule_lines hosts)) = []"
  by (auto simp: tls_rule_lines_def accepting_def filter_empty_conv split: option.splits)

lemma pass_lines_not_accepting:
  "filter accepting (map ip_pass_line rules) = []" "filter accepting (map tls_pass_line hosts) = []"
  by (auto simp: ip_pass_line_def tls_pass_line_def accepting_def filter_empty_conv)

definition accept_pass :: string where
  "accept_pass = ''    tcp-request content accept if '' @ pass_cond"

lemma ip_passthrough_accepts: "filter accepting (ip_passthrough port rules proxy guard) = [accept_pass]"
  by (simp add: ip_passthrough_def Let_def ip_rule_lines_not_accepting pass_lines_not_accepting acl_not_accepting
      accept_pass_def del: map_append) (simp add: accepting_def)

lemma tls_passthrough_accepts: "filter accepting (tls_passthrough hosts guard) = []"
  by (simp add: tls_passthrough_def tls_resolve_lines_def tls_rule_lines_not_accepting pass_lines_not_accepting
      acl_not_accepting) (simp add: accepting_def)

definition reject_self :: "nat \<Rightarrow> string" where
  "reject_self port = ''    tcp-request content reject if '' @ self_cond port"

lemma ip_passthrough_order:
  "subseq (map ip_pass_line rules @ [reject_self port, accept_pass]) (ip_passthrough port rules proxy guard)"
proof -
  have "subseq [reject_self port, accept_pass]
      [''    tcp-request content set-var(txn.reason) str(internal-address) if '' @ self_cond port,
       ''    tcp-request content reject if '' @ self_cond port, ''    tcp-request content accept if '' @ pass_cond]"
    unfolding reject_self_def accept_pass_def by (intro list_emb_Cons list_emb_Cons2 list_emb_Nil refl)
  note order = subseq_in_order [OF subseq_order.refl [of "map ip_pass_line rules"] this, where post = "[]",
      unfolded append_Nil2]
  have cut: "a @ b @ c @ d @ m @ t @ u @ v = (a @ b @ c @ d) @ m @ (t @ u) @ v" for a b c d m t u v :: "string list"
    by simp
  show ?thesis unfolding ip_passthrough_def Let_def cut by (rule order)
qed

text \<open>What becomes of a connection a TLS rule passes through.\<close>

definition tls_steps :: "string list" where
  "tls_steps =
     [''    tcp-request content do-resolve(txn.dst,buildcage,ipv4) req.ssl_sni,lower if '' @ pass_cond,
      ''    tcp-request content reject if '' @ pass_cond @ '' !{ var(txn.dst) -m found }'',
      ''    tcp-request content set-dst var(txn.dst) if { var(txn.dst) -m found }'',
      ''    tcp-request content reject if '' @ pass_cond @ '' pass_dst_internal'']"

lemma tls_resolve_order: "subseq tls_steps (tls_resolve_lines guard)"
proof -
  have "subseq [''    tcp-request content reject if '' @ pass_cond @ '' pass_dst_internal'']
     [''    tcp-request content set-var(txn.reason) str(internal-address) if '' @ pass_cond @ '' pass_dst_internal'',
      ''    tcp-request content reject if '' @ pass_cond @ '' pass_dst_internal'']"
    by (intro list_emb_Cons list_emb_Cons2 list_emb_Nil refl)
  moreover have "subseq [''    tcp-request content do-resolve(txn.dst,buildcage,ipv4) req.ssl_sni,lower if '' @ pass_cond,
      ''    tcp-request content reject if '' @ pass_cond @ '' !{ var(txn.dst) -m found }'',
      ''    tcp-request content set-dst var(txn.dst) if { var(txn.dst) -m found }'']
     [''    tcp-request content set-var(txn.sni) req.ssl_sni,regsub([^A-Za-z0-9._-],_,g) if '' @ pass_cond,
      ''    tcp-request content set-var(txn.proto) str(tls) if '' @ pass_cond,
      [],
      ''    tcp-request content do-resolve(txn.dst,buildcage,ipv4) req.ssl_sni,lower if '' @ pass_cond,
      ''    tcp-request content set-var(txn.reason) str(dns-failed) if '' @ pass_cond @ '' !{ var(txn.dst) -m found }'',
      ''    tcp-request content reject if '' @ pass_cond @ '' !{ var(txn.dst) -m found }'',
      ''    tcp-request content set-dst var(txn.dst) if { var(txn.dst) -m found }'']"
    unfolding pass_cond_def by code_simp
  ultimately show ?thesis
    using subseq_in_order [where pre = "[]" and post = "[]" and mid = "internalDstAcl ''pass_dst_internal'' guard var_dst"]
    unfolding tls_steps_def tls_resolve_lines_def by fastforce
qed

lemma tls_passthrough_order: "subseq (map tls_pass_line hosts @ tls_steps) (tls_passthrough hosts guard)"
proof -
  have cut: "a @ b @ c @ d @ m @ t = (a @ b @ c @ d) @ m @ [] @ t" for a b c d m t :: "string list"
    by simp
  show ?thesis unfolding tls_passthrough_def cut
    by (rule subseq_in_order [OF subseq_order.refl tls_resolve_order, where post = "[]", unfolded append_Nil2])
qed

text \<open>C11. On the listener of the inspect engine the only connections taken before anything is
  decrypted are those an IP rule passes and that do not come straight back to the proxy; one a
  TLS rule passes is resolved here and rejected without an address or with an internal one.
  Every reject stands ahead of the two lines that take all the rest.\<close>

theorem detectFrontend_order:
  "\<exists>pre post. detectFrontend spec = pre @ inspect_accept_lines @ post \<and>
     filter rejecting post = [] \<and>
     filter accepting pre = (if df_ipRules spec = [] then [] else [accept_pass]) \<and>
     subseq ((if df_ipRules spec = [] then []
          else map ip_pass_line (df_ipRules spec) @ [reject_self (df_listenPort spec), accept_pass]) @
        (if df_tlsHosts spec = [] then [] else map tls_pass_line (df_tlsHosts spec) @ tls_steps)) pre"
proof -
  define ip where "ip = (if df_ipRules spec = [] then []
      else ip_passthrough (df_listenPort spec) (df_ipRules spec) (df_proxyAddress spec) (df_guard spec))"
  define tls where "tls = (if df_tlsHosts spec = [] then [] else tls_passthrough (df_tlsHosts spec) (df_guard spec))"
  define heading where "heading = [''    # Passed through untouched: judged before anything is decrypted.'']"
  define off where "off = [''    no log'', []]"
  define passing where "passing = (df_ipRules spec \<noteq> [] \<or> df_tlsHosts spec \<noteq> [])"
  define post where "post = (if passing then [''    use_backend passthrough if { var(txn.pass) -m found }'', []] else []) @ detect_tail spec"
  define pre where "pre = detect_head (df_listenPort spec) @ (if passing then heading @ ip @ tls @ pass_log_lines else off)"
  have eq: "detectFrontend spec = pre @ inspect_accept_lines @ post"
    by (simp add: detectFrontend_def Let_def pre_def post_def ip_def tls_def heading_def off_def passing_def)
  have "filter rejecting post = []"
    by (simp add: post_def detect_tail_def rejecting_def denies_def)
  moreover have "filter accepting (detect_head (df_listenPort spec)) = []" "filter accepting heading = []"
    "filter accepting off = []" "filter accepting pass_log_lines = []"
    by (simp_all add: detect_head_def heading_def off_def pass_log_lines_def accepting_def)
  then have "filter accepting pre = (if df_ipRules spec = [] then [] else [accept_pass])"
    by (simp add: pre_def ip_def tls_def ip_passthrough_accepts tls_passthrough_accepts passing_def)
  moreover have "subseq ((if df_ipRules spec = [] then []
          else map ip_pass_line (df_ipRules spec) @ [reject_self (df_listenPort spec), accept_pass]) @
        (if df_tlsHosts spec = [] then [] else map tls_pass_line (df_tlsHosts spec) @ tls_steps)) pre"
  proof (cases passing)
    case True
    have "subseq (if df_ipRules spec = [] then []
          else map ip_pass_line (df_ipRules spec) @ [reject_self (df_listenPort spec), accept_pass]) ip"
      using ip_passthrough_order by (simp add: ip_def)
    moreover have "subseq (if df_tlsHosts spec = [] then [] else map tls_pass_line (df_tlsHosts spec) @ tls_steps) tls"
      using tls_passthrough_order by (simp add: tls_def)
    ultimately show ?thesis
      using subseq_in_order [where pre = "detect_head (df_listenPort spec) @ heading" and mid = "[]" and post = pass_log_lines] True
      by (simp only: pre_def if_True append_assoc append_Nil)
  qed (simp add: passing_def)
  ultimately show ?thesis using eq by blast
qed

end
