(* ===== verification/InspectStage.thy ===== *)
theory InspectStage
  imports DetectFrontend
begin

text \<open>
  \<^verbatim>\<open>src/core/lib/acl/haproxy-inspect-stage.ts\<close>: a frontend of the inspect engine, which
  terminates a connection, lets the rules decide and only then resolves the name. What an
  action adds to the stage is a parameter of the code, a record of functions here.
\<close>

section \<open>The source\<close>

record inspect_log_fields =
  lf_name :: string
  lf_fields :: "(string \<times> string) list"

record inspect_stage_extension =
  ie_requestRules :: "string \<Rightarrow> string list"
  ie_responseRules :: "string list"
  ie_global :: "string list"
  ie_logFields :: "inspect_log_fields option"

record inspect_stage_spec =
  is_name :: string
  is_port :: nat
  is_bindExtra :: string
  is_scheme :: url_scheme
  is_rules :: "compiled_rule list"
  is_backend :: string

record inspect_stage_context =
  ic_mode :: string
  ic_listenPort :: nat
  ic_extension :: "inspect_stage_extension option"
  ic_guard :: internal_dst_options

text \<open>\<^verbatim>\<open>/^[a-z][A-Za-z0-9]*$/\<close> and \<^verbatim>\<open>/^txn\.[a-z0-9_]+$/\<close>.\<close>

definition LOG_FIELD_NAME :: "string \<Rightarrow> bool" where
  "LOG_FIELD_NAME s \<longleftrightarrow> s \<noteq> [] \<and> is_lower (hd s) \<and> list_all (\<lambda>c. is_alpha c \<or> is_digit c) (tl s)"

definition LOG_FIELD_VAR :: "string \<Rightarrow> bool" where
  "LOG_FIELD_VAR s \<longleftrightarrow>
     starts_with ''txn.'' s \<and> drop 4 s \<noteq> [] \<and> list_all (\<lambda>c. is_lower c \<or> is_digit c \<or> c = CHR ''_'') (drop 4 s)"

definition logFieldTokens :: "inspect_log_fields \<Rightarrow> string acl" where
  "logFieldTokens lf =
     bind_e (ensure_e (LOG_FIELD_NAME (lf_name lf)) (InvalidLogObject (lf_name lf))) (\<lambda>_.
     map_e concat (traverse_e (\<lambda>(field, variable).
       bind_e (ensure_e (LOG_FIELD_NAME field \<and> LOG_FIELD_VAR variable) (InvalidLogField (lf_name lf) field variable)) (\<lambda>_.
       Inr ('' '' @ lf_name lf @ ''.'' @ field @ ''=%[var('' @ variable @ ''),regsub([^A-Za-z0-9._-],_,g)]'')))
       (lf_fields lf)))"

definition clientTlsFields :: "url_scheme \<Rightarrow> string" where
  "clientTlsFields scheme =
     (if scheme = Https then '' fcerr=%[fc_err_name] sni=%[ssl_fc_sni,regsub([^A-Za-z0-9._-],_,g)]'' else [])"

definition addressRules :: "compiled_rule list \<Rightarrow> compiled_rule list" where
  "addressRules rules =
     filter (\<lambda>rule. cr_hostMatch rule = HmWildcard \<and>
       (let m = hostMatcher (cr_hostRegex rule) in m_op m = ''-m str'' \<and> rx_matches HOST_IS_ADDRESS (m_pattern m))) rules"

definition guard_conds :: "compiled_rule \<Rightarrow> string list" where
  "guard_conds rule =
     (let path = pathMatcher (cr_pathRegex rule) in
      [''{ var(txn.host) -m str '' @ m_pattern (hostMatcher (cr_hostRegex rule)) @ '' }''] @
      (case port_text (cr_port rule) of Some p \<Rightarrow> [''{ dst_port '' @ p @ '' }''] | None \<Rightarrow> []) @
      [''{ path '' @ m_op path @ '' '' @ escapeForHaproxy (m_pattern path) @ '' }''] @
      (case cr_methods rule of Some ms \<Rightarrow> [''{ method '' @ join_with '' '' ms @ '' }''] | None \<Rightarrow> []))"

definition exempt_lines :: "compiled_rule \<Rightarrow> string list" where
  "exempt_lines rule =
     [''    # '' @ cr_raw rule,
      ''    http-request set-var(txn.named_address) bool(true) if '' @ join_with '' '' (guard_conds rule)]"

definition guard_all :: "string list" where
  "guard_all =
     [''    http-request set-var(txn.reason) str(internal-address) if dst_internal'',
      ''    http-request deny deny_status 403 if dst_internal'',
      []]"

definition guard_named :: "nat \<Rightarrow> string list" where
  "guard_named listenPort =
     [''    acl named_address var(txn.named_address) -m bool'',
      ''    acl dst_proxy_self var(txn.dst) -m ip '' @ PROXY_SUBNET,
      ''    acl dst_proxy_self dst_port '' @ show_nat listenPort,
      ''    http-request set-var(txn.reason) str(internal-address) if dst_internal !named_address or dst_internal dst_proxy_self'',
      ''    http-request deny deny_status 403 if dst_internal !named_address or dst_internal dst_proxy_self'',
      []]"

definition internalGuard :: "compiled_rule list \<Rightarrow> nat \<Rightarrow> string list" where
  "internalGuard rules listenPort =
     (let named = addressRules rules in
      if named = [] then guard_all
      else [''    # An address a rule names as its host is exempt where that rule matches.''] @
        concat (map exempt_lines named) @ guard_named listenPort)"

definition PLAIN_REQUEST_TIMEOUTS :: "string list" where
  "PLAIN_REQUEST_TIMEOUTS =
     [''    # detect'' @ [squote] @ ''s client timeout runs from the connection, this frontend'' @ [squote] @ ''s from'',
      ''    # the hand-off after detect'' @ [squote] @ ''s 5s inspect-delay. Ending a silent client'' @ [squote] @ ''s'',
      ''    # wait here first logs it as a timeout rather than a close. The'',
      ''    # keep-alive wait stays at the client timeout.'',
      ''    timeout http-request 20s'',
      ''    timeout http-keep-alive 30s'']"

text \<open>A scheme in a text.\<close>

fun scheme_name :: "url_scheme \<Rightarrow> string" where
  "scheme_name Https = ''https''"
| "scheme_name Http = ''http''"

definition stage_log_format :: "url_scheme \<Rightarrow> string \<Rightarrow> string" where
  "stage_log_format scheme extensionField =
     [dquote] @ ''buildcage %[date(0,ms)] '' @ scheme_name scheme @ '' %HM %ST %B ts=%ts reason=%[var(txn.reason)] tlserr=%[ssl_bc_err] dst=%[dst]:%[dst_port]'' @ extensionField @ clientTlsFields scheme @ '' host=%[var(txn.host_log)] %[var(txn.pathq)]'' @ [dquote]"

definition extension_field :: "inspect_stage_extension option \<Rightarrow> string acl" where
  "extension_field extension =
     (case extension of
        None \<Rightarrow> Inr []
      | Some e \<Rightarrow>
          map_e (\<lambda>tokens. '' wb=%[var(txn.would_block),regsub([^A-Za-z0-9._-],_,g)]'' @ tokens)
            (case ie_logFields e of Some lf \<Rightarrow> logFieldTokens lf | None \<Rightarrow> Inr []))"

definition request_checks :: "string list" where
  "request_checks =
     [''    http-request set-var(txn.host_log) '' @ [squote] @ ''req.hdr(host),regsub('' @ [dquote] @ ''['' @ [backslash] @ ''s'' @ [backslash, dquote] @ ''[:cntrl:]]'' @ [dquote] @ '',_,g)'' @ [squote],
      [],
      ''    # Decode before stripping `..`: `.` is unreserved, so `%2e%2e` is not'',
      ''    # a dot-dot segment until decoded, and stripping first would miss it.'',
      ''    http-request normalize-uri percent-decode-unreserved'',
      ''    http-request normalize-uri path-strip-dotdot'',
      [],
      ''    # pathq, not %HU: %HU is the target as sent (a path over HTTP/1.1, an'',
      ''    # absolute URI over HTTP/2), and pathq is not readable at log time.'',
      ''    # Set after normalization, so the log shows the path the rules matched.'',
      ''    http-request set-var(txn.pathq) '' @ [squote] @ ''pathq,regsub('' @ [dquote] @ ''['' @ [backslash, dquote] @ ''[:cntrl:]]'' @ [dquote] @ '',_,g)'' @ [squote],
      [],
      ''    # A request with no Host names nothing: the rules match on it, the'',
      ''    # origin is resolved from it, and the log'' @ [squote] @ ''s URL is built from it. Named'',
      ''    # here rather than left to the log'' @ [squote] @ ''s own empty fields, which a Host the'',
      ''    # client chose can imitate. Blocked in `audit` too, as the same check'',
      ''    # in the universal engine is: there is nothing to connect to either way.'',
      ''    # Ahead of the path denies below, so that a request carrying neither a'',
      ''    # Host nor a legal path is named by the one the report can act on: the'',
      ''    # other leaves a row named for the `-` the log prints in its place.'',
      ''    acl has_host hdr(host) -m found'',
      ''    acl host_not_empty hdr_len(host) gt 0'',
      ''    http-request set-var(txn.reason) str(missing-host-header) if !has_host or !host_not_empty'',
      ''    http-request deny deny_status 400 if !has_host or !host_not_empty'',
      [],
      ''    # The one Host every later step reads. An acl on req.hdr(host) scans'',
      ''    # every value while a fetch takes the last, so reading the header twice'',
      ''    # could judge one value and connect to another.'',
      ''    http-request set-var(txn.host) req.hdr(host),lower,'' @ HOST_ONLY,
      ''    # A `:` left in the name could let a `~` rule'' @ [squote] @ ''s port pattern match it.'',
      ''    # Blocked in `audit` too.'',
      ''    acl host_is_name var(txn.host) -m reg '' @ HOSTNAME_CHARSET,
      ''    http-request set-var(txn.reason) str(invalid-host) if !host_is_name'',
      ''    http-request deny deny_status 400 if !host_is_name'',
      [],
      ''    # `%2f` and `%5c` survive decoding (both reserved) yet an origin may'',
      ''    # read `..%2f` / `..%5c` as a segment, and a raw backslash is not a'',
      ''    # valid path char at all. None is stripped, so each is blocked. A lone'',
      ''    # encoded separator stays legal (e.g. npm'' @ [squote] @ ''s `/@scope%2fpackage`).'',
      ''    # `;` (or `%3b`) ends a segment too: Tomcat and Jetty drop what follows'',
      ''    # as a path parameter, so they read `..;/` as `../`.'',
      ''    # `'' @ [backslash, backslash] @ ''` is one literal backslash: HAProxy'' @ [squote] @ ''s parser takes the pair as one.'',
      ''    http-request deny deny_status 403 if { path -m reg -i (^|/|%2f|%5c)'' @ [backslash] @ ''.'' @ [backslash] @ ''.($|/|;|%2f|%5c|%3b) }'',
      ''    http-request deny deny_status 403 if { path -m sub '' @ [backslash, backslash] @ '' }'',
      []]"

definition stage_head :: "inspect_stage_spec \<Rightarrow> string \<Rightarrow> string list" where
  "stage_head spec logFormat =
     [''frontend '' @ is_name spec,
      ''    bind 127.0.0.1:'' @ show_nat (is_port spec) @ '' accept-proxy'' @ is_bindExtra spec,
      ''    mode http''] @
     (if is_scheme spec = Http then PLAIN_REQUEST_TIMEOUTS else []) @
     request_checks @
     [''    log-format '' @ logFormat] @
     (if is_scheme spec = Https then [''    error-log-format '' @ logFormat] else []) @ [[]]"

definition extension_lines :: "inspect_stage_extension option \<Rightarrow> string \<Rightarrow> url_scheme \<Rightarrow> string list" where
  "extension_lines extension mode scheme =
     (case extension of
        None \<Rightarrow> []
      | Some e \<Rightarrow> ie_requestRules e mode @ (if scheme = Https then ie_responseRules e else []))"

definition resolve_lines :: "string list" where
  "resolve_lines =
     [''    # Connect to the address this proxy resolves the Host to, discarding'',
      ''    # the client'' @ [squote] @ ''s address, so a forged Host or doctored /etc/hosts cannot'',
      ''    # choose the target.'',
      ''    # txn.host has already dropped the port a header carries, which is not'',
      ''    # part of the name. An address is taken as-is: no resolver can answer'',
      ''    # one, and the rules above already decided, so nothing is loosened.'',
      ''    acl host_is_address var(txn.host) -m reg '' @ HOST_IS_ADDRESS,
      ''    http-request set-var(txn.dst) var(txn.host) if host_is_address'',
      ''    http-request do-resolve(txn.dst,buildcage,ipv4) var(txn.host) unless host_is_address'',
      ''    # A fresh attempt, not a replay: nothing cached the failure.'',
      ''    http-request do-resolve(txn.dst,buildcage,ipv4) var(txn.host) '' @ ''unless host_is_address or { var(txn.dst) -m found }'',
      ''    http-request set-var(txn.reason) str(dns-failed) unless { var(txn.dst) -m found }'',
      ''    http-request deny deny_status 502 unless { var(txn.dst) -m found }'',
      [],
      ''    # Set before the internal-destination check below, not after: %[dst] in'',
      ''    # the log-format is this, and a blocked request must show the address that'',
      ''    # tripped it, not whatever the client'' @ [squote] @ ''s own (fake, unresolved) address'',
      ''    # was: CoreDNS never hands out a real one; see coredns-config.ts.'',
      ''    http-request set-dst var(txn.dst)'',
      [],
      ''    # A resolved destination may not be internal; see INTERNAL_RANGES.'']"

definition inspectStage :: "inspect_stage_spec \<Rightarrow> inspect_stage_context \<Rightarrow> string list acl" where
  "inspectStage spec ctx =
     map_e (\<lambda>field.
       stage_head spec (stage_log_format (is_scheme spec) field) @
       ruleBlock (is_rules spec) (ic_mode ctx) (is_scheme spec) @
       (if deniesEverything (is_rules spec) (ic_mode ctx) then []
        else extension_lines (ic_extension ctx) (ic_mode ctx) (is_scheme spec) @
          resolve_lines @
          internalDstAcl ''dst_internal'' (ic_guard ctx) var_dst @
          internalGuard (is_rules spec) (ic_listenPort ctx)) @
       [''    default_backend '' @ is_backend spec, []])
     (extension_field (ic_extension ctx))"

section \<open>The order of a stage\<close>

lemma stage_head_not_resolving: "filter resolving (stage_head spec logFormat) = []"
proof -
  have "filter resolving request_checks = []" "filter resolving PLAIN_REQUEST_TIMEOUTS = []"
    by code_simp+
  then show ?thesis by (simp add: stage_head_def resolving_def)
qed

lemma resolve_lines_order:
  "subseq [''    http-request do-resolve(txn.dst,buildcage,ipv4) var(txn.host) unless host_is_address'',
      ''    http-request deny deny_status 502 unless { var(txn.dst) -m found }'',
      ''    http-request set-dst var(txn.dst)''] resolve_lines"
  by code_simp

definition guard_deny :: "compiled_rule list \<Rightarrow> string" where
  "guard_deny rules =
     (if addressRules rules = [] then ''    http-request deny deny_status 403 if dst_internal''
      else ''    http-request deny deny_status 403 if dst_internal !named_address or dst_internal dst_proxy_self'')"

lemma guard_deny_in: "guard_deny rules \<in> set (internalGuard rules listenPort)"
  by (simp add: guard_deny_def internalGuard_def Let_def guard_all_def guard_named_def)

lemma inspectStage_parts:
  assumes "inspectStage spec ctx = Inr lines"
  shows "\<exists>pre post. lines = pre @ ruleBlock (is_rules spec) (ic_mode ctx) (is_scheme spec) @ post \<and>
    filter resolving pre = [] \<and>
    (if deniesEverything (is_rules spec) (ic_mode ctx) then filter resolving post = []
     else subseq [''    http-request do-resolve(txn.dst,buildcage,ipv4) var(txn.host) unless host_is_address'',
         ''    http-request deny deny_status 502 unless { var(txn.dst) -m found }'',
         ''    http-request set-dst var(txn.dst)'',
         ''    acl dst_internal var(txn.dst) -m ip '' @ join_with '' '' (io_internalAddrs (ic_guard ctx)),
         guard_deny (is_rules spec), ''    default_backend '' @ is_backend spec] post)"
proof -
  define denied where "denied = deniesEverything (is_rules spec) (ic_mode ctx)"
  let ?acl = "internalDstAcl ''dst_internal'' (ic_guard ctx) var_dst"
  let ?guard = "internalGuard (is_rules spec) (ic_listenPort ctx)"
  let ?tail = "[''    default_backend '' @ is_backend spec, []]"
  let ?ext = "extension_lines (ic_extension ctx) (ic_mode ctx) (is_scheme spec)"
  obtain field where l: "lines = stage_head spec (stage_log_format (is_scheme spec) field) @
      ruleBlock (is_rules spec) (ic_mode ctx) (is_scheme spec) @
      (if denied then [] else ?ext @ resolve_lines @ ?acl @ ?guard) @ ?tail"
    using assms by (auto simp: inspectStage_def denied_def)
  have "subseq ([''    acl dst_internal var(txn.dst) -m ip '' @ join_with '' '' (io_internalAddrs (ic_guard ctx))] @
      [guard_deny (is_rules spec), ''    default_backend '' @ is_backend spec]) ([] @ ?acl @ [] @ (?guard @ ?tail) @ [])"
  proof (rule subseq_in_order)
    show "subseq [''    acl dst_internal var(txn.dst) -m ip '' @ join_with '' '' (io_internalAddrs (ic_guard ctx))] ?acl"
      by (simp add: internalDstAcl_def var_dst_def)
    have "subseq [guard_deny (is_rules spec)] ?guard"
      unfolding subseq_singleton_left by (rule guard_deny_in)
    then have "subseq ([guard_deny (is_rules spec)] @ [''    default_backend '' @ is_backend spec]) (?guard @ ?tail)"
      by (rule list_emb_append_mono) (simp only: subseq_singleton_left list.set insertI1)
    then show "subseq [guard_deny (is_rules spec), ''    default_backend '' @ is_backend spec] (?guard @ ?tail)"
      by (simp only: append_Cons append_Nil)
  qed
  from subseq_in_order [OF resolve_lines_order this, of ?ext "[]" "[]"]
  have "subseq [''    http-request do-resolve(txn.dst,buildcage,ipv4) var(txn.host) unless host_is_address'',
         ''    http-request deny deny_status 502 unless { var(txn.dst) -m found }'',
         ''    http-request set-dst var(txn.dst)'',
         ''    acl dst_internal var(txn.dst) -m ip '' @ join_with '' '' (io_internalAddrs (ic_guard ctx)),
         guard_deny (is_rules spec), ''    default_backend '' @ is_backend spec]
      (?ext @ resolve_lines @ ?acl @ ?guard @ ?tail)" by simp
  moreover have "filter resolving ?tail = []" by (simp add: resolving_def)
  ultimately show ?thesis using stage_head_not_resolving [of spec "stage_log_format (is_scheme spec) field"]
    unfolding l denied_def [symmetric]
    by (intro exI [of _ "stage_head spec (stage_log_format (is_scheme spec) field)"]
        exI [of _ "(if denied then [] else ?ext @ resolve_lines @ ?acl @ ?guard) @ ?tail"]) simp
qed

text \<open>C10. In an inspected frontend no name is looked up before the rules have decided, and none
  at all where they deny everything. Otherwise the lookup is followed, in this order, by the
  deny of a name without an address, the destination, and the deny of an internal one, all
  ahead of the backend.\<close>

theorem inspectStage_order:
  assumes "inspectStage spec ctx = Inr lines"
  shows "\<exists>pre post. lines = pre @ ruleBlock (is_rules spec) (ic_mode ctx) (is_scheme spec) @ post \<and>
    filter resolving (pre @ ruleBlock (is_rules spec) (ic_mode ctx) (is_scheme spec)) = [] \<and>
    (if deniesEverything (is_rules spec) (ic_mode ctx) then filter resolving post = []
     else subseq [''    http-request do-resolve(txn.dst,buildcage,ipv4) var(txn.host) unless host_is_address'',
         ''    http-request deny deny_status 502 unless { var(txn.dst) -m found }'',
         ''    http-request set-dst var(txn.dst)'',
         ''    acl dst_internal var(txn.dst) -m ip '' @ join_with '' '' (io_internalAddrs (ic_guard ctx)),
         guard_deny (is_rules spec), ''    default_backend '' @ is_backend spec] post)"
  using inspectStage_parts [OF assms] ruleBlock_not_resolving by auto

definition sample_stage :: inspect_stage_spec where
  "sample_stage = \<lparr>is_name = ''http_in'', is_port = 10026, is_bindExtra = [], is_scheme = Http, is_rules = [],
     is_backend = ''origin_plain''\<rparr>"

definition sample_context :: inspect_stage_context where
  "sample_context = \<lparr>ic_mode = ''audit'', ic_listenPort = 10024, ic_extension = None,
     ic_guard = \<lparr>io_internalAddrs = INTERNAL_RANGES, io_hostAddressFile = None\<rparr>\<rparr>"

theorem inspectStage_order_witness:
  "\<exists>lines pre post. inspectStage sample_stage sample_context = Inr lines \<and>
    lines = pre @ ruleBlock [] ''audit'' Http @ post \<and> filter resolving pre = [] \<and>
    subseq [guard_deny [], ''    default_backend origin_plain''] post"
proof -
  obtain lines where l: "inspectStage sample_stage sample_context = Inr lines"
    by (auto simp: inspectStage_def sample_context_def extension_field_def)
  from inspectStage_order [OF l] obtain pre post where p: "lines = pre @ ruleBlock [] ''audit'' Http @ post"
    "filter resolving pre = []" and s: "subseq [''    http-request do-resolve(txn.dst,buildcage,ipv4) var(txn.host) unless host_is_address'',
         ''    http-request deny deny_status 502 unless { var(txn.dst) -m found }'',
         ''    http-request set-dst var(txn.dst)'',
         ''    acl dst_internal var(txn.dst) -m ip '' @ join_with '' '' INTERNAL_RANGES,
         guard_deny [], ''    default_backend origin_plain''] post"
    by (auto simp: sample_stage_def sample_context_def deniesEverything_def)
  have "subseq [guard_deny [], ''    default_backend origin_plain''] post"
    by (rule subseq_order.trans [OF _ s]) code_simp
  then show ?thesis using l p by blast
qed

end
