(* ===== verification/UniversalConfig.thy ===== *)
theory UniversalConfig
  imports ConfigSections
begin

text \<open>
  \<^verbatim>\<open>src/core/lib/acl/haproxy-universal-config.ts\<close>: haproxy.cfg of the universal engine,
  which decrypts nothing and judges a connection on its SNI, its Host or its address. The
  rule inputs are all the caller spreads into the options, the URL and TLS rules included.
\<close>

section \<open>The source\<close>

record universal_options =
  uo_audit :: bool
  uo_inputs :: rule_inputs
  uo_proxyAddress :: string
  uo_hostAddressFile :: string

record pattern =
  pt_raw :: "string option"
  pt_regex :: string

definition MATCH_ANYTHING :: "pattern list" where
  "MATCH_ANYTHING = [\<lparr>pt_raw = None, pt_regex = ''.*''\<rparr>]"

definition LISTEN_PORT :: nat where
  "LISTEN_PORT = 10024"

definition hostPortRegex :: "compiled_rule \<Rightarrow> string" where
  "hostPortRegex rule =
     (if cr_hostMatch rule = HmHostPort then cr_hostRegex rule
      else butlast (cr_hostRegex rule) @ '':'' @
        (case cr_port rule of Some p \<Rightarrow> p | None \<Rightarrow> [backslash] @ ''d+'') @ ''$'')"

definition pattern_lines :: "string \<Rightarrow> string \<Rightarrow> pattern \<Rightarrow> string list" where
  "pattern_lines name fetch p =
     (case pt_raw p of None \<Rightarrow> [] | Some raw \<Rightarrow> [''    # '' @ raw]) @
     [''    acl '' @ name @ '' '' @ fetch @ '' -m reg -i '' @ escapeForHaproxy (pt_regex p)]"

definition aclLines :: "string \<Rightarrow> string \<Rightarrow> pattern list \<Rightarrow> string list" where
  "aclLines name fetch patterns =
     (if patterns = [] then [''    acl '' @ name @ '' always_false'']
      else concat (map (pattern_lines name fetch) patterns))"

text \<open>The three rule lists of a configuration: https, http and ip.\<close>

definition universal_patterns ::
  "(string \<Rightarrow> string option) \<Rightarrow> universal_options \<Rightarrow> (pattern list \<times> pattern list \<times> pattern list) acl" where
  "universal_patterns syn options =
     (if uo_audit options then Inr (MATCH_ANYTHING, MATCH_ANYTHING, MATCH_ANYTHING)
      else
        bind_e (traverse_e (convertRule syn) (ri_https (uo_inputs options) @ ri_http (uo_inputs options))) (\<lambda>_.
        bind_e (compileRuleSet syn (uo_inputs options)) (\<lambda>compiled.
        bind_e (traverse_e (\<lambda>rule. map_e (\<lambda>rx. \<lparr>pt_raw = Some (ci_raw rule), pt_regex = rx\<rparr>)
            (convertRule syn (ci_raw rule))) (rs_ip compiled)) (\<lambda>ip.
        Inr (map (\<lambda>rule. \<lparr>pt_raw = Some (cr_raw rule), pt_regex = hostPortRegex rule\<rparr>) (rs_https compiled),
             map (\<lambda>rule. \<lparr>pt_raw = Some (cr_raw rule), pt_regex = hostPortRegex rule\<rparr>) (rs_http compiled),
             ip)))))"

definition universal_guard :: "universal_options \<Rightarrow> internal_dst_options" where
  "universal_guard options =
     \<lparr>io_internalAddrs = INTERNAL_RANGES @ [PROXY_SUBNET], io_hostAddressFile = Some (uo_hostAddressFile options)\<rparr>"

definition universal_preamble :: "string list" where
  "universal_preamble = preamble
     \<lparr>ps_global = [''    maxconn 2048''],
      ps_defaults =
        [''    mode tcp'',
         ''    timeout client 1m'',
         ''    timeout server 1m'',
         ''    timeout client-fin 1m'',
         ''    timeout server-fin 1m'']\<rparr>"

definition outbound_head :: "universal_options \<Rightarrow> string list" where
  "outbound_head options =
     [''# --- Frontend ---'',
      ''frontend outbound_proxy'',
      ''    bind *:'' @ show_nat LISTEN_PORT,
      ''    tcp-request inspect-delay 5s'',
      [],
      ''    tcp-request content set-var(txn.decision) str(BLOCKED)'',
      ''    tcp-request content set-var(txn.reason) str(-)'',
      ''    tcp-request content set-var-fmt(txn.target) %[dst]:%[dst_port]'',
      ''    tcp-request content set-var(txn.rule_type) str(UNKNOWN)'',
      [],
      ''    acl is_dns_routed dst '' @ uo_proxyAddress options,
      ''    tcp-request content set-var(txn.dns_routed) str(true) if is_dns_routed'',
      [],
      ''    acl is_tls req.ssl_hello_type 1'',
      ''    acl has_sni req_ssl_sni -m found'',
      [],
      ''    tcp-request content set-var-fmt(txn.dst_target) %[dst]:%[dst_port]'']"

definition to_self :: string where
  "to_self = ''!is_dns_routed is_ip_match ip_dst_internal { dst_port '' @ show_nat LISTEN_PORT @ '' }''"

text \<open>The connection to an address no name led to.\<close>

definition ip_section :: "bool \<Rightarrow> internal_dst_options \<Rightarrow> string \<Rightarrow> string list" where
  "ip_section audit guard decision =
     (let toSelf = to_self in
      [[],
       ''    # ---------------------------------------------------------'',
       ''    # 1. IP direct access (non DNS-routed)'',
       ''    # ---------------------------------------------------------'',
       ''    tcp-request content set-var(txn.rule_type) str(IP) if !is_dns_routed''] @
      internalDstAcl ''ip_dst_internal'' guard ''dst'' @
      [''    tcp-request content set-var(txn.reason) str(internal-address) if '' @ toSelf,
       ''    tcp-request content reject if '' @ toSelf,
       ''    tcp-request content set-var(txn.decision) str('' @ decision @ '') if !is_dns_routed is_ip_match'',
       ''    tcp-request content accept if !is_dns_routed is_ip_match'',
       []] @
      (if audit then [''    tcp-request content accept if !is_dns_routed !is_ip_match''] else []) @
      [''    tcp-request content set-var(txn.reason) str(ip-not-allowed) if !is_dns_routed !is_ip_match'',
       ''    tcp-request content reject if !is_dns_routed !is_ip_match'',
       []])"

definition sni_lines :: "string list" where
  "sni_lines =
     [''    tcp-request content set-var(txn.sni) req_ssl_sni if is_tls'',
      ''    tcp-request content set-var-fmt(txn.sni_port) %[var(txn.sni)]:%[dst_port] if is_tls'',
      ''    tcp-request content set-var(txn.sni_log) var(txn.sni),regsub([^A-Za-z0-9._-],_,g) if is_tls has_sni'',
      []]"

text \<open>The checks of a TLS connection, the resolution of its name and its acceptance.\<close>

definition tls_check_lines :: "string list" where
  "tls_check_lines =
     [''    acl sni_is_name var(txn.sni) -m reg '' @ HOSTNAME_CHARSET,
      [],
      ''    tcp-request content set-var-fmt(txn.target) %[var(txn.sni_log)]:%[dst_port] if is_tls has_sni'',
      [],
      ''    # ---------------------------------------------------------'',
      ''    # 2. TLS without SNI'',
      ''    # ---------------------------------------------------------'',
      ''    tcp-request content set-var(txn.rule_type) str(HTTPS) if is_tls'',
      ''    tcp-request content set-var(txn.reason) str(missing-sni) if is_tls !has_sni'',
      ''    tcp-request content reject if is_tls !has_sni'',
      ''    tcp-request content set-var(txn.reason) str(invalid-sni) if is_tls has_sni !sni_is_name'',
      ''    tcp-request content reject if is_tls has_sni !sni_is_name'',
      [],
      ''    # ---------------------------------------------------------'',
      ''    # 3. TLS allowlist check (before DNS to avoid resolving blocked domains)'',
      ''    # ---------------------------------------------------------'',
      ''    tcp-request content set-var(txn.reason) str(not-allowed) if is_tls has_sni !is_https_allowed'',
      ''    tcp-request content reject if is_tls has_sni !is_https_allowed'',
      []]"

definition tls_resolve :: "internal_dst_options \<Rightarrow> string \<Rightarrow> string list" where
  "tls_resolve guard decision =
     [''    # ---------------------------------------------------------'',
      ''    # 4. TLS DNS resolution, destination override & accept'',
      ''    # ---------------------------------------------------------'',
      ''    tcp-request content do-resolve(txn.dst,buildcage,ipv4) var(txn.sni) if is_tls has_sni'',
      ''    tcp-request content set-var(txn.reason) str(dns-failed) if is_tls has_sni ! { var(txn.dst) -m found }'',
      ''    tcp-request content reject if is_tls has_sni ! { var(txn.dst) -m found }''] @
     internalDstAcl ''dst_internal'' guard var_dst @
     [''    tcp-request content set-var(txn.reason) str(internal-address) if is_tls has_sni dst_internal'',
      ''    tcp-request content reject if is_tls has_sni dst_internal'',
      ''    tcp-request content set-dst var(txn.dst) if is_tls has_sni'',
      ''    tcp-request content set-var(txn.decision) str('' @ decision @ '') if is_tls has_sni'',
      ''    tcp-request content accept if is_tls has_sni'',
      []]"

definition relay_lines :: "string list" where
  "relay_lines =
     [''    # ---------------------------------------------------------'',
      ''    # 5. Non-TLS DNS-routed '' @ [CHR 0xE2, CHR 0x86, CHR 0x92] @ '' HTTP frontend'',
      ''    # ---------------------------------------------------------'',
      ''    tcp-request content set-log-level silent if { var(txn.dns_routed) -m found } !is_tls'',
      ''    use_backend ip_passthrough if !{ var(txn.dns_routed) -m found }'',
      ''    use_backend tls_passthrough if is_tls'',
      ''    default_backend http_relay'',
      [],
      ''    log-format '' @ [dquote] @ ''buildcage %[date(0,ms)] [%[var(txn.decision)]] (%[var(txn.rule_type)]) '' @ [backslash, dquote] @ ''%[var(txn.target)]'' @ [backslash, dquote] @ '' %[var(txn.reason)] %B'' @ [dquote],
      [],
      ''# --- IP direct passthrough backend ---'',
      ''backend ip_passthrough'',
      ''    mode tcp'',
      ''    server cleartext 0.0.0.0:0'',
      [],
      ''# --- TLS passthrough backend ---'',
      ''backend tls_passthrough'',
      ''    mode tcp'',
      ''    server cleartext 0.0.0.0:0'',
      [],
      ''# --- HTTP frontend (L7) ---'',
      ''backend http_relay'',
      ''    mode tcp'',
      ''    server http_in 127.0.0.1:10026 send-proxy-v2'',
      [],
      ''frontend http_in'',
      ''    bind 127.0.0.1:10026 accept-proxy'',
      ''    mode http'',
      ''    timeout http-request 50s'',
      ''    timeout http-keep-alive 1m'',
      ''    http-request set-var(txn.decision) str(BLOCKED)'',
      ''    http-request set-var(txn.reason) str(-)'',
      ''    http-request set-var-fmt(txn.target) %[dst]:%[dst_port]'',
      ''    log-format '' @ [dquote] @ ''buildcage %[date(0,ms)] [%[var(txn.decision)]] (HTTP) '' @ [backslash, dquote] @ ''%[var(txn.target)]'' @ [backslash, dquote] @ '' %[var(txn.reason)] %B ts=%ts dst=%[dst]:%[dst_port]'' @ [dquote],
      ''    default_backend http_filter_backend'',
      [],
      ''backend http_filter_backend'',
      ''    mode http'',
      [],
      ''    acl has_host hdr(host) -m found'',
      ''    acl host_not_empty hdr_len(host) gt 0'',
      ''    http-request set-var(txn.reason) str(missing-host-header) if !has_host or !host_not_empty'',
      ''    http-request deny deny_status 400 content-type '' @ [dquote] @ ''text/plain'' @ [dquote] @ '' string '' @ [dquote] @ ''Bad Request: Missing Host Header'' @ [dquote] @ '' if !has_host or !host_not_empty'',
      [],
      ''    http-request set-var(txn.host_only) hdr(host),'' @ HOST_ONLY,
      ''    http-request set-var-fmt(txn.host_port) %[var(txn.host_only)]:%[dst_port]'',
      [],
      ''    http-request set-var(txn.host_log) var(txn.host_only),regsub([^A-Za-z0-9._-],_,g)'',
      ''    http-request set-var-fmt(txn.target) %[var(txn.host_log)]:%[dst_port]'',
      [],
      ''    acl host_is_name var(txn.host_only) -m reg '' @ HOSTNAME_CHARSET,
      ''    http-request set-var(txn.reason) str(invalid-host) if !host_is_name'',
      ''    http-request deny deny_status 400 content-type '' @ [dquote] @ ''text/plain'' @ [dquote] @ '' string '' @ [dquote] @ ''Bad Request: Invalid Host Header'' @ [dquote] @ '' if !host_is_name'',
      []]"

definition http_resolve :: "internal_dst_options \<Rightarrow> string \<Rightarrow> string list" where
  "http_resolve guard decision =
     [''    http-request set-var(txn.reason) str(not-allowed) if !is_http_allowed'',
      ''    http-request deny deny_status 403 content-type '' @ [dquote] @ ''text/plain'' @ [dquote] @ '' string '' @ [dquote] @ ''Blocked by egress proxy'' @ [dquote] @ '' if !is_http_allowed'',
      [],
      ''    http-request do-resolve(txn.dst,buildcage,ipv4) var(txn.host_only)'',
      ''    http-request do-resolve(txn.dst,buildcage,ipv4) var(txn.host_only) unless { var(txn.dst) -m found }'',
      ''    http-request set-var(txn.reason) str(dns-failed) if ! { var(txn.dst) -m found }'',
      ''    http-request deny deny_status 503 content-type '' @ [dquote] @ ''text/plain'' @ [dquote] @ '' string '' @ [dquote] @ ''DNS Resolution Failed'' @ [dquote] @ '' if ! { var(txn.dst) -m found }'',
      []] @
     internalDstAcl ''dst_internal_http'' guard var_dst @
     [''    http-request set-var(txn.reason) str(internal-address) if dst_internal_http'',
      ''    http-request deny deny_status 403 content-type '' @ [dquote] @ ''text/plain'' @ [dquote] @ '' string '' @ [dquote] @ ''Blocked by egress proxy'' @ [dquote] @ '' if dst_internal_http'',
      [],
      ''    http-request set-dst var(txn.dst)'',
      ''    http-request set-var(txn.decision) str('' @ decision @ '')'',
      [],
      ''    server cleartext 0.0.0.0:0'',
      []]"

definition universal_lines ::
  "universal_options \<Rightarrow> pattern list \<Rightarrow> pattern list \<Rightarrow> pattern list \<Rightarrow> string list" where
  "universal_lines options https http ip =
     (let decision = (if uo_audit options then ''AUDIT'' else ''ALLOWED''); guard = universal_guard options in
      universal_preamble @ resolversSection @ outbound_head options @
      aclLines ''is_ip_match'' ''var(txn.dst_target)'' ip @
      ip_section (uo_audit options) guard decision @
      sni_lines @
      aclLines ''is_https_allowed'' ''var(txn.sni_port)'' https @
      tls_check_lines @ tls_resolve guard decision @ relay_lines @
      aclLines ''is_http_allowed'' ''var(txn.host_port)'' http @
      http_resolve guard decision)"

definition generateUniversalHaproxyConfig :: "(string \<Rightarrow> string option) \<Rightarrow> universal_options \<Rightarrow> string acl" where
  "generateUniversalHaproxyConfig syn options =
     map_e (\<lambda>(https, http, ip). join_with [newline_char] (universal_lines options https http ip))
       (universal_patterns syn options)"

section \<open>The order of the configuration\<close>

definition reject_tls :: string where
  "reject_tls = ''    tcp-request content reject if is_tls has_sni !is_https_allowed''"

definition deny_http :: string where
  "deny_http = ''    http-request deny deny_status 403 content-type '' @ [dquote] @ ''text/plain'' @ [dquote] @ '' string '' @ [dquote] @ ''Blocked by egress proxy'' @ [dquote] @ '' if !is_http_allowed''"

text \<open>What becomes of a connection the rules allow, by its kind.\<close>

definition tls_allowed_steps :: "string list" where
  "tls_allowed_steps =
     [''    tcp-request content do-resolve(txn.dst,buildcage,ipv4) var(txn.sni) if is_tls has_sni'',
      ''    tcp-request content reject if is_tls has_sni ! { var(txn.dst) -m found }'',
      ''    tcp-request content reject if is_tls has_sni dst_internal'',
      ''    tcp-request content set-dst var(txn.dst) if is_tls has_sni'',
      ''    tcp-request content accept if is_tls has_sni'']"

definition http_allowed_steps :: "string list" where
  "http_allowed_steps =
     [''    http-request do-resolve(txn.dst,buildcage,ipv4) var(txn.host_only)'',
      ''    http-request deny deny_status 503 content-type '' @ [dquote] @ ''text/plain'' @ [dquote] @ '' string '' @ [dquote] @ ''DNS Resolution Failed'' @ [dquote] @ '' if ! { var(txn.dst) -m found }'',
      ''    http-request deny deny_status 403 content-type '' @ [dquote] @ ''text/plain'' @ [dquote] @ '' string '' @ [dquote] @ ''Blocked by egress proxy'' @ [dquote] @ '' if dst_internal_http'',
      ''    http-request set-dst var(txn.dst)'']"

lemma aclLines_inert: "filter resolving (aclLines name fetch ps) = []" "filter accepting (aclLines name fetch ps) = []"
  by (auto simp: aclLines_def pattern_lines_def resolving_def accepting_def filter_empty_conv split: option.splits)

definition before_tls_reject :: "universal_options \<Rightarrow> pattern list \<Rightarrow> pattern list \<Rightarrow> string list" where
  "before_tls_reject options https ip =
     universal_preamble @ resolversSection @ outbound_head options @ aclLines ''is_ip_match'' ''var(txn.dst_target)'' ip @
     ip_section (uo_audit options) (universal_guard options) (if uo_audit options then ''AUDIT'' else ''ALLOWED'') @
     sni_lines @ aclLines ''is_https_allowed'' ''var(txn.sni_port)'' https @ take 17 tls_check_lines"

lemma tls_check_split: "tls_check_lines = take 17 tls_check_lines @ [reject_tls, []]"
  by code_simp

lemma before_inert:
  "filter resolving (before_tls_reject options https ip) = []"
  "filter accepting (before_tls_reject options https ip) =
     ''    tcp-request content accept if !is_dns_routed is_ip_match'' #
       (if uo_audit options then [''    tcp-request content accept if !is_dns_routed !is_ip_match''] else [])"
proof -
  have closed: "filter resolving universal_preamble = []" "filter accepting universal_preamble = []"
    "filter accepting resolversSection = []" "filter resolving sni_lines = []" "filter accepting sni_lines = []"
    "filter resolving (take 17 tls_check_lines) = []" "filter accepting (take 17 tls_check_lines) = []"
    by code_simp+
  have outbound: "filter resolving (outbound_head options) = []" "filter accepting (outbound_head options) = []"
    by (simp_all add: outbound_head_def resolving_def accepting_def)
  have ip: "filter resolving (ip_section audit guard d) = []"
    "filter accepting (ip_section audit guard d) = ''    tcp-request content accept if !is_dns_routed is_ip_match'' #
       (if audit then [''    tcp-request content accept if !is_dns_routed !is_ip_match''] else [])" for audit guard d
    unfolding ip_section_def Let_def filter_append acl_not_resolving acl_not_accepting
    by (simp_all add: resolving_def accepting_def)
  show "filter resolving (before_tls_reject options https ip) = []"
    unfolding before_tls_reject_def filter_append closed outbound ip aclLines_inert sections_not_resolving
    by simp
  show "filter accepting (before_tls_reject options https ip) =
     ''    tcp-request content accept if !is_dns_routed is_ip_match'' #
       (if uo_audit options then [''    tcp-request content accept if !is_dns_routed !is_ip_match''] else [])"
    unfolding before_tls_reject_def filter_append closed outbound ip aclLines_inert by simp
qed

lemma tls_resolve_steps:
  "subseq tls_allowed_steps (tls_resolve guard d)"
  "filter resolving (tls_resolve guard d) = [hd tls_allowed_steps]"
proof -
  have "subseq (take 2 tls_allowed_steps)
     [''    # ---------------------------------------------------------'',
      ''    # 4. TLS DNS resolution, destination override & accept'',
      ''    # ---------------------------------------------------------'',
      ''    tcp-request content do-resolve(txn.dst,buildcage,ipv4) var(txn.sni) if is_tls has_sni'',
      ''    tcp-request content set-var(txn.reason) str(dns-failed) if is_tls has_sni ! { var(txn.dst) -m found }'',
      ''    tcp-request content reject if is_tls has_sni ! { var(txn.dst) -m found }'']"
    by code_simp
  moreover have "subseq (drop 2 tls_allowed_steps)
     [''    tcp-request content set-var(txn.reason) str(internal-address) if is_tls has_sni dst_internal'',
      ''    tcp-request content reject if is_tls has_sni dst_internal'',
      ''    tcp-request content set-dst var(txn.dst) if is_tls has_sni'',
      ''    tcp-request content set-var(txn.decision) str('' @ d @ '') if is_tls has_sni'',
      ''    tcp-request content accept if is_tls has_sni'',
      []]"
    by (simp add: tls_allowed_steps_def)
  ultimately show "subseq tls_allowed_steps (tls_resolve guard d)"
    unfolding tls_resolve_def
    by (rule subseq_in_order [where pre = "[]" and post = "[]", unfolded append_Nil append_Nil2, of "take 2 xs" _ "drop 2 xs" for xs,
        unfolded append_take_drop_id])
  show "filter resolving (tls_resolve guard d) = [hd tls_allowed_steps]"
    unfolding tls_resolve_def filter_append acl_not_resolving tls_allowed_steps_def
    by (simp add: resolving_def)
qed

lemma http_resolve_steps:
  "\<exists>rest. http_resolve guard d = hd (http_resolve guard d) # deny_http # rest \<and>
     \<not> resolving (hd (http_resolve guard d)) \<and> subseq http_allowed_steps rest \<and> filter accepting rest = []"
proof -
  define late where "late = drop 2 (http_resolve guard d)"
  have late_eq: "late =
     [[],
      ''    http-request do-resolve(txn.dst,buildcage,ipv4) var(txn.host_only)'',
      ''    http-request do-resolve(txn.dst,buildcage,ipv4) var(txn.host_only) unless { var(txn.dst) -m found }'',
      ''    http-request set-var(txn.reason) str(dns-failed) if ! { var(txn.dst) -m found }'',
      ''    http-request deny deny_status 503 content-type '' @ [dquote] @ ''text/plain'' @ [dquote] @ '' string '' @ [dquote] @ ''DNS Resolution Failed'' @ [dquote] @ '' if ! { var(txn.dst) -m found }'',
      []] @ internalDstAcl ''dst_internal_http'' guard var_dst @
     [''    http-request set-var(txn.reason) str(internal-address) if dst_internal_http'',
      ''    http-request deny deny_status 403 content-type '' @ [dquote] @ ''text/plain'' @ [dquote] @ '' string '' @ [dquote] @ ''Blocked by egress proxy'' @ [dquote] @ '' if dst_internal_http'',
      [],
      ''    http-request set-dst var(txn.dst)'',
      ''    http-request set-var(txn.decision) str('' @ d @ '')'',
      [],
      ''    server cleartext 0.0.0.0:0'',
      []]"
    by (simp add: late_def http_resolve_def)
  have split: "http_resolve guard d = hd (http_resolve guard d) # deny_http # late"
    by (simp add: http_resolve_def deny_http_def late_def)
  have "subseq (take 2 http_allowed_steps)
     [[],
      ''    http-request do-resolve(txn.dst,buildcage,ipv4) var(txn.host_only)'',
      ''    http-request do-resolve(txn.dst,buildcage,ipv4) var(txn.host_only) unless { var(txn.dst) -m found }'',
      ''    http-request set-var(txn.reason) str(dns-failed) if ! { var(txn.dst) -m found }'',
      ''    http-request deny deny_status 503 content-type '' @ [dquote] @ ''text/plain'' @ [dquote] @ '' string '' @ [dquote] @ ''DNS Resolution Failed'' @ [dquote] @ '' if ! { var(txn.dst) -m found }'',
      []]"
    by code_simp
  moreover have "subseq (drop 2 http_allowed_steps)
     [''    http-request set-var(txn.reason) str(internal-address) if dst_internal_http'',
      ''    http-request deny deny_status 403 content-type '' @ [dquote] @ ''text/plain'' @ [dquote] @ '' string '' @ [dquote] @ ''Blocked by egress proxy'' @ [dquote] @ '' if dst_internal_http'',
      [],
      ''    http-request set-dst var(txn.dst)'',
      ''    http-request set-var(txn.decision) str('' @ d @ '')'',
      [],
      ''    server cleartext 0.0.0.0:0'',
      []]"
    by (simp add: http_allowed_steps_def)
  ultimately have "subseq http_allowed_steps late"
    unfolding late_eq
    by (rule subseq_in_order [where pre = "[]" and post = "[]", unfolded append_Nil append_Nil2, of "take 2 xs" _ "drop 2 xs" for xs,
        unfolded append_take_drop_id])
  moreover have "filter accepting late = []"
    unfolding late_eq filter_append acl_not_accepting by (simp add: accepting_def)
  moreover have "\<not> resolving (hd (http_resolve guard d))"
    by (simp add: http_resolve_def resolving_def)
  ultimately show ?thesis using split by blast
qed

text \<open>C12. In the universal engine no name is looked up before the connection that names it has
  passed its rules: ahead of the TLS reject nothing is resolved and only an address a rule (or
  audit) passes is accepted, ahead of the HTTP deny only the name of a TLS connection is
  resolved. After each of them a name without an address and an internal one are turned away
  before the destination is set.\<close>

theorem universal_order:
  "\<exists>a b c. universal_lines options https http ip = a @ reject_tls # b @ deny_http # c \<and>
     filter resolving a = [] \<and>
     filter accepting a = ''    tcp-request content accept if !is_dns_routed is_ip_match'' #
       (if uo_audit options then [''    tcp-request content accept if !is_dns_routed !is_ip_match''] else []) \<and>
     filter resolving b = [hd tls_allowed_steps] \<and> subseq tls_allowed_steps b \<and>
     subseq http_allowed_steps c \<and> filter accepting c = []"
proof -
  define guard where "guard = universal_guard options"
  define d where "d = (if uo_audit options then ''AUDIT'' else ''ALLOWED'')"
  obtain rest where r: "http_resolve guard d = hd (http_resolve guard d) # deny_http # rest"
    "\<not> resolving (hd (http_resolve guard d))" "subseq http_allowed_steps rest" "filter accepting rest = []"
    using http_resolve_steps by blast
  define b where "b = [[]] @ tls_resolve guard d @ relay_lines @ aclLines ''is_http_allowed'' ''var(txn.host_port)'' http @
    [hd (http_resolve guard d)]"
  have "universal_lines options https http ip =
      before_tls_reject options https ip @ reject_tls # b @ deny_http # rest"
    unfolding universal_lines_def Let_def before_tls_reject_def guard_def [symmetric] d_def [symmetric] b_def
    by (subst tls_check_split, subst r(1)) simp
  moreover have "filter resolving relay_lines = []" by code_simp
  then have "filter resolving b = [hd tls_allowed_steps]"
    unfolding b_def filter_append tls_resolve_steps(2) aclLines_inert by (simp add: r(2) resolving_def [of "[]"])
  moreover have "subseq tls_allowed_steps b"
    unfolding b_def by (intro subseq_drop_many subseq_rev_drop_many tls_resolve_steps(1))
  ultimately show ?thesis using before_inert r(3,4) by blast
qed

end
