(* ===== verification/Coredns.thy ===== *)
theory Coredns
  imports HaproxyRules
begin

text \<open>
  \<^verbatim>\<open>src/core/lib/acl/coredns-config.ts\<close>: the Corefile, as its lines, generated from the
  allowlist the rules compile to.
\<close>

section \<open>The source\<close>

definition nameMatches :: "string \<Rightarrow> string" where
  "nameMatches regex = ''      expr name() matches '' @ [squote] @ ''(?i)'' @ regex @ [squote]"

definition quoted :: "string \<Rightarrow> string" where
  "quoted s = [dquote] @ s @ [dquote]"

definition proxyAnswerLines :: "string \<Rightarrow> nat \<Rightarrow> string list" where
  "proxyAnswerLines proxyAddress ttl =
     [''    template IN A {'',
      ''      answer '' @ quoted (''{{ .Name }} '' @ show_nat ttl @ '' IN A '' @ proxyAddress),
      ''    }'',
      ''    template IN AAAA {'',
      ''    }'',
      ''    template IN ANY {'',
      ''    }'']"

definition REVERSE_NAME_REGEX :: string where
  "REVERSE_NAME_REGEX =
     ''^(([0-9]{1,3}[.]){1,4}in-addr[.]arpa|([0-9a-fA-F][.]){1,32}ip6[.]arpa)[.]$''"

definition reverseZoneLines :: "string \<Rightarrow> nat \<Rightarrow> string list" where
  "reverseZoneLines proxyAddress ttl =
     (let t = show_nat ttl;
          soa = ''{{ .Zone }} '' @ t @ '' IN SOA ns.buildcage.invalid. hostmaster.buildcage.invalid. 1 '' @
                t @ '' '' @ t @ '' '' @ t @ '' '' @ t in
      [''# Reverse lookups: answered NXDOMAIN rather than left unhandled, which'',
       ''# would be SERVFAIL and cost musl a five-second timeout each time. Only a'',
       ''# reversed address is treated this way; anything else'',
       ''# under these zones misses the view and falls through to the blocks below.'',
       ''in-addr.arpa ip6.arpa {'',
       ''    view reverse {'',
       nameMatches REVERSE_NAME_REGEX,
       ''    }'',
       ''    template IN PTR {'',
       ''      rcode NXDOMAIN'',
       ''      authority '' @ quoted soa,
       ''    }''] @
      proxyAnswerLines proxyAddress ttl @
      [''    log . '' @ quoted ''buildcage dns reverse name={name}'',
       ''    errors'', ''}'', []])"

definition SERVICE_PREFIX_REGEX :: string where
  "SERVICE_PREFIX_REGEX = ''_[a-z0-9-]{1,15}[.]_(tcp|udp|sctp)[.]''"

definition DISCOVERY_TYPES :: "string list" where
  "DISCOVERY_TYPES = [''SRV'', ''TXT'', ''TLSA'', ''URI'']"

definition discoveryZoneLines :: "string \<Rightarrow> nat \<Rightarrow> string option \<Rightarrow> string list" where
  "discoveryZoneLines proxyAddress ttl parentRegex =
     (let parent = (case parentRegex of None \<Rightarrow> ''.+'' | Some r \<Rightarrow> ''('' @ escapeForCel r @ '')'') in
      [''# Service-discovery names under an allowed host: answered NODATA and logged'',
       ''# under a verb of their own. No rule can permit one, so a denied row for it'',
       ''# could never be taken away. A service name under any other host misses the'',
       ''# view and is denied below, as the host itself would be. Both expressions'',
       ''# have to hold: a type not defined at a service name is judged below like'',
       ''# any other lookup rather than exempted on a guess.'',
       ''. {'',
       ''    view discovery {'',
       nameMatches (''^'' @ SERVICE_PREFIX_REGEX @ parent @ ''[.]$''),
       ''      expr type() in ['' @
         join_with '', '' (map (\<lambda>t. [squote] @ t @ [squote]) DISCOVERY_TYPES) @ '']'',
       ''    }''] @
      proxyAnswerLines proxyAddress ttl @
      [''    log . '' @ quoted ''buildcage dns discovery name={name} type={type}'',
       ''    errors'', ''}'', []])"

definition serviceZoneLines :: "string \<Rightarrow> nat \<Rightarrow> string list" where
  "serviceZoneLines proxyAddress ttl =
     [''# Every other service name: blocked like any other name, but recorded apart'',
      ''# so the report can say the remedy is the host below it rather than the name'',
      ''# itself, which no rule can make resolve.'',
      ''. {'',
      ''    view service {'',
      nameMatches (''^'' @ SERVICE_PREFIX_REGEX @ ''.+[.]$''),
      ''    }''] @
     proxyAnswerLines proxyAddress ttl @
     [''    log . '' @ quoted ''buildcage dns service-denied name={name} type={type}'',
      ''    errors'', ''}'', []]"

definition HEALTH_LINE :: string where
  "HEALTH_LINE = ''    health 127.0.0.1:8080''"

definition alternation :: "string list \<Rightarrow> string" where
  "alternation hosts = join_with ''|'' (map (\<lambda>r. ''('' @ r @ '')'') hosts)"

text \<open>The expression of the allowlist's view, as CEL reads it.\<close>

definition allowlist_regex :: "string list \<Rightarrow> string" where
  "allowlist_regex hosts = ''^('' @ alternation hosts @ '')[.]$''"

definition allowlist_lines :: "string list \<Rightarrow> string \<Rightarrow> nat \<Rightarrow> string list" where
  "allowlist_lines hosts proxyAddress ttl =
     [''# Allowlisted names are logged as allowed, but answered exactly like a'',
      ''# denied one, with the proxy'' @ [squote] @ ''s own address: real resolution happens once'',
      ''# a request has already passed HAProxy'' @ [squote] @ ''s own host+path+method check, not'',
      ''# here. The expression is the same host pattern the proxy rules are built'',
      ''# from, so the two cannot drift apart.'',
      ''. {'',
      ''    view allowlist {'',
      nameMatches (''^('' @ escapeForCel (alternation hosts) @ '')[.]$''),
      ''    }''] @
     proxyAnswerLines proxyAddress ttl @
     [''    log . '' @ quoted ''buildcage dns allowed name={name}'',
      ''    errors'', ''}'', []]"

datatype dns_mode = Audit | Restrict

definition corefile_lines :: "compiled_rule_set \<Rightarrow> string \<Rightarrow> nat \<Rightarrow> dns_mode \<Rightarrow> string list" where
  "corefile_lines rules proxyAddress ttl mode =
     (let hosts = rs_resolverHosts rules in
      case mode of
        Audit \<Rightarrow>
          [''# Generated by buildcage. Do not edit.'', []] @
          reverseZoneLines proxyAddress ttl @
          discoveryZoneLines proxyAddress ttl None @
          [''# audit enforces nothing, so every name is logged as allowed. It is still'',
           ''# answered locally with the proxy'' @ [squote] @ ''s own address, so a name that was only'',
           ''# looked up, never connected to, still shows up here, and the query'',
           ''# itself never reaches a real nameserver.'',
           ''. {'', HEALTH_LINE] @
          proxyAnswerLines proxyAddress ttl @
          [''    log . '' @ quoted ''buildcage dns allowed name={name}'', ''    errors'', ''}'', []]
      | Restrict \<Rightarrow>
          [''# Generated by buildcage. Do not edit.'', []] @
          reverseZoneLines proxyAddress ttl @
          (if hosts = [] then []
           else discoveryZoneLines proxyAddress ttl (Some (alternation hosts)) @
             allowlist_lines hosts proxyAddress ttl) @
          serviceZoneLines proxyAddress ttl @
          [''# Everything else resolves to the proxy and is answered locally, so the'',
           ''# query never leaves and the request still arrives somewhere its full URL'',
           ''# can be recorded before being denied.'',
           ''. {'', HEALTH_LINE] @
          proxyAnswerLines proxyAddress ttl @
          [''    log . '' @ quoted ''buildcage dns denied name={name}'', ''    errors'', ''}'', []])"

definition generateCorednsConfig :: "compiled_rule_set \<Rightarrow> string \<Rightarrow> nat \<Rightarrow> dns_mode \<Rightarrow> string" where
  "generateCorednsConfig rules proxyAddress ttl mode =
     join_with [newline_char] (corefile_lines rules proxyAddress ttl mode)"

section \<open>The allowlist is the rules' own\<close>

lemma escape_append [simp]: "escapeForCel (a @ b) = escapeForCel a @ escapeForCel b"
  by (simp add: escapeForCel_def)

lemma escape_plain: "backslash \<notin> set s \<Longrightarrow> escapeForCel s = s"
  by (induction s) (auto simp: escapeForCel_def)

lemma alternation_chars: "c \<in> set (alternation hosts) \<Longrightarrow> c \<in> set ''()|'' \<or> (\<exists>h\<in>set hosts. c \<in> set h)"
  by (auto simp: alternation_def dest!: join_chars)

text \<open>C13. In an enforcing Corefile the view of the allowlist reads, once CEL has decoded the
  literal, exactly the anchored alternation of the allowlist's expressions.\<close>

theorem corefile_allowlist:
  assumes "buildUrlRules syn urlInput = Inr (ri_url inputs)" and "compileRuleSet syn inputs = Inr rs"
    and "rs_resolverHosts rs \<noteq> []"
  shows "\<exists>lit. ''      expr name() matches '' @ [squote] @ lit @ [squote] \<in>
      set (corefile_lines rs proxyAddress ttl Restrict) \<and> squote \<notin> set lit \<and>
    cel_literal lit = Some (''(?i)'' @ allowlist_regex (rs_resolverHosts rs))"
proof -
  let ?hosts = "rs_resolverHosts rs"
  let ?lit = "''(?i)^('' @ escapeForCel (alternation ?hosts) @ '')[.]$''"
  have free: "squote \<notin> set (alternation ?hosts)"
    using alternation_chars [of squote ?hosts] resolver_quote_free [OF assms(1,2)] by auto
  have lit: "?lit = escapeForCel (''(?i)'' @ allowlist_regex ?hosts)"
    by (simp add: allowlist_regex_def escape_plain escapeForCel_def)
  have "squote \<notin> set (''(?i)'' @ allowlist_regex ?hosts)"
    using free by (simp add: allowlist_regex_def)
  then have "cel_literal ?lit = Some (''(?i)'' @ allowlist_regex ?hosts)" unfolding lit by (rule cel_roundtrip)
  moreover have "squote \<notin> set ?lit" using free by (auto simp: escapeForCel_def)
  moreover have "nameMatches (''^('' @ escapeForCel (alternation ?hosts) @ '')[.]$'') \<in>
      set (corefile_lines rs proxyAddress ttl Restrict)"
    using assms(3) by (simp add: corefile_lines_def Let_def allowlist_lines_def)
  then have "''      expr name() matches '' @ [squote] @ ?lit @ [squote] \<in>
      set (corefile_lines rs proxyAddress ttl Restrict)"
    unfolding nameMatches_def by simp
  ultimately show ?thesis by blast
qed

theorem corefile_allowlist_witness:
  "\<exists>lit. ''      expr name() matches '' @ [squote] @ lit @ [squote] \<in>
      set (corefile_lines sample_rules ''192.0.2.1'' 60 Restrict) \<and> squote \<notin> set lit \<and>
    cel_literal lit = Some (''(?i)'' @ allowlist_regex (rs_resolverHosts sample_rules))"
proof (rule corefile_allowlist)
  show "buildUrlRules (\<lambda>_. None) None = Inr (ri_url sample_inputs)" by code_simp
  show "rs_resolverHosts sample_rules \<noteq> []" by (simp add: sample_rules_def)
qed (rule sample_compiles)

section \<open>What the allowlist accepts\<close>

lemma atom_head: "s \<noteq> [] \<Longrightarrow> \<exists>c t. atomToRegex DOMAIN s = c # t \<and> c \<noteq> CHR ''?''"
  by (induction DOMAIN s rule: atomToRegex.induct) (auto simp: DOMAIN_def escape_meta_def)

lemma domain_head: "domainToRegexPartial domain = Inr d \<Longrightarrow> \<exists>c t. d = c # t \<and> c \<noteq> CHR ''?''"
proof -
  assume h: "domainToRegexPartial domain = Inr d"
  obtain l ls where l: "split_on (CHR ''.'') domain = l # ls" by (cases "split_on (CHR ''.'') domain") auto
  then have "l \<noteq> []" using domainToRegexPartial_Inr [OF h] by (auto simp: checkHostLabel_def)
  then show ?thesis using domainToRegexPartial_Inr [OF h] atom_head [of l] l by (cases ls) auto
qed

lemma lexes_dot_class: "lexes ''[.]'' [TCls (Cls False [(CHR ''.'', CHR ''.'')])]"
  by (simp add: lexes_def re_lex_Cons cls_items_one)

text \<open>Over wildcard rules, the resolver's view takes a queried name, which ends in the
  root dot, exactly when the proxy's own anchored expression of some rule takes the name.\<close>

theorem allowlist_exact:
  assumes "hosts \<noteq> []" and "\<forall>h\<in>set hosts. \<exists>domain. domainToRegexPartial domain = Inr h"
  shows "rx_matches (allowlist_regex hosts) (name @ ''.'') \<longleftrightarrow>
    (\<exists>h\<in>set hosts. rx_matches (''^'' @ h @ ''$'') name)"
proof -
  define L where "L h = {s. rx_matches (''^'' @ h @ ''$'') s}" for h
  have m: "means h (L h)" if "h \<in> set hosts" for h
  proof -
    obtain domain where d: "domainToRegexPartial domain = Inr h" using assms(2) \<open>h \<in> set hosts\<close> by blast
    have "L h = {t. domain_accepts domain t}"
      using means_anchored [OF domain_means [OF d]] by (auto simp: L_def)
    then show ?thesis using domain_means [OF d] by simp
  qed
  have p: "means (''('' @ h @ '')'') (L h)" if "h \<in> set hosts" for h
  proof -
    obtain c t where "h = c # t" "c \<noteq> CHR ''?''" using assms(2) domain_head \<open>h \<in> set hosts\<close> by blast
    then show ?thesis using means_capture [of "[h]" "[L h]" c t] m [OF \<open>h \<in> set hosts\<close>] by simp
  qed
  have "list_all2 means (map (\<lambda>r. ''('' @ r @ '')'') hosts) (map L hosts)"
    using p by (simp add: list_all2_conv_all_nth)
  moreover obtain t where "alternation hosts = CHR ''('' # t"
    using assms(1) by (cases hosts; cases "tl hosts") (auto simp: alternation_def)
  ultimately have "means (''('' @ alternation hosts @ '')'') (\<Union>(set (map L hosts)))"
    unfolding alternation_def using assms(1) by (intro means_capture [where c = "CHR ''(''" and s = t]) simp_all
  moreover have "means ''[.]'' {''.''}"
    using means_single_cls [OF lexes_dot_class] by simp
  ultimately have "means ((''('' @ alternation hosts @ '')'') @ ''[.]'') (conc (\<Union>(set (map L hosts))) {''.''})"
    by (rule means_append)
  from means_anchored [OF this, of "name @ ''.''"]
  have "rx_matches (allowlist_regex hosts) (name @ ''.'') \<longleftrightarrow> name @ ''.'' \<in> conc (\<Union>(set (map L hosts))) {''.''}"
    by (simp add: allowlist_regex_def)
  then show ?thesis by (auto simp: conc_def L_def)
qed

theorem allowlist_exact_witness:
  "rx_matches (allowlist_regex [''a'', ''[^.]+'' @ dot_sep @ ''b'']) (''x.b'' @ ''.'') \<longleftrightarrow>
   (\<exists>h\<in>set [''a'', ''[^.]+'' @ dot_sep @ ''b'']. rx_matches (''^'' @ h @ ''$'') ''x.b'')"
proof (rule allowlist_exact)
  have "domainToRegexPartial ''a'' = Inr ''a''" "domainToRegexPartial ''*.b'' = Inr (''[^.]+'' @ dot_sep @ ''b'')"
    by code_simp+
  then show "\<forall>h\<in>set [''a'', ''[^.]+'' @ dot_sep @ ''b'']. \<exists>domain. domainToRegexPartial domain = Inr h"
    by auto
qed simp

end
