(* ===== verification/HaproxyConfig.thy ===== *)
theory HaproxyConfig
  imports InspectStage UniversalConfig Coredns
begin

text \<open>
  \<^verbatim>\<open>src/core/lib/acl/haproxy-config.ts\<close> and \<^verbatim>\<open>rules.ts\<close>: haproxy.cfg of the inspect
  engine, put together from its sections, and the check of the rule inputs against every
  engine's generator. An \<^verbatim>\<open>InvalidRulesError\<close> is the error it wraps.
\<close>

section \<open>The source\<close>

record haproxy_config_options =
  ho_inputs :: rule_inputs
  ho_mode :: "string option"
  ho_listenPort :: "nat option"
  ho_proxyAddress :: string
  ho_hostAddressFile :: "string option"
  ho_caSignFile :: "string option"
  ho_defaultCertFile :: "string option"
  ho_systemCaFile :: "string option"
  ho_extension :: "inspect_stage_extension option"

definition DEFAULT_LISTEN_PORT :: nat where
  "DEFAULT_LISTEN_PORT = 10024"

definition DEFAULT_CA_SIGN_FILE :: string where
  "DEFAULT_CA_SIGN_FILE = ''/etc/haproxy/ca.pem''"

definition DEFAULT_CERT_FILE :: string where
  "DEFAULT_CERT_FILE = ''/etc/haproxy/default.pem''"

definition DEFAULT_SYSTEM_CA_FILE :: string where
  "DEFAULT_SYSTEM_CA_FILE = ''/etc/ssl/certs/ca-certificates.crt''"

definition TLS_STAGE_PORT :: nat where
  "TLS_STAGE_PORT = 10025"

definition PLAIN_STAGE_PORT :: nat where
  "PLAIN_STAGE_PORT = 10026"

text \<open>\<^verbatim>\<open>{ ...DEFAULTS, ...options }\<close>, for an option left out.\<close>

definition or_default :: "'a option \<Rightarrow> 'a \<Rightarrow> 'a" where
  "or_default x d = (case x of Some v \<Rightarrow> v | None \<Rightarrow> d)"

definition shared_guard :: "haproxy_config_options \<Rightarrow> internal_dst_options" where
  "shared_guard opts =
     \<lparr>io_internalAddrs = INTERNAL_RANGES @ [PROXY_SUBNET, ho_proxyAddress opts],
      io_hostAddressFile = ho_hostAddressFile opts\<rparr>"

definition inspect_preamble :: "inspect_stage_extension option \<Rightarrow> string list" where
  "inspect_preamble extension = preamble
     \<lparr>ps_global =
        [''    # normalize-uri is still marked experimental upstream.'',
         ''    expose-experimental-directives'',
         ''    tune.ssl.default-dh-param 2048''] @
        (case extension of Some e \<Rightarrow> ie_global e | None \<Rightarrow> []),
      ps_defaults =
        [''    timeout client 30s'',
         ''    timeout server 30s'',
         ''    timeout client-fin 30s'',
         ''    timeout server-fin 30s'']\<rparr>"

definition stage_context :: "haproxy_config_options \<Rightarrow> inspect_stage_context" where
  "stage_context opts =
     \<lparr>ic_mode = or_default (ho_mode opts) ''restrict'', ic_listenPort = or_default (ho_listenPort opts) DEFAULT_LISTEN_PORT,
      ic_extension = ho_extension opts, ic_guard = shared_guard opts\<rparr>"

definition https_stage :: "haproxy_config_options \<Rightarrow> compiled_rule_set \<Rightarrow> inspect_stage_spec" where
  "https_stage opts rules =
     \<lparr>is_name = ''https_in'', is_port = TLS_STAGE_PORT,
      is_bindExtra = '' ssl crt '' @ or_default (ho_defaultCertFile opts) DEFAULT_CERT_FILE @
        '' generate-certificates ca-sign-file '' @ or_default (ho_caSignFile opts) DEFAULT_CA_SIGN_FILE,
      is_scheme = Https, is_rules = rs_https rules, is_backend = ''origin_tls''\<rparr>"

definition http_stage :: "compiled_rule_set \<Rightarrow> inspect_stage_spec" where
  "http_stage rules =
     \<lparr>is_name = ''http_in'', is_port = PLAIN_STAGE_PORT, is_bindExtra = [], is_scheme = Http,
      is_rules = rs_http rules, is_backend = ''origin_plain''\<rparr>"

definition detect_spec :: "haproxy_config_options \<Rightarrow> compiled_rule_set \<Rightarrow> detect_frontend_spec" where
  "detect_spec opts rules =
     \<lparr>df_listenPort = or_default (ho_listenPort opts) DEFAULT_LISTEN_PORT, df_tlsStagePort = TLS_STAGE_PORT,
      df_plainStagePort = PLAIN_STAGE_PORT, df_ipRules = rs_ip rules, df_tlsHosts = rs_tls rules,
      df_proxyAddress = ho_proxyAddress opts, df_guard = shared_guard opts\<rparr>"

definition inspect_lines :: "(string \<Rightarrow> string option) \<Rightarrow> haproxy_config_options \<Rightarrow> string list acl" where
  "inspect_lines syn opts =
     bind_e (compileRuleSet syn (ho_inputs opts)) (\<lambda>rules.
     bind_e (inspectStage (https_stage opts rules) (stage_context opts)) (\<lambda>https.
     bind_e (inspectStage (http_stage rules) (stage_context opts)) (\<lambda>http.
     Inr (inspect_preamble (ho_extension opts) @ resolversSection @ detectFrontend (detect_spec opts rules) @
       https @ http @ originBackends (or_default (ho_systemCaFile opts) DEFAULT_SYSTEM_CA_FILE)))))"

definition generateHaproxyConfig :: "(string \<Rightarrow> string option) \<Rightarrow> haproxy_config_options \<Rightarrow> string acl" where
  "generateHaproxyConfig syn opts = map_e (join_with [newline_char]) (inspect_lines syn opts)"

section \<open>The rule inputs\<close>

definition parseRulesOrThrow :: "(string \<Rightarrow> string option) \<Rightarrow> string option \<Rightarrow> string list acl" where
  "parseRulesOrThrow syn rulesInput = parseAndValidateRules syn rulesInput"

definition parseKnownBlockedRulesOrThrow :: "(string \<Rightarrow> string option) \<Rightarrow> string option \<Rightarrow> string list acl" where
  "parseKnownBlockedRulesOrThrow syn rulesInput = parseAndValidateKnownBlockedRules syn rulesInput"

definition buildUrlRulesOrThrow :: "(string \<Rightarrow> string option) \<Rightarrow> string option \<Rightarrow> url_rule list acl" where
  "buildUrlRulesOrThrow syn rulesInput = buildUrlRules syn rulesInput"

definition PLACEHOLDER_PROXY_ADDRESS :: string where
  "PLACEHOLDER_PROXY_ADDRESS = ''192.0.2.1''"

definition placeholder_options :: "rule_inputs \<Rightarrow> haproxy_config_options" where
  "placeholder_options inputs =
     \<lparr>ho_inputs = inputs, ho_mode = None, ho_listenPort = None, ho_proxyAddress = PLACEHOLDER_PROXY_ADDRESS,
      ho_hostAddressFile = None, ho_caSignFile = None, ho_defaultCertFile = None, ho_systemCaFile = None,
      ho_extension = None\<rparr>"

definition checkRulesCompileOrThrow :: "(string \<Rightarrow> string option) \<Rightarrow> rule_inputs \<Rightarrow> unit acl" where
  "checkRulesCompileOrThrow syn inputs =
     bind_e (generateHaproxyConfig syn (placeholder_options inputs)) (\<lambda>_.
     bind_e (generateUniversalHaproxyConfig syn
       \<lparr>uo_audit = False, uo_inputs = inputs, uo_proxyAddress = PLACEHOLDER_PROXY_ADDRESS,
        uo_hostAddressFile = ''/dev/null''\<rparr>) (\<lambda>_.
     bind_e (compileRuleSet syn inputs) (\<lambda>rules.
     let _ = generateCorednsConfig rules PLACEHOLDER_PROXY_ADDRESS in Inr ())))"

text \<open>\<^verbatim>\<open>/^[0-9.*?/]+$/\<close>.\<close>

definition IP_RULE_HOST :: "string \<Rightarrow> bool" where
  "IP_RULE_HOST host \<longleftrightarrow> host \<noteq> [] \<and> list_all (\<lambda>c. is_digit c \<or> c \<in> set ''.*?/'') host"

text \<open>\<^verbatim>\<open>rule.slice(0, rule.lastIndexOf(":"))\<close>; -1 cuts the last character off.\<close>

definition ip_rule_host :: "string \<Rightarrow> string" where
  "ip_rule_host rule = (case last_index_of (CHR '':'') rule of Some i \<Rightarrow> take i rule | None \<Rightarrow> butlast rule)"

definition check_ip_rule :: "string \<Rightarrow> unit acl" where
  "check_ip_rule rule =
     (if starts_with ''~'' rule then Inr ()
      else let host = ip_rule_host rule in
        if \<not> IP_RULE_HOST host then Inl (NamesAHost rule)
        else if \<not> isIpRuleAddress host then Inl (NotIpv4 rule)
        else Inr ())"

definition parseIpRulesOrThrow :: "(string \<Rightarrow> string option) \<Rightarrow> string option \<Rightarrow> string list acl" where
  "parseIpRulesOrThrow syn rulesInput =
     bind_e (parseRulesOrThrow syn rulesInput) (\<lambda>rules.
     bind_e (traverse_e check_ip_rule rules) (\<lambda>_. Inr rules))"

record acl_rules =
  ar_https :: "string list"
  ar_http :: "string list"
  ar_ip :: "string list"

definition buildACLRules ::
  "(string \<Rightarrow> string option) \<Rightarrow> string option \<Rightarrow> string option \<Rightarrow> string option \<Rightarrow> acl_rules acl" where
  "buildACLRules syn httpsInput httpInput ipInput =
     bind_e (parseRulesOrThrow syn httpsInput) (\<lambda>https.
     bind_e (parseRulesOrThrow syn httpInput) (\<lambda>http.
     bind_e (parseIpRulesOrThrow syn ipInput) (\<lambda>ip.
     Inr \<lparr>ar_https = https, ar_http = http, ar_ip = ip\<rparr>)))"

section \<open>The check of the inputs\<close>

lemma inspectStage_ok: "ic_extension ctx = None \<Longrightarrow> \<exists>lines. inspectStage spec ctx = Inr lines"
  by (simp add: inspectStage_def extension_field_def)

lemma generate_ok:
  assumes "ho_extension opts = None"
  shows "(\<exists>cfg. generateHaproxyConfig syn opts = Inr cfg) \<longleftrightarrow> (\<exists>rules. compileRuleSet syn (ho_inputs opts) = Inr rules)"
proof -
  have "\<exists>l. inspectStage spec (stage_context opts) = Inr l" for spec
    using assms by (intro inspectStage_ok) (simp add: stage_context_def)
  then obtain f where "\<And>spec. inspectStage spec (stage_context opts) = Inr (f spec)" by metis
  then show ?thesis by (simp add: generateHaproxyConfig_def inspect_lines_def)
qed

lemma generate_universal_ok:
  assumes "generateUniversalHaproxyConfig syn \<lparr>uo_audit = False, uo_inputs = inputs, uo_proxyAddress = a, uo_hostAddressFile = f\<rparr> = Inr cfg"
    and "uo_inputs u = inputs"
  shows "\<exists>cfg. generateUniversalHaproxyConfig syn u = Inr cfg"
  using assms by (auto simp: generateUniversalHaproxyConfig_def universal_patterns_def)

text \<open>C39. The check of the rule inputs passes exactly when no generator can refuse them: both
  engines' haproxy.cfg are generated in every mode and for every address, port and file.\<close>

theorem checkRules_exact:
  "checkRulesCompileOrThrow syn inputs = Inr () \<longleftrightarrow>
     (\<forall>opts. ho_inputs opts = inputs \<longrightarrow> ho_extension opts = None \<longrightarrow> (\<exists>cfg. generateHaproxyConfig syn opts = Inr cfg)) \<and>
     (\<forall>u. uo_inputs u = inputs \<longrightarrow> (\<exists>cfg. generateUniversalHaproxyConfig syn u = Inr cfg))"
proof
  assume "checkRulesCompileOrThrow syn inputs = Inr ()"
  then obtain rules cfg where "compileRuleSet syn inputs = Inr rules"
    "generateUniversalHaproxyConfig syn \<lparr>uo_audit = False, uo_inputs = inputs,
       uo_proxyAddress = PLACEHOLDER_PROXY_ADDRESS, uo_hostAddressFile = ''/dev/null''\<rparr> = Inr cfg"
    by (auto simp: checkRulesCompileOrThrow_def)
  then show "(\<forall>opts. ho_inputs opts = inputs \<longrightarrow> ho_extension opts = None \<longrightarrow> (\<exists>cfg. generateHaproxyConfig syn opts = Inr cfg)) \<and>
     (\<forall>u. uo_inputs u = inputs \<longrightarrow> (\<exists>cfg. generateUniversalHaproxyConfig syn u = Inr cfg))"
    using generate_ok generate_universal_ok by blast
next
  assume all: "(\<forall>opts. ho_inputs opts = inputs \<longrightarrow> ho_extension opts = None \<longrightarrow> (\<exists>cfg. generateHaproxyConfig syn opts = Inr cfg)) \<and>
     (\<forall>u. uo_inputs u = inputs \<longrightarrow> (\<exists>cfg. generateUniversalHaproxyConfig syn u = Inr cfg))"
  moreover have "ho_inputs (placeholder_options inputs) = inputs" "ho_extension (placeholder_options inputs) = None"
    by (simp_all add: placeholder_options_def)
  ultimately obtain cfg where c: "generateHaproxyConfig syn (placeholder_options inputs) = Inr cfg" by blast
  then obtain rules where "compileRuleSet syn inputs = Inr rules"
    using generate_ok [of "placeholder_options inputs" syn] by (auto simp: placeholder_options_def)
  then show "checkRulesCompileOrThrow syn inputs = Inr ()"
    using all c by (auto simp: checkRulesCompileOrThrow_def)
qed

theorem checkRules_exact_witness:
  "\<exists>cfg. generateUniversalHaproxyConfig (\<lambda>_. None)
     \<lparr>uo_audit = False, uo_inputs = sample_inputs, uo_proxyAddress = PROXY_ADDRESS, uo_hostAddressFile = ''/h''\<rparr> = Inr cfg"
proof -
  define u where "u = \<lparr>uo_audit = False, uo_inputs = sample_inputs, uo_proxyAddress = PLACEHOLDER_PROXY_ADDRESS,
     uo_hostAddressFile = ''/dev/null''\<rparr>"
  have "\<not> isl (universal_patterns (\<lambda>_. None) u)" unfolding u_def by code_simp
  then obtain ps where "universal_patterns (\<lambda>_. None) u = Inr ps" by (cases "universal_patterns (\<lambda>_. None) u") auto
  then have "\<exists>cfg. generateUniversalHaproxyConfig (\<lambda>_. None) u = Inr cfg"
    by (simp add: generateUniversalHaproxyConfig_def)
  moreover have "\<exists>cfg. generateHaproxyConfig (\<lambda>_. None) (placeholder_options sample_inputs) = Inr cfg"
    using generate_ok [of "placeholder_options sample_inputs"] sample_compiles by (auto simp: placeholder_options_def)
  ultimately have "checkRulesCompileOrThrow (\<lambda>_. None) sample_inputs = Inr ()"
    using sample_compiles by (auto simp: checkRulesCompileOrThrow_def u_def)
  then show ?thesis using checkRules_exact [of "\<lambda>_. None" sample_inputs] by simp
qed

text \<open>Whatever a list of IP rules is accepted with, every rule of it that is no raw
  expression names an IPv4 address, a CIDR block or a pattern of octets, and the list is the
  tokens of the input as they are written.\<close>

theorem parseIpRules_addresses:
  assumes "parseIpRulesOrThrow syn rulesInput = Inr rules"
  shows "splitRuleTokens rulesInput = Inr rules \<and>
    (\<forall>rule\<in>set rules. starts_with ''~'' rule \<or> isIpRuleAddress (ip_rule_host rule)) \<and>
    (\<forall>rule\<in>set rules. \<exists>rx. convertRule syn rule = Inr rx)"
proof -
  from assms obtain us where r: "parseAndValidateRules syn rulesInput = Inr rules" "traverse_e check_ip_rule rules = Inr us"
    by (auto simp: parseIpRulesOrThrow_def parseRulesOrThrow_def)
  then have "starts_with ''~'' rule \<or> isIpRuleAddress (ip_rule_host rule)" if "rule \<in> set rules" for rule
    using traverse_e_ok [OF r(2) that] by (auto simp: check_ip_rule_def Let_def split: if_splits)
  moreover obtain rxs where "splitRuleTokens rulesInput = Inr rules" "traverse_e (convertRule syn) rules = Inr rxs"
    using r(1) by (auto simp: parseAndValidateRules_def)
  ultimately show ?thesis using traverse_e_ok by metis
qed

theorem parseIpRules_addresses_witness:
  "splitRuleTokens (Some ''10.0.0.1:443 10.*.*.*:22'') = Inr [''10.0.0.1:443'', ''10.*.*.*:22''] \<and>
   list_all (\<lambda>rule. starts_with ''~'' rule \<or> isIpRuleAddress (ip_rule_host rule)) [''10.0.0.1:443'', ''10.*.*.*:22'']"
proof -
  have "parseIpRulesOrThrow (\<lambda>_. None) (Some ''10.0.0.1:443 10.*.*.*:22'') = Inr [''10.0.0.1:443'', ''10.*.*.*:22'']"
    by code_simp
  from parseIpRules_addresses [OF this] show ?thesis unfolding list_all_iff by blast
qed

end
