(* ===== verification/JsSort.thy ===== *)
theory JsSort
  imports Prelude "HOL-Library.Multiset"
begin

text \<open>
  \<^verbatim>\<open>Array.prototype.sort\<close> with a comparator, which is stable, and the order of
  JavaScript strings by their code units. A comparator's result is an integer, a
  \<^verbatim>\<open>NaN\<close> being read as zero, as the standard does.
\<close>

section \<open>Strings in order\<close>

text \<open>\<^verbatim>\<open>a < b\<close>.\<close>

fun str_less :: "string \<Rightarrow> string \<Rightarrow> bool" where
  "str_less s [] = False"
| "str_less [] (d # ds) = True"
| "str_less (c # cs) (d # ds) =
     ((of_char c :: nat) < of_char d \<or> (c = d \<and> str_less cs ds))"

lemma char_cases: "(of_char c :: nat) < of_char d \<or> c = d \<or> (of_char d :: nat) < of_char c"
  by (metis linorder_neqE_nat of_char_eq_iff)

lemma str_less_irrefl [simp]: "\<not> str_less s s"
  by (induction s) auto

lemma str_less_trans: "str_less a b \<Longrightarrow> str_less b c \<Longrightarrow> str_less a c"
proof (induction a b arbitrary: c rule: str_less.induct)
  case (2 d ds)
  then show ?case by (cases c) auto
next
  case (3 x xs y ys)
  then show ?case by (cases c) auto
qed simp

lemma str_less_total: "str_less a b \<or> a = b \<or> str_less b a"
proof (induction a b rule: str_less.induct)
  case (1 s)
  then show ?case by (cases s) auto
next
  case (3 c cs d ds)
  then show ?case using char_cases [of c d] by auto
qed simp

lemma str_less_asym: "str_less a b \<Longrightarrow> \<not> str_less b a"
  using str_less_trans str_less_irrefl by blast

section \<open>The sort\<close>

fun sort_insert :: "('a \<Rightarrow> 'a \<Rightarrow> int) \<Rightarrow> 'a \<Rightarrow> 'a list \<Rightarrow> 'a list" where
  "sort_insert cmp x [] = [x]"
| "sort_insert cmp x (y # ys) = (if cmp x y < 0 then x # y # ys else y # sort_insert cmp x ys)"

definition js_sort :: "('a \<Rightarrow> 'a \<Rightarrow> int) \<Rightarrow> 'a list \<Rightarrow> 'a list" where
  "js_sort cmp xs = fold (sort_insert cmp) xs []"

lemma mset_sort_insert [simp]: "mset (sort_insert cmp x ys) = add_mset x (mset ys)"
  by (induction ys) auto

lemma mset_fold_insert: "mset (fold (sort_insert cmp) xs ys) = mset xs + mset ys"
  by (induction xs arbitrary: ys) auto

lemma mset_js_sort [simp]: "mset (js_sort cmp xs) = mset xs"
  by (simp add: js_sort_def mset_fold_insert)

lemma set_js_sort [simp]: "set (js_sort cmp xs) = set xs"
  using mset_js_sort set_mset_mset by metis

lemma length_js_sort [simp]: "length (js_sort cmp xs) = length xs"
  using mset_js_sort size_mset by metis

lemma distinct_js_sort [simp]: "distinct (js_sort cmp xs) = distinct xs"
  using mset_js_sort mset_eq_imp_distinct_iff by blast

lemma sum_js_sort: "sum_list (map (f :: 'a \<Rightarrow> nat) (js_sort cmp xs)) = sum_list (map f xs)"
  using mset_js_sort by (metis mset_map sum_mset_sum_list)

text \<open>A comparator that is consistent on the rows it is given puts them in its order.\<close>

locale comparator =
  fixes cmp :: "'a \<Rightarrow> 'a \<Rightarrow> int" and rows :: "'a set"
  assumes cmp_flip: "x \<in> rows \<Longrightarrow> y \<in> rows \<Longrightarrow> cmp x y < 0 \<Longrightarrow> cmp y x > 0"
    and cmp_total: "x \<in> rows \<Longrightarrow> y \<in> rows \<Longrightarrow> \<not> cmp x y < 0 \<Longrightarrow> cmp y x \<le> 0"
    and cmp_trans: "x \<in> rows \<Longrightarrow> y \<in> rows \<Longrightarrow> z \<in> rows \<Longrightarrow> cmp x y \<le> 0 \<Longrightarrow> cmp y z \<le> 0 \<Longrightarrow> cmp x z \<le> 0"
begin

lemma set_insert: "set (sort_insert cmp x ys) = insert x (set ys)"
  by (induction ys) auto

lemma insert_sorted:
  assumes "sorted_wrt (\<lambda>a b. cmp a b \<le> 0) ys" "x \<in> rows" "set ys \<subseteq> rows"
  shows "sorted_wrt (\<lambda>a b. cmp a b \<le> 0) (sort_insert cmp x ys)"
  using assms(1,3)
proof (induction ys)
  case (Cons y ys)
  show ?case
  proof (cases "cmp x y < 0")
    case True
    then have "cmp x z \<le> 0" if "z \<in> set ys" for z
      using that Cons.prems assms(2) cmp_trans [of x y z] by auto
    with True Cons.prems show ?thesis by auto
  next
    case False
    then have "cmp y x \<le> 0" using Cons.prems assms(2) cmp_total by auto
    with False Cons show ?thesis by (auto simp: set_insert)
  qed
qed simp

theorem sort_sorted: "set xs \<subseteq> rows \<Longrightarrow> sorted_wrt (\<lambda>a b. cmp a b \<le> 0) (js_sort cmp xs)"
proof -
  have "set ys \<subseteq> rows \<Longrightarrow> sorted_wrt (\<lambda>a b. cmp a b \<le> 0) ys \<Longrightarrow> set xs \<subseteq> rows \<Longrightarrow>
      sorted_wrt (\<lambda>a b. cmp a b \<le> 0) (fold (sort_insert cmp) xs ys)" for ys
    by (induction xs arbitrary: ys) (auto simp: insert_sorted set_insert)
  then show "set xs \<subseteq> rows \<Longrightarrow> ?thesis" by (simp add: js_sort_def)
qed

end

end
