(* ===== verification/StepSummary.thy ===== *)
theory StepSummary
  imports JsSort LogScan
begin

text \<open>
  \<^verbatim>\<open>src/core/lib/report/render/fit-step-summary.ts\<close>: a Job Summary of blocks cut down to
  the size GitHub takes, in the order of the blocks' priorities. The byte length of a string is
  the one of its UTF-8 form: one byte for a code unit below \<^verbatim>\<open>0x80\<close>, two for the others
  the development has. The blocks \<^verbatim>\<open>onCut\<close> is called with are a result of the fit.
\<close>

section \<open>Blocks\<close>

definition STEP_SUMMARY_LIMIT_BYTES :: nat where
  "STEP_SUMMARY_LIMIT_BYTES = 1024 * 1024"

definition SAFETY_MARGIN_BYTES :: nat where
  "SAFETY_MARGIN_BYTES = 8 * 1024"

datatype cut_kind = CutKeep | CutLines | CutAtomic

record summary_block =
  sb_id :: "string option"
  sb_priority :: int
  sb_level :: int
  sb_section :: string
  sb_text :: string
  sb_cut :: cut_kind
  sb_head :: "nat option"
  sb_open :: "string option"
  sb_close :: "string option"
  sb_notice :: "string option"

definition or_empty :: "string option \<Rightarrow> string" where
  "or_empty s = (case s of None \<Rightarrow> [] | Some t \<Rightarrow> t)"

definition bytes :: "string \<Rightarrow> nat" where
  "bytes s = sum_list (map (\<lambda>c. if (of_char c :: nat) < 128 then 1 else 2) s)"

definition wholeBlock :: "summary_block \<Rightarrow> string" where
  "wholeBlock b = or_empty (sb_open b) @ sb_text b @ or_empty (sb_close b)"

definition withNotices :: "summary_block list \<Rightarrow> (summary_block \<Rightarrow> string option) \<Rightarrow> summary_block list" where
  "withNotices blocks noticeFor =
     map (\<lambda>b. if sb_cut b = CutKeep then b else b\<lparr>sb_notice := noticeFor b\<rparr>) blocks"

definition joinSummaryBlocks :: "summary_block list \<Rightarrow> string" where
  "joinSummaryBlocks blocks = concat (map wholeBlock blocks)"

section \<open>Cutting one block\<close>

text \<open>\<^verbatim>\<open>s.indexOf(c, pos)\<close>.\<close>

definition index_from :: "char \<Rightarrow> nat \<Rightarrow> string \<Rightarrow> nat option" where
  "index_from c pos s = map_option ((+) pos) (index_of c (drop pos s))"

definition FENCE :: string where
  "FENCE = ''```''"

lemma bytes_append [simp]: "bytes (s @ t) = bytes s + bytes t"
  by (simp add: bytes_def)

lemma bytes_Nil [simp]: "bytes [] = 0"
  by (simp add: bytes_def)

lemma bytes_newline [simp]: "bytes (newline_char # s) = 1 + bytes s"
  by (simp add: bytes_def)

text \<open>The loop over the lines. Past the last line its position starts over at 0, as
  \<^verbatim>\<open>indexOf\<close> yields -1 there: only the budget ends it.\<close>

function cut_loop :: "string \<Rightarrow> int \<Rightarrow> nat \<Rightarrow> string \<Rightarrow> int \<Rightarrow> nat \<Rightarrow> bool \<Rightarrow> string \<times> nat \<times> bool" where
  "cut_loop t room pos kept usedBytes lineCount fenceOpen =
     (let nl = index_from newline_char pos t;
          line = (case nl of None \<Rightarrow> drop pos t | Some i \<Rightarrow> take (i - pos) (drop pos t));
          withNewline = line @ [newline_char];
          lineBytes = int (bytes withNewline) in
      if usedBytes + lineBytes > room then (kept, lineCount, fenceOpen)
      else cut_loop t room (case nl of None \<Rightarrow> 0 | Some i \<Rightarrow> Suc i) (kept @ withNewline) (usedBytes + lineBytes)
        (Suc lineCount) (if starts_with FENCE (js_trim line) then \<not> fenceOpen else fenceOpen))"
  by pat_completeness auto
termination
  by (relation "measure (\<lambda>(t, room, pos, kept, usedBytes, lineCount, fenceOpen). nat (room - usedBytes))") auto

declare cut_loop.simps [simp del]

definition cut_alone :: "summary_block \<Rightarrow> string" where
  "cut_alone b =
     (let opening = (if or_empty (sb_open b) \<noteq> [] then or_empty (sb_open b) else sb_text b) in
      (if starts_with [newline_char] opening then [newline_char] else []) @ or_empty (sb_notice b))"

definition cut_room :: "summary_block \<Rightarrow> int \<Rightarrow> int" where
  "cut_room b budget =
     budget - int (bytes (or_empty (sb_open b))) - int (bytes (or_empty (sb_close b))) - int (bytes (or_empty (sb_notice b)))"

text \<open>What a \<^verbatim>\<open>lines\<close> cut prints of the kept lines.\<close>

definition cut_finish :: "summary_block \<Rightarrow> string \<times> nat \<times> bool \<Rightarrow> string" where
  "cut_finish b kcf =
     (case kcf of (kept, lineCount, fenceOpen) \<Rightarrow>
       let head = (case sb_head b of None \<Rightarrow> 0 | Some n \<Rightarrow> n) in
       if head > 0 \<and> lineCount \<le> head then cut_alone b
       else or_empty (sb_open b) @ kept @ (if fenceOpen then FENCE @ [newline_char] else []) @
         (if head > 0 then [newline_char] else []) @ or_empty (sb_notice b) @ or_empty (sb_close b))"

definition cutBlock :: "summary_block \<Rightarrow> int \<Rightarrow> string" where
  "cutBlock b budget =
     (if sb_cut b = CutAtomic then cut_alone b
      else cut_finish b (cut_loop (sb_text b) (cut_room b budget) 0 [] 0 0 False))"

section \<open>Fitting the summary\<close>

text \<open>\<^verbatim>\<open>rank(a) - rank(b) || i - j\<close>, the rank of a kept block being \<^verbatim>\<open>-Infinity\<close>: the
  difference of two of them is \<^verbatim>\<open>NaN\<close>, so their positions decide.\<close>

definition compare_rank :: "summary_block list \<Rightarrow> nat \<Rightarrow> nat \<Rightarrow> int" where
  "compare_rank blocks i j =
     (let a = blocks ! i; b = blocks ! j; by_index = int i - int j in
      if sb_cut a = CutKeep then (if sb_cut b = CutKeep then by_index else -1)
      else if sb_cut b = CutKeep then 1
      else if sb_priority a \<noteq> sb_priority b then sb_priority a - sb_priority b
      else by_index)"

record fit_state =
  fs_out :: "string list"
  fs_cutAt :: "string \<rightharpoonup> int"
  fs_budget :: int
  fs_cut :: "summary_block list"

definition section_cut :: "(string \<rightharpoonup> int) \<Rightarrow> summary_block \<Rightarrow> bool" where
  "section_cut cutAt b = (case cutAt (sb_section b) of None \<Rightarrow> False | Some l \<Rightarrow> l < sb_level b)"

definition note_cut :: "(string \<rightharpoonup> int) \<Rightarrow> summary_block \<Rightarrow> (string \<rightharpoonup> int)" where
  "note_cut cutAt b =
     cutAt(sb_section b \<mapsto> (case cutAt (sb_section b) of None \<Rightarrow> sb_level b | Some l \<Rightarrow> min l (sb_level b)))"

text \<open>One turn of the loop, with the cut as an argument.\<close>

definition fit_step ::
    "(summary_block \<Rightarrow> int \<Rightarrow> string) \<Rightarrow> summary_block list \<Rightarrow> nat \<Rightarrow> fit_state \<Rightarrow> fit_state" where
  "fit_step cutter blocks i st =
     (let b = blocks ! i; full = wholeBlock b; size' = int (bytes full) in
      if section_cut (fs_cutAt st) b then st
      else if sb_cut b = CutKeep \<or> size' \<le> fs_budget st then
        st\<lparr>fs_out := (fs_out st)[i := full], fs_budget := fs_budget st - size'\<rparr>
      else
        (let printed = cutter b (max 0 (fs_budget st)) in
         \<lparr>fs_out = (fs_out st)[i := printed], fs_cutAt = note_cut (fs_cutAt st) b,
          fs_budget = fs_budget st - int (bytes printed), fs_cut = fs_cut st @ [b]\<rparr>))"

definition fit_budget :: "nat \<Rightarrow> nat \<Rightarrow> int" where
  "fit_budget usedBytes limitBytes = int limitBytes - int SAFETY_MARGIN_BYTES - int usedBytes"

definition fit_start :: "summary_block list \<Rightarrow> int \<Rightarrow> fit_state" where
  "fit_start blocks budget =
     \<lparr>fs_out = map (\<lambda>_. []) blocks, fs_cutAt = Map.empty, fs_budget = budget, fs_cut = []\<rparr>"

definition fit_order :: "summary_block list \<Rightarrow> nat list" where
  "fit_order blocks = js_sort (compare_rank blocks) [0..<length blocks]"

definition fitStepSummary :: "summary_block list \<Rightarrow> nat \<Rightarrow> nat \<Rightarrow> string \<times> summary_block list" where
  "fitStepSummary blocks usedBytes limitBytes =
     (let budget = fit_budget usedBytes limitBytes in
      if int (sum_list (map (\<lambda>b. bytes (wholeBlock b)) blocks)) \<le> budget
      then (concat (map wholeBlock blocks), [])
      else
        (let st = fold (fit_step cutBlock blocks) (fit_order blocks) (fit_start blocks budget) in
         (concat (fs_out st), fs_cut st)))"

section \<open>The reference the tests fit with\<close>

text \<open>The \<^verbatim>\<open>referenceFit\<close> of the property tests: the text is split into its lines first,
  and the loop ends with them.\<close>

fun reference_loop :: "string list \<Rightarrow> int \<Rightarrow> string \<Rightarrow> int \<Rightarrow> nat \<Rightarrow> bool \<Rightarrow> string \<times> nat \<times> bool" where
  "reference_loop [] room kept usedBytes lineCount fenceOpen = (kept, lineCount, fenceOpen)"
| "reference_loop (line # rest) room kept usedBytes lineCount fenceOpen =
     (let withNewline = line @ [newline_char]; lineBytes = int (bytes withNewline) in
      if usedBytes + lineBytes > room then (kept, lineCount, fenceOpen)
      else reference_loop rest room (kept @ withNewline) (usedBytes + lineBytes) (Suc lineCount)
        (if starts_with FENCE (js_trim line) then \<not> fenceOpen else fenceOpen))"

definition referenceCut :: "summary_block \<Rightarrow> int \<Rightarrow> string" where
  "referenceCut b budget =
     (if sb_cut b = CutAtomic then cut_alone b
      else cut_finish b (reference_loop (split_on newline_char (sb_text b)) (cut_room b budget) [] 0 0 False))"

definition referenceFit :: "summary_block list \<Rightarrow> nat \<Rightarrow> nat \<Rightarrow> string" where
  "referenceFit blocks usedBytes limitBytes =
     (let full = concat (map wholeBlock blocks); budget = fit_budget usedBytes limitBytes in
      if int (bytes full) \<le> budget then full
      else concat (fs_out (fold (fit_step referenceCut blocks) (fit_order blocks) (fit_start blocks budget))))"

section \<open>The loop and the reference\<close>

lemma index_of_split:
  "index_of c s = (case split_on c s of [l] \<Rightarrow> None | l # _ \<Rightarrow> Some (length l) | [] \<Rightarrow> None)"
proof (induction s)
  case (Cons x s)
  obtain l ls where "split_on c s = l # ls" by (cases "split_on c s") auto
  with Cons show ?case by (cases ls) auto
qed simp

text \<open>The lines from a position on are what the loop still has to read.\<close>

lemma split_cases:
  obtains (last) "split_on c s = [s]" "index_of c s = None"
    | (more) l ls where "split_on c s = l # ls" "index_of c s = Some (length l)" "take (length l) s = l"
        "split_on c (drop (Suc (length l)) s) = ls"
proof (cases "index_of c s")
  case None
  then show thesis using last by simp
next
  case (Some i)
  from index_of_Some [OF this] have s: "s = take i s @ c # drop (Suc i) s" "i < length s" "c \<notin> set (take i s)"
    by auto
  have "split_on c s = take i s # split_on c (drop (Suc i) s)"
    using split_on_append_sep [OF s(3), of "drop (Suc i) s"] s(1) by simp
  then show thesis using more [of "take i s" "split_on c (drop (Suc i) s)"] s(2) Some by simp
qed

lemma bytes_lines: "int (sum_list (map (\<lambda>l. bytes l + 1) (split_on newline_char s))) = int (bytes s) + 1"
proof (induction s)
  case (Cons x s)
  obtain l ls where "split_on newline_char s = l # ls" by (cases "split_on newline_char s") auto
  with Cons show ?case by (simp add: bytes_def)
qed simp

lemma cut_loop_reference:
  assumes "usedBytes + int (bytes (drop pos t)) + 1 > room" and "lines = split_on newline_char (drop pos t)"
  shows "cut_loop t room pos kept usedBytes lineCount fenceOpen = reference_loop lines room kept usedBytes lineCount fenceOpen"
  using assms
proof (induction lines arbitrary: pos kept usedBytes lineCount fenceOpen)
  case (Cons line rest)
  show ?case
  proof (cases rule: split_cases [of newline_char "drop pos t"])
    case last
    then have "index_from newline_char pos t = None" unfolding index_from_def by (simp only: option.map)
    then show ?thesis using Cons.prems last(1)
      by (simp add: cut_loop.simps [of t room pos] Let_def)
  next
    case (more l ls)
    have l: "l = line" "ls = rest" using more(1) Cons.prems(2) by simp_all
    have next_: "split_on newline_char (drop (Suc (pos + length line)) t) = rest"
      using more(4) l by (simp add: add.commute)
    have d: "drop pos t = line @ newline_char # drop (Suc (pos + length line)) t"
      using index_of_Some [OF more(2)] more(3) l by (simp add: add.commute)
    have "bytes (drop pos t) = bytes line + 1 + bytes (drop (Suc (pos + length line)) t)"
      by (subst d) (simp add: bytes_def)
    moreover have "index_from newline_char pos t = Some (pos + length line)"
      using more(2) l by (simp add: index_from_def)
    ultimately show ?thesis
      using Cons.IH [of "usedBytes + int (bytes line) + 1" "Suc (pos + length line)" "kept @ line @ [newline_char]" "Suc lineCount"]
        Cons.prems(1) next_ more(3) l
      by (simp add: cut_loop.simps [of t room pos] Let_def algebra_simps)
  qed
qed (metis split_on_ne)

lemma whole_exceeds:
  assumes "int (bytes (wholeBlock b)) > budget" "budget \<ge> 0 \<or> b0 = 0" "b0 = max 0 budget"
  shows "int (bytes (sb_text b)) + 1 > cut_room b b0"
  using assms by (auto simp: wholeBlock_def cut_room_def)

lemma cut_reference:
  assumes "int (bytes (wholeBlock b)) > budget"
  shows "cutBlock b (max 0 budget) = referenceCut b (max 0 budget)"
proof -
  have "int (bytes (sb_text b)) + 1 > cut_room b (max 0 budget)"
    using assms by (rule whole_exceeds) (auto simp: max_def)
  then show ?thesis
    by (simp add: cutBlock_def referenceCut_def cut_loop_reference [where usedBytes = 0 and pos = 0])
qed

lemma fit_step_reference: "fit_step cutBlock blocks i st = fit_step referenceCut blocks i st"
  using cut_reference [of "fs_budget st" "blocks ! i"] by (simp add: fit_step_def Let_def)

lemma bytes_concat: "bytes (concat xs) = sum_list (map bytes xs)"
  by (induction xs) auto

section \<open>How much a cut prints\<close>

lemma reference_loop_prefix:
  assumes "reference_loop lines room kept usedBytes n fenceOpen = (kept', n', f')"
  shows "\<exists>m\<le>length lines. n' = n + m \<and> kept' = kept @ concat (map (\<lambda>l. l @ [newline_char]) (take m lines)) \<and>
     (m = 0 \<or> usedBytes + int (bytes (concat (map (\<lambda>l. l @ [newline_char]) (take m lines)))) \<le> room)"
  using assms
proof (induction lines arbitrary: kept usedBytes n fenceOpen)
  case (Cons line rest)
  show ?case
  proof (cases "usedBytes + int (bytes (line @ [newline_char])) > room")
    case True
    then show ?thesis using Cons.prems by (intro exI [of _ 0]) simp
  next
    case False
    let ?f = "if starts_with FENCE (js_trim line) then \<not> fenceOpen else fenceOpen"
    have "reference_loop rest room (kept @ line @ [newline_char]) (usedBytes + int (bytes (line @ [newline_char])))
        (Suc n) ?f = (kept', n', f')"
      using Cons.prems False by (simp add: Let_def)
    from Cons.IH [OF this] obtain m where m: "m \<le> length rest" "n' = Suc n + m"
      "kept' = kept @ (line @ [newline_char]) @ concat (map (\<lambda>l. l @ [newline_char]) (take m rest))"
      "m = 0 \<or> usedBytes + int (bytes (line @ [newline_char])) +
         int (bytes (concat (map (\<lambda>l. l @ [newline_char]) (take m rest)))) \<le> room" by auto
    then show ?thesis using False by (intro exI [of _ "Suc m"]) auto
  qed
qed simp

text \<open>The most a block prints past the room it is given: its notice, its tags and what closes a
  fence or a table; a kept block prints all of itself.\<close>

definition overhead :: "summary_block \<Rightarrow> nat" where
  "overhead b =
     (if sb_cut b = CutKeep then bytes (wholeBlock b)
      else bytes (or_empty (sb_open b)) + bytes (or_empty (sb_close b)) + bytes (or_empty (sb_notice b)) + 5)"

lemma alone_bytes: "bytes (cut_alone b) \<le> bytes (or_empty (sb_notice b)) + 1"
  by (simp add: cut_alone_def Let_def)

lemma bytes_fence: "bytes FENCE = 3"
  by (simp add: FENCE_def bytes_def)

lemma cut_bytes:
  assumes "sb_cut b \<noteq> CutKeep" "budget \<ge> 0"
  shows "int (bytes (referenceCut b budget)) \<le> budget + int (overhead b)"
proof (cases "sb_cut b = CutAtomic")
  case True
  then show ?thesis using alone_bytes [of b] assms by (simp add: referenceCut_def overhead_def)
next
  case False
  obtain kept n f where r: "reference_loop (split_on newline_char (sb_text b)) (cut_room b budget) [] 0 0 False = (kept, n, f)"
    by (metis prod_cases3)
  from reference_loop_prefix [OF r]
  have k: "kept = [] \<or> int (bytes kept) \<le> cut_room b budget" by auto
  have "referenceCut b budget = cut_finish b (kept, n, f)" using False by (simp add: referenceCut_def r)
  then show ?thesis
    using k alone_bytes [of b] assms False
    by (auto simp: cut_finish_def Let_def overhead_def cut_room_def bytes_fence)
qed

lemma bytes_update:
  assumes "i < length out" "out ! i = []"
  shows "sum_list (map bytes (out[i := s])) = sum_list (map bytes out) + bytes s"
  using assms by (simp add: sum_list_update map_update)

text \<open>What the loop of the fit keeps: the bytes printed and the budget left stay within the
  budget it began with and the overheads of the blocks it has seen.\<close>

lemma fit_fold:
  assumes "distinct is" "set is \<subseteq> {..<length blocks}" "length (fs_out st) = length blocks"
    "\<forall>i\<in>set is. fs_out st ! i = []"
    "int (sum_list (map bytes (fs_out st))) + max 0 (fs_budget st) \<le> bound"
  shows "int (sum_list (map bytes (fs_out (fold (fit_step referenceCut blocks) is st)))) \<le>
    bound + int (sum_list (map (\<lambda>i. overhead (blocks ! i)) is))"
  using assms
proof (induction "is" arbitrary: st bound)
  case (Cons i "is")
  let ?b = "blocks ! i" and ?st = "fit_step referenceCut blocks i st"
  have i: "i < length (fs_out st)" "fs_out st ! i = []" using Cons.prems by auto
  have len: "length (fs_out ?st) = length blocks" using Cons.prems(3) by (simp add: fit_step_def Let_def)
  have others: "\<forall>j\<in>set is. fs_out ?st ! j = []"
  proof
    fix j assume "j \<in> set is"
    then have "j \<noteq> i" "fs_out st ! j = []" using Cons.prems(1,4) by auto
    then show "fs_out ?st ! j = []" by (simp add: fit_step_def Let_def)
  qed
  have "int (sum_list (map bytes (fs_out ?st))) + max 0 (fs_budget ?st) \<le> bound + int (overhead ?b)"
  proof (cases "section_cut (fs_cutAt st) ?b")
    case True
    then show ?thesis using Cons.prems(5) by (simp add: fit_step_def Let_def)
  next
    case False
    show ?thesis
    proof (cases "sb_cut ?b = CutKeep \<or> int (bytes (wholeBlock ?b)) \<le> fs_budget st")
      case True
      then have "fs_out ?st = (fs_out st)[i := wholeBlock ?b]" "fs_budget ?st = fs_budget st - int (bytes (wholeBlock ?b))"
        using False by (auto simp: fit_step_def Let_def)
      then show ?thesis using bytes_update [OF i] True Cons.prems(5)
        by (auto simp: overhead_def max_def split: if_splits)
    next
      case no: False
      define p where "p = referenceCut ?b (max 0 (fs_budget st))"
      have "fs_out ?st = (fs_out st)[i := p]" "fs_budget ?st = fs_budget st - int (bytes p)"
        using False no by (simp_all add: fit_step_def Let_def p_def)
      moreover have "int (bytes p) \<le> max 0 (fs_budget st) + int (overhead ?b)"
        unfolding p_def using no by (intro cut_bytes) auto
      ultimately show ?thesis using bytes_update [OF i] Cons.prems(5) by (auto simp: max_def)
    qed
  qed
  from Cons.IH [OF _ _ len others this] Cons.prems(1,2) show ?case by simp
qed simp

lemma fit_order_sum:
  "sum_list (map (\<lambda>i. f (blocks ! i)) (fit_order blocks)) = (sum_list (map f blocks) :: nat)"
proof -
  have "map (\<lambda>i. f (blocks ! i)) [0..<length blocks] = map f blocks" by (rule nth_equalityI) simp_all
  then show ?thesis by (simp add: fit_order_def sum_js_sort)
qed

lemma fit_bytes:
  "int (bytes (fst (fitStepSummary blocks usedBytes limitBytes))) \<le>
     max 0 (fit_budget usedBytes limitBytes) + int (sum_list (map overhead blocks))"
proof (cases "int (sum_list (map (\<lambda>b. bytes (wholeBlock b)) blocks)) \<le> fit_budget usedBytes limitBytes")
  case True
  then show ?thesis by (simp add: fitStepSummary_def Let_def bytes_concat o_def)
next
  case False
  let ?st = "fit_start blocks (fit_budget usedBytes limitBytes)"
  have z: "sum_list (map bytes (fs_out ?st)) = 0" by (simp add: fit_start_def o_def)
  have "int (sum_list (map bytes (fs_out (fold (fit_step referenceCut blocks) (fit_order blocks) ?st)))) \<le>
      max 0 (fit_budget usedBytes limitBytes) + int (sum_list (map (\<lambda>i. overhead (blocks ! i)) (fit_order blocks)))"
    by (rule fit_fold) (auto simp: fit_order_def fit_start_def z [unfolded fit_start_def])
  then show ?thesis using False
    by (simp add: fitStepSummary_def Let_def bytes_concat fit_order_sum fit_step_reference [abs_def])
qed

section \<open>Properties\<close>

text \<open>C32. The fit prints, byte for byte, what the reference the property tests compare it with
  prints: reading a log line by line and stopping at the budget cuts where splitting it whole
  does.\<close>

theorem fitStepSummary_reference:
  "fst (fitStepSummary blocks usedBytes limitBytes) = referenceFit blocks usedBytes limitBytes"
  by (simp add: fitStepSummary_def referenceFit_def Let_def wholeBlock_def bytes_concat o_def
      fit_step_reference [abs_def])

text \<open>C30. A summary stays within GitHub's limit: with what it already holds it is no longer than
  the limit wherever the notices, the tags and the kept blocks fit the safety margin.\<close>

theorem fitStepSummary_bounded:
  assumes "usedBytes + SAFETY_MARGIN_BYTES \<le> limitBytes"
    and "sum_list (map overhead blocks) \<le> SAFETY_MARGIN_BYTES"
  shows "usedBytes + bytes (fst (fitStepSummary blocks usedBytes limitBytes)) \<le> limitBytes"
  using fit_bytes [of blocks usedBytes limitBytes] assms by (simp add: fit_budget_def)

definition sample_blocks :: "summary_block list" where
  "sample_blocks =
     [\<lparr>sb_id = None, sb_priority = 0, sb_level = 1, sb_section = ''t'', sb_text = ''# Title'' @ [newline_char],
       sb_cut = CutKeep, sb_head = None, sb_open = None, sb_close = None, sb_notice = None\<rparr>,
      \<lparr>sb_id = Some ''log'', sb_priority = 2, sb_level = 3, sb_section = ''t'',
       sb_text = FENCE @ [newline_char] @ ''one'' @ [newline_char] @ ''two'' @ [newline_char] @ FENCE @ [newline_char],
       sb_cut = CutLines, sb_head = None, sb_open = None, sb_close = None, sb_notice = Some ''cut''\<rparr>]"

theorem fitStepSummary_bounded_witness:
  "0 + bytes (fst (fitStepSummary sample_blocks 0 8214)) \<le> 8214 \<and>
   fst (fitStepSummary sample_blocks 0 8214) =
     ''# Title'' @ [newline_char] @ FENCE @ [newline_char] @ ''one'' @ [newline_char] @ FENCE @ [newline_char] @ ''cut''"
proof
  have "sum_list (map overhead sample_blocks) \<le> SAFETY_MARGIN_BYTES" by code_simp
  then show "0 + bytes (fst (fitStepSummary sample_blocks 0 8214)) \<le> 8214"
    by (intro fitStepSummary_bounded) (simp_all add: SAFETY_MARGIN_BYTES_def)
qed code_simp

text \<open>C31. The loop that cuts a block ends at its budget before the text runs out, so it never
  starts over: it has read a proper prefix of the lines, each once and whole, and what it keeps
  fits the room.\<close>

theorem cut_loop_stops:
  assumes "int (bytes (wholeBlock b)) > budget" "budget \<ge> 0"
    and "cut_loop (sb_text b) (cut_room b budget) 0 [] 0 0 False = (kept, lineCount, fenceOpen)"
  shows "lineCount < length (split_on newline_char (sb_text b)) \<and>
    kept = concat (map (\<lambda>l. l @ [newline_char]) (take lineCount (split_on newline_char (sb_text b)))) \<and>
    int (bytes kept) \<le> max 0 (cut_room b budget)"
proof -
  let ?lines = "split_on newline_char (sb_text b)"
  have e: "int (bytes (sb_text b)) + 1 > cut_room b budget"
    using assms(1,2) whole_exceeds [of budget b budget] by simp
  then have r: "reference_loop ?lines (cut_room b budget) [] 0 0 False = (kept, lineCount, fenceOpen)"
    using cut_loop_reference [where usedBytes = 0 and pos = 0 and t = "sb_text b" and room = "cut_room b budget"] assms(3)
    by simp
  from reference_loop_prefix [OF r] obtain m where m: "m \<le> length ?lines" "lineCount = m"
    "kept = concat (map (\<lambda>l. l @ [newline_char]) (take m ?lines))"
    "m = 0 \<or> int (bytes (concat (map (\<lambda>l. l @ [newline_char]) (take m ?lines)))) \<le> cut_room b budget" by auto
  have "m \<noteq> length ?lines"
  proof
    assume "m = length ?lines"
    then have "int (bytes (concat (map (\<lambda>l. l @ [newline_char]) ?lines))) \<le> cut_room b budget" using m(4) by simp
    moreover have "bytes (concat (map (\<lambda>l. l @ [newline_char]) ?lines)) = sum_list (map (\<lambda>l. bytes l + 1) ?lines)"
      by (simp add: bytes_concat o_def)
    ultimately show False using bytes_lines [of "sb_text b"] e by simp
  qed
  then show ?thesis using m by auto
qed

theorem cut_loop_stops_witness:
  "(2::nat) < 5 \<and> cut_loop (sb_text (sample_blocks ! 1)) (cut_room (sample_blocks ! 1) 11) 0 [] 0 0 False =
     (FENCE @ [newline_char] @ ''one'' @ [newline_char], 2, True)"
proof -
  let ?b = "sample_blocks ! 1"
  have c: "cut_loop (sb_text ?b) (cut_room ?b 11) 0 [] 0 0 False = (FENCE @ [newline_char] @ ''one'' @ [newline_char], 2, True)"
    by code_simp
  have "11 < int (bytes (wholeBlock ?b))" by code_simp
  from cut_loop_stops [OF this _ c] have "2 < length (split_on newline_char (sb_text ?b))" by simp
  also have "\<dots> = 5" by code_simp
  finally show ?thesis using c by simp
qed

end
