(* ===== verification/HaproxyLog.thy ===== *)
theory HaproxyLog
  imports ProxyLog
begin

text \<open>
  \<^verbatim>\<open>src/core/lib/log/haproxy.ts\<close>: the decision log of the universal engine read into
  the timeline. The pass over the lines carries the events and the tally of
  \<^verbatim>\<open>ProxyLog\<close>.
\<close>

section \<open>The lines\<close>

definition cls_target :: cls where
  "cls_target = Cls False [(CHR ''A'', CHR ''Z''), (CHR ''a'', CHR ''z''), (CHR ''0'', CHR ''9''), (CHR ''.'', CHR ''.''),
     (CHR ''_'', CHR ''_''), (CHR '':'', CHR '':''), (CHR ''-'', CHR ''-'')]"

definition cls_reason :: cls where
  "cls_reason = Cls False [(CHR ''A'', CHR ''Z''), (CHR ''a'', CHR ''z''), (CHR ''0'', CHR ''9''), (CHR ''-'', CHR ''-'')]"

definition cls_state :: cls where
  "cls_state = Cls False [(CHR ''A'', CHR ''Z''), (CHR ''a'', CHR ''z''), (CHR ''-'', CHR ''-'')]"

definition cls_address :: cls where
  "cls_address = Cls False [(CHR ''0'', CHR ''9''), (CHR ''.'', CHR ''.'')]"

definition DECISION :: re where
  "DECISION = RSeqs [RBol, RLit ''buildcage '', RCap 1 RDigits, RLit '' ['',
     RCap 2 (RAlt (RLit ''AUDIT'') (RAlt (RLit ''ALLOWED'') (RLit ''BLOCKED''))), RLit ''] ('', RCap 3 RWords,
     RLit ('') '' @ [dquote]), RCap 4 (RPlus (RCls cls_target)), RLit ([dquote] @ '' ''),
     RCap 5 (RPlus (RCls cls_reason)), RLit '' '', RCap 6 (RAlt RDigits (RLit ''-'')),
     ROpt (RSeqs [RLit '' ts='', RCls cls_state, RCls cls_state, RLit '' dst='', RPlus (RCls cls_address), RLit '':'', RDigits]),
     REol]"

definition NO_REQUEST :: re where
  "NO_REQUEST = RSeqs [RBol, RLit ''buildcage '', RCap 1 RDigits,
     RLit ('' [-] (HTTP) '' @ [dquote] @ ''-'' @ [dquote] @ '' - ''), RAlt RDigits (RLit ''-''), RLit '' ts='',
     RCap 2 (RSeq (RCls cls_state) (RCls cls_state)), RLit '' dst='', RCap 3 (RPlus (RCls cls_address)),
     RLit '':'', RCap 4 RDigits, REol]"

definition PROTOCOL :: "string \<Rightarrow> traffic_protocol option" where
  "PROTOCOL ruleType =
     (if ruleType = ''HTTPS'' then Some HttpsP else if ruleType = ''HTTP'' then Some HttpP
      else if ruleType = ''IP'' then Some TcpP else None)"

definition HAPROXY_FAILURE_REASONS :: "string set" where
  "HAPROXY_FAILURE_REASONS = {''dns-failed''}"

definition hostOf :: "string \<Rightarrow> string option \<Rightarrow> string" where
  "hostOf address ruleType =
     (if address = PROXY_ADDRESS then UNKNOWN_HOST
      else if ruleType = Some ''HTTPS'' then sniHost address else ruleHost address)"

section \<open>The scan\<close>

text \<open>\<^verbatim>\<open>Number(port)\<close>: the port after the last colon is a run of digits in every line
  the proxy writes; another text is \<^verbatim>\<open>NaN\<close>, no number.\<close>

definition port_value :: "string \<Rightarrow> nat option" where
  "port_value p = (if list_all is_digit p then Some (decimal p) else None)"

definition decision_event :: "bool \<Rightarrow> (nat \<times> string) list \<Rightarrow> traffic_event" where
  "decision_event isAudit m =
     (let (address, port) = splitHostPort (group m 4);
          failed = (group m 2 = ''BLOCKED'' \<and> group m 5 \<in> HAPROXY_FAILURE_REASONS);
          blocked = (group m 2 = ''BLOCKED'' \<and> \<not> failed);
          event = (bare_event (decimal (group m 1))
            (if failed then Failed else if blocked then Block else if isAudit then AuditAction else Allow)
            (case PROTOCOL (group m 3) of Some p \<Rightarrow> p | None \<Rightarrow> TcpP)
            (hostOf address (Some (group m 3))))
            \<lparr>te_port := (case port of Some p \<Rightarrow> port_value p | None \<Rightarrow> None)\<rparr>
      in if blocked \<or> failed then event\<lparr>te_reason := Some (group m 5)\<rparr>
         else if group m 6 \<noteq> ''-'' then event\<lparr>te_bytes := Some (decimal (group m 6))\<rparr> else event)"

definition no_request_event :: "(nat \<times> string) list \<Rightarrow> traffic_event" where
  "no_request_event m =
     (let ended = incompleteReason (group m 2) BAD_REQUEST_METHOD in
      (bare_event (decimal (group m 1)) (if ended = None then Block else Incomplete) HttpP (hostOf (group m 3) None))
        \<lparr>te_port := Some (decimal (group m 4)),
         te_reason := Some (case ended of Some r \<Rightarrow> r | None \<Rightarrow> ''bad-request'')\<rparr>)"

definition scan_haproxy_line ::
  "bool \<Rightarrow> string \<Rightarrow> traffic_event list \<times> tally_state \<Rightarrow> traffic_event list \<times> tally_state" where
  "scan_haproxy_line isAudit line st =
     (case re_exec DECISION line of
        Some m \<Rightarrow>
          (if group m 2 \<noteq> (if isAudit then ''AUDIT'' else ''ALLOWED'') \<and> group m 2 \<noteq> ''BLOCKED''
           then (fst st, tally_event (snd st))
           else (fst st @ [decision_event isAudit m], tally_event (snd st)))
      | None \<Rightarrow>
     (case re_exec NO_REQUEST line of
        Some m \<Rightarrow> (fst st @ [no_request_event m], tally_event (snd st))
      | None \<Rightarrow> (fst st, tally_other line (snd st))))"

definition scanHaproxyLog :: "string list \<Rightarrow> bool \<Rightarrow> traffic_event list \<times> proxy_log_tally" where
  "scanHaproxyLog lines isAudit =
     (let st = fold (scan_haproxy_line isAudit) lines ([], createProxyLogTally)
      in (fst st, tally_result (snd st)))"

section \<open>Line by line\<close>

text \<open>The event a line is, and what it is for the tally.\<close>

definition haproxy_event :: "bool \<Rightarrow> string \<Rightarrow> traffic_event option" where
  "haproxy_event isAudit line =
     (case re_exec DECISION line of
        Some m \<Rightarrow>
          if group m 2 \<noteq> (if isAudit then ''AUDIT'' else ''ALLOWED'') \<and> group m 2 \<noteq> ''BLOCKED'' then None
          else Some (decision_event isAudit m)
      | None \<Rightarrow> map_option no_request_event (re_exec NO_REQUEST line))"

definition haproxy_item :: "string \<Rightarrow> log_item" where
  "haproxy_item line =
     (if re_exec DECISION line \<noteq> None \<or> re_exec NO_REQUEST line \<noteq> None then EventLine else OtherLine line)"

lemma scan_haproxy_line_parts:
  "scan_haproxy_line isAudit line (es, t) =
     (es @ (case haproxy_event isAudit line of None \<Rightarrow> [] | Some e \<Rightarrow> [e]), tally_item (haproxy_item line) t)"
  by (simp add: scan_haproxy_line_def haproxy_event_def haproxy_item_def split: option.splits)

lemma scan_haproxy_fold:
  "fold (scan_haproxy_line isAudit) lines (es, t) =
     (es @ List.map_filter (haproxy_event isAudit) lines, fold tally_item (map haproxy_item lines) t)"
proof (induction lines arbitrary: es t)
  case (Cons line lines)
  then show ?case
    by (cases "haproxy_event isAudit line") (simp_all add: scan_haproxy_line_parts List.map_filter_def)
qed (simp add: List.map_filter_def)

lemma scanHaproxyLog_parts:
  "scanHaproxyLog lines isAudit =
     (List.map_filter (haproxy_event isAudit) lines,
      tally_result (fold tally_item (map haproxy_item lines) createProxyLogTally))"
  by (simp add: scanHaproxyLog_def scan_haproxy_fold)

section \<open>A line read back\<close>

text \<open>The line the proxy logs for a decision: the log format of the \<^verbatim>\<open>tcp\<close> frontends, and that of
  \<^verbatim>\<open>http_in\<close>, which ends in the state of the connection and where it went.\<close>

fun line_ending :: "(char \<times> char \<times> string \<times> nat) option \<Rightarrow> string" where
  "line_ending None = []"
| "line_ending (Some (a, b, address, port)) = '' ts='' @ [a, b] @ '' dst='' @ address @ '':'' @ show_nat port"

fun ending_ok :: "(char \<times> char \<times> string \<times> nat) option \<Rightarrow> bool" where
  "ending_ok None = True"
| "ending_ok (Some (a, b, address, port)) \<longleftrightarrow>
     cls_mem cls_state a \<and> cls_mem cls_state b \<and> address \<noteq> [] \<and> list_all (cls_mem cls_address) address"

definition decision_line ::
    "nat \<Rightarrow> string \<Rightarrow> string \<Rightarrow> string \<Rightarrow> string \<Rightarrow> string \<Rightarrow> (char \<times> char \<times> string \<times> nat) option \<Rightarrow> string" where
  "decision_line ms decision ruleType target reason bytes ending =
     ''buildcage '' @ show_nat ms @ '' ['' @ decision @ ''] ('' @ ruleType @ ('') '' @ [dquote]) @ target @
       ([dquote] @ '' '') @ reason @ '' '' @ bytes @ line_ending ending"

lemma first_state: "cls_mem k c \<Longrightarrow> first (RCls k) (p, c # t, cs) (Suc p, t, cs)"
  by (simp add: first_def)

lemma reads_ending [first_intros]:
  assumes "ending_ok ending" and "\<And>q. reads r (q, [], cs) ds"
  shows "reads (RSeq (ROpt (RSeqs [RLit '' ts='', RCls cls_state, RCls cls_state, RLit '' dst='', RPlus (RCls cls_address),
      RLit '':'', RDigits])) r) (p, line_ending ending, cs) ds"
proof (cases ending)
  case None
  show ?thesis unfolding None line_ending.simps RSeqs.simps by (rule reads_opt_end) (simp_all add: assms(2))
next
  case (Some e)
  obtain a b address port where e: "e = (a, b, address, port)" by (cases e)
  let ?t = "'':'' @ show_nat port"
  have ok: "cls_mem cls_state a" "cls_mem cls_state b" "address \<noteq> []" "list_all (cls_mem cls_address) address"
    using assms(1) Some e by simp_all
  have addr: "first (RPlus (RCls cls_address)) (q, address @ ?t, cs) (q + length address, ?t, cs)" for q
    using ok(3,4) by (intro first_run1) (simp_all add: cls_address_def in_range_def)
  have digits: "first RDigits (q, show_nat port, cs) (q + length (show_nat port), [], cs)" for q
    using first_run1 [of cls_digit "show_nat port" "[]" q cs] show_nat_ne [of port] by (simp add: RDigits_def)
  have "first (RSeqs [RLit '' ts='', RCls cls_state, RCls cls_state, RLit '' dst='', RPlus (RCls cls_address), RLit '':'', RDigits])
      (p, '' ts='' @ a # b # '' dst='' @ address @ ?t, cs)
      (p + 4 + 1 + 1 + 5 + length address + 1 + length (show_nat port), [], cs)"
    unfolding RSeqs.simps
    by ((rule first_Seq [OF first_Lit [OF refl]] first_Seq [OF first_state] first_Seq [OF addr] first_Seq [OF digits] ok | simp)+)
      (simp add: first_def)
  then show ?thesis
    using Some e assms(2) unfolding ROpt_def by (intro reads_Seq [OF first_AltL]) auto
qed

lemma reads_bytes [first_intros]:
  assumes "bytes = ''-'' \<or> (bytes \<noteq> [] \<and> list_all is_digit bytes)" "t = [] \<or> \<not> is_digit (hd t)"
    and "reads r (p + length bytes, t, (n, bytes) # cs) ds"
  shows "reads (RSeq (RCap n (RAlt RDigits (RLit ''-''))) r) (p, bytes @ t, cs) ds"
proof -
  have t: "t = [] \<or> \<not> cls_mem cls_digit (hd t)" using assms(2) by (simp add: cls_digit_def is_digit_range)
  have "first (RAlt RDigits (RLit ''-'')) (p, bytes @ t, cs) (p + length bytes, t, cs)"
  proof (cases "bytes = ''-''")
    case True
    then show ?thesis by (intro first_AltR) (simp_all add: first_def rm_RLit is_digit_def del: RLit.simps)
  next
    case False
    then show ?thesis using first_run1 [OF _ _ t, of bytes p cs] assms(1)
      by (intro first_AltL) (simp add: RDigits_def digits_cls)
  qed
  then show ?thesis using assms(3) by (intro reads_Seq [OF first_Cap]) simp_all
qed

lemma ending_head: "line_ending ending = [] \<or> \<not> is_digit (hd (line_ending ending))"
  by (cases ending) (auto simp: is_digit_def)

lemma decision_line_read:
  assumes "decision \<in> {''AUDIT'', ''ALLOWED'', ''BLOCKED''}"
    and "ruleType \<noteq> []" "list_all (cls_mem cls_word) ruleType"
    and "target \<noteq> []" "list_all (cls_mem cls_target) target"
    and "reason \<noteq> []" "list_all (cls_mem cls_reason) reason"
    and "bytes = ''-'' \<or> (bytes \<noteq> [] \<and> list_all is_digit bytes)" and "ending_ok ending"
  shows "\<exists>whole. re_exec DECISION (decision_line ms decision ruleType target reason bytes ending) =
    Some [(0, whole), (6, bytes), (5, reason), (4, target), (3, ruleType), (2, decision), (1, show_nat ms)]"
proof (rule reads_exec)
  show "reads DECISION (0, decision_line ms decision ruleType target reason bytes ending, [])
      [(6, bytes), (5, reason), (4, target), (3, ruleType), (2, decision), (1, show_nat ms)]"
    unfolding DECISION_def decision_line_def RSeqs.simps RWords_def
    by (intro first_intros assms reads_bytes [OF assms(8) ending_head] reads_ending [OF assms(9), unfolded RSeqs.simps])
      (simp_all add: show_nat_digits cls_digit_def cls_word_def cls_target_def cls_reason_def in_range_def assms)
qed

lemma split_port: "splitHostPort (host @ '':'' @ show_nat port) = (if host = [] then ('':'' @ show_nat port, None) else (host, Some (show_nat port)))"
proof -
  have c: "c \<notin> set (show_nat port)" if "\<not> is_digit c" for c
    using that show_nat_digits [of port] by (auto simp: list_all_iff)
  have "CHR '':'' \<notin> set (show_nat port)" "CHR '']'' \<notin> set (show_nat port)"
    by (rule c, simp add: is_digit_def)+
  then show ?thesis by (simp add: splitHostPort_def)
qed

section \<open>Properties\<close>

text \<open>C37. A decision the proxy logs is read back whole, wherever it stands in the log and whether or
  not the line ends in the connection's state and destination, as \<^verbatim>\<open>http_in\<close> has it: a
  block is one event with its time, host, port and reason, in audit too, and only the
  reason of a failed lookup makes it a failure instead.\<close>

theorem scanHaproxyLog_blocked:
  assumes "ruleType \<noteq> []" "list_all (cls_mem cls_word) ruleType"
    and "host \<noteq> []" "list_all (cls_mem cls_target) host"
    and "reason \<noteq> []" "list_all (cls_mem cls_reason) reason"
    and "bytes = ''-'' \<or> (bytes \<noteq> [] \<and> list_all is_digit bytes)" and "ending_ok ending"
  shows "fst (scanHaproxyLog
      (before @ [decision_line ms ''BLOCKED'' ruleType (host @ '':'' @ show_nat port) reason bytes ending] @ after) isAudit) =
    fst (scanHaproxyLog before isAudit) @
    [(bare_event ms (if reason = ''dns-failed'' then Failed else Block)
        (case PROTOCOL ruleType of Some p \<Rightarrow> p | None \<Rightarrow> TcpP) (hostOf host (Some ruleType)))
       \<lparr>te_port := Some port, te_reason := Some reason\<rparr>] @
    fst (scanHaproxyLog after isAudit)"
proof -
  have "list_all (cls_mem cls_target) (show_nat port)"
    using show_nat_digits [of port] by (auto simp: list_all_iff cls_target_def is_digit_range)
  then have t: "list_all (cls_mem cls_target) (host @ '':'' @ show_nat port)"
    using assms(4) by (simp add: cls_target_def in_range_def)
  define line where "line = decision_line ms ''BLOCKED'' ruleType (host @ '':'' @ show_nat port) reason bytes ending"
  obtain whole where "re_exec DECISION line =
      Some [(0, whole), (6, bytes), (5, reason), (4, host @ '':'' @ show_nat port), (3, ruleType), (2, ''BLOCKED''), (1, show_nat ms)]"
    using decision_line_read [OF _ assms(1,2) _ t assms(5-8), of "''BLOCKED''" ms] by (auto simp: line_def)
  then have "haproxy_event isAudit line =
    Some ((bare_event ms (if reason = ''dns-failed'' then Failed else Block)
        (case PROTOCOL ruleType of Some p \<Rightarrow> p | None \<Rightarrow> TcpP) (hostOf host (Some ruleType)))
       \<lparr>te_port := Some port, te_reason := Some reason\<rparr>)"
    using split_port [of host port] assms(3) show_nat_digits [of port]
    by (simp add: haproxy_event_def decision_event_def group_def cap_def Let_def HAPROXY_FAILURE_REASONS_def
        port_value_def bare_event_def)
  then show ?thesis unfolding line_def [symmetric]
    by (simp add: scanHaproxyLog_parts map_filter_append map_filter_single)
qed

theorem scanHaproxyLog_blocked_witness:
  "fst (scanHaproxyLog ([] @ [decision_line 1700 ''BLOCKED'' ''HTTP'' (''A.example'' @ '':'' @ show_nat 80) ''not-allowed'' ''212''
       (Some (CHR ''P'', CHR ''R'', ''10.0.0.1'', 80))] @ []) True) =
    fst (scanHaproxyLog [] True) @
    [(bare_event 1700 (if ''not-allowed'' = ''dns-failed'' then Failed else Block)
        (case PROTOCOL ''HTTP'' of Some p \<Rightarrow> p | None \<Rightarrow> TcpP) (hostOf ''A.example'' (Some ''HTTP'')))
       \<lparr>te_port := Some 80, te_reason := Some ''not-allowed''\<rparr>] @
    fst (scanHaproxyLog [] True)"
  by (rule scanHaproxyLog_blocked)
    (simp_all add: cls_word_def cls_target_def cls_reason_def cls_state_def cls_address_def in_range_def is_digit_def)

end
