(* ===== verification/InspectLog.thy ===== *)
theory InspectLog
  imports ProxyLog UrlRules
begin

text \<open>
  \<^verbatim>\<open>src/core/lib/log/inspect.ts\<close>: the proxy log of the inspect engine read into the
  timeline, and the two judgements made over the whole of it. The named groups of the code's
  expression are numbered in their order.
\<close>

section \<open>The lines\<close>

definition cls_lower :: cls where
  "cls_lower = Cls False [(CHR ''a'', CHR ''z'')]"

definition cls_alnum :: cls where
  "cls_alnum = Cls False [(CHR ''A'', CHR ''Z''), (CHR ''a'', CHR ''z''), (CHR ''0'', CHR ''9'')]"

text \<open>\<^verbatim>\<open>[a-z][A-Za-z0-9]*\<close>.\<close>

definition ext_name :: re where
  "ext_name = RSeq (RCls cls_lower) (RStar True (RCls cls_alnum))"

definition REQUEST :: re where
  "REQUEST = RSeqs [RBol, RLit ''buildcage '', RCap 1 RDigits, RLit '' '',
     RCap 2 (RSeq (RLit ''http'') (ROpt (RLit ''s''))), RLit '' '', RCap 3 RSolid, RLit '' '',
     RCap 4 (RSeq (ROpt (RLit ''-'')) RDigits), RLit '' '', RCap 5 RDigits, RLit '' ts='', RCap 6 RSolid0,
     RLit '' reason='', RCap 7 RSolid, RLit '' tlserr='', RCap 8 RSolid, RLit '' dst='', RCap 9 RSolid,
     RLit '':'', RCap 10 RDigits, RLit '' '', ROpt (RSeqs [RLit ''wb='', RCap 11 RSolid, RLit '' '']),
     RCap 12 (RStar True (RSeqs [ext_name, RLit ''.'', ext_name, RLit ''='', RSolid, RLit '' ''])),
     ROpt (RSeqs [RLit ''fcerr='', RCap 13 RSolid, RLit '' '']),
     ROpt (RSeqs [RLit ''sni='', RCap 14 RSolid, RLit '' '']),
     RLit ''host='', RCap 15 RSolid, RLit '' '', RCap 16 RSolid, REol]"

record request_fields =
  rf_ms :: string
  rf_scheme :: string
  rf_method :: string
  rf_status :: string
  rf_bytes :: string
  rf_ts :: string
  rf_reason :: string
  rf_tlserr :: string
  rf_dstHost :: string
  rf_dstPort :: string
  rf_wb :: "string option"
  rf_ext :: string
  rf_fcerr :: "string option"
  rf_sni :: "string option"
  rf_host :: string
  rf_target :: string

definition request_of :: "(nat \<times> string) list \<Rightarrow> request_fields" where
  "request_of m =
     \<lparr>rf_ms = group m 1, rf_scheme = group m 2, rf_method = group m 3, rf_status = group m 4,
      rf_bytes = group m 5, rf_ts = group m 6, rf_reason = group m 7, rf_tlserr = group m 8,
      rf_dstHost = group m 9, rf_dstPort = group m 10, rf_wb = cap m 11, rf_ext = group m 12,
      rf_fcerr = cap m 13, rf_sni = cap m 14, rf_host = group m 15, rf_target = group m 16\<rparr>"

definition PASSTHROUGH :: re where
  "PASSTHROUGH = RSeqs [RBol, RLit ''buildcage '', RCap 1 RDigits, RLit '' pass '',
     RCap 2 (RAlt (RLit ''tls'') (RLit ''tcp'')), RLit '' '', RCap 3 RDigits, RLit '' ts='', RCap 4 RSolid0,
     RLit '' reason='', RCap 5 RSolid, RLit '' dst='', RCap 6 RSolid, RLit '':'', RCap 7 RDigits,
     RLit '' sni='', RCap 8 RSolid, REol]"

section \<open>What a termination state decides\<close>

definition isBlock :: "string \<Rightarrow> bool" where
  "isBlock ts =
     (let cause = char_of_state ts 0; phase = char_of_state ts 1 in
      if cause = Some (CHR ''P'') \<or> cause = Some (CHR ''S'') then True
      else cause = Some (CHR ''s'') \<and> (phase = Some (CHR ''C'') \<or> phase = Some (CHR ''H'')))"

definition reasonFor :: "string \<Rightarrow> string \<Rightarrow> string option \<Rightarrow> string \<Rightarrow> string" where
  "reasonFor logged ts tlsError meth =
     (if logged \<noteq> ''-'' then logged
      else let cause = char_of_state ts 0; phase = char_of_state ts 1 in
        if cause \<noteq> Some (CHR ''S'') \<and> cause \<noteq> Some (CHR ''s'') then
          (if meth = BAD_REQUEST_METHOD then ''bad-request'' else ''not-allowed'')
        else if phase = Some (CHR ''H'') then ''origin-no-response''
        else if phase = Some (CHR ''D'') \<or> phase = Some (CHR ''L'') then ''origin-aborted''
        else case tlsError of
            None \<Rightarrow> ''origin-unreachable''
          | Some err \<Rightarrow>
              if cause = Some (CHR ''S'') \<and> err \<noteq> ''-'' \<and> err \<noteq> ''0'' then ''origin-untrusted''
              else ''origin-connect-failed'')"

definition REQUESTLESS_REASONS :: "string set" where
  "REQUESTLESS_REASONS = {''bad-request'', ''missing-host-header''}"

definition POST_HANDSHAKE_ERROR :: string where
  "POST_HANDSHAKE_ERROR = ''SSL_FATAL''"

section \<open>Names and URLs\<close>

definition urlOf :: "string \<Rightarrow> string \<Rightarrow> string \<Rightarrow> string option" where
  "urlOf scheme authority target =
     (if starts_with ''/'' target then Some (scheme @ ''://'' @ authority @ target) else None)"

text \<open>\<^verbatim>\<open>DEFAULT_PORT[scheme]\<close> for a scheme that is the text of a group.\<close>

definition default_port_text :: "string \<Rightarrow> string" where
  "default_port_text scheme = DEFAULT_PORT (if scheme = ''https'' then Https else Http)"

definition authorityOf :: "string \<Rightarrow> string \<Rightarrow> string \<Rightarrow> string" where
  "authorityOf host port scheme =
     (if port = default_port_text scheme then host else host @ '':'' @ port)"

definition hostBeforeRequest :: "string option \<Rightarrow> string \<Rightarrow> string \<times> bool" where
  "hostBeforeRequest sni address =
     (case sni of
        Some s \<Rightarrow>
          if s \<noteq> ''-'' then (sniHost s, False)
          else if address = PROXY_ADDRESS then (UNKNOWN_HOST, False) else (address, True)
      | None \<Rightarrow> if address = PROXY_ADDRESS then (UNKNOWN_HOST, False) else (address, True))"

text \<open>\<^verbatim>\<open>/^([^.]+)\.([^=]+)=(.*)$/\<close>.\<close>

definition EXT_TOKEN :: re where
  "EXT_TOKEN = RSeqs [RBol, RCap 1 (RPlus (RNotSet ''.'')), RLit ''.'', RCap 2 (RPlus (RNotSet ''='')), RLit ''='',
     RCap 3 (RStar True (RCls cls_any)), REol]"

definition add_token :: "string \<Rightarrow> (string \<times> (string \<times> string) list) list \<Rightarrow> (string \<times> (string \<times> string) list) list" where
  "add_token token objects =
     (case re_exec EXT_TOKEN token of
        None \<Rightarrow> objects
      | Some m \<Rightarrow>
          if group m 3 = ''-'' then objects
          else omap_update (group m 1)
            (\<lambda>old. omap_update (group m 2) (\<lambda>_. group m 3) (case old of None \<Rightarrow> [] | Some f \<Rightarrow> f)) objects)"

definition extensionFields :: "string \<Rightarrow> (string \<times> (string \<times> string) list) list option" where
  "extensionFields tokens =
     (let objects = fold add_token (split_on (CHR '' '') tokens) [] in
      if objects = [] then None else Some objects)"

section \<open>One line\<close>

text \<open>\<^verbatim>\<open>Number(r.status)\<close>.\<close>

definition signed_decimal :: "string \<Rightarrow> int" where
  "signed_decimal s = (if starts_with ''-'' s then - int (decimal (drop 1 s)) else int (decimal s))"

text \<open>What cut a request short before it was whole, if anything did.\<close>

definition request_incomplete :: "request_fields \<Rightarrow> string option" where
  "request_incomplete r =
     (let fcerr = (case rf_fcerr r of None \<Rightarrow> [] | Some e \<Rightarrow> e);
          tlsFailed = (rf_method r = BAD_REQUEST_METHOD \<and> starts_with ''SSL_'' fcerr \<and> fcerr \<noteq> POST_HANDSHAKE_ERROR)
      in if tlsFailed then Some ''client-tls-failed'' else incompleteReason (rf_ts r) (rf_method r))"

definition request_reason :: "request_fields \<Rightarrow> string option" where
  "request_reason r =
     (case request_incomplete r of
        Some i \<Rightarrow> Some i
      | None \<Rightarrow>
          if isBlock (rf_ts r)
          then Some (reasonFor (rf_reason r) (rf_ts r)
            (if rf_scheme r = ''https'' then Some (rf_tlserr r) else None) (rf_method r))
          else None)"

definition request_event :: "bool \<Rightarrow> request_fields \<Rightarrow> traffic_event" where
  "request_event isAudit r =
     (let incomplete = request_incomplete r;
          reason = request_reason r;
          namedByHandshake = (case reason of None \<Rightarrow> False | Some x \<Rightarrow> incomplete \<noteq> None \<or> x \<in> REQUESTLESS_REASONS);
          parsedRequest = (rf_method r \<noteq> BAD_REQUEST_METHOD);
          (sentHost, sentPort) = splitHostPort (rf_host r);
          host = ruleHost sentHost;
          authority = (case sentPort of None \<Rightarrow> host | Some p \<Rightarrow> host @ '':'' @ p);
          unnamed = (if namedByHandshake then Some (hostBeforeRequest (rf_sni r) (rf_dstHost r)) else None);
          event = (bare_event (decimal (rf_ms r))
              (if incomplete \<noteq> None then Incomplete else actionFor reason isAudit)
              (case unnamed of Some (_, True) \<Rightarrow> TcpP | _ \<Rightarrow> if rf_scheme r = ''https'' then HttpsP else HttpP)
              (case unnamed of Some (h, _) \<Rightarrow> h | None \<Rightarrow> host))
            \<lparr>te_port := Some (decimal (rf_dstPort r)),
             te_destination := Some (rf_dstHost r @ '':'' @ rf_dstPort r),
             te_method := (if parsedRequest then Some (rf_method r) else None),
             te_url := (if parsedRequest
               then urlOf (rf_scheme r)
                 (case unnamed of Some (h, _) \<Rightarrow> authorityOf h (rf_dstPort r) (rf_scheme r) | None \<Rightarrow> authority)
                 (rf_target r)
               else None),
             te_wouldBlock := (case rf_wb r of Some w \<Rightarrow> if w \<noteq> ''-'' then Some w else None | None \<Rightarrow> None),
             te_extensions := extensionFields (rf_ext r)\<rparr>
      in case reason of
           Some x \<Rightarrow> event\<lparr>te_reason := Some x\<rparr>
         | None \<Rightarrow> event\<lparr>te_status := Some (signed_decimal (rf_status r)), te_bytes := Some (decimal (rf_bytes r))\<rparr>)"

definition pass_event :: "bool \<Rightarrow> (nat \<times> string) list \<Rightarrow> traffic_event" where
  "pass_event isAudit m =
     (let reason = (if isBlock (group m 4) then Some (reasonFor (group m 5) (group m 4) None ''-'') else None);
          sni = group m 8;
          event = (bare_event (decimal (group m 1)) (actionFor reason isAudit)
              (if group m 2 = ''tls'' then TlsP else TcpP)
              (if sni = ''-'' then group m 6 else sniHost sni))
            \<lparr>te_port := Some (decimal (group m 7)), te_destination := Some (group m 6 @ '':'' @ group m 7)\<rparr>
      in case reason of
           Some x \<Rightarrow> event\<lparr>te_reason := Some x\<rparr>
         | None \<Rightarrow> event\<lparr>te_bytes := Some (decimal (group m 3))\<rparr>)"

definition parseProxyLine :: "string \<Rightarrow> bool \<Rightarrow> traffic_event option" where
  "parseProxyLine line isAudit =
     (let trimmed = js_trim line in
      case re_exec REQUEST trimmed of
        Some m \<Rightarrow> Some (request_event isAudit (request_of m))
      | None \<Rightarrow> map_option (pass_event isAudit) (re_exec PASSTHROUGH trimmed))"

section \<open>Judgements over the timeline\<close>

definition served_destinations :: "traffic_event list \<Rightarrow> string option set" where
  "served_destinations events =
     set (map te_destination
       (filter (\<lambda>e. (te_protocol e = HttpP \<or> te_protocol e = HttpsP) \<and> te_action e \<noteq> Incomplete) events))"

definition block_unpassed :: "string option set \<Rightarrow> traffic_event \<Rightarrow> traffic_event" where
  "block_unpassed served e =
     (if te_action e \<noteq> Incomplete \<or> te_protocol e \<noteq> TcpP then e
      else if client_ended e \<and> te_destination e \<in> served then e
      else e\<lparr>te_action := Block, te_reason := Some ''ip-not-allowed''\<rparr>)"

definition blockUnpassedAddresses :: "traffic_event list \<Rightarrow> traffic_event list" where
  "blockUnpassedAddresses events = map (block_unpassed (served_destinations events)) events"

definition block_unallowed :: "(string \<Rightarrow> bool) \<Rightarrow> traffic_event \<Rightarrow> traffic_event" where
  "block_unallowed allowsName e =
     (if te_action e \<noteq> Incomplete \<or> te_protocol e \<noteq> HttpsP then e
      else if te_host e = UNKNOWN_HOST \<or> allowsName (te_host e) then e
      else if (case te_destination e of Some d \<Rightarrow> starts_with (PROXY_ADDRESS @ '':'') d | None \<Rightarrow> False) then e
      else e\<lparr>te_action := Block, te_reason := Some ''sni-not-allowed''\<rparr>)"

definition blockUnallowedNames :: "traffic_event list \<Rightarrow> (string \<Rightarrow> bool) \<Rightarrow> traffic_event list" where
  "blockUnallowedNames events allowsName = map (block_unallowed allowsName) events"

definition scan_inspect_line ::
  "bool \<Rightarrow> string \<Rightarrow> traffic_event list \<times> tally_state \<Rightarrow> traffic_event list \<times> tally_state" where
  "scan_inspect_line isAudit line st =
     (case parseProxyLine line isAudit of
        Some event \<Rightarrow> (fst st @ [event], tally_event (snd st))
      | None \<Rightarrow> (fst st, tally_other line (snd st)))"

definition scanInspectLog :: "string list \<Rightarrow> bool \<Rightarrow> (string \<Rightarrow> bool) option \<Rightarrow> traffic_event list \<times> proxy_log_tally" where
  "scanInspectLog lines isAudit allowsName =
     (let (events, tally) = fold (scan_inspect_line isAudit) lines ([], createProxyLogTally);
          judged = blockUnpassedAddresses events
      in (case allowsName of None \<Rightarrow> judged | Some f \<Rightarrow> blockUnallowedNames judged f, tally_result tally))"

section \<open>What the judgements change\<close>

lemma scan_inspect_fold:
  "fold (scan_inspect_line isAudit) lines (es, t) =
     (es @ List.map_filter (\<lambda>l. parseProxyLine l isAudit) lines,
      fold tally_item (map (\<lambda>l. if parseProxyLine l isAudit = None then OtherLine l else EventLine) lines) t)"
proof (induction lines arbitrary: es t)
  case (Cons line lines)
  then show ?case
    by (cases "parseProxyLine line isAudit") (simp_all add: scan_inspect_line_def List.map_filter_def)
qed (simp add: List.map_filter_def)

text \<open>An event is left as it is, unless it was incomplete and is turned into a block.\<close>

definition judged :: "traffic_event \<Rightarrow> traffic_event \<Rightarrow> bool" where
  "judged e f \<longleftrightarrow> f = e \<or>
     (te_action e = Incomplete \<and>
      (\<exists>r\<in>{''ip-not-allowed'', ''sni-not-allowed''}. f = e\<lparr>te_action := Block, te_reason := Some r\<rparr>))"

lemma block_unpassed_judged: "judged e (block_unpassed served e)"
  by (simp add: judged_def block_unpassed_def)

lemma block_unallowed_judged: "judged e (block_unallowed ok e)"
  by (simp add: judged_def block_unallowed_def)

lemma judged_trans: "judged e f \<Longrightarrow> judged f g \<Longrightarrow> judged e g"
  by (auto simp: judged_def)

lemma block_unpassed_cases: "block_unpassed served e = e \<or> te_action (block_unpassed served e) = Block"
  by (simp add: block_unpassed_def)

lemma block_unallowed_cases: "block_unallowed ok e = e \<or> te_action (block_unallowed ok e) = Block"
  by (simp add: block_unallowed_def)

lemma block_unpassed_left:
  "block_unpassed served e = e \<Longrightarrow> te_action e = Incomplete \<Longrightarrow> te_protocol e = TcpP \<Longrightarrow>
     client_ended e \<and> te_destination e \<in> served"
  by (rule ccontr) (auto simp: block_unpassed_def dest: arg_cong [of _ _ te_action])

lemma block_unallowed_left:
  "block_unallowed ok e = e \<Longrightarrow> te_action e = Incomplete \<Longrightarrow> te_protocol e = HttpsP \<Longrightarrow>
     te_host e = UNKNOWN_HOST \<or> ok (te_host e) \<or> (\<exists>d. te_destination e = Some d \<and> starts_with (PROXY_ADDRESS @ '':'') d)"
  by (rule ccontr) (auto simp: block_unallowed_def dest: arg_cong [of _ _ te_action] split: option.splits if_splits)

definition judge :: "traffic_event list \<Rightarrow> (string \<Rightarrow> bool) option \<Rightarrow> traffic_event \<Rightarrow> traffic_event" where
  "judge parsed allowsName e =
     (let f = block_unpassed (served_destinations parsed) e
      in case allowsName of None \<Rightarrow> f | Some ok \<Rightarrow> block_unallowed ok f)"

lemma scanInspectLog_judge:
  "fst (scanInspectLog lines isAudit allowsName) =
     (let parsed = List.map_filter (\<lambda>l. parseProxyLine l isAudit) lines in map (judge parsed allowsName) parsed)"
  by (simp add: scanInspectLog_def scan_inspect_fold Let_def blockUnpassedAddresses_def blockUnallowedNames_def
      judge_def [abs_def] split: option.splits)

lemma judge_judged: "judged e (judge parsed allowsName e)"
proof (cases allowsName)
  case (Some ok)
  have "judged e (block_unpassed (served_destinations parsed) e)" by (rule block_unpassed_judged)
  with block_unallowed_judged show ?thesis unfolding judge_def Let_def Some by (auto intro: judged_trans)
qed (simp add: judge_def block_unpassed_judged)

lemma judge_left:
  assumes "te_action (judge parsed allowsName e) = Incomplete"
  shows "judge parsed allowsName e = e \<and> block_unpassed (served_destinations parsed) e = e \<and>
    (\<forall>ok. allowsName = Some ok \<longrightarrow> block_unallowed ok e = e)"
proof -
  let ?f = "block_unpassed (served_destinations parsed) e"
  have "judge parsed allowsName e = ?f \<and> te_action ?f = Incomplete \<and> (\<forall>ok. allowsName = Some ok \<longrightarrow> block_unallowed ok ?f = ?f)"
  proof (cases allowsName)
    case None
    then show ?thesis using assms by (simp add: judge_def)
  next
    case (Some ok)
    then have j: "judge parsed allowsName e = block_unallowed ok ?f" by (simp add: judge_def)
    then have "block_unallowed ok ?f = ?f" using assms block_unallowed_cases [of ok ?f] by auto
    then show ?thesis using j assms Some by simp
  qed
  moreover from this have "?f = e" using block_unpassed_cases [of "served_destinations parsed" e] by auto
  ultimately show ?thesis by simp
qed

section \<open>Properties\<close>

text \<open>C35. Reading a whole log changes no event but the incomplete ones, which it leaves or turns
  into blocks. Of a connection sent straight to an address, one stays undecided only if its
  client ended it and a request to the very destination was read; of one that named a host, only
  if the host is allowed, unknown, or asked for through the proxy's own address.\<close>

theorem scanInspectLog_judged:
  defines "parsed \<equiv> \<lambda>lines isAudit. List.map_filter (\<lambda>l. parseProxyLine l isAudit) lines"
  shows "list_all2 judged (parsed lines isAudit) (fst (scanInspectLog lines isAudit allowsName)) \<and>
    (\<forall>f\<in>set (fst (scanInspectLog lines isAudit allowsName)). te_action f = Incomplete \<longrightarrow> te_protocol f = TcpP \<longrightarrow>
       client_ended f \<and> (\<exists>e\<in>set (parsed lines isAudit). te_protocol e \<in> {HttpP, HttpsP} \<and>
         te_action e \<noteq> Incomplete \<and> te_destination e = te_destination f)) \<and>
    (\<forall>f\<in>set (fst (scanInspectLog lines isAudit allowsName)). \<forall>ok. allowsName = Some ok \<longrightarrow>
       te_action f = Incomplete \<longrightarrow> te_protocol f = HttpsP \<longrightarrow>
       te_host f = UNKNOWN_HOST \<or> ok (te_host f) \<or>
       (\<exists>d. te_destination f = Some d \<and> starts_with (PROXY_ADDRESS @ '':'') d))"
proof -
  let ?p = "parsed lines isAudit"
  have s: "fst (scanInspectLog lines isAudit allowsName) = map (judge ?p allowsName) ?p"
    by (simp add: scanInspectLog_judge parsed_def Let_def)
  have tcp: "client_ended (judge ?p allowsName e) \<and> te_destination (judge ?p allowsName e) \<in> served_destinations ?p"
    if "te_action (judge ?p allowsName e) = Incomplete" "te_protocol (judge ?p allowsName e) = TcpP" for e
    using judge_left [OF that(1)] that block_unpassed_left [of "served_destinations ?p" e] by simp
  have https: "te_host (judge ?p allowsName e) = UNKNOWN_HOST \<or> ok (te_host (judge ?p allowsName e)) \<or>
      (\<exists>d. te_destination (judge ?p allowsName e) = Some d \<and> starts_with (PROXY_ADDRESS @ '':'') d)"
    if "te_action (judge ?p allowsName e) = Incomplete" "te_protocol (judge ?p allowsName e) = HttpsP" "allowsName = Some ok" for e ok
    using judge_left [OF that(1)] that block_unallowed_left [of ok e] by simp
  have "list_all2 judged ?p (map (judge ?p allowsName) ?p)"
    by (simp add: list_all2_conv_all_nth judge_judged)
  moreover have "\<exists>e\<in>set ?p. te_protocol e \<in> {HttpP, HttpsP} \<and> te_action e \<noteq> Incomplete \<and> te_destination e = d"
    if "d \<in> served_destinations ?p" for d
    using that by (auto simp: served_destinations_def)
  ultimately show ?thesis unfolding s using tcp https by (auto simp del: starts_with_Cons)
qed

definition sample_address_line :: string where
  "sample_address_line =
     ''buildcage 17 https <BADREQ> 0 0 ts=cR reason=- tlserr=- dst=10.1.2.3:443 fcerr=- sni=- host=- -''"

theorem scanInspectLog_judged_witness:
  "te_action (hd (fst (scanInspectLog [sample_address_line] False None))) = Block"
proof -
  have parsed: "map (\<lambda>e. (te_action e, te_protocol e)) (List.map_filter (\<lambda>l. parseProxyLine l False) [sample_address_line]) =
      [(Incomplete, TcpP)]" by code_simp
  then obtain e where e: "List.map_filter (\<lambda>l. parseProxyLine l False) [sample_address_line] = [e]"
    "te_action e = Incomplete" "te_protocol e = TcpP" by auto
  note j = scanInspectLog_judged [where lines = "[sample_address_line]" and isAudit = False and allowsName = None, unfolded e(1)]
  from j obtain f where f: "fst (scanInspectLog [sample_address_line] False None) = [f]" "judged e f"
    by (auto simp: list_all2_Cons1)
  have "te_action f \<noteq> Incomplete" using j f e by (auto simp: judged_def)
  with f e show ?thesis by (auto simp: judged_def)
qed

text \<open>A request the report counts as passed is one an origin answered: it was read whole,
  the proxy neither answered it nor failed to reach its origin, and it carries a status and
  no reason.\<close>

theorem request_passed:
  assumes "te_action (request_event isAudit r) \<in> {Allow, AuditAction}"
  shows "rf_method r \<noteq> BAD_REQUEST_METHOD \<and> char_of_state (rf_ts r) 1 \<noteq> Some (CHR ''R'') \<and>
    char_of_state (rf_ts r) 0 \<notin> {Some (CHR ''P''), Some (CHR ''S'')} \<and>
    te_reason (request_event isAudit r) = None \<and> te_status (request_event isAudit r) \<noteq> None \<and>
    te_action (request_event isAudit r) = (if isAudit then AuditAction else Allow)"
proof -
  have act: "te_action (request_event isAudit r) =
      (if request_incomplete r \<noteq> None then Incomplete else actionFor (request_reason r) isAudit)"
    by (auto simp: request_event_def Let_def bare_event_def split: prod.splits option.splits)
  with assms have none: "request_incomplete r = None" "request_reason r = None"
    by (auto simp: actionFor_def split: if_splits option.splits)
  have "\<not> isBlock (rf_ts r)" using none by (simp add: request_reason_def split: if_splits)
  moreover have "incompleteReason (rf_ts r) (rf_method r) = None"
    using none(1) by (simp add: request_incomplete_def Let_def split: if_splits)
  moreover have "te_reason (request_event isAudit r) = None" "te_status (request_event isAudit r) \<noteq> None"
    using none by (auto simp: request_event_def Let_def bare_event_def split: prod.splits)
  ultimately show ?thesis using act none
    by (auto simp: isBlock_def incompleteReason_def Let_def actionFor_def split: if_splits)
qed

definition sample_request :: request_fields where
  "sample_request = \<lparr>rf_ms = ''17'', rf_scheme = ''https'', rf_method = ''GET'', rf_status = ''200'', rf_bytes = ''5'',
     rf_ts = ''--'', rf_reason = ''-'', rf_tlserr = ''-'', rf_dstHost = ''198.19.255.1'', rf_dstPort = ''443'', rf_wb = None,
     rf_ext = [], rf_fcerr = Some ''-'', rf_sni = Some ''a.example'', rf_host = ''a.example'', rf_target = ''/x''\<rparr>"

theorem request_passed_witness:
  "rf_method sample_request \<noteq> BAD_REQUEST_METHOD \<and> te_action (request_event True sample_request) = AuditAction"
proof -
  have "te_action (request_event True sample_request) = AuditAction" by code_simp
  then show ?thesis using request_passed [of True sample_request] by simp
qed

text \<open>An inspected request whose origin this proxy never authenticated is a block: with TLS
  on the way to the origin and a connection that was not completed, the event names the
  certificate or the connection, never a mere outage. Without TLS there was nothing to
  authenticate, and the same state is a failure.\<close>

theorem request_unauthenticated:
  assumes "request_incomplete r = None" and "rf_reason r = ''-''"
    and "char_of_state (rf_ts r) 0 = Some (CHR ''S'') \<or>
      (char_of_state (rf_ts r) 0 = Some (CHR ''s'') \<and> char_of_state (rf_ts r) 1 = Some (CHR ''C''))"
    and "char_of_state (rf_ts r) 1 \<notin> {Some (CHR ''H''), Some (CHR ''D''), Some (CHR ''L'')}"
  shows "te_action (request_event isAudit r) = (if rf_scheme r = ''https'' then Block else Failed) \<and>
    te_reason (request_event isAudit r) =
      Some (if rf_scheme r \<noteq> ''https'' then ''origin-unreachable''
            else if char_of_state (rf_ts r) 0 = Some (CHR ''S'') \<and> rf_tlserr r \<noteq> ''-'' \<and> rf_tlserr r \<noteq> ''0''
            then ''origin-untrusted'' else ''origin-connect-failed'')"
proof -
  have "isBlock (rf_ts r)" using assms(3) by (auto simp: isBlock_def Let_def)
  then have r: "request_reason r = Some (if rf_scheme r \<noteq> ''https'' then ''origin-unreachable''
      else if char_of_state (rf_ts r) 0 = Some (CHR ''S'') \<and> rf_tlserr r \<noteq> ''-'' \<and> rf_tlserr r \<noteq> ''0''
      then ''origin-untrusted'' else ''origin-connect-failed'')"
    using assms by (auto simp: request_reason_def reasonFor_def Let_def)
  have "te_action (request_event isAudit r) = actionFor (request_reason r) isAudit"
    "te_reason (request_event isAudit r) = request_reason r"
    using assms(1) by (auto simp: request_event_def Let_def bare_event_def split: prod.splits option.splits)
  then show ?thesis unfolding r by (simp add: actionFor_def FAILURE_REASONS_def)
qed

theorem request_unauthenticated_witness:
  "te_action (request_event False (sample_request\<lparr>rf_ts := ''SC'', rf_status := ''503''\<rparr>)) =
     (if rf_scheme (sample_request\<lparr>rf_ts := ''SC'', rf_status := ''503''\<rparr>) = ''https'' then Block else Failed)"
  using request_unauthenticated [of "sample_request\<lparr>rf_ts := ''SC'', rf_status := ''503''\<rparr>" False]
  by (simp add: sample_request_def char_of_state_def request_incomplete_def incompleteReason_def
      BAD_REQUEST_METHOD_def Let_def)

end
