(* ===== verification/DnsLog.thy ===== *)
theory DnsLog
  imports LogPattern
begin

text \<open>
  \<^verbatim>\<open>src/core/lib/log/dns.ts\<close>: the resolver's log read into one event per name. The
  three maps of the scan are insertion-ordered, and a time is kept in milliseconds.
\<close>

section \<open>Timestamps\<close>

text \<open>
  \<^verbatim>\<open>Date.parse\<close> of the UTC date and time \<^verbatim>\<open>s6-log\<close> stamps: a date from 1970 on,
  milliseconds since the epoch, the fraction cut at milliseconds.
\<close>

definition ISO_TIME :: re where
  "ISO_TIME = RSeqs [RBol, RCap 1 RDigits, RLit ''-'', RCap 2 RDigits, RLit ''-'', RCap 3 RDigits, RLit ''T'',
     RCap 4 RDigits, RLit '':'', RCap 5 RDigits, RLit '':'', RCap 6 RDigits,
     ROpt (RSeq (RLit ''.'') (RCap 7 RDigits)), RLit ''Z'', REol]"

definition leap_year :: "nat \<Rightarrow> bool" where
  "leap_year y \<longleftrightarrow> (y mod 4 = 0 \<and> y mod 100 \<noteq> 0) \<or> y mod 400 = 0"

definition days_before_month :: "nat \<Rightarrow> nat \<Rightarrow> nat" where
  "days_before_month y m =
     [0, 31, 59, 90, 120, 151, 181, 212, 243, 273, 304, 334] ! (m - 1) + (if 2 < m \<and> leap_year y then 1 else 0)"

text \<open>Days from 1970-01-01 to the first of January of a year.\<close>

definition days_before_year :: "nat \<Rightarrow> nat" where
  "days_before_year y =
     (let leaps = (\<lambda>y. (y - 1) div 4 - (y - 1) div 100 + (y - 1) div 400)
      in 365 * (y - 1970) + (leaps y - leaps 1970))"

definition date_parse :: "string \<Rightarrow> nat option" where
  "date_parse s =
     (case re_exec ISO_TIME s of None \<Rightarrow> None
      | Some m \<Rightarrow>
          (let n = (\<lambda>i. decimal (group m i));
               ok = length (group m 1) = 4 \<and> list_all (\<lambda>i. length (group m i) = 2) [2, 3, 4, 5, 6] \<and>
                 1970 \<le> n 1 \<and> 1 \<le> n 2 \<and> n 2 \<le> 12 \<and> 1 \<le> n 3 \<and> n 3 \<le> 31 \<and> n 4 < 24 \<and> n 5 < 60 \<and> n 6 < 60;
               millis = decimal (take 3 (group m 7 @ ''000''));
               day = days_before_year (n 1) + days_before_month (n 1) (n 2) + (n 3 - 1)
           in if ok then Some ((((day * 24 + n 4) * 60 + n 5) * 60 + n 6) * 1000 + millis) else None))"

text \<open>\<^verbatim>\<open>s.replace(" ", "T")\<close>: the first one only.\<close>

fun space_to_T :: "string \<Rightarrow> string" where
  "space_to_T [] = []"
| "space_to_T (c # cs) = (if c = CHR '' '' then CHR ''T'' # cs else c # space_to_T cs)"

definition timeOf :: "string \<Rightarrow> nat" where
  "timeOf stamp = (case date_parse (space_to_T stamp @ ''Z'') of None \<Rightarrow> 0 | Some t \<Rightarrow> t)"

section \<open>The lines\<close>

text \<open>\<^verbatim>\<open>((?:[^\s\\]|\\.)+?)\<close>.\<close>

definition name_char :: re where
  "name_char = RAlt (RCls (Cls True [(CHR 0x09, CHR 0x0D), (CHR '' '', CHR '' ''), (CHR 0xA0, CHR 0xA0), (backslash, backslash)]))
     (RSeq (RChr backslash) (RCls cls_any))"

definition DNS_NAME :: "nat \<Rightarrow> re" where
  "DNS_NAME n = RCap n (RSeq name_char (RStar False name_char))"

text \<open>\<^verbatim>\<open>^(\S+ \S+)\s+.*\<close>, the stamp being the first group.\<close>

definition stamped :: "re list" where
  "stamped = [RBol, RCap 1 (RSeqs [RSolid, RLit '' '', RSolid]), RPlus (RCls cls_space), RStar True (RCls cls_any)]"

definition DNS :: re where
  "DNS = RSeqs (stamped @ [RLit ''buildcage dns '', RCap 2 (RAlt (RLit ''allowed'') (RLit ''denied'')),
     RLit '' name='', DNS_NAME 3, ROpt (RLit ''.''), REol])"

definition DNS_DISCOVERY :: re where
  "DNS_DISCOVERY = RSeqs (stamped @ [RLit ''buildcage dns discovery name='', DNS_NAME 2, ROpt (RLit ''.''),
     RLit '' type='', RCap 3 RSolid, REol])"

definition DNS_SERVICE_DENIED :: re where
  "DNS_SERVICE_DENIED = RSeqs (stamped @ [RLit ''buildcage dns service-denied name='', DNS_NAME 2,
     ROpt (RLit ''.''), RLit '' type='', RCap 3 RSolid, REol])"

text \<open>\<^verbatim>\<open>/^\S+ \S+\s+.*buildcage dns (?!reverse )/\<close>.\<close>

definition DNS_LINE :: re where
  "DNS_LINE = RSeqs [RBol, RSolid, RLit '' '', RSolid, RPlus (RCls cls_space), RStar True (RCls cls_any),
     RLit ''buildcage dns '', RAhead False (RLit ''reverse '')]"

definition DNS_START_MARKER :: string where
  "DNS_START_MARKER = ''buildcage coredns starting''"

section \<open>The scan\<close>

record dns_log_scan =
  ds_events :: "traffic_event list"
  ds_headIntact :: bool
  ds_unparsed :: nat
  ds_restarts :: nat

record typed_name =
  tn_time :: nat
  tn_host :: string
  tn_queryType :: string

record dns_state =
  dn_seen :: "(string \<times> (nat \<times> bool)) list"
  dn_discovery :: "(string \<times> typed_name) list"
  dn_service :: "(string \<times> typed_name) list"
  dn_headIntact :: "bool option"
  dn_unparsed :: nat
  dn_restarts :: nat

definition dns_start :: dns_state where
  "dns_start = \<lparr>dn_seen = [], dn_discovery = [], dn_service = [], dn_headIntact = None, dn_unparsed = 0, dn_restarts = 0\<rparr>"

text \<open>\<^verbatim>\<open>if (!map.has(key)) map.set(key, v)\<close>.\<close>

definition keep_first :: "'k \<Rightarrow> 'v \<Rightarrow> ('k \<times> 'v) list \<Rightarrow> ('k \<times> 'v) list" where
  "keep_first key v m = omap_update key (\<lambda>old. case old of None \<Rightarrow> v | Some w \<Rightarrow> w) m"

text \<open>An answer seen before keeps its time and is allowed once any of its lines is.\<close>

definition see_answer :: "nat \<times> string \<times> bool \<Rightarrow> (string \<times> (nat \<times> bool)) list \<Rightarrow> (string \<times> (nat \<times> bool)) list" where
  "see_answer a m =
     (case a of (time, name, allowed) \<Rightarrow>
       omap_update name (\<lambda>old. case old of None \<Rightarrow> (time, allowed) | Some v \<Rightarrow> (fst v, snd v \<or> allowed)) m)"

definition dns_head :: "string \<Rightarrow> dns_state \<Rightarrow> dns_state" where
  "dns_head trimmed st =
     (if trimmed = [] then st
      else let start = ends_with DNS_START_MARKER trimmed;
               st1 = (if start \<and> dn_headIntact st \<noteq> None then st\<lparr>dn_restarts := Suc (dn_restarts st)\<rparr> else st)
           in st1\<lparr>dn_headIntact := Some (case dn_headIntact st1 of None \<Rightarrow> start | Some h \<Rightarrow> h)\<rparr>)"

definition dns_body :: "string \<Rightarrow> dns_state \<Rightarrow> dns_state" where
  "dns_body trimmed st =
     (case re_exec DNS trimmed of
        Some m \<Rightarrow> st\<lparr>dn_seen := see_answer (timeOf (group m 1), group m 3, group m 2 = ''allowed'') (dn_seen st)\<rparr>
      | None \<Rightarrow>
     (case re_exec DNS_DISCOVERY trimmed of
        Some m \<Rightarrow> st\<lparr>dn_discovery := keep_first (group m 2 @ [tab_char] @ group m 3)
            \<lparr>tn_time = timeOf (group m 1), tn_host = group m 2, tn_queryType = group m 3\<rparr> (dn_discovery st)\<rparr>
      | None \<Rightarrow>
     (case re_exec DNS_SERVICE_DENIED trimmed of
        None \<Rightarrow> if re_test DNS_LINE trimmed then st\<lparr>dn_unparsed := Suc (dn_unparsed st)\<rparr> else st
      | Some m \<Rightarrow> st\<lparr>dn_service := keep_first (group m 2)
            \<lparr>tn_time = timeOf (group m 1), tn_host = group m 2, tn_queryType = group m 3\<rparr> (dn_service st)\<rparr>)))"

definition dns_step :: "string \<Rightarrow> dns_state \<Rightarrow> dns_state" where
  "dns_step line st = dns_body (js_trim line) (dns_head (js_trim line) st)"

definition answer_event :: "bool \<Rightarrow> string \<times> (nat \<times> bool) \<Rightarrow> traffic_event" where
  "answer_event isAudit e =
     (case e of (host, (time, allowed)) \<Rightarrow>
       (let reason = (if allowed then None else Some ''dns-not-allowed'') in
        (bare_event time (actionFor reason isAudit) DnsP host)\<lparr>te_reason := reason\<rparr>))"

definition discovery_event :: "typed_name \<Rightarrow> traffic_event" where
  "discovery_event e = (bare_event (tn_time e) Discovery DnsP (tn_host e))\<lparr>te_queryType := Some (tn_queryType e)\<rparr>"

definition service_event :: "bool \<Rightarrow> typed_name \<Rightarrow> traffic_event" where
  "service_event isAudit e =
     (bare_event (tn_time e) (actionFor (Some ''dns-service-not-allowed'') isAudit) DnsP (tn_host e))
       \<lparr>te_queryType := Some (tn_queryType e), te_reason := Some ''dns-service-not-allowed''\<rparr>"

definition scanDnsLog :: "string list \<Rightarrow> bool \<Rightarrow> dns_log_scan" where
  "scanDnsLog lines isAudit =
     (let st = fold dns_step lines dns_start in
      \<lparr>ds_events = map (answer_event isAudit) (dn_seen st) @ map (\<lambda>kv. discovery_event (snd kv)) (dn_discovery st) @
         map (\<lambda>kv. service_event isAudit (snd kv)) (dn_service st),
       ds_headIntact = (case dn_headIntact st of None \<Rightarrow> False | Some h \<Rightarrow> h),
       ds_unparsed = dn_unparsed st, ds_restarts = dn_restarts st\<rparr>)"

section \<open>One event per name\<close>

text \<open>What a line answers: the time, the name and whether it was allowed.\<close>

definition answer_of :: "string \<Rightarrow> (nat \<times> string \<times> bool) option" where
  "answer_of line =
     (case re_exec DNS (js_trim line) of None \<Rightarrow> None
      | Some m \<Rightarrow> Some (timeOf (group m 1), group m 3, group m 2 = ''allowed''))"

text \<open>The name a line blocks as a service.\<close>

definition service_of :: "string \<Rightarrow> typed_name option" where
  "service_of line =
     (if re_exec DNS (js_trim line) \<noteq> None \<or> re_exec DNS_DISCOVERY (js_trim line) \<noteq> None then None
      else case re_exec DNS_SERVICE_DENIED (js_trim line) of None \<Rightarrow> None
        | Some m \<Rightarrow> Some \<lparr>tn_time = timeOf (group m 1), tn_host = group m 2, tn_queryType = group m 3\<rparr>)"

definition answer_holds :: "nat \<times> bool \<Rightarrow> (nat \<times> string \<times> bool) list \<Rightarrow> bool" where
  "answer_holds v as \<longleftrightarrow> as \<noteq> [] \<and> fst v = fst (hd as) \<and> (snd v \<longleftrightarrow> (\<exists>a\<in>set as. snd (snd a)))"

interpretation answers: accumulator "\<lambda>a. fst (snd a)" "\<lambda>a. (fst a, snd (snd a))"
  "\<lambda>v a. (fst v, snd v \<or> snd (snd a))" answer_holds
  by unfold_locales (auto simp: answer_holds_def)

interpretation services: accumulator tn_host "\<lambda>e. e" "\<lambda>v e. v" "\<lambda>v es. es \<noteq> [] \<and> v = hd es"
  by unfold_locales auto

lemma see_answer_add: "see_answer = answers.add"
  by (intro ext) (simp add: see_answer_def answers.add_def case_prod_beta)

lemma dns_step_seen:
  "dn_seen (dns_step line st) = (case answer_of line of None \<Rightarrow> dn_seen st | Some a \<Rightarrow> answers.add a (dn_seen st))"
  by (auto simp: dns_step_def dns_body_def dns_head_def answer_of_def see_answer_add Let_def split: option.splits)

lemma dns_step_service:
  "dn_service (dns_step line st) = (case service_of line of None \<Rightarrow> dn_service st | Some e \<Rightarrow> services.add e (dn_service st))"
  by (auto simp: dns_step_def dns_body_def dns_head_def service_of_def services.add_def keep_first_def Let_def split: option.splits)

lemma scan_seen: "dn_seen (fold dns_step lines dns_start) = answers.collect (List.map_filter answer_of lines)"
  using fold_map_filter [of dn_seen dns_step answers.add answer_of, OF dns_step_seen]
  by (simp add: answers.collect_def dns_start_def)

lemma scan_service: "dn_service (fold dns_step lines dns_start) = services.collect (List.map_filter service_of lines)"
  using fold_map_filter [of dn_service dns_step services.add service_of, OF dns_step_service]
  by (simp add: services.collect_def dns_start_def)

section \<open>The log's beginning\<close>

definition dns_counts :: "string \<Rightarrow> bool" where
  "dns_counts line \<longleftrightarrow> js_trim line \<noteq> []"

definition dns_starts :: "string \<Rightarrow> bool" where
  "dns_starts line \<longleftrightarrow> ends_with DNS_START_MARKER (js_trim line)"

interpretation resolver: line_scan dns_counts dns_starts
  by unfold_locales (auto simp: dns_counts_def dns_starts_def ends_with_def DNS_START_MARKER_def)

lemma dns_body_head [simp]:
  "dn_headIntact (dns_body t st) = dn_headIntact st" "dn_restarts (dns_body t st) = dn_restarts st"
  by (simp_all add: dns_body_def split: option.splits)

lemma dns_step_scan:
  "(dn_headIntact (dns_step line st), dn_restarts (dns_step line st)) =
     resolver.scan_step line (dn_headIntact st, dn_restarts st)"
  by (auto simp: dns_step_def dns_head_def resolver.scan_step_def dns_counts_def dns_starts_def Let_def split: option.splits)

lemma scan_head:
  "(dn_headIntact (fold dns_step lines st), dn_restarts (fold dns_step lines st)) =
     fold resolver.scan_step lines (dn_headIntact st, dn_restarts st)"
  by (induction lines arbitrary: st) (simp_all flip: dns_step_scan)

section \<open>Properties\<close>

lemma answer_event_fields [simp]:
  "te_host (answer_event isAudit e) = fst e" "te_queryType (answer_event isAudit e) = None"
  by (simp_all add: answer_event_def bare_event_def Let_def case_prod_beta)

lemma typed_event_fields [simp]:
  "te_queryType (discovery_event e) = Some (tn_queryType e)"
  "te_queryType (service_event isAudit e) = Some (tn_queryType e)"
  by (simp_all add: discovery_event_def service_event_def)

text \<open>C36. The resolver's log yields one event for each name an answer line names and none for
  any other: it carries the time of the first of them, and it is a block exactly when none of
  them allowed the name, so that no AAAA block masks an A that resolved.\<close>

theorem scanDnsLog_answers:
  "filter (\<lambda>e. te_host e = name \<and> te_queryType e = None) (ds_events (scanDnsLog lines isAudit)) =
     (case filter (\<lambda>a. fst (snd a) = name) (List.map_filter answer_of lines) of
        [] \<Rightarrow> []
      | a # as \<Rightarrow> [if list_ex (\<lambda>b. snd (snd b)) (a # as) then bare_event (fst a) (actionFor None isAudit) DnsP name
                  else (bare_event (fst a) (actionFor (Some ''dns-not-allowed'') isAudit) DnsP name)
                    \<lparr>te_reason := Some ''dns-not-allowed''\<rparr>])"
proof -
  define as where "as = List.map_filter answer_of lines"
  let ?m = "answers.collect as"
  have "distinct (map fst ?m)" using answers.collect_keys by blast
  then have "filter (\<lambda>kv. fst kv = name) ?m = (case map_of ?m name of None \<Rightarrow> [] | Some v \<Rightarrow> [(name, v)])"
    by (rule filter_key)
  moreover have "filter (\<lambda>e. te_host e = name \<and> te_queryType e = None) (ds_events (scanDnsLog lines isAudit)) =
      map (answer_event isAudit) (filter (\<lambda>kv. fst kv = name) ?m)"
    by (simp add: scanDnsLog_def Let_def filter_map o_def scan_seen flip: as_def)
  ultimately have *: "filter (\<lambda>e. te_host e = name \<and> te_queryType e = None) (ds_events (scanDnsLog lines isAudit)) =
      (case map_of ?m name of None \<Rightarrow> [] | Some v \<Rightarrow> [answer_event isAudit (name, v)])"
    by (simp split: option.splits)
  have u: "answers.under as name = filter (\<lambda>a. fst (snd a) = name) as" by (simp add: answers.under_def)
  show ?thesis
  proof (cases "map_of ?m name")
    case None
    then show ?thesis using answers.collect_get [of as name] * u by (simp flip: as_def)
  next
    case (Some v)
    then have h: "answer_holds v (answers.under as name)" using answers.collect_get [of as name] by simp
    then obtain a r where a: "answers.under as name = a # r" by (cases "answers.under as name") (auto simp: answer_holds_def)
    have "v = (fst a, list_ex (\<lambda>b. snd (snd b)) (a # r))"
      using h by (auto simp: answer_holds_def a list_ex_iff prod_eq_iff)
    then show ?thesis using * Some a unfolding u
      by (simp add: answer_event_def bare_event_def Let_def flip: as_def)
  qed
qed

text \<open>The resolver's log is known from its beginning exactly when its first non-blank line
  is the startup marker, and every later marker counts as one restart.\<close>

theorem scanDnsLog_head:
  "ds_headIntact (scanDnsLog lines isAudit) =
     (case filter dns_counts lines of [] \<Rightarrow> False | l # _ \<Rightarrow> dns_starts l) \<and>
   ds_restarts (scanDnsLog lines isAudit) =
     (case filter dns_counts lines of [] \<Rightarrow> 0 | _ # rest \<Rightarrow> length (filter dns_starts rest))"
proof -
  have "(dn_headIntact (fold dns_step lines dns_start), dn_restarts (fold dns_step lines dns_start)) =
      (case filter dns_counts lines of [] \<Rightarrow> (None, 0)
       | l # rest \<Rightarrow> (Some (dns_starts l), length (filter dns_starts rest)))"
    unfolding scan_head using resolver.scan_meaning [of lines] by (simp add: dns_start_def)
  then show ?thesis by (auto simp: scanDnsLog_def Let_def split: list.splits)
qed

end
