(* ===== verification/Aggregate.thy ===== *)
theory Aggregate
  imports LogScan JsSort
begin

text \<open>
  \<^verbatim>\<open>src/core/lib/log/aggregate.ts\<close>: log entries counted by host, port, rule type and
  reason, once over a list and once entry by entry. The code's object with string keys and
  its \<^verbatim>\<open>Map\<close> are both insertion-ordered: no key is an index, since every key holds a tab.
\<close>

section \<open>Entries and keys\<close>

record log_entry =
  le_host :: string
  le_port :: string
  le_ruleType :: string
  le_reason :: string

record aggregated_entry = log_entry +
  ae_count :: nat

definition entryKey :: "('a log_entry_scheme) \<Rightarrow> string" where
  "entryKey e = le_host e @ [tab_char] @ le_port e @ [tab_char] @ le_ruleType e @ [tab_char] @ le_reason e"

text \<open>\<^verbatim>\<open>Number(port)\<close> for the ports the parsers write, a run of digits or blank;
  \<^const>\<open>None\<close> is \<^verbatim>\<open>NaN\<close>.\<close>

definition port_number :: "string \<Rightarrow> int option" where
  "port_number s =
     (if js_trim s = [] then Some 0
      else if list_all is_digit (js_trim s) then Some (int (decimal (js_trim s))) else None)"

definition compareAggregated :: "aggregated_entry \<Rightarrow> aggregated_entry \<Rightarrow> int" where
  "compareAggregated a b =
     (if ae_count b \<noteq> ae_count a then int (ae_count b) - int (ae_count a)
      else if str_less (le_host a) (le_host b) then -1
      else if str_less (le_host b) (le_host a) then 1
      else (case (port_number (le_port a), port_number (le_port b)) of
              (Some m, Some n) \<Rightarrow> m - n | _ \<Rightarrow> 0))"

section \<open>Counting a list\<close>

definition count_key :: "string \<Rightarrow> (string \<times> nat) list \<Rightarrow> (string \<times> nat) list" where
  "count_key key m = omap_update key (\<lambda>old. (case old of None \<Rightarrow> 0 | Some n \<Rightarrow> n) + 1) m"

text \<open>\<^verbatim>\<open>parts[i]\<close>.\<close>

definition part_at :: "string list \<Rightarrow> nat \<Rightarrow> string" where
  "part_at parts i = (if i < length parts then parts ! i else [])"

definition row_of_key :: "string \<times> nat \<Rightarrow> aggregated_entry" where
  "row_of_key kn =
     (let parts = split_on tab_char (fst kn) in
      \<lparr>le_host = part_at parts 0, le_port = part_at parts 1, le_ruleType = part_at parts 2,
       le_reason = part_at parts 3, ae_count = snd kn\<rparr>)"

definition aggregate :: "log_entry list \<Rightarrow> aggregated_entry list" where
  "aggregate filtered =
     js_sort compareAggregated (map row_of_key (fold (\<lambda>e. count_key (entryKey e)) filtered []))"

section \<open>Counting entry by entry\<close>

definition first_row :: "log_entry \<Rightarrow> aggregated_entry" where
  "first_row e = \<lparr>le_host = le_host e, le_port = le_port e, le_ruleType = le_ruleType e,
     le_reason = le_reason e, ae_count = 1\<rparr>"

text \<open>\<^verbatim>\<open>existing.count++\<close>.\<close>

definition more_row :: "aggregated_entry \<Rightarrow> log_entry \<Rightarrow> aggregated_entry" where
  "more_row row entry = row\<lparr>ae_count := ae_count row + 1\<rparr>"

definition aggregator_add :: "log_entry \<Rightarrow> (string \<times> aggregated_entry) list \<Rightarrow> (string \<times> aggregated_entry) list" where
  "aggregator_add entry m =
     omap_update (entryKey entry)
       (\<lambda>old. case old of None \<Rightarrow> first_row entry | Some row \<Rightarrow> more_row row entry) m"

definition toSortedArray :: "(string \<times> aggregated_entry) list \<Rightarrow> aggregated_entry list" where
  "toSortedArray m = js_sort compareAggregated (map snd m)"

definition aggregate_stream :: "log_entry list \<Rightarrow> aggregated_entry list" where
  "aggregate_stream entries = toSortedArray (fold aggregator_add entries [])"

section \<open>Nothing is lost\<close>

text \<open>A row holds the entries it stands for.\<close>

definition row_holds :: "aggregated_entry \<Rightarrow> log_entry list \<Rightarrow> bool" where
  "row_holds row es \<longleftrightarrow> es \<noteq> [] \<and> row = (first_row (hd es))\<lparr>ae_count := length es\<rparr>"

interpretation rows: weighing_accumulator entryKey first_row
  more_row row_holds ae_count "\<lambda>_. 1"
  by unfold_locales (auto simp: row_holds_def first_row_def more_row_def sum_list_triv)

lemma aggregator_collect: "fold aggregator_add es [] = rows.collect es"
  by (simp add: rows.collect_def aggregator_add_def [abs_def] rows.add_def [abs_def])

lemma stream_count: "sum_list (map ae_count (aggregate_stream es)) = length es"
  using rows.collect_weight [of es]
  by (simp add: aggregate_stream_def toSortedArray_def sum_js_sort aggregator_collect sum_list_triv o_def)

lemma stream_row:
  assumes "row \<in> set (aggregate_stream es)"
  obtains e where "e \<in> set es" "row = (first_row e)\<lparr>ae_count := length (filter (\<lambda>f. entryKey f = entryKey e) es)\<rparr>"
proof -
  obtain k where k: "(k, row) \<in> set (rows.collect es)"
    using assms by (auto simp: aggregate_stream_def toSortedArray_def aggregator_collect)
  from rows.collect_holds [OF this] have u: "row_holds row (rows.under es k)" by simp
  then have "rows.under es k \<noteq> []" by (simp add: row_holds_def)
  then have "hd (rows.under es k) \<in> set (rows.under es k)" by simp
  then have "hd (rows.under es k) \<in> set es" "entryKey (hd (rows.under es k)) = k"
    by (auto simp: rows.under_def)
  with u that show thesis by (auto simp: row_holds_def rows.under_def)
qed

section \<open>The two counts agree\<close>

definition tabless :: "log_entry \<Rightarrow> bool" where
  "tabless e \<longleftrightarrow> tab_char \<notin> set (le_host e) \<union> set (le_port e) \<union> set (le_ruleType e) \<union> set (le_reason e)"

lemma split_key:
  assumes "tabless e"
  shows "split_on tab_char (entryKey e) = [le_host e, le_port e, le_ruleType e, le_reason e]"
  using assms by (simp add: tabless_def entryKey_def)

lemma entryKey_inj: "tabless e \<Longrightarrow> tabless f \<Longrightarrow> entryKey e = entryKey f \<Longrightarrow> e = f"
  using split_key [of e] split_key [of f] by simp

lemma row_of_entryKey: "tabless e \<Longrightarrow> row_of_key (entryKey e, n) = (first_row e)\<lparr>ae_count := n\<rparr>"
  by (simp add: row_of_key_def split_key part_at_def first_row_def)

lemma omap_update_map:
  assumes "\<And>v. h (f (Some v)) = g (Some (h v))" "h (f None) = g None"
  shows "map (\<lambda>kv. (fst kv, h (snd kv))) (omap_update k f m) =
    omap_update k g (map (\<lambda>kv. (fst kv, h (snd kv))) m)"
  using assms by (induction m) auto

definition counted_row :: "string \<times> aggregated_entry \<Rightarrow> string \<times> nat" where
  "counted_row kv = (fst kv, ae_count (snd kv))"

lemma same_counts:
  "map counted_row (fold aggregator_add es m) =
     fold (\<lambda>e. count_key (entryKey e)) es (map counted_row m)"
proof (induction es arbitrary: m)
  case (Cons e es)
  have "map counted_row (aggregator_add e m) = count_key (entryKey e) (map counted_row m)"
    unfolding aggregator_add_def count_key_def counted_row_def [abs_def]
    by (rule omap_update_map) (simp_all add: first_row_def more_row_def)
  with Cons show ?case by simp
qed simp

lemma streams_agree:
  assumes "\<forall>e\<in>set es. tabless e"
  shows "aggregate es = aggregate_stream es"
proof -
  have row: "row_of_key (k, ae_count row) = row" if m: "(k, row) \<in> set (rows.collect es)" for k row
  proof -
    from rows.collect_holds [OF m] have u: "row_holds row (rows.under es k)" by simp
    define e where "e = hd (rows.under es k)"
    have "e \<in> set (rows.under es k)" using u by (simp add: row_holds_def e_def)
    then have e: "e \<in> set es" "k = entryKey e" by (auto simp: rows.under_def)
    obtain n where r: "row = (first_row e)\<lparr>ae_count := n\<rparr>" using u by (auto simp: row_holds_def e_def)
    have "tabless e" using assms e(1) by blast
    then show ?thesis unfolding r e(2) by (simp add: row_of_entryKey)
  qed
  have counts: "fold (\<lambda>e. count_key (entryKey e)) es [] = map counted_row (rows.collect es)"
    using same_counts [of es "[]"] by (simp add: aggregator_collect)
  have "map row_of_key (fold (\<lambda>e. count_key (entryKey e)) es []) = map snd (rows.collect es)"
  proof -
    have "map (\<lambda>kv. row_of_key (counted_row kv)) (rows.collect es) = map snd (rows.collect es)"
      using row by (intro map_cong) (simp_all add: counted_row_def)
    then show ?thesis using counts by (simp add: o_def)
  qed
  then show ?thesis
    by (simp add: aggregate_def aggregate_stream_def toSortedArray_def aggregator_collect)
qed

section \<open>The order of the table\<close>

interpretation host_table: comparator compareAggregated "{row. port_number (le_port row) \<noteq> None}"
proof
  fix x y :: aggregated_entry
  assume xy: "x \<in> {row. port_number (le_port row) \<noteq> None}" "y \<in> {row. port_number (le_port row) \<noteq> None}"
  show "compareAggregated x y < 0 \<Longrightarrow> compareAggregated y x > 0"
    "\<not> compareAggregated x y < 0 \<Longrightarrow> compareAggregated y x \<le> 0"
    using xy str_less_asym [of "le_host x" "le_host y"]
    by (auto simp: compareAggregated_def split: if_splits)
  fix z :: aggregated_entry
  assume z: "z \<in> {row. port_number (le_port row) \<noteq> None}"
    and le: "compareAggregated x y \<le> 0" "compareAggregated y z \<le> 0"
  obtain i j k where p: "port_number (le_port x) = Some i" "port_number (le_port y) = Some j"
    "port_number (le_port z) = Some k" using xy z by auto
  have *: "compareAggregated a b \<le> 0 \<longleftrightarrow> ae_count b < ae_count a \<or> (ae_count b = ae_count a \<and>
      (str_less (le_host a) (le_host b) \<or> (le_host a = le_host b \<and> m \<le> n)))"
    if "port_number (le_port a) = Some m" "port_number (le_port b) = Some n" for a b m n
    using that str_less_total [of "le_host a" "le_host b"] str_less_asym [of "le_host a" "le_host b"]
    by (auto simp: compareAggregated_def)
  show "compareAggregated x z \<le> 0"
    using le str_less_trans [of "le_host x" "le_host y" "le_host z"]
    unfolding * [OF p(1,2)] * [OF p(2,3)] * [OF p(1,3)] by auto
qed

section \<open>Properties\<close>

text \<open>Counting entry by entry gives the rows that counting the whole list gives, in the
  same order, when no field holds the tab the keys are joined with.\<close>

theorem aggregate_stream_agrees:
  assumes "\<forall>e\<in>set entries. tabless e"
  shows "toSortedArray (fold aggregator_add entries []) = aggregate entries"
  using streams_agree [OF assms] by (simp add: aggregate_stream_def)

definition sample_entries :: "log_entry list" where
  "sample_entries =
     map (\<lambda>(h, p). \<lparr>le_host = h, le_port = p, le_ruleType = ''https'', le_reason = ''not-allowed''\<rparr>)
       [(''b'', ''443''), (''a'', ''8443''), (''a'', ''443''), (''b'', ''443'')]"

theorem aggregate_stream_agrees_witness:
  "toSortedArray (fold aggregator_add sample_entries []) = aggregate sample_entries \<and>
   map (\<lambda>r. (le_host r, le_port r, ae_count r)) (aggregate sample_entries) =
     [(''b'', ''443'', 2), (''a'', ''443'', 1), (''a'', ''8443'', 1)]"
proof
  have "list_all tabless sample_entries" by code_simp
  then show "toSortedArray (fold aggregator_add sample_entries []) = aggregate sample_entries"
    by (intro aggregate_stream_agrees) (simp add: list_all_iff)
qed code_simp

text \<open>The rows lose no entry and count none twice: the counts add up to the entries, each
  row is one entry with the number of entries under its key, and with numeric ports the rows
  stand in the order of the host table.\<close>

theorem aggregate_rows:
  assumes "\<forall>e\<in>set entries. port_number (le_port e) \<noteq> None"
  shows "sum_list (map ae_count (toSortedArray (fold aggregator_add entries []))) = length entries \<and>
    (\<forall>row\<in>set (toSortedArray (fold aggregator_add entries [])).
       \<exists>e\<in>set entries. row = (first_row e)\<lparr>ae_count := length (filter (\<lambda>f. entryKey f = entryKey e) entries)\<rparr>) \<and>
    sorted_wrt (\<lambda>a b. compareAggregated a b \<le> 0) (toSortedArray (fold aggregator_add entries []))"
proof -
  let ?rows = "toSortedArray (fold aggregator_add entries [])"
  have row: "\<exists>e\<in>set entries. row = (first_row e)\<lparr>ae_count := length (filter (\<lambda>f. entryKey f = entryKey e) entries)\<rparr>"
    if "row \<in> set ?rows" for row
    using that stream_row [of row entries] by (auto simp: aggregate_stream_def)
  have "port_number (le_port row) \<noteq> None" if "row \<in> set ?rows" for row
    using row [OF that] assms by (auto simp: first_row_def)
  then have "set (map snd (fold aggregator_add entries [])) \<subseteq> {row. port_number (le_port row) \<noteq> None}"
    by (auto simp: toSortedArray_def)
  from host_table.sort_sorted [OF this] show ?thesis
    using row stream_count [of entries] by (simp add: aggregate_stream_def toSortedArray_def)
qed

theorem aggregate_rows_witness:
  "sum_list (map ae_count (toSortedArray (fold aggregator_add sample_entries []))) = 4 \<and>
   sorted_wrt (\<lambda>a b. compareAggregated a b \<le> 0) (toSortedArray (fold aggregator_add sample_entries []))"
proof -
  have "list_all (\<lambda>e. port_number (le_port e) \<noteq> None) sample_entries" by code_simp
  then have "\<forall>e\<in>set sample_entries. port_number (le_port e) \<noteq> None" by (simp only: list_all_iff)
  from aggregate_rows [OF this] show ?thesis by (simp add: sample_entries_def)
qed

text \<open>With a port that is no number among the ports, the comparator takes rows for equal that
  it also puts apart, and the order of a table depends on the order of the log.\<close>

lemma compare_not_transitive:
  "\<exists>a b c. le_host a = le_host b \<and> le_host b = le_host c \<and> compareAggregated a b = 0 \<and>
     compareAggregated b c = 0 \<and> compareAggregated a c > 0"
proof -
  define row :: "string \<Rightarrow> aggregated_entry" where
    "row p = \<lparr>le_host = ''a'', le_port = p, le_ruleType = [], le_reason = [], ae_count = 1\<rparr>" for p
  have "compareAggregated (row ''443'') (row ''-'') = 0 \<and> compareAggregated (row ''-'') (row ''80'') = 0 \<and>
      compareAggregated (row ''443'') (row ''80'') > 0"
    unfolding row_def by code_simp
  then show ?thesis by (intro exI [of _ "row ''443''"] exI [of _ "row ''-''"] exI [of _ "row ''80''"]) (simp add: row_def)
qed

end
