(* ===== verification/ReportBuild.thy ===== *)
theory ReportBuild
  imports HaproxyLog InspectLog DnsLog Aggregate WildcardRules HaproxyRules
begin

text \<open>
  \<^verbatim>\<open>src/core/lib/report/build\<close> and what it is handed of
  \<^verbatim>\<open>src/core/lib/docker/proxy-health.ts\<close> and \<^verbatim>\<open>resolver-health.ts\<close>: the timeline of a
  run reduced to the three host tables, the blocked rows judged by the known-blocked rules, and
  the report data of both engines.

  A regular expression a rule compiled to is run by the argument \<^verbatim>\<open>rt\<close>, JavaScript's
  \<^verbatim>\<open>RegExp.prototype.test\<close>: whether the \<^verbatim>\<open>i\<close> flag is set, the source, the text. A call
  of \<^verbatim>\<open>docker.exec\<close> is the argument \<^verbatim>\<open>exec\<close>, \<^const>\<open>None\<close> where it throws. An
  \<^verbatim>\<open>undefined\<close> field is \<^const>\<open>None\<close>.
\<close>

type_synonym regexp_test = "bool \<Rightarrow> string \<Rightarrow> string \<Rightarrow> bool"

section \<open>Known-blocked rules as matchers\<close>

record annotated_blocked_row = aggregated_entry +
  ab_expected :: bool
  ab_expectedBy :: "string option"

record known_blocked_matcher =
  km_rule :: string
  km_matches :: "traffic_event \<Rightarrow> bool"

definition targetOf :: "traffic_event \<Rightarrow> string" where
  "targetOf event =
     te_host event @ '':'' @ (case te_port event of None \<Rightarrow> ''0'' | Some p \<Rightarrow> show_nat p)"

text \<open>\<^verbatim>\<open>s.indexOf(t, from)\<close>, \<^const>\<open>None\<close> for -1.\<close>

definition index_of_text :: "string \<Rightarrow> string \<Rightarrow> nat \<Rightarrow> nat option" where
  "index_of_text t s from =
     first_some (\<lambda>i. if starts_with t (drop i s) then Some i else None) [from..<Suc (length s)]"

text \<open>\<^verbatim>\<open>s.slice(i)\<close>, \<^const>\<open>None\<close> for the index -1, which takes the last character.\<close>

definition slice_from :: "nat option \<Rightarrow> string \<Rightarrow> string" where
  "slice_from i s = (case i of None \<Rightarrow> drop (length s - 1) s | Some i \<Rightarrow> drop i s)"

definition requestPath :: "string \<Rightarrow> string" where
  "requestPath url =
     (let sep = index_of_text ''://'' url 0;
          pathAndQuery = slice_from (index_of_text ''/'' url (case sep of None \<Rightarrow> 2 | Some i \<Rightarrow> i + 3)) url in
      case index_of (CHR ''?'') pathAndQuery of
        None \<Rightarrow> pathAndQuery
      | Some query \<Rightarrow> take query pathAndQuery)"

record compiled_url_rule =
  cu_rule :: url_rule
  cu_hostRe :: "string \<Rightarrow> bool"
  cu_pathRe :: "string \<Rightarrow> bool"

fun scheme_protocol :: "url_scheme \<Rightarrow> traffic_protocol" where
  "scheme_protocol Https = HttpsP"
| "scheme_protocol Http = HttpP"

definition matchesUrlRule :: "compiled_url_rule \<Rightarrow> traffic_event \<Rightarrow> bool" where
  "matchesUrlRule c event =
     (case (te_method event, te_url event) of
        (Some meth, Some url) \<Rightarrow>
          (case find (\<lambda>s. scheme_protocol s = te_protocol event) (ur_schemes (cu_rule c)) of
             None \<Rightarrow> False
           | Some scheme \<Rightarrow>
               if (case ur_methods (cu_rule c) of None \<Rightarrow> False | Some ms \<Rightarrow> to_upper meth \<notin> set ms) then False
               else if \<not> cu_pathRe c (requestPath url) then False
               else
                 let hostPort = te_host event @ '':'' @
                       (case te_port event of None \<Rightarrow> ''undefined'' | Some p \<Rightarrow> show_nat p) in
                 if ur_isRegex (cu_rule c)
                 then (te_port event = Some (decimal (DEFAULT_PORT scheme)) \<and> cu_hostRe c (te_host event))
                   \<or> cu_hostRe c hostPort
                 else cu_hostRe c hostPort)
      | _ \<Rightarrow> False)"

definition url_matcher :: "regexp_test \<Rightarrow> url_rule \<Rightarrow> known_blocked_matcher" where
  "url_matcher rt urlRule =
     (let compiled =
        \<lparr>cu_rule = urlRule,
         cu_hostRe = rt True (if ur_isRegex urlRule then ur_hostRegex urlRule else ur_authorityRegex urlRule),
         cu_pathRe = rt False (ur_pathRegex urlRule)\<rparr>
      in \<lparr>km_rule = ur_raw urlRule, km_matches = matchesUrlRule compiled\<rparr>)"

definition host_matcher :: "regexp_test \<Rightarrow> string \<Rightarrow> string \<Rightarrow> known_blocked_matcher" where
  "host_matcher rt completed regex =
     \<lparr>km_rule = completed, km_matches = (\<lambda>event. rt True regex (targetOf event))\<rparr>"

definition build_matcher ::
    "(string \<Rightarrow> string option) \<Rightarrow> regexp_test \<Rightarrow> string \<Rightarrow> known_blocked_matcher acl" where
  "build_matcher syn rt line =
     (if isKnownBlockedUrlRule line then map_e (url_matcher rt) (convertUrlRule syn line)
      else (let completed = completeRulePort line in
        map_e (host_matcher rt completed) (convertRule syn completed)))"

definition buildMatchers ::
    "(string \<Rightarrow> string option) \<Rightarrow> regexp_test \<Rightarrow> string list \<Rightarrow> known_blocked_matcher list acl" where
  "buildMatchers syn rt knownBlockedRules = traverse_e (build_matcher syn rt) knownBlockedRules"

section \<open>The blocked rows\<close>

text \<open>\<^const>\<open>None\<close> is the best index \<^verbatim>\<open>Infinity\<close>.\<close>

record blocked_accumulator =
  ba_entry :: log_entry
  ba_count :: nat
  ba_expectedAll :: bool
  ba_bestIndex :: "nat option"
  ba_bestRule :: "string option"

fun RULE_TYPE :: "traffic_protocol \<Rightarrow> string" where
  "RULE_TYPE HttpsP = ''HTTPS''"
| "RULE_TYPE HttpP = ''HTTP''"
| "RULE_TYPE TlsP = ''TLS''"
| "RULE_TYPE TcpP = ''IP''"
| "RULE_TYPE DnsP = ''DNS''"

definition toHostRow :: "traffic_event \<Rightarrow> log_entry" where
  "toHostRow event =
     \<lparr>le_host = te_host event,
      le_port = (case te_port event of None \<Rightarrow> ''-'' | Some p \<Rightarrow> show_nat p),
      le_ruleType = RULE_TYPE (te_protocol event),
      le_reason = (case te_reason event of None \<Rightarrow> ''-'' | Some r \<Rightarrow> r)\<rparr>"

text \<open>\<^verbatim>\<open>xs.findIndex(P)\<close>, \<^const>\<open>None\<close> for -1.\<close>

fun find_index :: "('a \<Rightarrow> bool) \<Rightarrow> 'a list \<Rightarrow> nat option" where
  "find_index P [] = None"
| "find_index P (x # xs) = (if P x then Some 0 else map_option Suc (find_index P xs))"

text \<open>\<^verbatim>\<open>index < bestIndex\<close>.\<close>

definition earlier :: "nat \<Rightarrow> nat option \<Rightarrow> bool" where
  "earlier i best = (case best of None \<Rightarrow> True | Some b \<Rightarrow> i < b)"

definition first_blocked :: "known_blocked_matcher list \<Rightarrow> traffic_event \<Rightarrow> blocked_accumulator" where
  "first_blocked matchers event =
     (let index = find_index (\<lambda>m. km_matches m event) matchers in
      \<lparr>ba_entry = toHostRow event, ba_count = 1, ba_expectedAll = (index \<noteq> None), ba_bestIndex = index,
       ba_bestRule = map_option (\<lambda>i. km_rule (matchers ! i)) index\<rparr>)"

definition more_blocked ::
    "known_blocked_matcher list \<Rightarrow> blocked_accumulator \<Rightarrow> traffic_event \<Rightarrow> blocked_accumulator" where
  "more_blocked matchers acc event =
     (let acc1 = acc\<lparr>ba_count := ba_count acc + 1\<rparr> in
      case find_index (\<lambda>m. km_matches m event) matchers of
        None \<Rightarrow> acc1\<lparr>ba_expectedAll := False\<rparr>
      | Some index \<Rightarrow>
          if earlier index (ba_bestIndex acc)
          then acc1\<lparr>ba_bestIndex := Some index, ba_bestRule := Some (km_rule (matchers ! index))\<rparr>
          else acc1)"

definition blocked_row :: "blocked_accumulator \<Rightarrow> annotated_blocked_row" where
  "blocked_row acc =
     \<lparr>le_host = le_host (ba_entry acc), le_port = le_port (ba_entry acc),
      le_ruleType = le_ruleType (ba_entry acc), le_reason = le_reason (ba_entry acc),
      ae_count = ba_count acc, ab_expected = ba_expectedAll acc,
      ab_expectedBy = (if ba_expectedAll acc then ba_bestRule acc else None)\<rparr>"

definition blocked_step ::
    "known_blocked_matcher list \<Rightarrow> traffic_event \<Rightarrow> (string \<times> blocked_accumulator) list \<Rightarrow>
     (string \<times> blocked_accumulator) list" where
  "blocked_step matchers event accumulators =
     omap_update (entryKey (toHostRow event))
       (\<lambda>old. case old of None \<Rightarrow> first_blocked matchers event | Some acc \<Rightarrow> more_blocked matchers acc event)
       accumulators"

definition annotateKnownBlocked ::
    "(string \<Rightarrow> string option) \<Rightarrow> regexp_test \<Rightarrow> traffic_event list \<Rightarrow> string list \<Rightarrow> annotated_blocked_row list acl" where
  "annotateKnownBlocked syn rt blockedEvents knownBlockedRules =
     bind_e (buildMatchers syn rt knownBlockedRules) (\<lambda>matchers.
     let accumulators = fold (blocked_step matchers) blockedEvents [] in
     Inr (js_sort (\<lambda>a b. compareAggregated (aggregated_entry.truncate a) (aggregated_entry.truncate b))
       (map (\<lambda>kv. blocked_row (snd kv)) accumulators)))"

section \<open>The three tables\<close>

record reduced_timeline =
  rt_passed :: "aggregated_entry list"
  rt_blocked :: "annotated_blocked_row list"
  rt_failed :: "aggregated_entry list"
  rt_blockedCount :: nat

text \<open>The passed rows, the blocked events and the failed rows so far.\<close>

type_synonym table_state = "log_entry list \<times> traffic_event list \<times> log_entry list"

definition reduce_step :: "connected_hosts \<Rightarrow> traffic_event \<Rightarrow> table_state \<Rightarrow> table_state" where
  "reduce_step connected event st =
     (case st of (passedRows, blockedEvents, failedRows) \<Rightarrow>
        if te_action event = Discovery \<or> te_action event = Incomplete then st
        else if isRedundantDns event connected then st
        else if te_action event = Failed then (passedRows, blockedEvents, failedRows @ [toHostRow event])
        else if te_action event = Block then (passedRows, blockedEvents @ [event], failedRows)
        else (passedRows @ [toHostRow event], blockedEvents, failedRows))"

definition reduceTimeline ::
    "(string \<Rightarrow> string option) \<Rightarrow> regexp_test \<Rightarrow> traffic_event list \<Rightarrow> string list \<Rightarrow> reduced_timeline acl" where
  "reduceTimeline syn rt timeline knownBlockedRules =
     (let connected = connectedHosts timeline;
          (passedRows, blockedEvents, failedRows) = fold (reduce_step connected) timeline ([], [], []) in
      map_e (\<lambda>blocked.
          \<lparr>rt_passed = aggregate passedRows, rt_blocked = blocked, rt_failed = aggregate failedRows,
           rt_blockedCount = length blockedEvents\<rparr>)
        (annotateKnownBlocked syn rt blockedEvents knownBlockedRules))"

section \<open>Asking the services\<close>

record proxy_health =
  ph_answered :: bool
  ph_droppedLines :: "nat option"
  ph_logConnections :: "nat option"

record service_health =
  sh_proxy :: proxy_health
  sh_resolverAnswered :: bool
  sh_resolverLogDeaths :: "nat option"

definition COUNTER_NAME :: string where
  "COUNTER_NAME = ''haproxy_process_dropped_logs_total ''"

text \<open>\<^verbatim>\<open>/^haproxy_process_dropped_logs_total (\d+)$/m\<close> on one line.\<close>

definition counter_of_line :: "string \<Rightarrow> nat option" where
  "counter_of_line line =
     (if starts_with COUNTER_NAME line
      then (let n = drop (length COUNTER_NAME) line in
        if n \<noteq> [] \<and> list_all is_digit n then Some (decimal n) else None)
      else None)"

definition parseDroppedLines :: "string \<Rightarrow> nat option" where
  "parseDroppedLines metrics =
     first_some counter_of_line (split_by (\<lambda>c. c = newline_char \<or> c = cr_char) metrics)"

definition BARRIER_SCRIPT :: string where
  "BARRIER_SCRIPT = join_with [newline_char]
     [''i=0'',
      ''still=0'',
      ''last='',
      ''while [ $i -lt 100 ] && [ $still -lt 5 ]; do'',
      ''  size=$(stat -c %s /var/log/haproxy/current 2>/dev/null)'',
      ''  if [ '' @ [dquote] @ ''$size'' @ [dquote] @ '' = '' @ [dquote] @ ''$last'' @ [dquote] @ '' ]; then still=$((still + 1)); else still=0; last=$size; fi'',
      ''  sleep 0.1'',
      ''  i=$((i + 1))'',
      ''done'',
      ''curl -sf --max-time 10 --unix-socket /var/run/haproxy-barrier.sock '' @ [dquote] @ ''http://localhost/?$1'' @ [dquote] @ '' >/dev/null || exit 1'',
      ''i=0'',
      ''while [ $i -lt 100 ]; do'',
      ''  grep -qsF '' @ [dquote] @ ''$2'' @ [dquote] @ '' /var/log/haproxy/current && exit 0'',
      ''  sleep 0.1'',
      ''  i=$((i + 1))'',
      ''done'',
      ''grep -rqsF '' @ [dquote] @ ''$2'' @ [dquote] @ '' /var/log/haproxy'']"

text \<open>Whether a line the proxy logs on request reached its log.\<close>

definition awaitProxyLog :: "(string list \<Rightarrow> string option) \<Rightarrow> string \<Rightarrow> bool" where
  "awaitProxyLog exec token =
     (exec [''sh'', ''-c'', BARRIER_SCRIPT, ''sh'', token, PROXY_LOG_BARRIER @ '' ?'' @ token] \<noteq> None)"

definition HEALTH_COMMAND :: "string list" where
  "HEALTH_COMMAND = [''curl'', ''-sf'', ''--max-time'', ''10'', ''--unix-socket'',
     ''/var/run/haproxy-health.sock'', ''http://localhost/metrics?scope=global'']"

definition readMetrics :: "(string list \<Rightarrow> string option) \<Rightarrow> string option" where
  "readMetrics exec = exec HEALTH_COMMAND"

definition readLogConnections :: "(string list \<Rightarrow> string option) \<Rightarrow> nat option" where
  "readLogConnections exec =
     (case exec [''cat'', ''/var/run/haproxy-log/connections''] of
        None \<Rightarrow> None
      | Some out \<Rightarrow>
          (let n = length (split_on newline_char out) - 1 in if n = 0 then None else Some n))"

definition readProxyHealth :: "(string list \<Rightarrow> string option) \<Rightarrow> string \<Rightarrow> proxy_health" where
  "readProxyHealth exec token =
     (let caughtUp = awaitProxyLog exec token in
      case readMetrics exec of
        None \<Rightarrow> \<lparr>ph_answered = False, ph_droppedLines = None, ph_logConnections = None\<rparr>
      | Some metrics \<Rightarrow>
          \<lparr>ph_answered = True, ph_droppedLines = (if caughtUp then parseDroppedLines metrics else None),
           ph_logConnections = readLogConnections exec\<rparr>)"

definition readResolverLogDeaths :: "(string list \<Rightarrow> string option) \<Rightarrow> nat option" where
  "readResolverLogDeaths exec =
     map_option (\<lambda>out. length (split_on newline_char out) - 1)
       (exec [''s6-svdt'', ''/run/service/coredns-log''])"

definition readResolverAnswered :: "(string list \<Rightarrow> string option) \<Rightarrow> bool" where
  "readResolverAnswered exec =
     (exec [''curl'', ''-sf'', ''--max-time'', ''10'', ''http://127.0.0.1:8080/health''] \<noteq> None)"

section \<open>The report data\<close>

record report_parameters =
  rp_mode :: string
  rp_allowedHttpsRules :: "string list"
  rp_allowedHttpRules :: "string list"
  rp_allowedIpRules :: "string list"
  rp_allowedTlsRules :: "string list"
  rp_allowedUrlRules :: "string list"
  rp_knownBlockedRules :: "string list"

record service_counts =
  sc_proxy :: nat
  sc_resolver :: nat

datatype engine = Universal | Inspect

record report_data =
  rd_engine :: engine
  rd_parameters :: report_parameters
  rd_tables :: reduced_timeline
  rd_logLooksPlausible :: bool
  rd_droppedLines :: nat
  rd_proxyAnswered :: bool
  rd_resolverAnswered :: bool
  rd_restarts :: service_counts
  rd_logWriterDeaths :: service_counts
  rd_startedAt :: "nat option"
  rd_timeline :: "traffic_event list"

definition merge_timeline :: "traffic_event list \<Rightarrow> traffic_event list \<Rightarrow> traffic_event list" where
  "merge_timeline proxyEvents dnsEvents =
     js_sort (\<lambda>a b. int (te_time a) - int (te_time b)) (proxyEvents @ dnsEvents)"

text \<open>\<^verbatim>\<open>Math.max(0, logConnections - 1 - restarts)\<close>.\<close>

definition log_deaths :: "nat option \<Rightarrow> nat \<Rightarrow> nat option" where
  "log_deaths logConnections restarts =
     map_option (\<lambda>n. nat (max 0 (int n - 1 - int restarts))) logConnections"

definition assembleReportData ::
    "(string \<Rightarrow> string option) \<Rightarrow> regexp_test \<Rightarrow> engine \<Rightarrow> traffic_event list \<times> proxy_log_tally \<Rightarrow>
     dns_log_scan \<Rightarrow> report_parameters \<Rightarrow> service_health \<Rightarrow> report_data acl" where
  "assembleReportData syn rt engine' proxyScan dnsScan parameters health =
     (let (proxyEvents, tally) = proxyScan;
          timeline = merge_timeline proxyEvents (ds_events dnsScan);
          proxyHealth = sh_proxy health;
          proxyLogDeaths = log_deaths (ph_logConnections proxyHealth) (pl_restarts tally) in
      map_e (\<lambda>tables.
          \<lparr>rd_engine = engine', rd_parameters = parameters, rd_tables = tables,
           rd_logLooksPlausible =
             (pl_headIntact tally \<and> ds_headIntact dnsScan \<and> pl_unparsed tally = 0 \<and> ds_unparsed dnsScan = 0 \<and>
              ph_droppedLines proxyHealth = Some 0 \<and> pl_dropped tally = 0 \<and> sh_resolverAnswered health \<and>
              pl_restarts tally = 0 \<and> ds_restarts dnsScan = 0 \<and> proxyLogDeaths = Some 0 \<and>
              sh_resolverLogDeaths health = Some 0),
           rd_droppedLines = (case ph_droppedLines proxyHealth of None \<Rightarrow> 0 | Some n \<Rightarrow> n) + pl_dropped tally,
           rd_proxyAnswered = ph_answered proxyHealth,
           rd_resolverAnswered = sh_resolverAnswered health,
           rd_restarts = \<lparr>sc_proxy = pl_restarts tally, sc_resolver = ds_restarts dnsScan\<rparr>,
           rd_logWriterDeaths =
             \<lparr>sc_proxy = (case proxyLogDeaths of None \<Rightarrow> 0 | Some n \<Rightarrow> n),
              sc_resolver = (case sh_resolverLogDeaths health of None \<Rightarrow> 0 | Some n \<Rightarrow> n)\<rparr>,
           rd_startedAt = pl_startedAt tally, rd_timeline = timeline\<rparr>)
        (reduceTimeline syn rt timeline (rp_knownBlockedRules parameters)))"

definition buildUniversalReportData ::
    "(string \<Rightarrow> string option) \<Rightarrow> regexp_test \<Rightarrow> string list \<Rightarrow> string list \<Rightarrow> report_parameters \<Rightarrow>
     service_health \<Rightarrow> report_data acl" where
  "buildUniversalReportData syn rt proxyLines dnsLines parameters health =
     (let isAudit = (rp_mode parameters = ''audit'') in
      assembleReportData syn rt Universal (scanHaproxyLog proxyLines isAudit) (scanDnsLog dnsLines isAudit)
        parameters health)"

text \<open>Whether the resolver allows a name, by the host regexes its Corefile is generated from.\<close>

definition resolverAllows ::
    "(string \<Rightarrow> string option) \<Rightarrow> regexp_test \<Rightarrow> report_parameters \<Rightarrow> (string \<Rightarrow> bool) acl" where
  "resolverAllows syn rt parameters =
     bind_e (buildUrlRules syn (Some (join_with [newline_char] (rp_allowedUrlRules parameters)))) (\<lambda>urlRules.
     bind_e (compileRuleSet syn
       \<lparr>ri_https = rp_allowedHttpsRules parameters, ri_http = rp_allowedHttpRules parameters,
        ri_url = urlRules, ri_ip = [], ri_tls = rp_allowedTlsRules parameters\<rparr>) (\<lambda>rules.
     Inr (\<lambda>name. list_ex (\<lambda>regex. rt True (''^(?:'' @ regex @ '')$'') name) (rs_resolverHosts rules))))"

definition buildInspectReportData ::
    "(string \<Rightarrow> string option) \<Rightarrow> regexp_test \<Rightarrow> string list \<Rightarrow> string list \<Rightarrow> report_parameters \<Rightarrow>
     service_health \<Rightarrow> report_data acl" where
  "buildInspectReportData syn rt proxyLines dnsLines parameters health =
     (let isAudit = (rp_mode parameters = ''audit'') in
      bind_e (if isAudit then Inr None else map_e Some (resolverAllows syn rt parameters)) (\<lambda>allows.
      assembleReportData syn rt Inspect (scanInspectLog proxyLines isAudit allows) (scanDnsLog dnsLines isAudit)
        parameters health))"

section \<open>What the blocked rows say\<close>

lemma find_index_None [simp]: "find_index P xs = None \<longleftrightarrow> (\<forall>x\<in>set xs. \<not> P x)"
  by (induction xs) auto

lemma find_index_Some: "find_index P xs = Some i \<Longrightarrow> i < length xs \<and> find P xs = Some (xs ! i)"
  by (induction xs arbitrary: i) (auto split: if_splits)

lemma find_index_either:
  "find_index (\<lambda>x. P x \<or> Q x) xs =
     (case find_index P xs of None \<Rightarrow> find_index Q xs
      | Some i \<Rightarrow> (case find_index Q xs of None \<Rightarrow> Some i | Some j \<Rightarrow> Some (min i j)))"
  by (induction xs) (auto simp del: find_index_None split: option.splits)

lemma find_index_rule: "map_option (\<lambda>i. f (xs ! i)) (find_index P xs) = map_option f (find P xs)"
  by (induction xs) (auto simp: option.map_comp comp_def)

text \<open>The rows of a group of events that share a host row, as the code means them: expected
  when every event matches a rule, by the first rule that matches any of them.\<close>

definition group_row :: "known_blocked_matcher list \<Rightarrow> traffic_event list \<Rightarrow> annotated_blocked_row" where
  "group_row ms es =
     (let entry = toHostRow (hd es); expected = (\<forall>f\<in>set es. \<exists>m\<in>set ms. km_matches m f) in
      \<lparr>le_host = le_host entry, le_port = le_port entry, le_ruleType = le_ruleType entry,
       le_reason = le_reason entry, ae_count = length es, ab_expected = expected,
       ab_expectedBy = (if expected then map_option km_rule (find (\<lambda>m. \<exists>f\<in>set es. km_matches m f) ms) else None)\<rparr>)"

definition group_held :: "known_blocked_matcher list \<Rightarrow> blocked_accumulator \<Rightarrow> traffic_event list \<Rightarrow> bool" where
  "group_held ms acc es \<longleftrightarrow>
     es \<noteq> [] \<and> ba_entry acc = toHostRow (hd es) \<and> ba_count acc = length es \<and>
     (ba_expectedAll acc \<longleftrightarrow> (\<forall>f\<in>set es. \<exists>m\<in>set ms. km_matches m f)) \<and>
     ba_bestIndex acc = find_index (\<lambda>m. \<exists>f\<in>set es. km_matches m f) ms \<and>
     ba_bestRule acc = map_option (\<lambda>i. km_rule (ms ! i)) (ba_bestIndex acc)"

lemma matches_index: "(\<exists>m\<in>set ms. P m) \<longleftrightarrow> find_index P ms \<noteq> None"
  by (metis find_index_None)

lemma group_held_first: "group_held ms (first_blocked ms e) [e]"
  by (simp add: group_held_def first_blocked_def Let_def matches_index del: find_index_None not_None_eq)

lemma best_index_snoc:
  "find_index (\<lambda>m. \<exists>f\<in>set (es @ [e]). km_matches m f) ms =
     (case find_index (\<lambda>m. \<exists>f\<in>set es. km_matches m f) ms of None \<Rightarrow> find_index (\<lambda>m. km_matches m e) ms
      | Some i \<Rightarrow> (case find_index (\<lambda>m. km_matches m e) ms of None \<Rightarrow> Some i | Some j \<Rightarrow> Some (min i j)))"
  using find_index_either [of "\<lambda>m. \<exists>f\<in>set es. km_matches m f" "\<lambda>m. km_matches m e" ms]
  by (simp add: bex_Un disj_commute)

lemma group_held_more:
  assumes "group_held ms acc es"
  shows "group_held ms (more_blocked ms acc e) (es @ [e])"
proof -
  define best where "best = find_index (\<lambda>m. \<exists>f\<in>set es. km_matches m f) ms"
  define own where "own = find_index (\<lambda>m. km_matches m e) ms"
  have a: "es \<noteq> []" "ba_entry acc = toHostRow (hd es)" "ba_count acc = length es"
    "ba_expectedAll acc \<longleftrightarrow> (\<forall>f\<in>set es. \<exists>m\<in>set ms. km_matches m f)"
    "ba_bestIndex acc = best" "ba_bestRule acc = map_option (\<lambda>i. km_rule (ms ! i)) best"
    using assms by (simp_all add: group_held_def best_def)
  have all: "(\<forall>f\<in>set (es @ [e]). \<exists>m\<in>set ms. km_matches m f) \<longleftrightarrow> ba_expectedAll acc \<and> own \<noteq> None"
    unfolding a(4) own_def matches_index [symmetric] by auto
  have step: "ba_entry (more_blocked ms acc e) = toHostRow (hd (es @ [e]))"
    "ba_count (more_blocked ms acc e) = length (es @ [e])"
    "ba_expectedAll (more_blocked ms acc e) \<longleftrightarrow> ba_expectedAll acc \<and> own \<noteq> None"
    "ba_bestIndex (more_blocked ms acc e) =
       (case best of None \<Rightarrow> own | Some i \<Rightarrow> (case own of None \<Rightarrow> Some i | Some j \<Rightarrow> Some (min i j)))"
    "ba_bestRule (more_blocked ms acc e) = map_option (\<lambda>i. km_rule (ms ! i)) (ba_bestIndex (more_blocked ms acc e))"
    using a by (simp_all add: more_blocked_def Let_def own_def [symmetric] earlier_def min_def split: option.splits)
  show ?thesis
    unfolding group_held_def best_index_snoc best_def [symmetric] own_def [symmetric] all
    using step by simp
qed

interpretation blocked: weighing_accumulator "\<lambda>e. entryKey (toHostRow e)" "first_blocked ms"
  "more_blocked ms" "group_held ms" ba_count "\<lambda>_. 1" for ms
proof unfold_locales
  show "group_held ms v es \<Longrightarrow> ba_count v = (\<Sum>_\<leftarrow>es. 1)" for v es
    by (simp add: group_held_def sum_list_triv)
qed (simp_all add: group_held_first group_held_more)

lemma blocked_collect: "fold (blocked_step ms) es [] = blocked.collect ms es"
  by (simp add: blocked.collect_def blocked_step_def [abs_def] blocked.add_def [abs_def])

lemma held_row:
  assumes "group_held ms acc es"
  shows "blocked_row acc = group_row ms es"
proof -
  have "ba_bestRule acc = map_option km_rule (find (\<lambda>m. \<exists>f\<in>set es. km_matches m f) ms)"
    using assms unfolding group_held_def by (simp only: find_index_rule)
  then show ?thesis using assms by (auto simp: group_held_def blocked_row_def group_row_def Let_def simp del: find_None_iff)
qed

text \<open>The events under one host row.\<close>

definition same_row :: "traffic_event list \<Rightarrow> traffic_event \<Rightarrow> traffic_event list" where
  "same_row events e = filter (\<lambda>f. entryKey (toHostRow f) = entryKey (toHostRow e)) events"

lemma annotate_rows:
  assumes "annotateKnownBlocked syn rt events rules = Inr rows"
  obtains ms where "buildMatchers syn rt rules = Inr ms"
    "set rows = (\<lambda>e. group_row ms (same_row events e)) ` set events"
    "sum_list (map ae_count rows) = length events"
proof -
  obtain ms where ms: "buildMatchers syn rt rules = Inr ms"
    and rows: "rows = js_sort (\<lambda>a b. compareAggregated (aggregated_entry.truncate a) (aggregated_entry.truncate b))
       (map (\<lambda>kv. blocked_row (snd kv)) (blocked.collect ms events))"
    using assms by (auto simp: annotateKnownBlocked_def blocked_collect Let_def)
  have "set rows = (\<lambda>e. group_row ms (same_row events e)) ` set events"
  proof
    show "set rows \<subseteq> (\<lambda>e. group_row ms (same_row events e)) ` set events"
    proof
      fix row assume "row \<in> set rows"
      then obtain k acc where k: "(k, acc) \<in> set (blocked.collect ms events)" "row = blocked_row acc"
        by (auto simp: rows)
      have h: "group_held ms acc (blocked.under events k)" "blocked.under events k \<noteq> []"
        using blocked.collect_holds [OF k(1)] by auto
      then obtain e where e: "e \<in> set events" "entryKey (toHostRow e) = k"
        by (auto simp: blocked.under_def filter_empty_conv)
      then have "blocked.under events k = same_row events e" by (simp add: blocked.under_def same_row_def)
      then show "row \<in> (\<lambda>e. group_row ms (same_row events e)) ` set events"
        using held_row [OF h(1)] k(2) e by auto
    qed
    show "(\<lambda>e. group_row ms (same_row events e)) ` set events \<subseteq> set rows"
    proof (rule image_subsetI)
      fix e assume "e \<in> set events"
      then have "entryKey (toHostRow e) \<in> set (map fst (blocked.collect ms events))"
        using blocked.collect_keys [of ms events] by blast
      then obtain acc where k: "(entryKey (toHostRow e), acc) \<in> set (blocked.collect ms events)" by auto
      then have "blocked_row acc = group_row ms (same_row events e)"
        using blocked.collect_holds [OF k] held_row by (simp add: blocked.under_def same_row_def)
      then show "group_row ms (same_row events e) \<in> set rows"
        using k unfolding rows by (force simp: image_iff)
    qed
  qed
  moreover have "sum_list (map ae_count rows) = length events"
  proof -
    have "sum_list (map ae_count rows) = sum_list (map (\<lambda>kv. ba_count (snd kv)) (blocked.collect ms events))"
      by (simp add: rows sum_js_sort o_def blocked_row_def)
    then show ?thesis using blocked.collect_weight [of ms events] by (simp add: sum_list_triv)
  qed
  ultimately show thesis using that ms by blast
qed

lemma aggregate_count: "sum_list (map ae_count (aggregate es)) = length es"
proof -
  have "sum_list (map ae_count (aggregate es)) = sum_list (map snd (fold (\<lambda>e. count_key (entryKey e)) es []))"
    by (simp add: aggregate_def sum_js_sort o_def row_of_key_def Let_def)
  also have "\<dots> = sum_list (map snd (map counted_row (fold aggregator_add es [])))"
    using same_counts [of es "[]"] by simp
  also have "\<dots> = sum_list (map ae_count (aggregate_stream es))"
    by (simp add: aggregate_stream_def toSortedArray_def sum_js_sort o_def counted_row_def)
  finally show ?thesis by (simp add: stream_count)
qed

section \<open>The tables hold the timeline\<close>

text \<open>An event that reaches a table.\<close>

definition tabled :: "traffic_event list \<Rightarrow> traffic_event \<Rightarrow> bool" where
  "tabled timeline e \<longleftrightarrow>
     te_action e \<notin> {Discovery, Incomplete} \<and> \<not> isRedundantDns e (connectedHosts timeline)"

lemma reduce_fold:
  "fold (reduce_step (connectedHosts timeline)) es (p, b, f) =
     (p @ map toHostRow (filter (\<lambda>e. tabled timeline e \<and> te_action e \<in> {Allow, AuditAction}) es),
      b @ filter (\<lambda>e. tabled timeline e \<and> te_action e = Block) es,
      f @ map toHostRow (filter (\<lambda>e. tabled timeline e \<and> te_action e = Failed) es))"
proof (induction es arbitrary: p b f)
  case (Cons e es)
  then show ?case by (cases "te_action e") (auto simp: reduce_step_def tabled_def)
qed simp

text \<open>The events of a timeline that a rule blocked and the report counts.\<close>

definition counted_blocks :: "traffic_event list \<Rightarrow> traffic_event list" where
  "counted_blocks timeline = filter (\<lambda>e. tabled timeline e \<and> te_action e = Block) timeline"

lemma reduceTimeline_blocked:
  assumes "reduceTimeline syn rt timeline rules = Inr t"
  shows "annotateKnownBlocked syn rt (counted_blocks timeline) rules = Inr (rt_blocked t) \<and>
    rt_blockedCount t = length (counted_blocks timeline)"
  using assms by (auto simp: reduceTimeline_def reduce_fold counted_blocks_def)

end
