(* ===== verification/ReportOutcome.thy ===== *)
theory ReportOutcome
  imports ReportBuild
begin

text \<open>
  \<^verbatim>\<open>src/core/lib/report/outcome\<close> and, under \<^verbatim>\<open>report/render\<close>,
  \<^verbatim>\<open>fold-expected-blocked.ts\<close> and \<^verbatim>\<open>verdict.ts\<close>: whether a report fails the step, what it
  says, the exit code its annotations set, the folded rows of a rule and the verdict line. A
  character outside ASCII in a text is the bytes of its UTF-8 form.
\<close>

section \<open>The outcome of the blocked connections\<close>

datatype level = LevelNone | LevelNotice | LevelWarning | LevelError

record blocked_outcome =
  bo_level :: level
  bo_shouldFail :: bool

record blocked_outcome_options =
  oo_isAudit :: bool
  oo_failOnBlocked :: bool
  oo_blockedCount :: nat
  oo_blockedRows :: "annotated_blocked_row list"
  oo_logLooksPlausible :: bool
  oo_proxyAnswered :: bool
  oo_resolverAnswered :: bool

definition outcome :: "level \<Rightarrow> bool \<Rightarrow> blocked_outcome" where
  "outcome level fails = \<lparr>bo_level = level, bo_shouldFail = fails\<rparr>"

definition determineBlockedOutcome :: "'a blocked_outcome_options_scheme \<Rightarrow> blocked_outcome" where
  "determineBlockedOutcome o' =
     (if \<not> oo_proxyAnswered o' \<or> \<not> oo_resolverAnswered o' then outcome LevelError True
      else if \<not> oo_logLooksPlausible o' then
        (if oo_isAudit o' then outcome LevelNotice False
         else if oo_failOnBlocked o' then outcome LevelError True else outcome LevelNotice False)
      else if oo_blockedCount o' = 0 then outcome LevelNone False
      else if oo_isAudit o' then outcome LevelNotice False
      else
        (let hasUnexpected = oo_blockedRows o' = [] \<or> list_ex (\<lambda>row. \<not> ab_expected row) (oo_blockedRows o') in
         if oo_failOnBlocked o' \<and> hasUnexpected then outcome LevelError True else outcome LevelNotice False))"

definition COUNT_NOUN :: string where
  "COUNT_NOUN = ''connection(s) and lookup(s)''"

definition buildBlockedMessage :: "nat \<Rightarrow> annotated_blocked_row list \<Rightarrow> string \<Rightarrow> bool \<Rightarrow> string" where
  "buildBlockedMessage blockedCount blockedRows engineLabel isAudit =
     (let base = show_nat blockedCount @ '' blocked '' @ COUNT_NOUN @ '' detected by buildcage '' @ engineLabel in
      if isAudit then base
      else
        (let unexpected = length (filter (\<lambda>row. \<not> ab_expected row) blockedRows) in
         if unexpected = length blockedRows then base
         else if unexpected = 0 then base @ '', all matched known-blocked-rules (expected)''
         else base @ '' ('' @ show_nat unexpected @ '' of '' @ show_nat (length blockedRows) @
            '' distinct blocked host(s) unmatched by known-blocked-rules)''))"

record interruptions =
  ir_proxyAnswered :: bool
  ir_resolverAnswered :: bool
  ir_droppedLines :: nat
  ir_restarts :: service_counts
  ir_logWriterDeaths :: service_counts

definition describeInterruptions :: "interruptions \<Rightarrow> string list" where
  "describeInterruptions i =
     (if ir_proxyAnswered i then [] else
       [''The proxy did not answer the report, so it stopped or hung during the run. Requests made while'' @
        '' it was down failed rather than going around it.'']) @
     (if ir_resolverAnswered i then [] else
       [''The DNS resolver did not answer the report, so it stopped or hung during the run. Lookups made'' @
        '' while it was down failed and left no line.'']) @
     (if ir_proxyAnswered i \<and> ir_resolverAnswered i then [] else
       [''The step fails for this whatever the mode or fail-on-blocked.'']) @
     (if sc_proxy (ir_restarts i) = 0 then [] else
       [''The proxy restarted '' @ show_nat (sc_proxy (ir_restarts i)) @ '' time(s) during the run.'']) @
     (if sc_resolver (ir_restarts i) = 0 then [] else
       [''The DNS resolver restarted '' @ show_nat (sc_resolver (ir_restarts i)) @ '' time(s) during the run.'']) @
     (if sc_proxy (ir_restarts i) = 0 \<and> sc_resolver (ir_restarts i) = 0 then [] else
       [''A restart loses the line of whatever was still in progress when the service stopped.'']) @
     (if sc_proxy (ir_logWriterDeaths i) = 0 then [] else
       [''The proxy'' @ [squote] @ ''s log writer died '' @ show_nat (sc_proxy (ir_logWriterDeaths i)) @
        '' time(s) during the run, losing the lines it had been sent but not yet written.'']) @
     (if sc_resolver (ir_logWriterDeaths i) = 0 then [] else
       [''The DNS resolver'' @ [squote] @ ''s log writer died '' @ show_nat (sc_resolver (ir_logWriterDeaths i)) @
        '' time(s) during the run, losing the lines it had been sent but not yet written.'']) @
     (if ir_droppedLines i = 0 then [] else
       [''The proxy dropped at least '' @ show_nat (ir_droppedLines i) @
        '' log line(s) during the run because it could not write them.''])"

definition possibleCauses :: "string list \<Rightarrow> string" where
  "possibleCauses facts = (if facts = [] then ''Either'' else ''Other causes may apply too:'')"

record described_outcome = blocked_outcome +
  do_message :: string

record describe_outcome_options = blocked_outcome_options +
  oo_droppedLines :: nat
  oo_restarts :: service_counts
  oo_logWriterDeaths :: service_counts
  oo_engineLabel :: string

definition described :: "blocked_outcome \<Rightarrow> string \<Rightarrow> described_outcome" where
  "described out message =
     \<lparr>bo_level = bo_level out, bo_shouldFail = bo_shouldFail out, do_message = message\<rparr>"

definition incomplete_message :: "describe_outcome_options \<Rightarrow> string list \<Rightarrow> string" where
  "incomplete_message o' facts =
     (let incomplete = ''buildcage '' @ oo_engineLabel o' @
            '' logs are incomplete, so this report is not a full record of what ran'';
          counted = (if oo_blockedCount o' \<noteq> 0
            then incomplete @ '' ('' @ show_nat (oo_blockedCount o') @ '' blocked '' @ COUNT_NOUN @ '' still recorded)''
            else incomplete) in
      counted @ ''. '' @ concat (map (\<lambda>fact. fact @ '' '') facts) @ possibleCauses facts @
      '' the logs don'' @ [squote] @
      ''t begin where a real run does, one carries a line the report cannot read, or the report could'' @
      '' not tell whether the proxy or a log writer lost any. A missing beginning was either removed or'' @
      '' rotated out by traffic heavy enough to fill the 100 MB of log kept, which takes a few hundred'' @
      '' thousand ordinary requests or a few thousand made as long as a request can be: the report'' @ [squote] @
      ''s own tables still count what survived, per host.'')"

definition describeBlockedOutcome :: "describe_outcome_options \<Rightarrow> described_outcome" where
  "describeBlockedOutcome o' =
     (let out = determineBlockedOutcome o';
          base = buildBlockedMessage (oo_blockedCount o') (oo_blockedRows o') (oo_engineLabel o') (oo_isAudit o') in
      if oo_logLooksPlausible o' then described out base
      else
        (let facts = describeInterruptions
               \<lparr>ir_proxyAnswered = oo_proxyAnswered o', ir_resolverAnswered = oo_resolverAnswered o',
                ir_droppedLines = oo_droppedLines o', ir_restarts = oo_restarts o',
                ir_logWriterDeaths = oo_logWriterDeaths o'\<rparr> in
         if oo_isAudit o' \<and> oo_proxyAnswered o' \<and> oo_resolverAnswered o' then
           (let incomplete = base @ '', but the logs are incomplete and this is not a full record'' in
            described out (if facts \<noteq> [] then incomplete @ ''. '' @ join_with '' '' facts else incomplete))
         else described out (incomplete_message o' facts)))"

section \<open>Everything a report annotates\<close>

definition countUndecidedRequests :: "report_data \<Rightarrow> nat" where
  "countUndecidedRequests report =
     length (filter (\<lambda>e. te_action e = Incomplete \<and> \<not> clientEndedNoise (rd_timeline report) e) (rd_timeline report))"

definition describeUndecidedRequests :: "report_data \<Rightarrow> string \<Rightarrow> described_outcome option" where
  "describeUndecidedRequests report engineLabel =
     (let count = countUndecidedRequests report in
      if count = 0 then None
      else Some (described (outcome LevelWarning False)
        (show_nat count @ '' request(s) buildcage '' @ engineLabel @ '' could not act on, shown with '' @
         [CHR 0xE2, CHR 0x9A, CHR 0xA0] @ [CHR 0xEF, CHR 0xB8, CHR 0x8F] @
         '' in Communication details. Each ended before a whole request had arrived, so no rule decided'' @
         '' it and none reached an origin: the client closed or failed the TLS handshake, its own'' @
         '' timeout expired, or this proxy ran into an error while still reading. None of them fails the'' @
         '' step. Bytes this proxy would not read as a request are not among them: those are blocked,'' @
         '' and they are in Blocked Hosts.'')))"

definition failed_total :: "report_data \<Rightarrow> nat" where
  "failed_total report = sum_list (map ae_count (rt_failed (rd_tables report)))"

definition describeFailedConnections :: "report_data \<Rightarrow> string \<Rightarrow> described_outcome option" where
  "describeFailedConnections report engineLabel =
     (let count = failed_total report in
      if count = 0 then None
      else
        (let opening =
           (if rp_mode (rd_parameters report) = ''audit''
            then show_nat count @ '' connection(s) buildcage '' @ engineLabel @ '' recorded did not complete''
            else show_nat count @ '' connection(s) failed after buildcage '' @ engineLabel @ '' allowed them'') in
         Some (described (outcome LevelNotice False)
           (opening @ '', listed with '' @ [CHR 0xE2, CHR 0x9A, CHR 0xA0] @ [CHR 0xEF, CHR 0xB8, CHR 0x8F] @
            '' under Failed Hosts. The origin broke off, answered nothing usable, or its name resolved'' @
            '' nowhere upstream: no rule blocked them and none can change the outcome, so none of them'' @
            '' fails the step.''))))"

definition outcome_options :: "report_data \<Rightarrow> bool \<Rightarrow> string \<Rightarrow> describe_outcome_options" where
  "outcome_options report failOnBlocked engineLabel =
     \<lparr>oo_isAudit = (rp_mode (rd_parameters report) = ''audit''), oo_failOnBlocked = failOnBlocked,
      oo_blockedCount = rt_blockedCount (rd_tables report), oo_blockedRows = rt_blocked (rd_tables report),
      oo_logLooksPlausible = rd_logLooksPlausible report, oo_proxyAnswered = rd_proxyAnswered report,
      oo_resolverAnswered = rd_resolverAnswered report, oo_droppedLines = rd_droppedLines report,
      oo_restarts = rd_restarts report, oo_logWriterDeaths = rd_logWriterDeaths report,
      oo_engineLabel = engineLabel\<rparr>"

definition describeReportOutcomes :: "report_data \<Rightarrow> bool \<Rightarrow> string \<Rightarrow> described_outcome list" where
  "describeReportOutcomes report failOnBlocked engineLabel =
     [describeBlockedOutcome (outcome_options report failOnBlocked engineLabel)] @
     (case describeUndecidedRequests report engineLabel of None \<Rightarrow> [] | Some u \<Rightarrow> [u]) @
     (case describeFailedConnections report engineLabel of None \<Rightarrow> [] | Some f \<Rightarrow> [f])"

text \<open>What the annotations leave behind: the annotation lines, each with its level, and the exit
  code, \<^const>\<open>None\<close> while nothing has set it.\<close>

record runner_state =
  ru_annotations :: "(level \<times> string) list"
  ru_exitCode :: "nat option"

definition annotate_one :: "described_outcome \<Rightarrow> runner_state \<Rightarrow> runner_state" where
  "annotate_one e st =
     (let st1 = (if bo_level e = LevelNone then st
                 else st\<lparr>ru_annotations := ru_annotations st @ [(bo_level e, do_message e)]\<rparr>)
      in if bo_shouldFail e then st1\<lparr>ru_exitCode := Some 1\<rparr> else st1)"

definition applyOutcomeAnnotations :: "described_outcome list \<Rightarrow> runner_state \<Rightarrow> runner_state" where
  "applyOutcomeAnnotations emissions st = fold annotate_one emissions st"

section \<open>The verdict\<close>

definition renderVerdict :: "report_data \<Rightarrow> string list \<Rightarrow> string list \<Rightarrow> string" where
  "renderVerdict report extra_caution extra_warning =
     (let rows = rt_blocked (rd_tables report);
          expected = sum_list (map ae_count (filter ab_expected rows));
          unexpected = (if rows = [] then rt_blockedCount (rd_tables report)
                        else sum_list (map ae_count (filter (\<lambda>row. \<not> ab_expected row) rows)));
          failed = failed_total report;
          undecided = countUndecidedRequests report;
          caution = (if rd_logLooksPlausible report then [] else [''report incomplete'']) @
            (if unexpected \<noteq> 0 then [show_nat unexpected @ '' blocked''] else []) @ extra_caution;
          warning = extra_warning @ (if failed \<noteq> 0 then [show_nat failed @ '' failed''] else []) @
            (if undecided \<noteq> 0 then [show_nat undecided @ '' not acted on''] else []) in
      if length caution + length warning = 0 then []
      else
        (let items = join_with ('' '' @ [CHR 0xC2, CHR 0xB7] @ '' '')
               (caution @ warning @
                (if expected \<noteq> 0 then [show_nat expected @ '' blocked as expected''] else [])) in
         ''> [!'' @ (if caution \<noteq> [] then ''CAUTION'' else ''WARNING'') @ '']'' @ [newline_char] @ ''> '' @
         items @ [newline_char, newline_char]))"

section \<open>Folding the expected rows\<close>

text \<open>A row of a host table. \<^verbatim>\<open>expected\<close> left out reads as false.\<close>

datatype host_outcome = OutcomeBlocked | OutcomeFailed

record host_table_row = annotated_blocked_row +
  ht_note :: "string option"
  ht_outcome :: "host_outcome option"

record expected_group =
  eg_rule :: string
  eg_ruleType :: string
  eg_reason :: string
  eg_hosts :: "string list"
  eg_count :: nat

text \<open>\<^verbatim>\<open>hosts.add(h)\<close> on a \<^verbatim>\<open>Set\<close>, in order.\<close>

definition set_add :: "'a \<Rightarrow> 'a list \<Rightarrow> 'a list" where
  "set_add x xs = (if x \<in> set xs then xs else xs @ [x])"

definition new_group :: "string \<Rightarrow> host_table_row \<Rightarrow> expected_group" where
  "new_group rule row =
     \<lparr>eg_rule = rule, eg_ruleType = le_ruleType row, eg_reason = le_reason row, eg_hosts = [le_host row],
      eg_count = ae_count row\<rparr>"

definition join_group :: "expected_group \<Rightarrow> host_table_row \<Rightarrow> expected_group" where
  "join_group g row = g\<lparr>eg_hosts := set_add (le_host row) (eg_hosts g), eg_count := eg_count g + ae_count row\<rparr>"

definition group_key :: "string \<Rightarrow> host_table_row \<Rightarrow> string" where
  "group_key rule row = rule @ [tab_char] @ le_ruleType row @ [tab_char] @ le_reason row"

text \<open>The rule a row is folded under, if any.\<close>

definition folded_under :: "host_table_row \<Rightarrow> string option" where
  "folded_under row = (if ab_expected row then ab_expectedBy row else None)"

definition fold_row ::
    "host_table_row \<Rightarrow> host_table_row list \<times> (string \<times> expected_group) list \<Rightarrow>
     host_table_row list \<times> (string \<times> expected_group) list" where
  "fold_row row st =
     (case st of (unmatched, groups) \<Rightarrow>
       (case folded_under row of
          None \<Rightarrow> (unmatched @ [row], groups)
        | Some rule \<Rightarrow>
            (unmatched,
             omap_update (group_key rule row)
               (\<lambda>old. case old of None \<Rightarrow> new_group rule row | Some g \<Rightarrow> join_group g row) groups)))"

definition compareGroups :: "expected_group \<Rightarrow> expected_group \<Rightarrow> int" where
  "compareGroups a b =
     (if eg_count b \<noteq> eg_count a then int (eg_count b) - int (eg_count a)
      else if str_less (eg_rule a) (eg_rule b) then -1
      else if str_less (eg_rule b) (eg_rule a) then 1 else 0)"

definition toRow :: "expected_group \<Rightarrow> host_table_row" where
  "toRow g =
     \<lparr>le_host = eg_rule g, le_port = ''-'', le_ruleType = eg_ruleType g, le_reason = eg_reason g,
      ae_count = eg_count g, ab_expected = True, ab_expectedBy = Some (eg_rule g),
      ht_note = Some (''('' @ show_nat (length (eg_hosts g)) @ '' host'' @
        (if length (eg_hosts g) = 1 then [] else ''s'') @ '')''),
      ht_outcome = None\<rparr>"

definition foldExpectedBlockedRows :: "host_table_row list \<Rightarrow> host_table_row list" where
  "foldExpectedBlockedRows rows =
     (let (unmatched, groups) = fold fold_row rows ([], []) in
      unmatched @ map toRow (js_sort compareGroups (map snd groups)))"

section \<open>When the step fails\<close>

definition fresh_runner :: runner_state where
  "fresh_runner = \<lparr>ru_annotations = [], ru_exitCode = None\<rparr>"

lemma annotate_exit: "ru_exitCode (annotate_one e st) = (if bo_shouldFail e then Some 1 else ru_exitCode st)"
  by (simp add: annotate_one_def Let_def)

lemma apply_exit:
  "ru_exitCode (applyOutcomeAnnotations es st) = (if \<exists>e\<in>set es. bo_shouldFail e then Some 1 else ru_exitCode st)"
  by (induction es arbitrary: st) (auto simp: applyOutcomeAnnotations_def annotate_exit)

lemma described_simps [simp]:
  "bo_level (described out m) = bo_level out" "bo_shouldFail (described out m) = bo_shouldFail out"
  "bo_level (outcome l b) = l" "bo_shouldFail (outcome l b) = b"
  by (simp_all add: described_def outcome_def)

lemma describe_fails: "bo_shouldFail (describeBlockedOutcome o') = bo_shouldFail (determineBlockedOutcome o')"
  by (simp add: describeBlockedOutcome_def Let_def)

lemma aside_passes:
  "describeUndecidedRequests report label = Some u \<Longrightarrow> \<not> bo_shouldFail u"
  "describeFailedConnections report label = Some f \<Longrightarrow> \<not> bo_shouldFail f"
  by (auto simp: describeUndecidedRequests_def describeFailedConnections_def Let_def split: if_splits)

lemma report_exit:
  "ru_exitCode (applyOutcomeAnnotations (describeReportOutcomes report failOnBlocked label) fresh_runner) = Some 1 \<longleftrightarrow>
     bo_shouldFail (determineBlockedOutcome (outcome_options report failOnBlocked label))"
  by (auto simp: apply_exit describeReportOutcomes_def fresh_runner_def describe_fails dest: aside_passes [OF sym]
      split: option.splits)

text \<open>A block no rule in known-blocked-rules accounts for.\<close>

definition unexpected :: "known_blocked_matcher list \<Rightarrow> traffic_event \<Rightarrow> bool" where
  "unexpected ms e \<longleftrightarrow> \<not> (\<exists>m\<in>set ms. km_matches m e)"

lemma group_expected: "ab_expected (group_row ms es) \<longleftrightarrow> (\<forall>f\<in>set es. \<not> unexpected ms f)"
  by (simp add: group_row_def unexpected_def Let_def)

lemma rows_unexpected:
  assumes "set rows = (\<lambda>e. group_row ms (same_row events e)) ` set events"
  shows "(\<exists>row\<in>set rows. \<not> ab_expected row) \<longleftrightarrow> (\<exists>e\<in>set events. unexpected ms e)"
    and "rows = [] \<longleftrightarrow> events = []"
proof -
  have "e \<in> set (same_row events e)" if "e \<in> set events" for e using that by (simp add: same_row_def)
  then show "(\<exists>row\<in>set rows. \<not> ab_expected row) \<longleftrightarrow> (\<exists>e\<in>set events. unexpected ms e)"
    unfolding assms by (auto simp: group_expected same_row_def)
  show "rows = [] \<longleftrightarrow> events = []" using assms by auto
qed

lemma assembled:
  assumes "assembleReportData syn rt eng proxyScan dnsScan parameters health = Inr report"
  shows "reduceTimeline syn rt (rd_timeline report) (rp_knownBlockedRules parameters) = Inr (rd_tables report)"
    "rd_parameters report = parameters" "rd_proxyAnswered report = ph_answered (sh_proxy health)"
    "rd_resolverAnswered report = sh_resolverAnswered health"
    "rd_logLooksPlausible report \<Longrightarrow> sh_resolverAnswered health \<and> ph_droppedLines (sh_proxy health) = Some 0"
    "rd_timeline report = merge_timeline (fst proxyScan) (ds_events dnsScan)"
  using assms by (auto simp: assembleReportData_def split_beta Let_def)

lemma tables_unexpected:
  assumes "reduceTimeline syn rt timeline rules = Inr t" and "buildMatchers syn rt rules = Inr ms"
  shows "(\<exists>row\<in>set (rt_blocked t). \<not> ab_expected row) \<longleftrightarrow> (\<exists>e\<in>set (counted_blocks timeline). unexpected ms e)"
    "rt_blocked t = [] \<longleftrightarrow> counted_blocks timeline = []" "rt_blockedCount t = length (counted_blocks timeline)"
proof -
  have "annotateKnownBlocked syn rt (counted_blocks timeline) rules = Inr (rt_blocked t)"
    and c: "rt_blockedCount t = length (counted_blocks timeline)"
    using reduceTimeline_blocked [OF assms(1)] by auto
  from annotate_rows [OF this(1)] assms(2)
  have r: "set (rt_blocked t) = (\<lambda>e. group_row ms (same_row (counted_blocks timeline) e)) ` set (counted_blocks timeline)"
    by auto
  show "(\<exists>row\<in>set (rt_blocked t). \<not> ab_expected row) \<longleftrightarrow> (\<exists>e\<in>set (counted_blocks timeline). unexpected ms e)"
    "rt_blocked t = [] \<longleftrightarrow> counted_blocks timeline = []" "rt_blockedCount t = length (counted_blocks timeline)"
    using rows_unexpected [OF r] c by auto
qed

lemma step_fails:
  assumes "assembleReportData syn rt eng proxyScan dnsScan parameters health = Inr report"
    and "buildMatchers syn rt (rp_knownBlockedRules parameters) = Inr ms"
  shows "bo_shouldFail (determineBlockedOutcome (outcome_options report failOnBlocked label)) \<longleftrightarrow>
     \<not> ph_answered (sh_proxy health) \<or> \<not> sh_resolverAnswered health \<or>
     (rp_mode parameters \<noteq> ''audit'' \<and> failOnBlocked \<and>
       (\<not> rd_logLooksPlausible report \<or> (\<exists>e\<in>set (counted_blocks (rd_timeline report)). unexpected ms e)))"
proof -
  note t = tables_unexpected [OF assembled(1) [OF assms(1)] assms(2)]
  show ?thesis
    using t unfolding determineBlockedOutcome_def outcome_options_def
    by (auto simp: assembled [OF assms(1)] list_ex_iff Let_def)
qed

text \<open>C14. The step fails exactly when a service stopped answering, or, outside audit and with
  fail-on-blocked, when the logs are not a full record or a block the tables count matches no
  known-blocked rule. Nothing else a report annotates sets the exit code.\<close>

theorem report_step_fails:
  assumes "assembleReportData syn rt eng proxyScan dnsScan parameters health = Inr report"
    and "buildMatchers syn rt (rp_knownBlockedRules parameters) = Inr ms"
  shows "ru_exitCode (applyOutcomeAnnotations (describeReportOutcomes report failOnBlocked label) fresh_runner) = Some 1 \<longleftrightarrow>
     \<not> ph_answered (sh_proxy health) \<or> \<not> sh_resolverAnswered health \<or>
     (rp_mode parameters \<noteq> ''audit'' \<and> failOnBlocked \<and>
       (\<not> rd_logLooksPlausible report \<or>
        (\<exists>e\<in>set (rd_timeline report). te_action e = Block \<and>
           \<not> isRedundantDns e (connectedHosts (rd_timeline report)) \<and> (\<forall>m\<in>set ms. \<not> km_matches m e))))"
  unfolding report_exit step_fails [OF assms]
  by (auto simp: counted_blocks_def tabled_def unexpected_def)

definition sample_report_events :: "traffic_event list" where
  "sample_report_events =
     [(bare_event 1 Block HttpsP ''b.example'')\<lparr>te_reason := Some ''not-allowed'', te_port := Some 443\<rparr>,
      (bare_event 2 Allow HttpsP ''a.example'')\<lparr>te_port := Some 443\<rparr>]"

definition sample_tally :: proxy_log_tally where
  "sample_tally = \<lparr>pl_startedAt = Some 0, pl_headIntact = True, pl_unparsed = 0, pl_restarts = 0, pl_dropped = 0\<rparr>"

definition sample_dns :: dns_log_scan where
  "sample_dns = \<lparr>ds_events = [(bare_event 1 Block DnsP ''b.example'')\<lparr>te_reason := Some ''dns-not-allowed''\<rparr>],
     ds_headIntact = True, ds_unparsed = 0, ds_restarts = 0\<rparr>"

definition sample_parameters :: "string list \<Rightarrow> report_parameters" where
  "sample_parameters known =
     \<lparr>rp_mode = ''restrict'', rp_allowedHttpsRules = [''a.example:443''], rp_allowedHttpRules = [],
      rp_allowedIpRules = [], rp_allowedTlsRules = [], rp_allowedUrlRules = [], rp_knownBlockedRules = known\<rparr>"

definition sample_health :: service_health where
  "sample_health = \<lparr>sh_proxy = \<lparr>ph_answered = True, ph_droppedLines = Some 0, ph_logConnections = Some 1\<rparr>,
     sh_resolverAnswered = True, sh_resolverLogDeaths = Some 0\<rparr>"

definition sample_build :: "string list \<Rightarrow> report_data acl" where
  "sample_build known = assembleReportData (\<lambda>_. None) (\<lambda>_. rx_matches) Universal
     (sample_report_events, sample_tally) sample_dns (sample_parameters known) sample_health"

definition sample_matchers :: "string list \<Rightarrow> known_blocked_matcher list acl" where
  "sample_matchers known = buildMatchers (\<lambda>_. None) (\<lambda>_. rx_matches) known"

lemma sample_build_ok: "sample_build [''b.example''] = Inr (projr (sample_build [''b.example'']))"
proof -
  have "\<not> isl (sample_build [''b.example''])" by code_simp
  then show ?thesis by (cases "sample_build [''b.example'']") auto
qed

lemma sample_matchers_ok: "sample_matchers [''b.example''] = Inr (projr (sample_matchers [''b.example'']))"
proof -
  have "\<not> isl (sample_matchers [''b.example''])" by code_simp
  then show ?thesis by (cases "sample_matchers [''b.example'']") auto
qed

theorem report_step_fails_witness:
  "ru_exitCode (applyOutcomeAnnotations (describeReportOutcomes (projr (sample_build [''b.example''])) True ''proxy'')
     fresh_runner) \<noteq> Some 1"
proof -
  let ?report = "projr (sample_build [''b.example''])" and ?ms = "projr (sample_matchers [''b.example''])"
  have a: "assembleReportData (\<lambda>_. None) (\<lambda>_. rx_matches) Universal (sample_report_events, sample_tally)
      sample_dns (sample_parameters [''b.example'']) sample_health = Inr ?report"
    using sample_build_ok by (simp only: sample_build_def)
  have m: "buildMatchers (\<lambda>_. None) (\<lambda>_. rx_matches) (rp_knownBlockedRules (sample_parameters [''b.example''])) = Inr ?ms"
    using sample_matchers_ok by (simp add: sample_matchers_def sample_parameters_def)
  have "rd_logLooksPlausible ?report" by code_simp
  moreover have "list_all (\<lambda>e. te_action e = Block \<longrightarrow> list_ex (\<lambda>m. km_matches m e) ?ms) (rd_timeline ?report)"
    by code_simp
  ultimately show ?thesis
    unfolding report_step_fails [OF a m] by (auto simp: sample_health_def list_all_iff list_ex_iff)
qed

section \<open>The tables and the verdict\<close>

text \<open>C16. Every event of the timeline is in exactly one table, but for the discovery of services,
  what ended before a rule could decide, and a lookup a connection covers: the counts of the
  passed, the failed and the blocked rows add up to the events that remain, each by its action.\<close>

theorem tables_hold_timeline:
  assumes "reduceTimeline syn rt timeline rules = Inr t"
  shows "sum_list (map ae_count (rt_passed t)) =
      length (filter (\<lambda>e. tabled timeline e \<and> te_action e \<in> {Allow, AuditAction}) timeline) \<and>
    sum_list (map ae_count (rt_failed t)) = length (filter (\<lambda>e. tabled timeline e \<and> te_action e = Failed) timeline) \<and>
    sum_list (map ae_count (rt_blocked t)) = rt_blockedCount t \<and>
    sum_list (map ae_count (rt_passed t)) + sum_list (map ae_count (rt_failed t)) + rt_blockedCount t =
      length (filter (tabled timeline) timeline)"
proof -
  have parts: "length (filter P xs) = length (filter (\<lambda>e. P e \<and> te_action e \<in> {Allow, AuditAction}) xs) +
      length (filter (\<lambda>e. P e \<and> te_action e = Failed) xs) + length (filter (\<lambda>e. P e \<and> te_action e = Block) xs)"
    if "\<forall>e. P e \<longrightarrow> te_action e \<notin> {Discovery, Incomplete}" for P and xs :: "traffic_event list"
    using that
  proof (induction xs)
    case (Cons e xs)
    then show ?case by (cases "te_action e") auto
  qed simp
  have t: "rt_passed t = aggregate (map toHostRow (filter (\<lambda>e. tabled timeline e \<and> te_action e \<in> {Allow, AuditAction}) timeline))"
    "rt_failed t = aggregate (map toHostRow (filter (\<lambda>e. tabled timeline e \<and> te_action e = Failed) timeline))"
    using assms by (auto simp: reduceTimeline_def reduce_fold)
  have b: "annotateKnownBlocked syn rt (counted_blocks timeline) rules = Inr (rt_blocked t)"
    "rt_blockedCount t = length (counted_blocks timeline)"
    using reduceTimeline_blocked [OF assms] by auto
  have "sum_list (map ae_count (rt_blocked t)) = rt_blockedCount t"
    using annotate_rows [OF b(1)] b(2) by metis
  then show ?thesis
    using t b(2) parts [of "tabled timeline" timeline]
    by (simp add: aggregate_count counted_blocks_def tabled_def)
qed

theorem tables_hold_timeline_witness:
  "sum_list (map ae_count (rt_blocked (rd_tables (projr (sample_build [''b.example'']))))) = 1"
proof -
  let ?report = "projr (sample_build [''b.example''])"
  have "assembleReportData (\<lambda>_. None) (\<lambda>_. rx_matches) Universal (sample_report_events, sample_tally)
      sample_dns (sample_parameters [''b.example'']) sample_health = Inr ?report"
    using sample_build_ok by (simp only: sample_build_def)
  from tables_hold_timeline [OF assembled(1) [OF this]]
  have "sum_list (map ae_count (rt_blocked (rd_tables ?report))) = rt_blockedCount (rd_tables ?report)" by blast
  also have "\<dots> = 1" by code_simp
  finally show ?thesis .
qed

lemma unexpected_count:
  assumes "reduceTimeline syn rt timeline rules = Inr t" and "buildMatchers syn rt rules = Inr ms"
  shows "(if rt_blocked t = [] then rt_blockedCount t
      else sum_list (map ae_count (filter (\<lambda>row. \<not> ab_expected row) (rt_blocked t)))) \<noteq> 0 \<longleftrightarrow>
    (\<exists>e\<in>set (counted_blocks timeline). unexpected ms e)"
proof -
  note t = tables_unexpected [OF assms]
  have "annotateKnownBlocked syn rt (counted_blocks timeline) rules = Inr (rt_blocked t)"
    using reduceTimeline_blocked [OF assms(1)] by auto
  from annotate_rows [OF this] assms(2)
  have r: "set (rt_blocked t) = (\<lambda>e. group_row ms (same_row (counted_blocks timeline) e)) ` set (counted_blocks timeline)"
    by auto
  have "ae_count row \<noteq> 0" if "row \<in> set (rt_blocked t)" for row
    using that r by (force simp: group_row_def Let_def same_row_def filter_empty_conv)
  then have "sum_list (map ae_count (filter (\<lambda>row. \<not> ab_expected row) (rt_blocked t))) \<noteq> 0 \<longleftrightarrow>
      (\<exists>row\<in>set (rt_blocked t). \<not> ab_expected row)"
    by (auto simp: sum_list_eq_0_iff)
  then show ?thesis using t by (cases "rt_blocked t = []") simp_all
qed

lemma verdict_caution:
  assumes "reduceTimeline syn rt (rd_timeline report) rules = Inr (rd_tables report)"
    and "buildMatchers syn rt rules = Inr ms"
  shows "starts_with ''> [!CAUTION]'' (renderVerdict report caution warning) \<longleftrightarrow>
      caution \<noteq> [] \<or>
      \<not> rd_logLooksPlausible report \<or> (\<exists>e\<in>set (counted_blocks (rd_timeline report)). unexpected ms e)"
    and "renderVerdict report caution warning = [] \<longleftrightarrow>
      caution = [] \<and> warning = [] \<and>
      rd_logLooksPlausible report \<and> (\<forall>e\<in>set (counted_blocks (rd_timeline report)). \<not> unexpected ms e) \<and>
      failed_total report = 0 \<and> countUndecidedRequests report = 0"
  unfolding atomize_conj using unexpected_count [OF assms]
  by (auto simp: renderVerdict_def Let_def)

text \<open>C15. With whatever items the action adds, the verdict a report opens with is a caution exactly
  when the report fails the step outside audit under fail-on-blocked, with the proxy's health as it
  is read from the proxy, or the action has a caution of its own; and it is left out exactly when
  the report does not fail the step, the action adds nothing, nothing failed and no request went
  undecided.\<close>

theorem verdict_agrees:
  assumes "assembleReportData syn rt eng proxyScan dnsScan parameters health = Inr report"
    and "sh_proxy health = readProxyHealth exec token" and "rp_mode parameters \<noteq> ''audit''"
  shows "(starts_with ''> [!CAUTION]'' (renderVerdict report caution warning) \<longleftrightarrow>
      ru_exitCode (applyOutcomeAnnotations (describeReportOutcomes report True label) fresh_runner) = Some 1 \<or>
      caution \<noteq> []) \<and>
    (renderVerdict report caution warning = [] \<longleftrightarrow>
      ru_exitCode (applyOutcomeAnnotations (describeReportOutcomes report True label) fresh_runner) \<noteq> Some 1 \<and>
      caution = [] \<and> warning = [] \<and> failed_total report = 0 \<and> countUndecidedRequests report = 0)"
proof -
  note a = assembled [OF assms(1)]
  obtain ms where ms: "buildMatchers syn rt (rp_knownBlockedRules parameters) = Inr ms"
    using a(1) annotate_rows reduceTimeline_blocked by metis
  have "rd_logLooksPlausible report \<Longrightarrow> ph_answered (sh_proxy health)"
    using a(5) assms(2) by (auto simp: readProxyHealth_def Let_def split: option.splits)
  then show ?thesis
    using verdict_caution [OF a(1) ms, of caution warning] assms(3) a(5)
    unfolding report_exit step_fails [OF assms(1) ms] by blast
qed

definition sample_exec :: "string list \<Rightarrow> string option" where
  "sample_exec command =
     (if take 1 command = [''cat''] then Some (''1'' @ [newline_char])
      else if take 1 command = [''curl''] then Some (COUNTER_NAME @ ''0'') else Some [])"

theorem verdict_agrees_witness:
  "starts_with ''> [!CAUTION]'' (renderVerdict (projr (sample_build [])) [] [''1 mount skipped''])"
proof -
  let ?report = "projr (sample_build [])"
  have "\<not> isl (sample_build [])" by code_simp
  then have a: "assembleReportData (\<lambda>_. None) (\<lambda>_. rx_matches) Universal (sample_report_events, sample_tally)
      sample_dns (sample_parameters []) sample_health = Inr ?report"
    by (cases "sample_build []") (simp_all add: sample_build_def)
  have h: "sh_proxy sample_health = readProxyHealth sample_exec ''t''" by code_simp
  have "rp_mode (sample_parameters []) \<noteq> ''audit''" by code_simp
  from verdict_agrees [OF a h this, of "[]" "[''1 mount skipped'']" "''proxy''"]
  have "starts_with ''> [!CAUTION]'' (renderVerdict ?report [] [''1 mount skipped'']) \<longleftrightarrow>
      ru_exitCode (applyOutcomeAnnotations (describeReportOutcomes ?report True ''proxy'') fresh_runner) = Some 1"
    by simp
  also have "\<dots>" by code_simp
  finally show ?thesis by blast
qed

section \<open>The folded rows\<close>

definition fold_key :: "string \<times> host_table_row \<Rightarrow> string" where
  "fold_key rr = group_key (fst rr) (snd rr)"

text \<open>What a group holds of the rows that went into it.\<close>

definition group_of :: "expected_group \<Rightarrow> (string \<times> host_table_row) list \<Rightarrow> bool" where
  "group_of g rrs \<longleftrightarrow>
     rrs \<noteq> [] \<and> eg_rule g = fst (hd rrs) \<and> eg_ruleType g = le_ruleType (snd (hd rrs)) \<and>
     eg_reason g = le_reason (snd (hd rrs)) \<and> eg_count g = sum_list (map (\<lambda>rr. ae_count (snd rr)) rrs) \<and>
     set (eg_hosts g) = (\<lambda>rr. le_host (snd rr)) ` set rrs \<and> distinct (eg_hosts g)"

interpretation folded: weighing_accumulator fold_key "\<lambda>rr. new_group (fst rr) (snd rr)"
  "\<lambda>g rr. join_group g (snd rr)" group_of eg_count "\<lambda>rr. ae_count (snd rr)"
  by unfold_locales (auto simp: group_of_def new_group_def join_group_def set_add_def hd_append)

definition matched_rows :: "host_table_row list \<Rightarrow> (string \<times> host_table_row) list" where
  "matched_rows rows = List.map_filter (\<lambda>row. map_option (\<lambda>rule. (rule, row)) (folded_under row)) rows"

lemma fold_rows:
  "fold fold_row rows (u, g) =
     (u @ filter (\<lambda>row. folded_under row = None) rows, fold folded.add (matched_rows rows) g)"
  by (induction rows arbitrary: u g)
    (auto simp: fold_row_def matched_rows_def List.map_filter_def folded.add_def fold_key_def split: option.splits)

interpretation busiest: comparator compareGroups UNIV
proof
  fix x y z :: expected_group
  show "compareGroups x y < 0 \<Longrightarrow> compareGroups y x > 0"
    "\<not> compareGroups x y < 0 \<Longrightarrow> compareGroups y x \<le> 0"
    using str_less_asym [of "eg_rule x" "eg_rule y"] by (auto simp: compareGroups_def split: if_splits)
  have *: "compareGroups a b \<le> 0 \<longleftrightarrow> eg_count b < eg_count a \<or>
      (eg_count b = eg_count a \<and> (str_less (eg_rule a) (eg_rule b) \<or> eg_rule a = eg_rule b))" for a b
    using str_less_total [of "eg_rule a" "eg_rule b"] str_less_asym [of "eg_rule a" "eg_rule b"]
    by (auto simp: compareGroups_def)
  show "compareGroups x y \<le> 0 \<Longrightarrow> compareGroups y z \<le> 0 \<Longrightarrow> compareGroups x z \<le> 0"
    using str_less_trans [of "eg_rule x" "eg_rule y" "eg_rule z"] unfolding * by auto
qed

lemma matched_count:
  "sum_list (map ae_count (filter (\<lambda>row. folded_under row = None) rows)) +
     sum_list (map (\<lambda>rr. ae_count (snd rr)) (matched_rows rows)) = sum_list (map ae_count rows)"
  by (induction rows) (auto simp: matched_rows_def List.map_filter_def split: option.splits)

text \<open>Folding keeps every row no rule claimed, first and as it is, and puts one row behind
  them per rule, kind and reason, the busiest first: it carries the sum of the counts it stands
  for and the number of distinct hosts. The counts of the table stay the same.\<close>

theorem foldExpectedBlockedRows_totals:
  "\<exists>groups. foldExpectedBlockedRows rows = filter (\<lambda>row. folded_under row = None) rows @ map toRow groups \<and>
     sorted_wrt (\<lambda>a b. compareGroups a b \<le> 0) groups \<and>
     length groups = card (fold_key ` set (matched_rows rows)) \<and>
     (\<forall>g\<in>set groups. \<exists>k. group_of g (filter (\<lambda>rr. fold_key rr = k) (matched_rows rows))) \<and>
     sum_list (map ae_count (foldExpectedBlockedRows rows)) = sum_list (map ae_count rows)"
proof -
  define m where "m = folded.collect (matched_rows rows)"
  define groups where "groups = js_sort compareGroups (map snd m)"
  have f: "foldExpectedBlockedRows rows = filter (\<lambda>row. folded_under row = None) rows @ map toRow groups"
    by (simp add: foldExpectedBlockedRows_def fold_rows groups_def m_def folded.collect_def)
  have "sum_list (map ae_count (map toRow groups)) = sum_list (map (\<lambda>rr. ae_count (snd rr)) (matched_rows rows))"
    using folded.collect_weight [of "matched_rows rows"]
    by (simp add: groups_def sum_js_sort o_def toRow_def m_def)
  then have "sum_list (map ae_count (foldExpectedBlockedRows rows)) = sum_list (map ae_count rows)"
    using matched_count [of rows] by (simp add: f)
  moreover have "length groups = card (fold_key ` set (matched_rows rows))"
    using folded.collect_keys [of "matched_rows rows"] distinct_card [of "map fst m"]
    by (simp add: groups_def m_def)
  moreover have "\<exists>k. group_of g (filter (\<lambda>rr. fold_key rr = k) (matched_rows rows))" if g: "g \<in> set groups" for g
  proof -
    obtain k where "(k, g) \<in> set (folded.collect (matched_rows rows))"
      using g by (auto simp: groups_def m_def)
    from folded.collect_holds [OF this] show ?thesis by (auto simp: folded.under_def)
  qed
  moreover have "sorted_wrt (\<lambda>a b. compareGroups a b \<le> 0) groups"
    unfolding groups_def by (rule busiest.sort_sorted) simp
  ultimately show ?thesis using f by blast
qed

definition sample_rows :: "host_table_row list" where
  "sample_rows = map (\<lambda>(h, by, n). \<lparr>le_host = h, le_port = ''443'', le_ruleType = ''HTTPS'', le_reason = ''not-allowed'',
     ae_count = n, ab_expected = (by \<noteq> None), ab_expectedBy = by, ht_note = None,
     ht_outcome = None\<rparr>)
     [(''a.t'', Some ''*.t:*'', 2), (''u'', None, 1), (''b.t'', Some ''*.t:*'', 3), (''a.t'', Some ''*.t:*'', 1)]"

theorem foldExpectedBlockedRows_totals_witness:
  "sum_list (map ae_count (foldExpectedBlockedRows sample_rows)) = 7 \<and>
   map (\<lambda>r. (le_host r, ae_count r, ht_note r)) (foldExpectedBlockedRows sample_rows) =
     [(''u'', 1, None), (''*.t:*'', 6, Some ''(2 hosts)'')]"
proof
  have "sum_list (map ae_count sample_rows) = 7" by code_simp
  then show "sum_list (map ae_count (foldExpectedBlockedRows sample_rows)) = 7"
    using foldExpectedBlockedRows_totals [of sample_rows] by metis
qed code_simp

end
