(* ===== verification/Markdown.thy ===== *)
theory Markdown
  imports ReportOutcome
begin

text \<open>
  \<^verbatim>\<open>markdown-table.ts\<close> and \<^verbatim>\<open>host-table.ts\<close> under \<^verbatim>\<open>src/core/lib/report/render\<close>, and
  \<^verbatim>\<open>elapsed-time.ts\<close>: text a request chose, put into the cells of a Markdown table. A number in
  a cell is its text, an \<^verbatim>\<open>undefined\<close> cell is \<^const>\<open>None\<close>.
\<close>

section \<open>Cells\<close>

datatype align = AlignLeft | AlignRight | AlignCenter

definition alignMarker :: "align option \<Rightarrow> string" where
  "alignMarker a =
     (case a of Some AlignRight \<Rightarrow> ''---:'' | Some AlignCenter \<Rightarrow> '':---:'' | _ \<Rightarrow> ''---'')"

text \<open>\<^verbatim>\<open>s.replace(/\r?\n/g, " ")\<close>.\<close>

fun join_lines :: "string \<Rightarrow> string" where
  "join_lines [] = []"
| "join_lines [c] = (if c = newline_char then '' '' else [c])"
| "join_lines (c # d # s) =
     (if c = newline_char then CHR '' '' # join_lines (d # s)
      else if c = cr_char \<and> d = newline_char then CHR '' '' # join_lines s
      else c # join_lines (d # s))"

definition cell_special :: "char \<Rightarrow> bool" where
  "cell_special c \<longleftrightarrow> c = backslash \<or> c \<in> set ''`[]<>|*''"

definition escapeCell :: "string option \<Rightarrow> string" where
  "escapeCell value' =
     (case value' of
        None \<Rightarrow> []
      | Some s \<Rightarrow> join_lines (concat (map (\<lambda>c. if cell_special c then [backslash, c] else [c]) s)))"

text \<open>The length of the longest run of backticks.\<close>

fun longest_run :: "nat \<Rightarrow> string \<Rightarrow> nat" where
  "longest_run n [] = n"
| "longest_run n (c # s) = (if c = CHR ''`'' then longest_run (Suc n) s else max n (longest_run 0 s))"

definition span_pad :: "string \<Rightarrow> string" where
  "span_pad text' =
     (if text' \<noteq> [] \<and> (hd text' \<in> set '' `'' \<or> last text' \<in> set '' `'') \<and> js_trim text' \<noteq> []
      then '' '' else [])"

definition codeSpan :: "string \<Rightarrow> string" where
  "codeSpan text' =
     (let fence = replicate (longest_run 0 text' + 1) (CHR ''`''); pad = span_pad text' in
      fence @ pad @ text' @ pad @ fence)"

definition codeCell :: "string option \<Rightarrow> string" where
  "codeCell value' =
     (case value' of
        None \<Rightarrow> []
      | Some s \<Rightarrow> if s = [] then []
          else codeSpan (join_lines (concat (map (\<lambda>c. if c = CHR ''|'' then [backslash, c] else [c]) s))))"

section \<open>Tables\<close>

record column_format =
  cf_key :: string
  cf_title :: string
  cf_align :: "align option"
  cf_cell :: "(string option \<Rightarrow> string) option"

definition column :: "string \<Rightarrow> string \<Rightarrow> column_format" where
  "column key title = \<lparr>cf_key = key, cf_title = title, cf_align = None, cf_cell = None\<rparr>"

definition table_line :: "string list \<Rightarrow> string" where
  "table_line cells = ''| '' @ join_with '' | '' cells @ '' |''"

definition render_cell :: "column_format \<Rightarrow> (string \<rightharpoonup> string) \<Rightarrow> string" where
  "render_cell f row = (case cf_cell f of None \<Rightarrow> escapeCell | Some cell \<Rightarrow> cell) (row (cf_key f))"

definition markdownTable :: "column_format list \<Rightarrow> (string \<rightharpoonup> string) list \<Rightarrow> string" where
  "markdownTable formats rows =
     join_with [newline_char]
       ([table_line (map cf_title formats), table_line (map (\<lambda>f. alignMarker (cf_align f)) formats)] @
        map (\<lambda>row. table_line (map (\<lambda>f. render_cell f row) formats)) rows)"

definition OUTCOME_MARK :: "host_outcome \<Rightarrow> string" where
  "OUTCOME_MARK o' =
     (case o' of
        OutcomeBlocked \<Rightarrow> [CHR 0xF0, CHR 0x9F, CHR 0x9A, CHR 0xAB, CHR '' '']
      | OutcomeFailed \<Rightarrow> [CHR 0xE2, CHR 0x9A, CHR 0xA0, CHR 0xEF, CHR 0xB8, CHR 0x8F, CHR '' ''])"

definition table_row :: "host_table_row \<Rightarrow> (string \<rightharpoonup> string)" where
  "table_row r =
     [''host'' \<mapsto> codeCell (Some (if le_port r = ''-'' then le_host r else le_host r @ '':'' @ le_port r)) @
        (case ht_note r of None \<Rightarrow> [] | Some n \<Rightarrow> if n = [] then [] else '' '' @ n),
      ''ruleType'' \<mapsto> le_ruleType r,
      ''reason'' \<mapsto> (case ht_outcome r of None \<Rightarrow> le_reason r | Some out \<Rightarrow> OUTCOME_MARK out @ le_reason r),
      ''count'' \<mapsto> show_nat (ae_count r)]"

text \<open>The column \<^verbatim>\<open>cell: String\<close>.\<close>

definition text_cell :: "string option \<Rightarrow> string" where
  "text_cell value' = (case value' of None \<Rightarrow> ''undefined'' | Some s \<Rightarrow> s)"

definition host_table_formats :: "bool \<Rightarrow> column_format list" where
  "host_table_formats showReason =
     [(column ''host'' ''Host'')\<lparr>cf_cell := Some text_cell\<rparr>, column ''ruleType'' ''Rule''] @
     (if showReason then [column ''reason'' ''Reason''] else []) @
     [(column ''count'' ''Count'')\<lparr>cf_align := Some AlignRight\<rparr>]"

definition renderHostTable :: "host_table_row list \<Rightarrow> bool \<Rightarrow> string" where
  "renderHostTable rows showReason = markdownTable (host_table_formats showReason) (map table_row rows)"

definition hostTableTruncationNote :: "bool \<Rightarrow> string" where
  "hostTableTruncationNote artifactAvailable =
     (let rest = (if artifactAvailable
        then ''the buildcage-traffic artifact uploaded for this run has every request''
        else ''set upload-traffic-artifact: true to get every request as a downloadable artifact'') in
      ''_'' @ [CHR 0xE2, CHR 0x80, CHR 0xA6] @ ''truncated: the host tables exceeded GitHub'' @ [squote] @
      ''s Job Summary size limit; '' @ rest @ ''._'' @ [newline_char])"

section \<open>Elapsed time\<close>

text \<open>A time is in milliseconds, an elapsed one may be negative.\<close>

record time_parts =
  tp_hours :: nat
  tp_minutes :: nat
  tp_seconds :: nat
  tp_ms :: nat

definition toParts :: "int \<Rightarrow> time_parts" where
  "toParts elapsedMs =
     (let totalMs = nat (max 0 elapsedMs);
          totalSeconds = totalMs div 1000;
          totalMinutes = totalSeconds div 60 in
      \<lparr>tp_hours = totalMinutes div 60, tp_minutes = totalMinutes mod 60, tp_seconds = totalSeconds mod 60,
       tp_ms = totalMs mod 1000\<rparr>)"

text \<open>\<^verbatim>\<open>String(n).padStart(width, "0")\<close>.\<close>

definition pad :: "nat \<Rightarrow> nat \<Rightarrow> string" where
  "pad n width = replicate (width - length (show_nat n)) (CHR ''0'') @ show_nat n"

definition formatElapsedVariable :: "int \<Rightarrow> string" where
  "formatElapsedVariable elapsedMs =
     (let p = toParts elapsedMs in
      if tp_hours p = 0
      then pad (tp_minutes p) 2 @ '':'' @ pad (tp_seconds p) 2 @ ''.'' @ pad (tp_ms p) 3
      else pad (tp_hours p) 2 @ '':'' @ pad (tp_minutes p) 2 @ '':'' @ pad (tp_seconds p) 2 @ ''.'' @ pad (tp_ms p) 3)"

definition formatElapsedFixed :: "int \<Rightarrow> string" where
  "formatElapsedFixed elapsedMs =
     (let p = toParts elapsedMs in
      pad (tp_hours p) 2 @ '':'' @ pad (tp_minutes p) 2 @ '':'' @ pad (tp_seconds p) 2 @ ''.'' @ pad (tp_ms p) 3)"

section \<open>A table keeps its lines\<close>

lemma join_lines_newline [simp]: "newline_char \<notin> set (join_lines s)"
  by (induction s rule: join_lines.induct) auto

lemma codeSpan_newline: "newline_char \<notin> set s \<Longrightarrow> newline_char \<notin> set (codeSpan s)"
  by (auto simp: codeSpan_def span_pad_def Let_def)

lemma cell_newline [simp]: "newline_char \<notin> set (escapeCell v)" "newline_char \<notin> set (codeCell v)"
  by (auto simp: escapeCell_def codeCell_def codeSpan_newline split: option.splits)

lemma join_with_set: "set (join_with sep ws) \<subseteq> set sep \<union> (\<Union>w\<in>set ws. set w)"
  by (induction sep ws rule: join_with.induct) auto

lemma table_line_newline:
  "\<forall>c\<in>set cells. newline_char \<notin> set c \<Longrightarrow> newline_char \<notin> set (table_line cells)"
  using join_with_set [of "'' | ''" cells] by (auto simp: table_line_def)

lemma alignMarker_newline [simp]: "newline_char \<notin> set (alignMarker a)"
  by (auto simp: alignMarker_def split: option.splits align.splits)

text \<open>A column whose cells cannot break a line: it escapes, it is a code cell, or it shows what
  a row holds and that breaks none.\<close>

definition unbroken :: "column_format \<Rightarrow> (string \<rightharpoonup> string) list \<Rightarrow> bool" where
  "unbroken f rows \<longleftrightarrow> newline_char \<notin> set (cf_title f) \<and>
     (cf_cell f \<in> {None, Some codeCell} \<or> (\<forall>row\<in>set rows. newline_char \<notin> set (render_cell f row)))"

lemma unbroken_cell: "unbroken f rows \<Longrightarrow> row \<in> set rows \<Longrightarrow> newline_char \<notin> set (render_cell f row)"
  by (auto simp: unbroken_def render_cell_def)

lemma markdownTable_split:
  assumes "\<forall>f\<in>set formats. unbroken f rows"
  shows "split_on newline_char (markdownTable formats rows) =
    table_line (map cf_title formats) # table_line (map (\<lambda>f. alignMarker (cf_align f)) formats) #
    map (\<lambda>row. table_line (map (\<lambda>f. render_cell f row) formats)) rows"
proof -
  have titles: "\<forall>f\<in>set formats. newline_char \<notin> set (cf_title f)" using assms by (auto simp: unbroken_def)
  have cells: "\<forall>f\<in>set formats. newline_char \<notin> set (render_cell f row)" if "row \<in> set rows" for row
    using assms unbroken_cell [OF _ that] by blast
  show ?thesis unfolding markdownTable_def
    by (subst split_on_join) (use titles cells in \<open>auto intro!: table_line_newline\<close>)
qed

lemma mark_newline [simp]: "newline_char \<notin> set (OUTCOME_MARK out)"
  by (cases out) (simp_all add: OUTCOME_MARK_def)

text \<open>C34. Whatever host, reason and rule type an entry has, the host table has one line for each
  row under its two heading lines, and each line is the cells of its row: no line feed of a text a request
  chose adds a line to a table, and no note of a row holds one.\<close>

theorem renderHostTable_lines:
  assumes "\<forall>r\<in>set rows. case ht_note r of None \<Rightarrow> True | Some n \<Rightarrow> newline_char \<notin> set n"
  shows "split_on newline_char (renderHostTable rows showReason) =
    table_line (map cf_title (host_table_formats showReason)) #
    table_line (map (\<lambda>f. alignMarker (cf_align f)) (host_table_formats showReason)) #
    map (\<lambda>r. table_line (map (\<lambda>f. render_cell f (table_row r)) (host_table_formats showReason))) rows"
proof -
  have "newline_char \<notin> set (the (table_row r ''host''))" if "r \<in> set rows" for r
    using assms that by (auto simp: table_row_def split: option.splits)
  then have "\<forall>f\<in>set (host_table_formats showReason). unbroken f (map table_row rows)"
    by (auto simp: host_table_formats_def unbroken_def column_def render_cell_def text_cell_def table_row_def)
  then show ?thesis unfolding renderHostTable_def by (simp add: markdownTable_split o_def)
qed

theorem renderHostTable_lines_witness:
  "length (split_on newline_char (renderHostTable
     [(hd sample_rows)\<lparr>le_host := ''a|b'' @ [newline_char] @ ''| c'', ht_outcome := Some OutcomeBlocked\<rparr>] True)) = 3"
proof -
  let ?rows = "[(hd sample_rows)\<lparr>le_host := ''a|b'' @ [newline_char] @ ''| c'', ht_outcome := Some OutcomeBlocked\<rparr>]"
  have "\<forall>r\<in>set ?rows. case ht_note r of None \<Rightarrow> True | Some n \<Rightarrow> newline_char \<notin> set n"
    by (simp add: sample_rows_def)
  from renderHostTable_lines [OF this, of True] show ?thesis by simp
qed

section \<open>A code span reads back\<close>

abbreviation tick :: char where
  "tick \<equiv> CHR 0x60"

text \<open>How CommonMark reads a code span: an opening run of backticks, the text up to the first run
  of the same length, and one space dropped from each end where both have one and the text is
  not all spaces.\<close>

function span_close :: "nat \<Rightarrow> string \<Rightarrow> (string \<times> string) option" where
  "span_close n s =
     (if s = [] then None
      else if hd s = tick then
        (let run = takeWhile (\<lambda>c. c = tick) s; rest = dropWhile (\<lambda>c. c = tick) s in
         if length run = n then Some ([], rest)
         else map_option (\<lambda>(t, r). (run @ t, r)) (span_close n rest))
      else map_option (\<lambda>(t, r). (hd s # t, r)) (span_close n (tl s)))"
  by pat_completeness auto
termination
  by (relation "measure (\<lambda>(n, s). length s)")
    (auto simp: le_imp_less_Suc length_dropWhile_le neq_Nil_conv)

declare span_close.simps [simp del]

definition span_strip :: "string \<Rightarrow> string" where
  "span_strip s =
     (if s \<noteq> [] \<and> hd s = CHR '' '' \<and> last s = CHR '' '' \<and> \<not> list_all (\<lambda>c. c = CHR '' '') s
      then butlast (tl s) else s)"

definition read_span :: "string \<Rightarrow> (string \<times> string) option" where
  "read_span s =
     (let run = takeWhile (\<lambda>c. c = tick) s in
      map_option (\<lambda>(t, r). (span_strip t, r)) (span_close (length run) (dropWhile (\<lambda>c. c = tick) s)))"

lemma longest_run_ge: "n \<le> longest_run n s"
proof (induction s arbitrary: n)
  case (Cons c s)
  show ?case using Cons [of "Suc n"] by simp
qed simp

lemma longest_run_ticks: "longest_run n (replicate m tick @ s) = longest_run (n + m) s"
  by (induction m arbitrary: n) auto

lemma longest_run_break:
  assumes "s \<noteq> []" "hd s \<noteq> tick"
  shows "longest_run m s = max m (longest_run 0 s)"
  using assms by (cases s) auto

lemma takeWhile_ticks: "hd s \<noteq> tick \<Longrightarrow> s \<noteq> [] \<Longrightarrow> takeWhile (\<lambda>c. c = tick) (replicate m tick @ s) = replicate m tick"
  "hd s \<noteq> tick \<Longrightarrow> s \<noteq> [] \<Longrightarrow> dropWhile (\<lambda>c. c = tick) (replicate m tick @ s) = s"
  by (induction m) (cases s, auto)+

lemma span_close_fence:
  assumes "longest_run 0 s < n" "s = [] \<or> last s \<noteq> tick"
  shows "span_close n (s @ replicate n tick) = Some (s, [])"
  using assms
proof (induction "length s" arbitrary: s rule: less_induct)
  case less
  have n: "n > 0" using less.prems(1) by simp
  consider "s = []" | c t where "s = c # t" "c \<noteq> tick" | "s \<noteq> []" "hd s = tick" by (cases s) auto
  then show ?case
  proof cases
    case 1
    then show ?thesis using n by (cases n) (simp_all add: span_close.simps Let_def)
  next
    case 2
    then have "span_close n (t @ replicate n tick) = Some (t, [])"
      using less.prems by (intro less.hyps) auto
    then show ?thesis using 2 by (simp add: span_close.simps [of n "c # t @ replicate n tick"])
  next
    case 3
    define run where "run = length (takeWhile (\<lambda>c. c = tick) s)"
    define t where "t = dropWhile (\<lambda>c. c = tick) s"
    have tw: "takeWhile (\<lambda>c. c = tick) s = replicate run tick"
      unfolding run_def by (rule replicate_length_same [symmetric]) (auto dest: set_takeWhileD)
    then have s: "s = replicate run tick @ t" 
      using takeWhile_dropWhile_id [of "\<lambda>c. c = tick" s] by (simp add: t_def tw)
    have t: "t \<noteq> []"
    proof
      assume "t = []"
      then have r: "s = replicate run tick" using s by simp
      then have "run \<noteq> 0" using 3 by auto
      then have "last s = tick" unfolding r by (simp add: last_replicate)
      then show False using less.prems(2) 3 by simp
    qed
    then have ht: "hd t \<noteq> tick" unfolding t_def using hd_dropWhile by blast
    have run: "run > 0" unfolding run_def using 3 by (cases s) auto
    have longest: "longest_run 0 s = max run (longest_run 0 t)"
      unfolding s longest_run_ticks using longest_run_break [OF t ht, of run] by simp
    have "span_close n (t @ replicate n tick) = Some (t, [])"
      using less.prems longest s t run by (intro less.hyps) auto
    moreover have tw': "takeWhile (\<lambda>c. c = tick) (s @ replicate n tick) = replicate run tick"
      "dropWhile (\<lambda>c. c = tick) (s @ replicate n tick) = t @ replicate n tick"
      using takeWhile_ticks [of "t @ replicate n tick" run] t ht by (simp_all add: s)
    moreover have "run \<noteq> n" using longest less.prems(1) by simp
    then have "span_close n (s @ replicate n tick) =
        map_option (\<lambda>(u, r). (replicate run tick @ u, r)) (span_close n (t @ replicate n tick))"
      by (subst span_close.simps) (simp add: 3 tw')
    ultimately show ?thesis using s by simp
  qed
qed

lemma longest_run_pad: "longest_run 0 (span_pad s @ s @ span_pad s) = longest_run 0 s"
proof -
  have "longest_run n (s @ '' '') = longest_run n s" for n
    by (induction s arbitrary: n) auto
  then show ?thesis by (simp add: span_pad_def)
qed

text \<open>A text that no span can hold as it is: blank, with a space at both ends and another blank.\<close>

definition blank_ends :: "string \<Rightarrow> bool" where
  "blank_ends s \<longleftrightarrow> js_trim s = [] \<and> s \<noteq> [] \<and> hd s = CHR '' '' \<and> last s = CHR '' '' \<and>
     \<not> list_all (\<lambda>c. c = CHR '' '') s"

lemma trim_blank: "js_trim s = [] \<Longrightarrow> list_all js_space s"
proof -
  assume "js_trim s = []"
  then have "dropWhile js_space (rev (dropWhile js_space s)) = []" by (simp add: js_trim_def)
  then have "\<forall>c\<in>set (dropWhile js_space s). js_space c" by (simp add: dropWhile_eq_Nil_conv)
  moreover have "dropWhile js_space s = [] \<or> \<not> js_space (hd (dropWhile js_space s))"
    using hd_dropWhile by blast
  ultimately have "dropWhile js_space s = []" by (metis hd_in_set)
  then show ?thesis by (simp add: dropWhile_eq_Nil_conv list_all_iff)
qed

text \<open>C33. A code span a cell is given reads back as the text it was made of, whatever backticks
  the text holds, where it is neither empty nor white space of several kinds between two spaces, so a host or URL prints as itself.\<close>

theorem codeSpan_reads:
  assumes "text' \<noteq> []" "\<not> blank_ends text'"
  shows "read_span (codeSpan text') = Some (text', [])"
proof -
  let ?n = "longest_run 0 text' + 1" and ?t = "span_pad text' @ text' @ span_pad text'"
  have blank: "tick \<notin> set text'" if "js_trim text' = []"
    using trim_blank [OF that] by (auto simp: list_all_iff js_space_def)
  have free: "hd text' \<noteq> tick \<and> last text' \<noteq> tick" if "tick \<notin> set text'"
    using that assms(1) by (metis hd_in_set last_in_set)
  have ends: "hd ?t \<noteq> tick" "last ?t \<noteq> tick" "?t \<noteq> []"
    using assms(1) blank free by (auto simp: span_pad_def hd_append)
  define u where "u = ?t"
  have "codeSpan text' = replicate ?n tick @ (u @ replicate ?n tick)"
    by (simp add: codeSpan_def Let_def u_def)
  moreover have u: "hd (u @ replicate ?n tick) \<noteq> tick" "u @ replicate ?n tick \<noteq> []"
    using ends unfolding u_def [symmetric] by (simp_all add: hd_append)
  ultimately have "dropWhile (\<lambda>c. c = tick) (codeSpan text') = ?t @ replicate ?n tick"
    "takeWhile (\<lambda>c. c = tick) (codeSpan text') = replicate ?n tick"
    using takeWhile_ticks [OF u, of ?n] by (simp_all only: u_def)
  moreover have "span_close ?n (?t @ replicate ?n tick) = Some (?t, [])"
    using longest_run_pad [of text'] ends by (intro span_close_fence) simp_all
  moreover have "span_strip ?t = text'"
  proof (cases "span_pad text' = []")
    case True
    then show ?thesis using assms by (auto simp: span_strip_def span_pad_def blank_ends_def split: if_splits)
  next
    case False
    then have "span_pad text' = '' ''" "js_trim text' \<noteq> []" by (auto simp: span_pad_def split: if_splits)
    moreover have "\<not> list_all (\<lambda>c. c = CHR '' '') text'"
    proof
      assume "list_all (\<lambda>c. c = CHR '' '') text'"
      then have "list_all js_space text'" by (rule list.pred_mono_strong) simp
      then have "dropWhile js_space text' = []" unfolding dropWhile_eq_Nil_conv list_all_iff .
      then have "js_trim text' = []" by (simp only: js_trim_def rev.simps dropWhile.simps)
      then show False using \<open>js_trim text' \<noteq> []\<close> by simp
    qed
    ultimately show ?thesis by (simp add: span_strip_def)
  qed
  ultimately show ?thesis by (simp add: read_span_def Let_def)
qed

theorem codeSpan_reads_witness:
  "read_span (codeSpan (''a'' @ replicate 2 tick)) = Some (''a'' @ replicate 2 tick, []) \<and>
   codeSpan (''a'' @ replicate 2 tick) = replicate 3 tick @ '' a'' @ replicate 2 tick @ '' '' @ replicate 3 tick"
proof
  have "\<not> blank_ends (''a'' @ replicate 2 tick)" by code_simp
  then show "read_span (codeSpan (''a'' @ replicate 2 tick)) = Some (''a'' @ replicate 2 tick, [])"
    by (intro codeSpan_reads) simp
qed code_simp

end
