(* ===== verification/RestrictExample.thy ===== *)
theory RestrictExample
  imports Markdown UrlRules
begin

text \<open>
  \<^verbatim>\<open>inspect-example.ts\<close>, \<^verbatim>\<open>universal-example.ts\<close> and \<^verbatim>\<open>restrict-example.ts\<close> under
  \<^verbatim>\<open>src/core/lib/report/render\<close>: the rules an audit run proposes for a restrict run, and the
  step they are shown in. An option left out is \<^const>\<open>None\<close>, a list left out is empty.
\<close>

section \<open>What a request asks for\<close>

definition METHOD_ORDER :: "string list" where
  "METHOD_ORDER = [''GET'', ''HEAD'', ''POST'', ''PUT'', ''PATCH'', ''DELETE'', ''OPTIONS'']"

record parsed_request =
  pr_origin :: string
  pr_method :: string
  pr_path :: string

datatype request_part = PartMethod | PartHost | PartPath

record left_out_request =
  lo_method :: string
  lo_url :: string
  lo_part :: request_part

text \<open>\<^verbatim>\<open>/^[A-Z]+$/\<close>.\<close>

definition LITERAL_METHOD :: "string \<Rightarrow> bool" where
  "LITERAL_METHOD m \<longleftrightarrow> m \<noteq> [] \<and> list_all is_upper m"

text \<open>\<^verbatim>\<open>/^[A-Za-z0-9_-]+(?:\.[A-Za-z0-9_-]+)*$/\<close>.\<close>

definition host_char :: "char \<Rightarrow> bool" where
  "host_char c \<longleftrightarrow> is_alpha c \<or> is_digit c \<or> c \<in> set ''_-''"

definition LITERAL_HOST :: "string \<Rightarrow> bool" where
  "LITERAL_HOST host \<longleftrightarrow>
     list_all (\<lambda>label. label \<noteq> [] \<and> list_all host_char label) (split_on (CHR ''.'') host)"

text \<open>\<^verbatim>\<open>/^(https?):\/\/([^/]*)([^?#]*)/\<close>: the scheme, the authority and the path.\<close>

definition split_request_url :: "string \<Rightarrow> (url_scheme \<times> string \<times> string) option" where
  "split_request_url url =
     (let parts = (\<lambda>scheme rest.
            (scheme, takeWhile (\<lambda>c. c \<noteq> CHR ''/'') rest,
             takeWhile (\<lambda>c. c \<noteq> CHR ''?'' \<and> c \<noteq> CHR ''#'') (dropWhile (\<lambda>c. c \<noteq> CHR ''/'') rest))) in
      if starts_with ''https://'' url then Some (parts Https (drop 8 url))
      else if starts_with ''http://'' url then Some (parts Http (drop 7 url))
      else None)"

definition request_part_of :: "string \<Rightarrow> string \<Rightarrow> string \<Rightarrow> request_part option" where
  "request_part_of meth host path =
     (if \<not> LITERAL_METHOD meth then Some PartMethod
      else if \<not> LITERAL_HOST host then Some PartHost
      else if CHR ''*'' \<in> set path then Some PartPath
      else None)"

text \<open>\<^verbatim>\<open>`${scheme}://${host}`\<close>, with the port where the scheme does not imply it.\<close>

definition origin_of :: "url_scheme \<Rightarrow> string \<Rightarrow> string \<Rightarrow> string" where
  "origin_of scheme host port =
     (if port = DEFAULT_PORT scheme then scheme_text scheme @ host
      else scheme_text scheme @ host @ '':'' @ port)"

text \<open>\<^const>\<open>None\<close> is \<^verbatim>\<open>null\<close>.\<close>

definition parseRequest :: "traffic_event \<Rightarrow> (parsed_request + left_out_request) option" where
  "parseRequest request =
     (case (te_url request, te_method request, te_port request) of
        (Some url, Some meth, Some port) \<Rightarrow>
          (case split_request_url url of
             None \<Rightarrow> None
           | Some (scheme, authority, target) \<Rightarrow>
               (let host = fst (splitHostPort authority);
                    path = (if target = [] then ''/'' else target) in
                case request_part_of meth host path of
                  Some part \<Rightarrow>
                    Some (Inr \<lparr>lo_method = meth, lo_url = scheme_text scheme @ authority @ path, lo_part = part\<rparr>)
                | None \<Rightarrow>
                    Some (Inl \<lparr>pr_origin = origin_of scheme host (show_nat port), pr_method = meth, pr_path = path\<rparr>)))
      | _ \<Rightarrow> None)"

section \<open>The rules\<close>

text \<open>The longest common prefix, as the inner loop of the code finds it.\<close>

fun common_prefix :: "string list \<Rightarrow> string list \<Rightarrow> string list" where
  "common_prefix (x # xs) (y # ys) = (if x = y then x # common_prefix xs ys else [])"
| "common_prefix _ _ = []"

definition path_segments :: "string \<Rightarrow> string list" where
  "path_segments p = drop 1 (split_on (CHR ''/'') p)"

definition commonPrefixSegments :: "string list \<Rightarrow> string list" where
  "commonPrefixSegments paths =
     (let split = map path_segments paths in foldl common_prefix (hd split) (tl split))"

text \<open>\<^verbatim>\<open>strings.sort()\<close>.\<close>

definition compare_text :: "string \<Rightarrow> string \<Rightarrow> int" where
  "compare_text a b = (if str_less a b then -1 else if a = b then 0 else 1)"

definition pathPatternsFor :: "string list \<Rightarrow> string list" where
  "pathPatternsFor paths =
     (let distinct' = js_sort compare_text (unique_first paths) in
      if length distinct' = 0 then []
      else if length distinct' = 1 then distinct'
      else
        (let prefix' = commonPrefixSegments distinct' in
         if prefix' = [] then [''/**'']
         else
           (let base = ''/'' @ join_with ''/'' prefix'; patterns = [base @ ''/**''] in
            if base \<in> set distinct' then base # patterns else patterns)))"

definition compare_methods :: "string \<Rightarrow> string \<Rightarrow> int" where
  "compare_methods a b =
     (case (find_index (\<lambda>m. m = a) METHOD_ORDER, find_index (\<lambda>m. m = b) METHOD_ORDER) of
        (Some i, Some j) \<Rightarrow> int i - int j
      | (Some i, None) \<Rightarrow> -1
      | (None, Some j) \<Rightarrow> 1
      | (None, None) \<Rightarrow> if str_less a b then -1 else 1)"

definition sortMethods :: "string list \<Rightarrow> string list" where
  "sortMethods methods = js_sort compare_methods (unique_first methods)"

record origin_method =
  om_origin :: string
  om_method :: string
  om_paths :: "string list"

record origin_pattern =
  op_origin :: string
  op_pattern :: string
  op_methods :: "string list"

definition request_key :: "parsed_request \<Rightarrow> string" where
  "request_key p = pr_origin p @ [tab_char] @ pr_method p"

definition first_request :: "parsed_request \<Rightarrow> origin_method" where
  "first_request p = \<lparr>om_origin = pr_origin p, om_method = pr_method p, om_paths = [pr_path p]\<rparr>"

definition more_request :: "origin_method \<Rightarrow> parsed_request \<Rightarrow> origin_method" where
  "more_request g p = g\<lparr>om_paths := om_paths g @ [pr_path p]\<rparr>"

definition add_request :: "parsed_request \<Rightarrow> (string \<times> origin_method) list \<Rightarrow> (string \<times> origin_method) list" where
  "add_request p m =
     omap_update (request_key p) (\<lambda>old. case old of None \<Rightarrow> first_request p | Some g \<Rightarrow> more_request g p) m"

text \<open>An origin, a method and one pattern of its paths.\<close>

type_synonym method_pattern = "string \<times> string \<times> string"

definition pattern_key :: "method_pattern \<Rightarrow> string" where
  "pattern_key omp = (case omp of (origin, meth, pattern) \<Rightarrow> origin @ [tab_char] @ pattern)"

definition first_pattern :: "method_pattern \<Rightarrow> origin_pattern" where
  "first_pattern omp =
     (case omp of (origin, meth, pattern) \<Rightarrow> \<lparr>op_origin = origin, op_pattern = pattern, op_methods = [meth]\<rparr>)"

definition more_pattern :: "origin_pattern \<Rightarrow> method_pattern \<Rightarrow> origin_pattern" where
  "more_pattern entry omp = entry\<lparr>op_methods := op_methods entry @ [fst (snd omp)]\<rparr>"

definition add_pattern :: "method_pattern \<Rightarrow> (string \<times> origin_pattern) list \<Rightarrow> (string \<times> origin_pattern) list" where
  "add_pattern omp m =
     omap_update (pattern_key omp) (\<lambda>old. case old of None \<Rightarrow> first_pattern omp | Some e \<Rightarrow> more_pattern e omp) m"

definition patterns_of :: "origin_method \<Rightarrow> method_pattern list" where
  "patterns_of g = map (\<lambda>pattern. (om_origin g, om_method g, pattern)) (pathPatternsFor (om_paths g))"

definition compare_patterns :: "origin_pattern \<Rightarrow> origin_pattern \<Rightarrow> int" where
  "compare_patterns a b =
     (if str_less (op_origin a) (op_origin b) then -1
      else if str_less (op_origin b) (op_origin a) then 1
      else if str_less (op_pattern a) (op_pattern b) then -1 else 1)"

definition rule_line :: "origin_pattern \<Rightarrow> string" where
  "rule_line e = join_with ''|'' (sortMethods (op_methods e)) @ '' '' @ op_origin e @ op_pattern e"

definition ruleLinesFrom :: "parsed_request list \<Rightarrow> string list" where
  "ruleLinesFrom requests =
     (let byOriginMethod = fold add_request requests [];
          byPattern = fold add_pattern (concat (map (\<lambda>kg. patterns_of (snd kg)) byOriginMethod)) [] in
      map rule_line (js_sort compare_patterns (map snd byPattern)))"

text \<open>\<^verbatim>\<open>leftOut.set(key, value)\<close>.\<close>

definition add_left_out ::
    "left_out_request \<Rightarrow> (string \<times> left_out_request) list \<Rightarrow> (string \<times> left_out_request) list" where
  "add_left_out l m = omap_update (lo_method l @ '' '' @ lo_url l) (\<lambda>_. l) m"

definition partition_step ::
    "traffic_event \<Rightarrow> parsed_request list \<times> (string \<times> left_out_request) list \<Rightarrow>
     parsed_request list \<times> (string \<times> left_out_request) list" where
  "partition_step request st =
     (case st of (writable, leftOut) \<Rightarrow>
        if te_action request = Block then st
        else (case parseRequest request of
            None \<Rightarrow> st
          | Some (Inr l) \<Rightarrow> (writable, add_left_out l leftOut)
          | Some (Inl p) \<Rightarrow> (writable @ [p], leftOut)))"

definition partitionRequests :: "traffic_event list \<Rightarrow> parsed_request list \<times> left_out_request list" where
  "partitionRequests requests =
     (let (writable, leftOut) = fold partition_step requests ([], []) in (writable, map snd leftOut))"

definition buildUrlRuleLines :: "traffic_event list \<Rightarrow> string list" where
  "buildUrlRuleLines requests = ruleLinesFrom (fst (partitionRequests requests))"

section \<open>The step they are shown in\<close>

record example_step =
  es_stepName :: "string option"
  es_actionVersion :: "string option"
  es_runCommand :: "string option"
  es_extraInputs :: "string list"

text \<open>A line of the snippet, ended.\<close>

definition ended :: "string \<Rightarrow> string" where
  "ended line = line @ [newline_char]"

definition usesLine :: "string \<Rightarrow> string option \<Rightarrow> string option \<Rightarrow> string" where
  "usesLine actionRepo actionRef actionVersion =
     ended (''  uses: '' @ actionRepo @ ''@'' @ (case actionRef of None \<Rightarrow> ''undefined'' | Some r \<Rightarrow> r) @
       (case actionVersion of None \<Rightarrow> [] | Some v \<Rightarrow> if v = [] then [] else '' # '' @ v))"

definition exampleStepHead :: "string \<Rightarrow> string option \<Rightarrow> example_step \<Rightarrow> string" where
  "exampleStepHead actionRepo actionRef step =
     ended (''- name: '' @ (case es_stepName step of None \<Rightarrow> ''Start Buildcage'' | Some n \<Rightarrow> n)) @
     usesLine actionRepo actionRef (es_actionVersion step) @
     ended ''  with:''"

text \<open>\<^verbatim>\<open>s.replace(/\r?\n$/, "")\<close>.\<close>

definition drop_last_newline :: "string \<Rightarrow> string" where
  "drop_last_newline s =
     (if s \<noteq> [] \<and> last s = newline_char then
        (let t = butlast s in if t \<noteq> [] \<and> last t = cr_char then butlast t else t)
      else s)"

definition exampleStepTail :: "example_step \<Rightarrow> string" where
  "exampleStepTail step =
     concat (map (\<lambda>line. ended (''    '' @ line)) (es_extraInputs step)) @
     (case es_runCommand step of
        None \<Rightarrow> []
      | Some runCommand \<Rightarrow>
          if runCommand = [] then []
          else
            (let lines = split_lines (drop_last_newline runCommand);
                 indicator = (case find (\<lambda>line. line \<noteq> []) lines of
                   Some line \<Rightarrow> if starts_with '' '' line then ''|2'' else ''|''
                 | None \<Rightarrow> ''|'') in
             ended (''    run: '' @ indicator) @ concat (map (\<lambda>line. ended (''      '' @ line)) lines)))"

definition STEP_INDENT :: string where
  "STEP_INDENT = ''      ''"

definition restrictExampleBlock :: "string \<Rightarrow> string option \<Rightarrow> string option \<Rightarrow> string" where
  "restrictExampleBlock yaml appendix footnote =
     (let indented = join_with [newline_char]
        (map (\<lambda>line. if line \<noteq> [] then STEP_INDENT @ line else line) (split_on newline_char yaml)) in
      ended ''<details>'' @
      ended (''<summary>'' @ [CHR 0xF0, CHR 0x9F, CHR 0x9B, CHR 0xA1, CHR 0xEF, CHR 0xB8, CHR 0x8F] @
        '' Switch to restrict mode</summary>'') @ ended [] @
      ended ''```yaml'' @ indented @ ended ''```'' @ ended [] @
      (case appendix of None \<Rightarrow> [] | Some a \<Rightarrow> a) @
      (case footnote of None \<Rightarrow> []
       | Some f \<Rightarrow> if f = [] then [] else ended (''<sub>*'' @ f @ ''*</sub>'') @ ended []) @
      ended ''</details>'')"

definition LEFT_OUT_LIMIT :: nat where
  "LEFT_OUT_LIMIT = 20"

fun part_text :: "request_part \<Rightarrow> string" where
  "part_text PartMethod = ''method''"
| "part_text PartHost = ''host''"
| "part_text PartPath = ''path''"

definition leftOutSection :: "left_out_request list \<Rightarrow> string" where
  "leftOutSection leftOut =
     (let shown = take LEFT_OUT_LIMIT leftOut in
      ended (''Left out of the rules above: a rule would read part of each request as a pattern, '' @
        ''and so permit more than was sent.'') @ ended [] @
      markdownTable
        [(column ''method'' ''Method'')\<lparr>cf_cell := Some codeCell\<rparr>, (column ''url'' ''URL'')\<lparr>cf_cell := Some codeCell\<rparr>,
         column ''part'' ''Read as a pattern'']
        (map (\<lambda>r. [''method'' \<mapsto> lo_method r, ''url'' \<mapsto> lo_url r, ''part'' \<mapsto> part_text (lo_part r)]) shown) @
      ended [] @ ended [] @
      (if length leftOut > length shown
       then ended ([CHR 0xE2, CHR 0x80, CHR 0xA6] @ ''and '' @ show_nat (length leftOut - length shown) @
         '' more, listed in Communication details.'') @ ended []
       else []))"

text \<open>An input with one value a line.\<close>

definition input_lines :: "string \<Rightarrow> string list \<Rightarrow> string" where
  "input_lines name lines =
     (if lines = [] then []
      else ended (''    '' @ name @ '': |'') @ concat (map (\<lambda>line. ended (''      '' @ line)) lines))"

definition buildInspectRestrictExample ::
    "traffic_event list \<Rightarrow> string \<Rightarrow> string option \<Rightarrow> string list \<Rightarrow> string list \<Rightarrow> example_step \<Rightarrow> string" where
  "buildInspectRestrictExample requests actionRepo actionRef allowedIpRules allowedTlsRules step =
     (let (writable, leftOut) = partitionRequests requests;
          lines = ruleLinesFrom writable in
      if lines = [] \<and> leftOut = [] \<and> allowedIpRules = [] \<and> allowedTlsRules = [] then []
      else restrictExampleBlock
        (exampleStepHead actionRepo actionRef step @ ended ''    proxy-mode: restrict'' @
         input_lines ''allowed-url-rules'' lines @ input_lines ''allowed-tls-rules'' allowedTlsRules @
         input_lines ''allowed-ip-rules'' allowedIpRules @ exampleStepTail step)
        (if leftOut \<noteq> [] then Some (leftOutSection leftOut) else None)
        (Some ''Permits exactly what this build did; a versioned or dated URL may drift.''))"

section \<open>The step of the universal engine\<close>

definition ruleTypeToParam :: "string \<Rightarrow> string option" where
  "ruleTypeToParam = map_of [(''HTTPS'', ''allowed-https-rules''), (''HTTP'', ''allowed-http-rules''),
     (''IP'', ''allowed-ip-rules'')]"

definition add_audited ::
    "'a log_entry_scheme \<Rightarrow> (string \<times> string list) list \<Rightarrow> (string \<times> string list) list" where
  "add_audited r groups =
     (case ruleTypeToParam (le_ruleType r) of
        None \<Rightarrow> groups
      | Some param \<Rightarrow>
          omap_update param
            (\<lambda>old. set_add (le_host r @ '':'' @ le_port r) (case old of None \<Rightarrow> [] | Some rules \<Rightarrow> rules)) groups)"

definition buildUniversalRestrictExample ::
    "'a log_entry_scheme list \<Rightarrow> string \<Rightarrow> string option \<Rightarrow> example_step \<Rightarrow> string" where
  "buildUniversalRestrictExample auditedRows actionRepo actionRef step =
     (if auditedRows = [] then []
      else
        (let groups = fold add_audited auditedRows [] in
         if groups = [] then []
         else restrictExampleBlock
           (exampleStepHead actionRepo actionRef step @ ended ''    proxy-mode: restrict'' @
            ended ''    proxy-engine: universal'' @
            concat (map (\<lambda>(param, rules). ended (''    '' @ param @ '': >-'') @
              concat (map (\<lambda>rule. ended (''      '' @ rule)) rules)) groups) @
            exampleStepTail step) None None))"

definition restrictExampleTruncationNote :: "bool \<Rightarrow> string" where
  "restrictExampleTruncationNote artifactAvailable =
     (let rest = (if artifactAvailable
        then ''the buildcage-traffic artifact uploaded for this run has every request to write the rules from''
        else ''set upload-traffic-artifact: true to get every request to write the rules from as a '' @
          ''downloadable artifact'') in
      ''_'' @ [CHR 0xE2, CHR 0x80, CHR 0xA6] @ ''omitted: the example restrict step is too large for GitHub'' @
      [squote] @ ''s Job Summary size limit; '' @ rest @ ''._'' @ [newline_char])"

end
