(* ===== verification/ExampleRules.thy ===== *)
theory ExampleRules
  imports RestrictExample WildcardRules
begin

text \<open>
  What the rules an audit run proposes (\<^theory_text>\<open>RestrictExample\<close>) permit when the compiler of
  \<^theory_text>\<open>UrlRules\<close> reads them back: everything the run asked for, and by no method and at no
  origin anything but the paths it asked for or what lies under the longest path that all of
  them lie under.
\<close>

section \<open>A rule line compiles\<close>

text \<open>What a compiled URL rule lets through: a scheme, a \<^verbatim>\<open>host:port\<close>, a method and a path.\<close>

definition url_permits :: "url_rule \<Rightarrow> url_scheme \<Rightarrow> string \<Rightarrow> string \<Rightarrow> string \<Rightarrow> bool" where
  "url_permits u scheme hostPort meth path \<longleftrightarrow>
     scheme \<in> set (ur_schemes u) \<and>
     (case ur_methods u of None \<Rightarrow> True | Some ms \<Rightarrow> meth \<in> set ms) \<and>
     rx_matches (ur_authorityRegex u) hostPort \<and> rx_matches (ur_pathRegex u) path"

text \<open>The characters of a path the rules are written for: what the log holds of a URL, and no
  query, fragment or pattern.\<close>

definition plain_path_char :: "char \<Rightarrow> bool" where
  "plain_path_char c \<longleftrightarrow> \<not> js_space c \<and> c \<notin> set ''?#''"

definition plain_pattern :: "string \<Rightarrow> bool" where
  "plain_pattern p \<longleftrightarrow> starts_with ''/'' p \<and> list_all plain_path_char p"

lemma upper_range: "is_upper c \<Longrightarrow> 65 \<le> (of_char c :: nat) \<and> (of_char c :: nat) \<le> 90"
  by (simp add: is_upper_def in_range_def)

lemma upper_plain: "is_upper c \<Longrightarrow> \<not> js_space c \<and> c \<notin> set ''|,*'' \<and> is_alpha c \<and> upper_char c = c"
  using upper_range [of c] by (auto simp: js_space_def is_alpha_def upper_char_def is_lower_def in_range_def)

lemma host_char_plain:
  "host_char c \<Longrightarrow> \<not> js_space c \<and> c \<notin> set ''/:@#*?]'' \<and> host_label_char c"
  by (auto simp: host_char_def host_label_char_def js_space_def is_alpha_def is_upper_def is_lower_def
      in_range_def is_digit_def)

lemma literal_host_chars: "LITERAL_HOST host \<Longrightarrow> c \<in> set host \<Longrightarrow> host_char c \<or> c = CHR ''.''"
proof -
  assume h: "LITERAL_HOST host" and c: "c \<in> set host"
  show ?thesis
  proof (cases "c = CHR ''.''")
    case False
    then obtain label where "label \<in> set (split_on (CHR ''.'') host)" "c \<in> set label"
      using c set_split_on [of "CHR ''.''" host] by blast
    then show ?thesis using h by (auto simp: LITERAL_HOST_def list_all_iff)
  qed simp
qed

lemma literal_host_ne: "LITERAL_HOST host \<Longrightarrow> host \<noteq> []"
  by (auto simp: LITERAL_HOST_def)

lemma literal_host_free:
  assumes "LITERAL_HOST host"
  shows "list_all (\<lambda>c. \<not> js_space c \<and> c \<notin> set ''/:@#*?]'') host"
  using literal_host_chars [OF assms] host_char_plain unfolding list_all_iff by (force simp: js_space_def)

lemma traverse_labels:
  assumes "list_all (\<lambda>label. label \<noteq> [] \<and> list_all host_char label) labels"
  shows "\<exists>ds. traverse_e (\<lambda>label. bind_e (checkHostLabel label domain) (\<lambda>_. Inr (f label))) labels = Inr ds"
  using assms
proof (induction labels)
  case (Cons label labels)
  then have "list_all host_label_char label" using host_char_plain by (auto simp: list_all_iff)
  with Cons show ?case by (auto simp: checkHostLabel_def)
qed simp

lemma literal_host_compiles: "LITERAL_HOST host \<Longrightarrow> \<exists>d. domainToRegexPartial host = Inr d"
  using traverse_labels [of "split_on (CHR ''.'') host" host "atomToRegex DOMAIN"]
  unfolding domainToRegexPartial_def LITERAL_HOST_def by auto

lemma wild_toks_literal: "list_all (\<lambda>c. c \<notin> set ''*?'') s \<Longrightarrow> wild_toks s = map WLit s"
  by (induction s rule: wild_toks.induct) auto

lemma accepts_literal: "wild_accepts sep zero (map WLit w) s \<longleftrightarrow> s = w"
  by (induction w arbitrary: s) (auto simp: neq_Nil_conv elim: wild_accepts.elims)

lemma split_by_join:
  assumes "ws \<noteq> []" "\<forall>w\<in>set ws. \<forall>c\<in>set w. \<not> P c" "P sep"
  shows "split_by P (join_with [sep] ws) = ws"
  using assms
proof (induction "[sep]" ws rule: join_with.induct)
  case (2 w)
  then show ?case by (induction w) auto
next
  case (3 w v ws)
  then have "split_by P (join_with [sep] (v # ws)) = v # ws" by simp
  moreover have "\<forall>c\<in>set w. \<not> P c" using 3 by simp
  ultimately show ?case using 3(4) by (induction w) auto
qed simp

lemma literal_method_plain:
  "LITERAL_METHOD m \<Longrightarrow> m \<noteq> [] \<and> (\<forall>c\<in>set m. \<not> js_space c \<and> c \<notin> set ''|,*'') \<and> js_trim m = m \<and> to_upper m = m \<and> is_method m"
  unfolding LITERAL_METHOD_def list_all_iff
  using upper_plain by (auto simp: to_upper_def is_method_def list_all_iff intro!: trim_id map_idI)

lemma parseMethods_literal:
  assumes "ms \<noteq> []" and "\<forall>m\<in>set ms. LITERAL_METHOD m"
  shows "parseMethods (join_with ''|'' ms) rule = Inr (Some (unique_first ms))"
proof -
  have p: "\<And>m. m \<in> set ms \<Longrightarrow> m \<noteq> [] \<and> (\<forall>c\<in>set m. \<not> js_space c \<and> c \<notin> set ''|,*'') \<and> js_trim m = m \<and> to_upper m = m \<and> is_method m"
    using assms(2) literal_method_plain by blast
  have s: "split_by (\<lambda>c. c = CHR ''|'' \<or> c = CHR '','') (join_with ''|'' ms) = ms"
    by (rule split_by_join) (use assms(1) p in auto)
  have t: "map js_trim ms = ms" "map to_upper ms = ms" "filter (\<lambda>t. t \<noteq> []) ms = ms"
    using p by (auto intro!: map_idI simp: filter_id_conv)
  have "''*'' \<notin> set ms" using p by fastforce
  moreover have "traverse_e (\<lambda>t. ensure_e (is_method t) (InvalidMethod t rule)) ms = Inr (map (\<lambda>_. ()) ms)"
    using p by (induction ms) auto
  ultimately show ?thesis using assms(1) by (simp add: parseMethods_def s t)
qed

lemma show_nat_plain: "c \<in> set (show_nat n) \<Longrightarrow> is_digit c"
  using show_nat_digits [of n] by (simp add: list_all_iff)

lemma digit_not_syntax_char: "is_digit c \<Longrightarrow> \<not> js_space c \<and> c \<notin> set ''/:@#*?]''"
proof -
  have "list_all (\<lambda>c. \<not> js_space c \<and> c \<notin> set ''/:@#*?]'') ''0123456789''" by code_simp
  then show "is_digit c \<Longrightarrow> ?thesis" unfolding is_digit_def list_all_iff by blast
qed

text \<open>The authority a rule names, and its port: none where the scheme implies it.\<close>

definition rule_port :: "url_scheme \<Rightarrow> string \<Rightarrow> string" where
  "rule_port scheme port = (if port = DEFAULT_PORT scheme then [] else port)"

definition rule_authority :: "url_scheme \<Rightarrow> string \<Rightarrow> string \<Rightarrow> string" where
  "rule_authority scheme host port = (if port = DEFAULT_PORT scheme then host else host @ '':'' @ port)"

lemma origin_of_authority: "origin_of scheme host port = scheme_text scheme @ rule_authority scheme host port"
  by (simp add: origin_of_def rule_authority_def)

lemma rule_authority_chars:
  assumes "LITERAL_HOST host" and "c \<in> set (rule_authority scheme host (show_nat n))"
  shows "\<not> js_space c \<and> c \<notin> set ''/@#*?]''"
proof -
  have "c \<in> set host \<or> c = CHR '':'' \<or> is_digit c"
    using assms(2) show_nat_plain by (auto simp: rule_authority_def split: if_splits)
  then show ?thesis
  proof (elim disjE)
    assume "c \<in> set host"
    then show ?thesis using literal_host_free [OF assms(1)] unfolding list_all_iff by fastforce
  next
    assume "is_digit c"
    then show ?thesis using digit_not_syntax_char by fastforce
  qed (simp add: js_space_def)
qed

lemma split_rule_authority:
  assumes "LITERAL_HOST host"
  shows "split_authority (rule_authority scheme host (show_nat n)) = (host, rule_port scheme (show_nat n))"
proof -
  have "CHR '':'' \<notin> set host" using literal_host_free [OF assms] by (auto simp: list_all_iff)
  moreover have "CHR '':'' \<notin> set (show_nat n)" "CHR '']'' \<notin> set (show_nat n)"
    using show_nat_plain digit_not_syntax_char by fastforce+
  ultimately show ?thesis by (simp add: split_authority_def rule_authority_def rule_port_def)
qed

lemma plain_pattern_chars:
  "plain_pattern p \<Longrightarrow> \<forall>c\<in>set p. \<not> js_space c \<and> c \<noteq> CHR ''?'' \<and> c \<noteq> CHR ''#''"
  by (auto simp: plain_pattern_def plain_path_char_def list_all_iff)

lemma match_rule_url:
  assumes "LITERAL_HOST host" and "plain_pattern p"
  shows "match_url (scheme_text scheme @ rule_authority scheme host (show_nat n) @ p) =
    Some (scheme, rule_authority scheme host (show_nat n), p)"
proof -
  let ?a = "rule_authority scheme host (show_nat n)"
  have a: "\<forall>c\<in>set ?a. c \<noteq> CHR ''/''" using rule_authority_chars [OF assms(1)] by auto
  obtain r where p: "p = CHR ''/'' # r" using assms(2) by (auto simp: plain_pattern_def)
  have "line_tail p"
    unfolding line_tail_def using plain_pattern_chars [OF assms(2)] js_space_simps by blast
  moreover have "?a \<noteq> []" using literal_host_ne [OF assms(1)] by (simp add: rule_authority_def)
  moreover have "takeWhile (\<lambda>c. c \<noteq> CHR ''/'') (?a @ p) = ?a" "dropWhile (\<lambda>c. c \<noteq> CHR ''/'') (?a @ p) = p"
    using a by (simp_all add: p takeWhile_append2 dropWhile_append2)
  ultimately show ?thesis
    unfolding match_url_def Let_def by (cases scheme) (simp_all add: starts_with_def del: starts_with_Cons)
qed


lemma scheme_text_chars: "c \<in> set (scheme_text scheme) \<Longrightarrow> \<not> js_space c \<and> c \<noteq> CHR ''#''"
proof -
  have "list_all (\<lambda>c. \<not> js_space c \<and> c \<noteq> CHR ''#'') ''https://''"
    "list_all (\<lambda>c. \<not> js_space c \<and> c \<noteq> CHR ''#'') ''http://''" by code_simp+
  then show "c \<in> set (scheme_text scheme) \<Longrightarrow> ?thesis" by (cases scheme) (auto simp: list_all_iff)
qed

lemma rule_port_valid: "1 \<le> n \<Longrightarrow> n \<le> 65535 \<Longrightarrow> checkPort (show_nat n) rule = Inr ()"
  by (auto simp: checkPort_iff)

lemma rule_wildcard:
  assumes "LITERAL_HOST host" and "port \<noteq> [] \<and> list_all is_digit port"
  shows "\<exists>combined. wildcardToRegexPartial (host @ '':'' @ port) = Inr combined"
proof -
  have "CHR '':'' \<notin> set host" using literal_host_free [OF assms(1)] by (auto simp: list_all_iff)
  moreover have "CHR '':'' \<notin> set port" using assms(2) by (auto simp: list_all_iff)
  moreover obtain d where "domainToRegexPartial host = Inr d" using literal_host_compiles [OF assms(1)] by blast
  ultimately show ?thesis using literal_host_ne [OF assms(1)] assms(2) by (simp add: wildcardToRegexPartial_def)
qed

lemma compile_rule_url:
  assumes "LITERAL_HOST host" and "1 \<le> n" "n \<le> 65535" and "plain_pattern p"
  shows "\<exists>u. compileUrl syn methods (scheme_text scheme @ rule_authority scheme host (show_nat n) @ p) rule = Inr u"
proof -
  let ?a = "rule_authority scheme host (show_nat n)"
  let ?url = "scheme_text scheme @ ?a @ p"
  let ?port = "rule_port scheme (show_nat n)"
  have "CHR ''#'' \<notin> set ?url"
    using scheme_text_chars rule_authority_chars [OF assms(1)] plain_pattern_chars [OF assms(4)] by fastforce
  then have u: "splitUrl ?url rule = Inr (scheme, ?a, p)"
    using match_rule_url [OF assms(1,4)] by (simp add: splitUrl_def)
  have at: "rejectUserinfo ?a rule = Inr ()"
    using rule_authority_chars [OF assms(1)] by (force simp: rejectUserinfo_def ensure_e_def)
  have "index_of (CHR ''?'') p = None" using plain_pattern_chars [OF assms(4)] by (subst index_of_None) blast
  then have q: "rejectQuery p rule = Inr ()" unfolding rejectQuery_def by (simp only: option.case)
  have port: "?port \<noteq> [] \<Longrightarrow> checkPort ?port rule = Inr ()"
    using rule_port_valid [OF assms(2,3)] by (auto simp: rule_port_def)
  obtain combined where w: "wildcardToRegexPartial (host @ '':'' @ show_nat n) = Inr combined"
    using rule_wildcard [OF assms(1), of "show_nat n"] show_nat_digits show_nat_ne by auto
  then have w': "?port \<noteq> [] \<Longrightarrow> wildcardToRegexPartial (host @ '':'' @ ?port) = Inr combined"
    "?port = [] \<Longrightarrow> wildcardToRegexPartial (host @ '':'' @ DEFAULT_PORT scheme) = Inr combined"
    by (auto simp: rule_port_def split: if_splits)
  have "\<not> starts_with ''~'' ?url" by (cases scheme) simp_all
  then show ?thesis
    using port literal_host_ne [OF assms(1)]
    by (simp add: compileUrl_def u at q split_rule_authority [OF assms(1)] w' [simplified] Let_def del: starts_with_Cons)
qed


text \<open>The line of a rule reads back as the methods, the scheme, the authority and the pattern it
  was written from.\<close>

lemma rule_line_reads:
  assumes "ms \<noteq> []" "\<forall>m\<in>set ms. LITERAL_METHOD m" and "LITERAL_HOST host" "1 \<le> n" "n \<le> 65535"
    and "plain_pattern p"
  shows "\<exists>u. convertUrlRule syn (join_with ''|'' ms @ '' '' @ origin_of scheme host (show_nat n) @ p) = Inr u \<and>
    ur_schemes u = [scheme] \<and> ur_methods u = Some (unique_first ms) \<and>
    (\<forall>s. rx_matches (ur_authorityRegex u) s \<longleftrightarrow> s = host @ '':'' @ show_nat n) \<and>
    (\<forall>q. rx_matches (ur_pathRegex u) q \<longleftrightarrow> path_accepts p q)"
proof -
  let ?url = "scheme_text scheme @ rule_authority scheme host (show_nat n) @ p"
  let ?line = "join_with ''|'' ms @ '' '' @ ?url"
  have m: "\<forall>c\<in>set (join_with ''|'' ms). \<not> js_space c"
  proof
    fix c assume "c \<in> set (join_with ''|'' ms)"
    then have "c = CHR ''|'' \<or> (\<exists>m\<in>set ms. c \<in> set m)" using join_with_set [of "''|''" ms] by auto
    then show "\<not> js_space c" using assms(2) literal_method_plain by (fastforce simp: js_space_def)
  qed
  have ne: "join_with ''|'' ms \<noteq> []"
    using assms(1,2) literal_method_plain by (cases "(''|'', ms)" rule: join_with.cases) auto
  have u: "\<forall>c\<in>set ?url. \<not> js_space c"
    using scheme_text_chars rule_authority_chars [OF assms(3)] plain_pattern_chars [OF assms(6)] by fastforce
  have une: "?url \<noteq> []" by (cases scheme) simp_all
  have "hd ?line = hd (join_with ''|'' ms)" "last ?line = last ?url"
    using ne une by (simp_all only: hd_append2 last_appendR append_is_Nil_conv simp_thms not_Cons_self2 list.distinct)
  then have trim: "js_trim ?line = ?line" "js_trim ?url = ?url"
    using m u hd_in_set [OF ne] hd_in_set [OF une] last_in_set [OF une] by (metis trim_id)+
  have tw: "takeWhile (\<lambda>c. \<not> js_space c) ?line = join_with ''|'' ms"
    "dropWhile (\<lambda>c. \<not> js_space c) ?line = '' '' @ ?url"
    using m by (simp_all add: takeWhile_append2 dropWhile_append2)
  have dw: "dropWhile js_space ('' '' @ ?url) = ?url"
    using u une by (cases "?url") auto
  have sp: "list_ex js_space ?line" "\<not> list_ex js_space ?url"
    using u by (auto simp: list_ex_iff)
  obtain v where v: "compileUrl syn (Some (unique_first ms)) ?url ?line = Inr v"
    using compile_rule_url [OF assms(3-6)] by blast
  have conv: "convertUrlRule syn ?line = Inr v"
    unfolding convertUrlRule_def Let_def trim tw dw
    using sp v parseMethods_literal [OF assms(1,2)] by simp
  have "\<not> starts_with ''~'' ?url" by (cases scheme) simp_all
  then obtain scheme' authority path host' port d where l:
    "match_url ?url = Some (scheme', authority, path)"
    "split_authority authority = (host', port)" "port = [] \<or> valid_port port" "domainToRegexPartial host' = Inr d"
    "v = \<lparr>ur_methods = Some (unique_first ms), ur_schemes = [scheme'],
          ur_authorityRegex = ''^'' @ d @ '':'' @ authority_port scheme' port @ ''$'',
          ur_pathRegex = (if path = [] then ''^/'' else ''^'' @ pathToRegexPartial path @ ''$''),
          ur_hostRegex = d, ur_isRegex = False, ur_raw = ?line\<rparr>"
    using compileUrl_literal [OF v] by metis
  have e: "scheme' = scheme" "host' = host" "port = rule_port scheme (show_nat n)" "path = p"
    using l(1,2) match_rule_url [OF assms(3,6)] split_rule_authority [OF assms(3)] by auto
  have pne: "p \<noteq> []" using assms(6) by (auto simp: plain_pattern_def)
  let ?port = "if port = [] then DEFAULT_PORT scheme else port"
  have port: "?port = show_nat n" by (auto simp: e rule_port_def)
  have hp: "{s. host_port_accepts host ?port s} =
      conc {t. domain_accepts host t} (conc {'':''} {s. port_accepts ?port s})"
    unfolding conc_def host_port_accepts_def by auto
  have auth: "means (d @ '':'' @ authority_port scheme port) {s. host_port_accepts host ?port s}"
    unfolding hp using domain_means [OF l(4)] authority_port_means [OF l(3)] means_colon
    by (metis means_append e(2))
  have lit: "domain_accepts host t \<longleftrightarrow> t = host" for t
    unfolding domain_accepts_def
    using literal_host_free [OF assms(3)] by (subst wild_toks_literal) (auto simp: list_all_iff accepts_literal)
  have "show_nat n \<noteq> ''*''" using show_nat_digits [of n] by auto
  then have "rx_matches (ur_authorityRegex v) s \<longleftrightarrow> s = host @ '':'' @ show_nat n" for s
    using means_anchored [OF auth, of s] by (auto simp: l(5) e(1) port host_port_accepts_def lit port_accepts_def)
  moreover have "rx_matches (ur_pathRegex v) q \<longleftrightarrow> path_accepts p q" for q
    using means_anchored [OF path_means, of p q] pne by (simp add: l(5) e(4))
  ultimately show ?thesis using conv by (auto simp: origin_of_authority l(5) e(1))
qed


section \<open>The patterns of a set of paths\<close>

text \<open>A path that is a directory or lies under it.\<close>

definition within :: "string \<Rightarrow> string \<Rightarrow> bool" where
  "within dir p \<longleftrightarrow> p = dir \<or> starts_with (dir @ ''/'') p"

text \<open>A path of the log that a rule can name: no pattern in it.\<close>

definition plain_path :: "string \<Rightarrow> bool" where
  "plain_path p \<longleftrightarrow> plain_pattern p \<and> CHR ''*'' \<notin> set p"

lemma prefix_common [simp]: "prefix c (common_prefix a b) \<longleftrightarrow> prefix c a \<and> prefix c b"
proof (induction a b arbitrary: c rule: common_prefix.induct)
  case (1 x xs y ys)
  then show ?case by (cases c) auto
qed auto

lemma prefix_common_all: "prefix c (foldl common_prefix a bs) \<longleftrightarrow> prefix c a \<and> (\<forall>b\<in>set bs. prefix c b)"
  by (induction bs arbitrary: a) auto

lemma prefix_commonPrefixSegments:
  "paths \<noteq> [] \<Longrightarrow> prefix c (commonPrefixSegments paths) \<longleftrightarrow> (\<forall>p\<in>set paths. prefix c (path_segments p))"
  by (cases paths) (auto simp: commonPrefixSegments_def prefix_common_all)

lemma split_on_append_any: "split_on c (xs @ c # ys) = split_on c xs @ split_on c ys"
proof (induction xs)
  case (Cons x xs)
  obtain w ws where "split_on c xs = w # ws" by (cases "split_on c xs") auto
  with Cons show ?case by simp
qed simp

lemma join_with_append: "xs \<noteq> [] \<Longrightarrow> ys \<noteq> [] \<Longrightarrow> join_with sep (xs @ ys) = join_with sep xs @ sep @ join_with sep ys"
proof (induction sep xs rule: join_with.induct)
  case (2 sep w)
  then show ?case by (cases ys) simp_all
qed auto

lemma within_segments:
  "within (CHR ''/'' # x) (CHR ''/'' # r) \<longleftrightarrow> prefix (split_on (CHR ''/'') x) (split_on (CHR ''/'') r)"
proof
  assume "within (CHR ''/'' # x) (CHR ''/'' # r)"
  then have "r = x \<or> (\<exists>t. r = x @ CHR ''/'' # t)" by (auto simp: within_def starts_with_iff)
  then show "prefix (split_on (CHR ''/'') x) (split_on (CHR ''/'') r)" by (auto simp: split_on_append_any)
next
  assume "prefix (split_on (CHR ''/'') x) (split_on (CHR ''/'') r)"
  then obtain ts where ts: "split_on (CHR ''/'') r = split_on (CHR ''/'') x @ ts" by (auto simp: prefix_def)
  have "r = x \<or> (\<exists>t. r = x @ CHR ''/'' # t)"
  proof (cases "ts = []")
    case True
    then show ?thesis using ts join_split_on by (metis append_Nil2)
  next
    case False
    then have "r = x @ ''/'' @ join_with ''/'' ts"
      using join_with_append [OF split_on_ne False, of "''/''" "CHR ''/''" x] join_split_on by (metis ts)
    then show ?thesis by auto
  qed
  then show "within (CHR ''/'' # x) (CHR ''/'' # r)" by (auto simp: within_def starts_with_iff)
qed

lemma path_segments_Cons: "path_segments (CHR ''/'' # r) = split_on (CHR ''/'') r"
  by (simp add: path_segments_def)

text \<open>The directory the patterns keep: the longest that holds every path.\<close>

definition path_base :: "string list \<Rightarrow> string" where
  "path_base paths =
     (let prefix' = commonPrefixSegments paths in if prefix' = [] then [] else ''/'' @ join_with ''/'' prefix')"

lemma path_base_longest:
  assumes "paths \<noteq> []" and "\<forall>p\<in>set paths. starts_with ''/'' p"
  shows "(\<forall>p\<in>set paths. within (path_base paths) p) \<and> (path_base paths = [] \<or> starts_with ''/'' (path_base paths)) \<and>
    (\<forall>dir. (\<forall>p\<in>set paths. within dir p) \<longrightarrow> within dir (path_base paths) \<or> dir = [])"
proof -
  let ?pre = "commonPrefixSegments paths"
  have seg: "\<exists>r. p = CHR ''/'' # r \<and> path_segments p = split_on (CHR ''/'') r" if "p \<in> set paths" for p
    using assms(2) that path_segments_Cons by (auto simp: starts_with_iff)
  have all: "prefix c ?pre \<longleftrightarrow> (\<forall>p\<in>set paths. prefix c (path_segments p))" for c
    by (rule prefix_commonPrefixSegments [OF assms(1)])
  have base: "path_base paths = (if ?pre = [] then [] else CHR ''/'' # join_with ''/'' ?pre)"
    by (simp add: path_base_def Let_def)
  have split: "split_on (CHR ''/'') (join_with ''/'' ?pre) = ?pre" if "?pre \<noteq> []"
  proof (rule split_on_join [OF that], intro ballI)
    fix w assume w: "w \<in> set ?pre"
    obtain p where p: "p \<in> set paths" using assms(1) by (cases paths) auto
    then have "w \<in> set (path_segments p)" using all [of ?pre] w set_mono_prefix by blast
    then show "CHR ''/'' \<notin> set w" using seg [OF p] split_on_no_sep by metis
  qed
  have "within (path_base paths) p" if p: "p \<in> set paths" for p
  proof -
    obtain r where r: "p = CHR ''/'' # r" "path_segments p = split_on (CHR ''/'') r" using seg [OF p] by blast
    then have "prefix ?pre (split_on (CHR ''/'') r)" using all [of ?pre] p by auto
    then show ?thesis using within_segments split by (simp add: base r(1)) (simp add: within_def)
  qed
  moreover have "within dir (path_base paths) \<or> dir = []" if dir: "\<forall>p\<in>set paths. within dir p" for dir
  proof (cases dir)
    case (Cons c x)
    obtain p where p: "p \<in> set paths" using assms(1) by (cases paths) auto
    then have c: "c = CHR ''/''" using seg dir Cons by (fastforce simp: within_def starts_with_iff)
    have "prefix (split_on (CHR ''/'') x) (path_segments q)" if "q \<in> set paths" for q
      using seg [OF that] dir that within_segments [of x] by (auto simp: Cons c)
    then have "prefix (split_on (CHR ''/'') x) ?pre" using all by blast
    moreover from this have "?pre \<noteq> []" by auto
    ultimately show ?thesis using split within_segments [of x "join_with ''/'' ?pre"] by (simp add: base Cons c)
  qed simp
  ultimately show ?thesis by (simp add: base)
qed

lemma pathPatternsFor_cases:
  "pathPatternsFor paths =
     (let distinct' = js_sort compare_text (unique_first paths); base = path_base distinct' in
      if length distinct' \<le> 1 then distinct'
      else if base \<noteq> [] \<and> base \<in> set distinct' then [base, base @ ''/**''] else [base @ ''/**''])"
proof -
  define d where "d = js_sort compare_text (unique_first paths)"
  have "length d = 0 \<or> length d = 1 \<or> \<not> length d \<le> 1" by linarith
  then show ?thesis
    unfolding pathPatternsFor_def path_base_def Let_def d_def [symmetric] by (elim disjE) auto
qed


lemma wild_toks_under: "list_all (\<lambda>c. c \<notin> set ''*?'') s \<Longrightarrow> wild_toks (s @ ''**'') = map WLit s @ [WAcross]"
proof (induction s)
  case (Cons c s)
  obtain d r where "s @ ''**'' = d # r" by (cases "s @ ''**''") auto
  with Cons show ?case by auto
qed simp

lemma accepts_rest: "wild_accepts sep True [WAcross] s \<longleftrightarrow> list_all dot_char s"
  by (induction s) auto

lemma accepts_literal_then:
  "wild_accepts sep zero (map WLit w @ ts) s \<longleftrightarrow> (\<exists>r. s = w @ r \<and> wild_accepts sep zero ts r)"
proof (induction w arbitrary: s)
  case (Cons c w)
  then show ?case by (cases s) auto
qed simp

lemma path_accepts_literal: "plain_path p \<Longrightarrow> path_accepts p q \<longleftrightarrow> q = p"
  unfolding path_accepts_def plain_path_def
  by (subst wild_toks_literal) (auto dest: plain_pattern_chars simp: list_all_iff accepts_literal)

lemma path_accepts_under:
  assumes "\<forall>c\<in>set dir. c \<noteq> CHR ''*'' \<and> c \<noteq> CHR ''?''"
  shows "path_accepts (dir @ ''/**'') q \<longleftrightarrow> (\<exists>r. q = dir @ ''/'' @ r \<and> list_all dot_char r)"
proof -
  have "wild_toks ((dir @ ''/'') @ ''**'') = map WLit (dir @ ''/'') @ [WAcross]"
    by (rule wild_toks_under) (use assms in \<open>auto simp: list_all_iff\<close>)
  then have "wild_toks (dir @ ''/**'') = map WLit (dir @ ''/'') @ [WAcross]"
    by (simp only: append_assoc append_Cons append_Nil)
  then show ?thesis unfolding path_accepts_def by (simp only: accepts_literal_then accepts_rest append_assoc)
qed

text \<open>What the rules of a set of paths may let through: the paths, and, where there are several,
  what lies under every directory that all of them lie in.\<close>

definition covered :: "string list \<Rightarrow> string \<Rightarrow> bool" where
  "covered paths q \<longleftrightarrow>
     q \<in> set paths \<or>
     length (unique_first paths) \<ge> 2 \<and> (\<forall>dir. (\<forall>p\<in>set paths. within dir p) \<longrightarrow> starts_with (dir @ ''/'') q)"

lemma within_trans: "within dir base \<Longrightarrow> starts_with (base @ ''/'') q \<Longrightarrow> starts_with (dir @ ''/'') q"
  by (auto simp: within_def starts_with_iff)

lemma plain_path_dot: "plain_path p \<Longrightarrow> list_all dot_char p"
  unfolding plain_path_def list_all_iff dot_char_def
  using plain_pattern_chars js_space_simps by blast

lemma plain_within:
  assumes "plain_path p" and "within dir p"
  shows "\<forall>c\<in>set dir. c \<noteq> CHR ''*'' \<and> plain_path_char c"
  using assms by (auto simp: plain_path_def plain_pattern_def within_def starts_with_iff list_all_iff)

lemma pathPatternsFor_spec:
  assumes plain: "\<forall>p\<in>set paths. plain_path p"
  shows "\<forall>p\<in>set paths. \<exists>pat\<in>set (pathPatternsFor paths). path_accepts pat p"
    and "\<forall>pat\<in>set (pathPatternsFor paths). plain_pattern pat \<and> (\<forall>q. path_accepts pat q \<longrightarrow> covered paths q)"
proof -
  define d where "d = js_sort compare_text (unique_first paths)"
  have set_d: "set d = set paths" and len: "length d = length (unique_first paths)" by (simp_all add: d_def)
  have pats: "pathPatternsFor paths =
      (if length d \<le> 1 then d else if path_base d \<noteq> [] \<and> path_base d \<in> set d
       then [path_base d, path_base d @ ''/**''] else [path_base d @ ''/**''])"
    unfolding pathPatternsFor_cases Let_def d_def ..
  have lit: "p \<in> set d \<Longrightarrow> plain_pattern p \<and> path_accepts p q = (q = p)" for p q
    using plain path_accepts_literal by (auto simp: set_d plain_path_def)
  have "(\<forall>p\<in>set paths. \<exists>pat\<in>set (pathPatternsFor paths). path_accepts pat p) \<and>
    (\<forall>pat\<in>set (pathPatternsFor paths). plain_pattern pat \<and> (\<forall>q. path_accepts pat q \<longrightarrow> covered paths q))"
  proof (cases "length d \<le> 1")
    case True
    then show ?thesis using lit by (auto simp: pats covered_def set_d)
  next
    case False
    let ?b = "path_base d"
    have ne: "d \<noteq> []" using False by auto
    have starts: "\<forall>p\<in>set d. starts_with ''/'' p" using plain by (simp add: set_d plain_path_def plain_pattern_def)
    note base = path_base_longest [OF ne starts]
    obtain p where p: "p \<in> set d" using ne by (cases d) auto
    have chars: "\<forall>c\<in>set ?b. c \<noteq> CHR ''*'' \<and> plain_path_char c"
      using plain_within [of p ?b] base plain p set_d by blast
    then have "\<forall>c\<in>set ?b. c \<noteq> CHR ''*'' \<and> c \<noteq> CHR ''?''" by (auto simp: plain_path_char_def)
    note under = path_accepts_under [OF this]
    have pp: "plain_pattern (?b @ ''/**'')"
    proof -
      have "list_all plain_path_char ''/**''" by code_simp
      moreover have "starts_with ''/'' (?b @ ''/**'')" using base by (auto simp: starts_with_iff)
      ultimately show ?thesis using chars by (auto simp: plain_pattern_def list_all_iff)
    qed
    have "\<exists>pat\<in>set (pathPatternsFor paths). path_accepts pat q" if q: "q \<in> set d" for q
    proof (cases "q = ?b")
      case True
      moreover have "q \<noteq> []" using starts q by auto
      ultimately have "q \<in> set (pathPatternsFor paths)" using q False by (simp add: pats)
      then show ?thesis using lit [OF q] by blast
    next
      case neq: False
      then obtain r where r: "q = ?b @ ''/'' @ r" using base q by (fastforce simp: within_def starts_with_iff)
      have "list_all dot_char q" using plain plain_path_dot q set_d by blast
      then have "path_accepts (?b @ ''/**'') q" using r under by auto
      then show ?thesis using False by (auto simp: pats)
    qed
    moreover have "covered paths q" if "path_accepts (?b @ ''/**'') q" for q
    proof -
      have s: "starts_with (?b @ ''/'') q" using that under by (auto simp: starts_with_iff)
      then have sl: "starts_with ''/'' q" using base by (auto simp: starts_with_iff)
      have "starts_with (dir @ ''/'') q" if "\<forall>p\<in>set paths. within dir p" for dir
        using base that s sl within_trans unfolding set_d by (metis append_Nil)
      then show ?thesis using False len by (auto simp: covered_def)
    qed
    ultimately show ?thesis using pp lit set_d False by (auto simp: pats covered_def)
  qed
  then show "\<forall>p\<in>set paths. \<exists>pat\<in>set (pathPatternsFor paths). path_accepts pat p"
    "\<forall>pat\<in>set (pathPatternsFor paths). plain_pattern pat \<and> (\<forall>q. path_accepts pat q \<longrightarrow> covered paths q)" by blast+
qed


section \<open>The groups\<close>

definition paths_at :: "parsed_request list \<Rightarrow> string \<Rightarrow> string \<Rightarrow> string list" where
  "paths_at requests origin meth = map pr_path (filter (\<lambda>p. pr_origin p = origin \<and> pr_method p = meth) requests)"

definition group_holds :: "origin_method \<Rightarrow> parsed_request list \<Rightarrow> bool" where
  "group_holds g ps \<longleftrightarrow>
     ps \<noteq> [] \<and> om_origin g = pr_origin (hd ps) \<and> om_method g = pr_method (hd ps) \<and> om_paths g = map pr_path ps"

definition entry_holds :: "origin_pattern \<Rightarrow> method_pattern list \<Rightarrow> bool" where
  "entry_holds e ts \<longleftrightarrow>
     ts \<noteq> [] \<and> op_origin e = fst (hd ts) \<and> op_pattern e = snd (snd (hd ts)) \<and> op_methods e = map (fst \<circ> snd) ts"

interpretation by_method: accumulator request_key first_request more_request group_holds
  by unfold_locales (auto simp: group_holds_def first_request_def more_request_def)

interpretation by_pattern: accumulator pattern_key first_pattern more_pattern entry_holds
  by unfold_locales (auto simp: entry_holds_def first_pattern_def more_pattern_def split: prod.splits)

lemma fold_requests: "fold add_request requests [] = by_method.collect requests"
  by (simp add: by_method.collect_def add_request_def [abs_def] by_method.add_def [abs_def])

lemma fold_patterns: "fold add_pattern ts [] = by_pattern.collect ts"
  by (simp add: by_pattern.collect_def add_pattern_def [abs_def] by_pattern.add_def [abs_def])

definition rule_entries :: "parsed_request list \<Rightarrow> origin_pattern list" where
  "rule_entries requests =
     map snd (by_pattern.collect (concat (map (\<lambda>kg. patterns_of (snd kg)) (by_method.collect requests))))"

lemma ruleLinesFrom_set: "set (ruleLinesFrom requests) = rule_line ` set (rule_entries requests)"
  by (simp add: ruleLinesFrom_def Let_def fold_requests fold_patterns rule_entries_def)

lemma request_key_inj:
  assumes "tab_char \<notin> set (pr_origin p)" "tab_char \<notin> set (pr_origin q)"
  shows "request_key p = request_key q \<longleftrightarrow> pr_origin p = pr_origin q \<and> pr_method p = pr_method q"
  unfolding request_key_def append_Cons append_Nil by (rule sep_inject [OF assms])

lemma pattern_key_inj:
  assumes "tab_char \<notin> set (fst t)" "tab_char \<notin> set (fst u)"
  shows "pattern_key t = pattern_key u \<longleftrightarrow> fst t = fst u \<and> snd (snd t) = snd (snd u)"
  unfolding pattern_key_def case_prod_beta append_Cons append_Nil by (rule sep_inject [OF assms])

lemma group_paths:
  assumes "\<forall>p\<in>set requests. tab_char \<notin> set (pr_origin p)" and "(k, g) \<in> set (by_method.collect requests)"
  shows "\<exists>p\<in>set requests. om_origin g = pr_origin p \<and> om_method g = pr_method p \<and>
    om_paths g = paths_at requests (pr_origin p) (pr_method p)"
proof -
  let ?ps = "by_method.under requests k"
  have g: "group_holds g ?ps" "?ps \<noteq> []" using by_method.collect_holds [OF assms(2)] by auto
  define h where "h = hd ?ps"
  have "h \<in> set ?ps" using g(2) by (simp add: h_def)
  then have p: "h \<in> set requests" "request_key h = k" by (auto simp: by_method.under_def)
  have key: "request_key q = k \<longleftrightarrow> pr_origin q = pr_origin h \<and> pr_method q = pr_method h"
    if "q \<in> set requests" for q
    using request_key_inj [of q h] assms(1) p that by metis
  have "filter (\<lambda>e. request_key e = k) requests =
      filter (\<lambda>q. pr_origin q = pr_origin h \<and> pr_method q = pr_method h) requests"
    by (rule filter_cong [OF refl]) (rule key)
  then have "map pr_path ?ps = paths_at requests (pr_origin h) (pr_method h)"
    unfolding paths_at_def by_method.under_def by (rule arg_cong)
  then show ?thesis using g(1) p(1) unfolding group_holds_def h_def by metis
qed

lemma group_of_request:
  assumes "p \<in> set requests"
  shows "\<exists>k g. (k, g) \<in> set (by_method.collect requests) \<and> p \<in> set (by_method.under requests k)"
proof -
  have "request_key p \<in> fst ` set (by_method.collect requests)"
    using by_method.collect_keys [of requests] assms by (metis image_eqI list.set_map)
  then show ?thesis using assms by (auto simp: by_method.under_def)
qed

lemma entry_methods:
  assumes "\<forall>t\<in>set ts. tab_char \<notin> set (fst t)" and "(k, e) \<in> set (by_pattern.collect ts)"
  shows "op_methods e \<noteq> [] \<and> (\<forall>m. m \<in> set (op_methods e) \<longleftrightarrow> (op_origin e, m, op_pattern e) \<in> set ts)"
proof -
  let ?us = "by_pattern.under ts k"
  have e: "entry_holds e ?us" "?us \<noteq> []" using by_pattern.collect_holds [OF assms(2)] by auto
  then have "hd ?us \<in> set ?us" by simp
  then have u: "hd ?us \<in> set ts" "pattern_key (hd ?us) = k" by (auto simp: by_pattern.under_def)
  have "pattern_key t = k \<longleftrightarrow> fst t = op_origin e \<and> snd (snd t) = op_pattern e" if "t \<in> set ts" for t
    using pattern_key_inj [of t "hd ?us"] assms(1) u e(1) that unfolding entry_holds_def by metis
  then have "set ?us = {t \<in> set ts. fst t = op_origin e \<and> snd (snd t) = op_pattern e}"
    by (auto simp: by_pattern.under_def)
  then show ?thesis using e by (force simp: entry_holds_def)
qed

lemma entry_of_pattern:
  assumes "\<forall>t\<in>set ts. tab_char \<notin> set (fst t)" and "(origin, m, pat) \<in> set ts"
  shows "\<exists>k e. (k, e) \<in> set (by_pattern.collect ts) \<and> op_origin e = origin \<and> op_pattern e = pat \<and> m \<in> set (op_methods e)"
proof -
  let ?k = "pattern_key (origin, m, pat)"
  have "?k \<in> fst ` set (by_pattern.collect ts)"
    using by_pattern.collect_keys [of ts] assms(2) by (metis image_eqI list.set_map)
  then obtain e where e: "(?k, e) \<in> set (by_pattern.collect ts)" by force
  let ?us = "by_pattern.under ts ?k"
  have h: "entry_holds e ?us" "?us \<noteq> []" using by_pattern.collect_holds [OF e] by auto
  then have "hd ?us \<in> set ?us" by simp
  then have u: "hd ?us \<in> set ts" "pattern_key (hd ?us) = ?k" by (auto simp: by_pattern.under_def)
  have "fst (hd ?us) = origin \<and> snd (snd (hd ?us)) = pat"
    using pattern_key_inj [of "hd ?us" "(origin, m, pat)"] assms u by auto
  moreover have "m \<in> set (op_methods e)"
    using h assms(2) by (force simp: entry_holds_def by_pattern.under_def)
  ultimately show ?thesis using e h(1) unfolding entry_holds_def by metis
qed

lemma patterns_all:
  assumes "\<forall>p\<in>set requests. tab_char \<notin> set (pr_origin p)"
  shows "(origin, m, pat) \<in> set (concat (map (\<lambda>kg. patterns_of (snd kg)) (by_method.collect requests))) \<longleftrightarrow>
    paths_at requests origin m \<noteq> [] \<and> pat \<in> set (pathPatternsFor (paths_at requests origin m))"
proof
  assume "(origin, m, pat) \<in> set (concat (map (\<lambda>kg. patterns_of (snd kg)) (by_method.collect requests)))"
  then obtain k g where g: "(k, g) \<in> set (by_method.collect requests)"
    "om_origin g = origin" "om_method g = m" "pat \<in> set (pathPatternsFor (om_paths g))"
    by (auto simp: patterns_of_def)
  from group_paths [OF assms g(1)] g(2-4)
  show "paths_at requests origin m \<noteq> [] \<and> pat \<in> set (pathPatternsFor (paths_at requests origin m))"
    by (auto simp: paths_at_def filter_empty_conv)
next
  assume r: "paths_at requests origin m \<noteq> [] \<and> pat \<in> set (pathPatternsFor (paths_at requests origin m))"
  then obtain p where p: "p \<in> set requests" "pr_origin p = origin" "pr_method p = m"
    by (auto simp: paths_at_def filter_empty_conv)
  obtain k g where g: "(k, g) \<in> set (by_method.collect requests)" "p \<in> set (by_method.under requests k)"
    using group_of_request [OF p(1)] by blast
  from group_paths [OF assms g(1)] obtain q where q: "q \<in> set requests" "om_origin g = pr_origin q"
    "om_method g = pr_method q" "om_paths g = paths_at requests (pr_origin q) (pr_method q)" by blast
  let ?h = "hd (by_method.under requests k)"
  have h: "?h \<in> set (by_method.under requests k)" using g(2) by (cases "by_method.under requests k") auto
  then have "request_key ?h = request_key p" "?h \<in> set requests" using g(2) by (auto simp: by_method.under_def)
  then have "pr_origin ?h = origin \<and> pr_method ?h = m"
    using request_key_inj [of ?h p] assms p by metis
  then have "om_origin g = origin" "om_method g = m"
    using by_method.collect_holds [OF g(1)] by (auto simp: group_holds_def)
  then show "(origin, m, pat) \<in> set (concat (map (\<lambda>kg. patterns_of (snd kg)) (by_method.collect requests)))"
    using g(1) q(2-4) r by (force simp: patterns_of_def)
qed


lemma patterns_tabless:
  assumes "\<forall>p\<in>set requests. tab_char \<notin> set (pr_origin p)"
  shows "\<forall>t\<in>set (concat (map (\<lambda>kg. patterns_of (snd kg)) (by_method.collect requests))). tab_char \<notin> set (fst t)"
proof
  fix t assume t: "t \<in> set (concat (map (\<lambda>kg. patterns_of (snd kg)) (by_method.collect requests)))"
  obtain origin m pat where e: "t = (origin, m, pat)" by (rule prod_cases3)
  obtain p where "p \<in> set requests" "pr_origin p = origin"
    using t patterns_all [OF assms, of origin m pat] unfolding e paths_at_def by (auto simp: filter_empty_conv)
  then show "tab_char \<notin> set (fst t)" using assms e by auto
qed

section \<open>What a run asked for\<close>

text \<open>What the scanners of the log write: a URL without white space, a port in range.\<close>

definition well_logged :: "traffic_event \<Rightarrow> bool" where
  "well_logged e \<longleftrightarrow>
     (case te_url e of None \<Rightarrow> True | Some url \<Rightarrow> list_all (\<lambda>c. \<not> js_space c) url) \<and>
     (case te_port e of None \<Rightarrow> True | Some n \<Rightarrow> 1 \<le> n \<and> n \<le> 65535)"

text \<open>The scheme, the \<^verbatim>\<open>host:port\<close>, the method and the path of a request that was not blocked and
  that no rule would read as a pattern.\<close>

definition asked :: "traffic_event \<Rightarrow> (url_scheme \<times> string \<times> string \<times> string) option" where
  "asked e =
     (case (te_url e, te_method e, te_port e) of
        (Some url, Some meth, Some port) \<Rightarrow>
          (case split_request_url url of
             None \<Rightarrow> None
           | Some (scheme, authority, target) \<Rightarrow>
               (let host = fst (splitHostPort authority); path = (if target = [] then ''/'' else target) in
                if te_action e = Block \<or> request_part_of meth host path \<noteq> None then None
                else Some (scheme, host @ '':'' @ show_nat port, meth, path)))
      | _ \<Rightarrow> None)"

definition asked_paths :: "traffic_event list \<Rightarrow> url_scheme \<Rightarrow> string \<Rightarrow> string \<Rightarrow> string list" where
  "asked_paths events scheme hostPort meth =
     List.map_filter (\<lambda>e. case asked e of None \<Rightarrow> None
       | Some (s, h, m, path) \<Rightarrow> if s = scheme \<and> h = hostPort \<and> m = meth then Some path else None) events"

definition written :: "traffic_event \<Rightarrow> parsed_request option" where
  "written e =
     (if te_action e = Block then None
      else case parseRequest e of Some (Inl p) \<Rightarrow> Some p | _ \<Rightarrow> None)"

lemma partition_writable: "fst (fold partition_step es st) = fst st @ List.map_filter written es"
  by (induction es arbitrary: st)
    (auto simp: List.map_filter_simps partition_step_def written_def split: prod.splits option.splits sum.splits)

lemma buildUrlRuleLines_written: "buildUrlRuleLines es = ruleLinesFrom (List.map_filter written es)"
  using partition_writable [of es "([], [])"]
  by (simp add: buildUrlRuleLines_def partitionRequests_def case_prod_beta)

lemma request_part_of_None:
  "request_part_of meth host path = None \<longleftrightarrow> LITERAL_METHOD meth \<and> LITERAL_HOST host \<and> CHR ''*'' \<notin> set path"
  by (simp add: request_part_of_def)

text \<open>A request the rules are written from, and what it asked for.\<close>

definition writes :: "traffic_event \<Rightarrow> parsed_request \<Rightarrow> url_scheme \<Rightarrow> string \<Rightarrow> nat \<Rightarrow> bool" where
  "writes e p scheme host n \<longleftrightarrow>
     te_port e = Some n \<and> pr_origin p = origin_of scheme host (show_nat n) \<and> LITERAL_HOST host \<and>
     LITERAL_METHOD (pr_method p) \<and> asked e = Some (scheme, host @ '':'' @ show_nat n, pr_method p, pr_path p)"

lemma written_asked: "written e = Some p \<Longrightarrow> \<exists>scheme host n. writes e p scheme host n"
  by (auto simp: written_def parseRequest_def asked_def writes_def request_part_of_None Let_def
      split: if_splits option.splits prod.splits)

lemma asked_written:
  assumes "asked e = Some (scheme, hp, m, q)"
  shows "\<exists>p. written e = Some p \<and> pr_method p = m \<and> pr_path p = q"
proof -
  from assms obtain url port authority target where u: "te_url e = Some url" "te_method e = Some m"
    "te_port e = Some port" "te_action e \<noteq> Block" "split_request_url url = Some (scheme, authority, target)"
    "q = (if target = [] then ''/'' else target)" "request_part_of m (fst (splitHostPort authority)) q = None"
    by (auto simp: asked_def Let_def split: if_splits option.splits prod.splits)
  then show ?thesis by (simp add: written_def parseRequest_def Let_def)
qed

lemma split_request_target:
  assumes "split_request_url url = Some (scheme, authority, target)"
  shows "(target = [] \<or> starts_with ''/'' target) \<and> set target \<subseteq> set url \<and> CHR ''?'' \<notin> set target \<and> CHR ''#'' \<notin> set target"
proof -
  obtain k where "target = takeWhile (\<lambda>c. c \<noteq> CHR ''?'' \<and> c \<noteq> CHR ''#'') (dropWhile (\<lambda>c. c \<noteq> CHR ''/'') (drop k url))"
    using assms unfolding split_request_url_def Let_def
    by (cases "starts_with ''https://'' url"; cases "starts_with ''http://'' url") (simp_all del: starts_with_Cons, blast+)
  then obtain tail where t: "target = takeWhile (\<lambda>c. c \<noteq> CHR ''?'' \<and> c \<noteq> CHR ''#'') tail"
    "tail = dropWhile (\<lambda>c. c \<noteq> CHR ''/'') (drop k url)" by blast
  have "tail = [] \<or> hd tail = CHR ''/''" unfolding t(2) using hd_dropWhile [of "\<lambda>c. c \<noteq> CHR ''/''" "drop k url"] by blast
  then have "target = [] \<or> starts_with ''/'' target" by (cases tail) (simp_all add: t(1))
  moreover have "set target \<subseteq> set tail" unfolding t(1) by (rule set_mono_prefix) (rule takeWhile_is_prefix)
  moreover have "set tail \<subseteq> set (drop k url)" unfolding t(2) by (rule set_mono_suffix) (rule suffix_dropWhile)
  moreover have "set (drop k url) \<subseteq> set url" by (rule set_drop_subset)
  moreover have "c \<noteq> CHR ''?'' \<and> c \<noteq> CHR ''#''" if "c \<in> set target" for c
    using set_takeWhileD [OF that [unfolded t(1)]] by simp
  ultimately show ?thesis by blast
qed

lemma asked_plain:
  assumes "well_logged e" and "asked e = Some (scheme, hp, m, q)"
  shows "plain_path q"
proof -
  from assms(2) obtain url authority target where u: "te_url e = Some url"
    "split_request_url url = Some (scheme, authority, target)" "q = (if target = [] then ''/'' else target)"
    "CHR ''*'' \<notin> set q"
    by (auto simp: asked_def Let_def request_part_of_None split: if_splits option.splits prod.splits)
  have "list_all (\<lambda>c. \<not> js_space c) url" using assms(1) u(1) by (simp add: well_logged_def)
  then have "list_all plain_path_char target"
    using split_request_target [OF u(2)] by (auto simp: plain_path_char_def list_all_iff)
  moreover have "list_all plain_path_char ''/''" by code_simp
  ultimately show ?thesis
    using split_request_target [OF u(2)] u(3,4) by (auto simp: plain_path_def plain_pattern_def)
qed

lemma origin_inject:
  assumes "LITERAL_HOST h" "LITERAL_HOST h'"
  shows "origin_of s h (show_nat n) = origin_of s' h' (show_nat n') \<longleftrightarrow> s = s' \<and> h = h' \<and> n = n'"
proof
  assume eq: "origin_of s h (show_nat n) = origin_of s' h' (show_nat n')"
  then have s: "s = s'" by (cases s; cases s') (simp_all add: origin_of_authority)
  then have "rule_authority s h (show_nat n) = rule_authority s h' (show_nat n')"
    using eq by (simp add: origin_of_authority)
  then have "h = h' \<and> rule_port s (show_nat n) = rule_port s (show_nat n')"
    using split_rule_authority [OF assms(1)] split_rule_authority [OF assms(2)] by (metis prod.inject)
  then show "s = s' \<and> h = h' \<and> n = n'" using s by (metis rule_port_def show_nat_inj show_nat_ne)
qed simp

lemma host_port_inject:
  assumes "LITERAL_HOST h" "LITERAL_HOST h'"
  shows "h @ '':'' @ show_nat n = h' @ '':'' @ show_nat n' \<longleftrightarrow> h = h' \<and> n = n'"
proof -
  have "CHR '':'' \<notin> set h" "CHR '':'' \<notin> set h'"
    using literal_host_free [OF assms(1)] literal_host_free [OF assms(2)] by (auto simp: list_all_iff)
  then show ?thesis unfolding append_Cons append_Nil by (subst sep_inject) simp_all
qed

lemma paths_at_asked:
  assumes "LITERAL_HOST host"
  shows "paths_at (List.map_filter written es) (origin_of scheme host (show_nat n)) m =
    asked_paths es scheme (host @ '':'' @ show_nat n) m"
proof (induction es)
  case (Cons e es)
  show ?case
  proof (cases "written e")
    case None
    then have "asked e = None" using asked_written by (cases "asked e") fastforce+
    with None Cons show ?thesis by (simp add: asked_paths_def List.map_filter_simps)
  next
    case (Some p)
    then obtain s h k where w: "writes e p s h k" using written_asked by blast
    then have "pr_origin p = origin_of scheme host (show_nat n) \<longleftrightarrow>
        s = scheme \<and> h @ '':'' @ show_nat k = host @ '':'' @ show_nat n"
      using origin_inject [of h host] host_port_inject [of h host] assms unfolding writes_def by metis
    with w Some Cons show ?thesis
      by (simp add: asked_paths_def paths_at_def List.map_filter_simps writes_def)
  qed
qed (simp add: asked_paths_def paths_at_def List.map_filter_simps)


section \<open>What the rules permit\<close>

lemma set_sortMethods [simp]: "set (sortMethods ms) = set ms"
  by (simp add: sortMethods_def)

lemma written_list: "p \<in> set (List.map_filter written es) \<Longrightarrow> \<exists>e\<in>set es. written e = Some p"
  by (auto simp: List.map_filter_def split: option.splits)

lemma written_tabless:
  assumes "\<forall>e\<in>set events. well_logged e"
  shows "\<forall>p\<in>set (List.map_filter written events). tab_char \<notin> set (pr_origin p)"
proof
  fix p assume "p \<in> set (List.map_filter written events)"
  then obtain s h n where w: "pr_origin p = origin_of s h (show_nat n)" "LITERAL_HOST h"
    using written_list written_asked unfolding writes_def by blast
  have "\<forall>c\<in>set (pr_origin p). \<not> js_space c"
    using scheme_text_chars rule_authority_chars [OF w(2)] by (auto simp: w(1) origin_of_authority)
  then show "tab_char \<notin> set (pr_origin p)" by (auto dest: bspec [of _ _ tab_char])
qed

lemma asked_paths_plain:
  assumes "\<forall>e\<in>set events. well_logged e"
  shows "\<forall>p\<in>set (asked_paths events scheme hp m). plain_path p"
  using assms asked_plain by (fastforce simp: asked_paths_def List.map_filter_def split: option.splits prod.splits if_splits)

text \<open>The entry of a line: its origin, methods and pattern, with where they come from.\<close>

lemma rule_entry:
  assumes logged: "\<forall>e\<in>set events. well_logged e" and entry: "x \<in> set (rule_entries (List.map_filter written events))"
  shows "\<exists>scheme host n. op_origin x = origin_of scheme host (show_nat n) \<and> LITERAL_HOST host \<and> 1 \<le> n \<and> n \<le> 65535 \<and>
    op_methods x \<noteq> [] \<and> (\<forall>m\<in>set (op_methods x). LITERAL_METHOD m \<and>
      op_pattern x \<in> set (pathPatternsFor (asked_paths events scheme (host @ '':'' @ show_nat n) m)))"
proof -
  let ?ps = "List.map_filter written events"
  let ?ts = "concat (map (\<lambda>kg. patterns_of (snd kg)) (by_method.collect ?ps))"
  note tabs = written_tabless [OF logged]
  note all = patterns_all [OF tabs]
  note free = patterns_tabless [OF tabs]
  obtain k where "(k, x) \<in> set (by_pattern.collect ?ts)" using entry by (auto simp: rule_entries_def)
  from entry_methods [OF free this] have ms: "op_methods x \<noteq> []"
    "\<And>m. m \<in> set (op_methods x) \<longleftrightarrow> (op_origin x, m, op_pattern x) \<in> set ?ts" by auto
  have at: "\<exists>p\<in>set ?ps. pr_origin p = op_origin x \<and> pr_method p = m" if "m \<in> set (op_methods x)" for m
    using that ms(2) all by (auto simp: paths_at_def filter_empty_conv)
  obtain p where p: "p \<in> set ?ps" "pr_origin p = op_origin x" using at ms(1) by (cases "op_methods x") auto
  from written_list [OF p(1)] obtain e where e: "e \<in> set events" "written e = Some p" by blast
  from written_asked [OF e(2)] obtain scheme host n where w: "writes e p scheme host n" by blast
  then have n: "1 \<le> n \<and> n \<le> 65535" using logged e(1) by (auto simp: writes_def well_logged_def)
  have "LITERAL_METHOD m" if "m \<in> set (op_methods x)" for m
    using at [OF that] written_list written_asked unfolding writes_def by metis
  moreover have "op_pattern x \<in> set (pathPatternsFor (asked_paths events scheme (host @ '':'' @ show_nat n) m))"
    if "m \<in> set (op_methods x)" for m
    using that ms(2) all w p(2) paths_at_asked unfolding writes_def by metis
  ultimately show ?thesis
    using w p(2) n ms(1) unfolding writes_def
    by (intro exI [of _ scheme] exI [of _ host] exI [of _ n]) simp
qed

lemma rule_line_means:
  assumes "\<forall>e\<in>set events. well_logged e" and "x \<in> set (rule_entries (List.map_filter written events))"
  shows "\<exists>u scheme hp. convertUrlRule syn (rule_line x) = Inr u \<and>
    (\<forall>s h m q. url_permits u s h m q \<longleftrightarrow>
       s = scheme \<and> h = hp \<and> m \<in> set (op_methods x) \<and> path_accepts (op_pattern x) q) \<and>
    (\<exists>host n. op_origin x = origin_of scheme host (show_nat n) \<and> hp = host @ '':'' @ show_nat n \<and> LITERAL_HOST host) \<and>
    (\<forall>m\<in>set (op_methods x). op_pattern x \<in> set (pathPatternsFor (asked_paths events scheme hp m)))"
proof -
  obtain scheme host n where r: "op_origin x = origin_of scheme host (show_nat n)" "LITERAL_HOST host"
    "1 \<le> n" "n \<le> 65535" "op_methods x \<noteq> []" "\<forall>m\<in>set (op_methods x). LITERAL_METHOD m"
    "\<forall>m\<in>set (op_methods x). op_pattern x \<in> set (pathPatternsFor (asked_paths events scheme (host @ '':'' @ show_nat n) m))"
    using rule_entry [OF assms] by blast
  have plain: "plain_pattern (op_pattern x)"
    using r(5,7) pathPatternsFor_spec(2) [OF asked_paths_plain [OF assms(1)]] by (cases "op_methods x") auto
  have ms: "sortMethods (op_methods x) \<noteq> []" "\<forall>m\<in>set (sortMethods (op_methods x)). LITERAL_METHOD m"
    using r(5,6) set_sortMethods by (metis set_empty, simp)
  obtain u where u: "convertUrlRule syn (rule_line x) = Inr u" "ur_schemes u = [scheme]"
    "ur_methods u = Some (unique_first (sortMethods (op_methods x)))"
    "\<forall>s. rx_matches (ur_authorityRegex u) s \<longleftrightarrow> s = host @ '':'' @ show_nat n"
    "\<forall>q. rx_matches (ur_pathRegex u) q \<longleftrightarrow> path_accepts (op_pattern x) q"
    using rule_line_reads [OF ms r(2-4) plain, of syn scheme] unfolding rule_line_def r(1) by blast
  have "url_permits u s h m q \<longleftrightarrow>
      s = scheme \<and> h = host @ '':'' @ show_nat n \<and> m \<in> set (op_methods x) \<and> path_accepts (op_pattern x) q" for s h m q
    using u(4,5) by (simp add: url_permits_def u(2,3) conj_ac)
  then show ?thesis using u(1) r(1,2,7) by blast
qed

text \<open>Two downloads from one directory, an upload to another port and a blocked request.\<close>

definition request_to :: "traffic_action \<Rightarrow> string \<Rightarrow> string \<Rightarrow> nat \<Rightarrow> traffic_event" where
  "request_to action meth url port =
     (bare_event 0 action HttpsP ''a.example'')\<lparr>te_method := Some meth, te_url := Some url, te_port := Some port\<rparr>"

definition sample_requests :: "traffic_event list" where
  "sample_requests =
     [request_to AuditAction ''GET'' ''https://a.example/x/1?q=1'' 443,
      request_to AuditAction ''GET'' ''https://a.example/x/2'' 443,
      request_to AuditAction ''POST'' ''https://a.example/up'' 8443,
      request_to Block ''GET'' ''https://a.example/secret'' 443]"

lemma sample_requests_lines:
  "buildUrlRuleLines sample_requests = [''GET https://a.example/x/**'', ''POST https://a.example:8443/up'']"
  by code_simp

lemma sample_requests_logged: "\<forall>e\<in>set sample_requests. well_logged e"
  by code_simp

text \<open>C18. The rules an audit run proposes permit what it did: each request that was not blocked
  and whose method, host and path no rule reads as a pattern is let through by a proposed line,
  which the compiler of URL rules accepts.\<close>

theorem example_permits:
  assumes "\<forall>e\<in>set events. well_logged e" and "e \<in> set events" and "asked e = Some (scheme, hostPort, meth, path)"
  shows "\<exists>line\<in>set (buildUrlRuleLines events). \<exists>u. convertUrlRule syn line = Inr u \<and>
    url_permits u scheme hostPort meth path"
proof -
  let ?ps = "List.map_filter written events"
  note tabs = written_tabless [OF assms(1)]
  obtain p where p: "written e = Some p" "pr_method p = meth" "pr_path p = path" using asked_written [OF assms(3)] by blast
  from written_asked [OF p(1)] obtain scheme' host n where w': "writes e p scheme' host n" by blast
  then have w: "writes e p scheme host n" "hostPort = host @ '':'' @ show_nat n"
    using assms(3) by (simp_all add: writes_def)
  have in_ps: "p \<in> set ?ps" using assms(2) p(1) by (force simp: List.map_filter_def)
  let ?paths = "paths_at ?ps (pr_origin p) meth"
  have path: "path \<in> set ?paths" using in_ps p by (auto simp: paths_at_def)
  have "?paths = asked_paths events scheme hostPort meth" using paths_at_asked w unfolding writes_def by metis
  then obtain pat where pat: "pat \<in> set (pathPatternsFor ?paths)" "path_accepts pat path"
    using pathPatternsFor_spec(1) [OF asked_paths_plain [OF assms(1)]] path by metis
  let ?ts = "concat (map (\<lambda>kg. patterns_of (snd kg)) (by_method.collect ?ps))"
  have t: "(pr_origin p, meth, pat) \<in> set ?ts" using patterns_all [OF tabs] pat(1) path by fastforce
  note free = patterns_tabless [OF tabs]
  obtain k x where x: "(k, x) \<in> set (by_pattern.collect ?ts)" "op_origin x = pr_origin p" "op_pattern x = pat"
    "meth \<in> set (op_methods x)"
    using entry_of_pattern [OF free t] by blast
  then have entry: "x \<in> set (rule_entries ?ps)" by (force simp: rule_entries_def)
  from rule_line_means [OF assms(1) entry] obtain u s h host' n' where u: "convertUrlRule syn (rule_line x) = Inr u"
    "\<forall>s' h' m q. url_permits u s' h' m q \<longleftrightarrow> s' = s \<and> h' = h \<and> m \<in> set (op_methods x) \<and> path_accepts (op_pattern x) q"
    "op_origin x = origin_of s host' (show_nat n')" "h = host' @ '':'' @ show_nat n'" "LITERAL_HOST host'" by blast
  have "s = scheme \<and> h = hostPort"
    using u(3-5) x(2) w origin_inject [of host' host s n' scheme n] unfolding writes_def by metis
  then have "url_permits u scheme hostPort meth path" using u(2) x(3,4) pat(2) by blast
  moreover have "rule_line x \<in> set (buildUrlRuleLines events)"
    using entry by (simp add: buildUrlRuleLines_written ruleLinesFrom_set)
  ultimately show ?thesis using u(1) by blast
qed

theorem example_permits_witness:
  "\<exists>line\<in>set (buildUrlRuleLines sample_requests). \<exists>u. convertUrlRule (\<lambda>_. None) line = Inr u \<and>
    url_permits u Https ''a.example:443'' ''GET'' ''/x/1''"
proof (rule example_permits [OF sample_requests_logged])
  show "hd sample_requests \<in> set sample_requests" by (simp add: sample_requests_def)
  show "asked (hd sample_requests) = Some (Https, ''a.example:443'', ''GET'', ''/x/1'')" by code_simp
qed

text \<open>C17. A proposed line never permits more than was observed, but under the longest common
  directory: it compiles, and what it lets through at an origin by a method is a path asked for
  there by that method, or, where several were, one that lies under every directory they all
  lie in.\<close>

theorem example_permits_only:
  assumes "\<forall>e\<in>set events. well_logged e" and "line \<in> set (buildUrlRuleLines events)"
  shows "\<exists>u. convertUrlRule syn line = Inr u \<and>
    (\<forall>scheme hostPort meth path. url_permits u scheme hostPort meth path \<longrightarrow>
       covered (asked_paths events scheme hostPort meth) path)"
proof -
  obtain x where x: "x \<in> set (rule_entries (List.map_filter written events))" "line = rule_line x"
    using assms(2) by (auto simp: buildUrlRuleLines_written ruleLinesFrom_set)
  from rule_line_means [OF assms(1) x(1)] obtain u s h where u: "convertUrlRule syn line = Inr u"
    "\<forall>s' h' m q. url_permits u s' h' m q \<longleftrightarrow> s' = s \<and> h' = h \<and> m \<in> set (op_methods x) \<and> path_accepts (op_pattern x) q"
    "\<forall>m\<in>set (op_methods x). op_pattern x \<in> set (pathPatternsFor (asked_paths events s h m))"
    unfolding x(2) by blast
  have "covered (asked_paths events s' h' m) q" if "url_permits u s' h' m q" for s' h' m q
  proof -
    have m: "s' = s" "h' = h" "m \<in> set (op_methods x)" "path_accepts (op_pattern x) q" using that u(2) by blast+
    then show ?thesis using pathPatternsFor_spec(2) [OF asked_paths_plain [OF assms(1)]] u(3) by blast
  qed
  then show ?thesis using u(1) by blast
qed

theorem example_permits_only_witness:
  "\<exists>u. convertUrlRule (\<lambda>_. None) ''GET https://a.example/x/**'' = Inr u \<and>
    \<not> url_permits u Https ''a.example:443'' ''POST'' ''/x/1'' \<and>
    \<not> url_permits u Https ''a.example:443'' ''GET'' ''/secret''"
proof -
  have "''GET https://a.example/x/**'' \<in> set (buildUrlRuleLines sample_requests)"
    by (simp add: sample_requests_lines)
  from example_permits_only [OF sample_requests_logged this, of "\<lambda>_. None"]
  obtain u where u: "convertUrlRule (\<lambda>_. None) ''GET https://a.example/x/**'' = Inr u"
    "\<And>m p. url_permits u Https ''a.example:443'' m p \<Longrightarrow> covered (asked_paths sample_requests Https ''a.example:443'' m) p"
    by blast
  have paths: "asked_paths sample_requests Https ''a.example:443'' ''POST'' = []"
    "asked_paths sample_requests Https ''a.example:443'' ''GET'' = [''/x/1'', ''/x/2'']" by code_simp+
  have "\<not> covered [] p" for p by (simp add: covered_def)
  moreover have "\<not> covered [''/x/1'', ''/x/2''] ''/secret''"
  proof -
    have "\<forall>p\<in>set [''/x/1'', ''/x/2'']. within ''/x'' p" "\<not> starts_with (''/x'' @ ''/'') ''/secret''" by code_simp+
    then show ?thesis unfolding covered_def by (auto simp del: starts_with_Cons)
  qed
  ultimately show ?thesis using u paths by metis
qed

end
