(* ===== verification/FsNames.thy ===== *)
theory FsNames
  imports Prelude
begin

text \<open>
  \<^verbatim>\<open>escape.ts\<close> and \<^verbatim>\<open>paths.ts\<close> under \<^verbatim>\<open>src/lib/filesystem-audit\<close>: how the summary shows a
  name a step chose, and how a path is keyed. A text is the list of its code points, a surrogate
  with no partner being one, as the \<^verbatim>\<open>u\<close> flag of the code's expressions reads it.
\<close>

type_synonym ustring = "nat list"

definition u :: "string \<Rightarrow> ustring" where
  "u s = map of_char s"

abbreviation (input) SLASH :: nat where "SLASH \<equiv> 47"
abbreviation (input) BACKSLASH :: nat where "BACKSLASH \<equiv> 92"
abbreviation (input) BLANK :: nat where "BLANK \<equiv> 32"
abbreviation (input) QUOTE :: nat where "QUOTE \<equiv> 34"
abbreviation (input) STAR :: nat where "STAR \<equiv> 42"

section \<open>Escapes\<close>

definition in_ranges :: "(nat \<times> nat) list \<Rightarrow> nat \<Rightarrow> bool" where
  "in_ranges rs c \<longleftrightarrow> list_ex (\<lambda>(lo, hi). lo \<le> c \<and> c \<le> hi) rs"

text \<open>The Unicode properties \<^verbatim>\<open>Cc Cf Cs Zl Zp Zs\<close> and \<^verbatim>\<open>Default_Ignorable_Code_Point\<close> as ranges, with
  the blank Braille pattern and the backslash.\<close>

definition UNSAFE :: "(nat \<times> nat) list" where
  "UNSAFE =
     [(0x00, 0x1F), (0x7F, 0x9F),
      (0xAD, 0xAD), (0x600, 0x605), (0x61C, 0x61C), (0x6DD, 0x6DD), (0x70F, 0x70F), (0x890, 0x891),
      (0x8E2, 0x8E2), (0x180E, 0x180E), (0x200B, 0x200F), (0x202A, 0x202E), (0x2060, 0x2064),
      (0x2066, 0x206F), (0xFEFF, 0xFEFF), (0xFFF9, 0xFFFB), (0x110BD, 0x110BD), (0x110CD, 0x110CD),
      (0x13430, 0x1343F), (0x1BCA0, 0x1BCA3), (0x1D173, 0x1D17A), (0xE0001, 0xE0001), (0xE0020, 0xE007F),
      (0xD800, 0xDFFF), (0x2028, 0x2028), (0x2029, 0x2029),
      (0x20, 0x20), (0xA0, 0xA0), (0x1680, 0x1680), (0x2000, 0x200A), (0x202F, 0x202F), (0x205F, 0x205F),
      (0x3000, 0x3000),
      (0x34F, 0x34F), (0x115F, 0x1160), (0x17B4, 0x17B5), (0x180B, 0x180F), (0x2065, 0x2065),
      (0x3164, 0x3164), (0xFE00, 0xFE0F), (0xFFA0, 0xFFA0), (0xFFF0, 0xFFF8), (0xE0000, 0xE0FFF),
      (0x2800, 0x2800), (BACKSLASH, BACKSLASH)]"

definition UNSAFE_CHARS :: "nat \<Rightarrow> bool" where
  "UNSAFE_CHARS c \<longleftrightarrow> in_ranges UNSAFE c \<or> c = QUOTE \<or> c = STAR"

definition UNSAFE_COMMAND_CHARS :: "nat \<Rightarrow> bool" where
  "UNSAFE_COMMAND_CHARS c \<longleftrightarrow> in_ranges UNSAFE c \<or> c = QUOTE \<or> c \<in> set (u ''[]'')"

definition NAMED_ESCAPES :: "(nat \<times> ustring) list" where
  "NAMED_ESCAPES =
     [(10, BACKSLASH # u ''n''), (13, BACKSLASH # u ''r''), (9, BACKSLASH # u ''t''),
      (BACKSLASH, [BACKSLASH, BACKSLASH]), (QUOTE, [BACKSLASH, QUOTE]), (STAR, [BACKSLASH, STAR]),
      (91, BACKSLASH # u ''[''), (93, BACKSLASH # u '']'')]"

definition RAW_BYTE_FIRST :: nat where "RAW_BYTE_FIRST = 0xDC80"
definition RAW_BYTE_LAST :: nat where "RAW_BYTE_LAST = 0xDCFF"

text \<open>\<^verbatim>\<open>n.toString(16)\<close> and \<^verbatim>\<open>parseInt(s, 16)\<close>.\<close>

definition hex_digit :: "nat \<Rightarrow> nat" where
  "hex_digit n = (if n < 10 then 48 + n else 87 + n)"

fun show_hex :: "nat \<Rightarrow> ustring" where
  "show_hex n = (if n < 16 then [hex_digit n] else show_hex (n div 16) @ [hex_digit (n mod 16)])"

declare show_hex.simps [simp del]

definition is_hex :: "nat \<Rightarrow> bool" where
  "is_hex c \<longleftrightarrow> 48 \<le> c \<and> c \<le> 57 \<or> 97 \<le> c \<and> c \<le> 102"

definition hex_value :: "nat \<Rightarrow> nat" where
  "hex_value c = (if c \<le> 57 then c - 48 else c - 87)"

definition parse_hex :: "ustring \<Rightarrow> nat" where
  "parse_hex s = foldl (\<lambda>v c. 16 * v + hex_value c) 0 s"

definition escapeChar :: "nat \<Rightarrow> ustring" where
  "escapeChar c =
     (case map_of NAMED_ESCAPES c of
        Some named \<Rightarrow> named
      | None \<Rightarrow>
          if RAW_BYTE_FIRST \<le> c \<and> c \<le> RAW_BYTE_LAST
          then BACKSLASH # u ''x'' @ show_hex (c mod 256)
          else BACKSLASH # u ''u{'' @ show_hex c @ u ''}'')"

definition blanks :: "ustring \<Rightarrow> bool" where
  "blanks s \<longleftrightarrow> list_all (\<lambda>c. c = BLANK) s"

text \<open>\<^verbatim>\<open>name.replace(/^ +| +$|(?! )[...]/gu, ...)\<close>, from its first match on: past the leading
  spaces a run of them is escaped only where the text ends in it.\<close>

fun escape_rest :: "(nat \<Rightarrow> bool) \<Rightarrow> ustring \<Rightarrow> ustring" where
  "escape_rest unsafe [] = []"
| "escape_rest unsafe (c # cs) =
     (if c = BLANK then
        (if blanks cs then concat (map escapeChar (c # cs)) else c # escape_rest unsafe cs)
      else (if unsafe c then escapeChar c else [c]) @ escape_rest unsafe cs)"

definition escapeWith :: "(nat \<Rightarrow> bool) \<Rightarrow> ustring \<Rightarrow> ustring" where
  "escapeWith unsafe name =
     concat (map escapeChar (takeWhile (\<lambda>c. c = BLANK) name)) @
     escape_rest unsafe (dropWhile (\<lambda>c. c = BLANK) name)"

definition escapeForDisplay :: "ustring \<Rightarrow> ustring" where
  "escapeForDisplay name = escapeWith UNSAFE_CHARS name"

definition escapeCommandName :: "ustring \<Rightarrow> ustring" where
  "escapeCommandName name = escapeWith UNSAFE_COMMAND_CHARS name"

definition escapePath :: "ustring \<Rightarrow> ustring" where
  "escapePath path = join_with [SLASH] (map escapeForDisplay (split_on SLASH path))"

definition UNESCAPES :: "nat \<Rightarrow> nat option" where
  "UNESCAPES = map_of (map (\<lambda>(c, escaped). (escaped ! 1, c)) NAMED_ESCAPES)"

text \<open>What follows a backslash: the character it stands for, \<^const>\<open>None\<close> for an escape that is
  never written, and the text after it. The \<^verbatim>\<open>.\<close> takes no line terminator.\<close>

definition hex_escape :: "ustring \<Rightarrow> bool" where
  "hex_escape cs \<longleftrightarrow>
     starts_with (u ''u{'') cs \<and>
     (let hex = takeWhile is_hex (drop 2 cs); after = dropWhile is_hex (drop 2 cs) in
      1 \<le> length hex \<and> length hex \<le> 6 \<and> starts_with (u ''}'') after)"

definition raw_escape :: "ustring \<Rightarrow> bool" where
  "raw_escape cs \<longleftrightarrow>
     starts_with (u ''x'') cs \<and> 3 \<le> length cs \<and> cs ! 1 \<in> set (u ''89abcdef'') \<and> is_hex (cs ! 2)"

definition line_terminator :: "nat \<Rightarrow> bool" where
  "line_terminator c \<longleftrightarrow> c \<in> {10, 13, 0x2028, 0x2029}"

definition read_escape :: "ustring \<Rightarrow> nat option \<times> ustring" where
  "read_escape cs =
     (if hex_escape cs then
        (let n = parse_hex (takeWhile is_hex (drop 2 cs)) in
         (if n \<le> 0x10FFFF then Some n else None, drop 1 (dropWhile is_hex (drop 2 cs))))
      else if raw_escape cs then (Some (RAW_BYTE_FIRST - 0x80 + parse_hex [cs ! 1, cs ! 2]), drop 3 cs)
      else if cs \<noteq> [] \<and> \<not> line_terminator (hd cs) then (UNESCAPES (hd cs), tl cs)
      else (None, cs))"

lemma read_escape_length: "length (snd (read_escape cs)) \<le> length cs"
  using length_dropWhile_le [of is_hex "drop 2 cs"] by (auto simp: read_escape_def Let_def)

lemma read_escape_less: "(x, after) = read_escape cs \<Longrightarrow> length after < Suc (length cs)"
  using read_escape_length [of cs] by (metis le_imp_less_Suc snd_conv)

function unescapeDisplay :: "ustring \<Rightarrow> ustring option" where
  "unescapeDisplay [] = Some []"
| "unescapeDisplay (c # cs) =
     (if c = BACKSLASH then
        (case read_escape cs of
           (None, _) \<Rightarrow> None
         | (Some d, after) \<Rightarrow> map_option (Cons d) (unescapeDisplay after))
      else map_option (Cons c) (unescapeDisplay cs))"
  by pat_completeness auto
termination
  by (relation "measure length") (auto dest: read_escape_less)

definition field :: "ustring \<Rightarrow> ustring" where
  "field text' = (if BLANK \<in> set text' then [QUOTE] @ text' @ [QUOTE] else text')"

section \<open>A shown name reads back\<close>

lemma is_hex_digit: "n < 16 \<Longrightarrow> is_hex (hex_digit n) \<and> hex_value (hex_digit n) = n"
  by (auto simp: is_hex_def hex_digit_def hex_value_def)

lemma parse_hex_snoc: "parse_hex (s @ [c]) = 16 * parse_hex s + hex_value c"
  by (simp add: parse_hex_def)

lemma show_hex_reads: "list_all is_hex (show_hex n) \<and> parse_hex (show_hex n) = n \<and> show_hex n \<noteq> []"
proof (induction n rule: show_hex.induct)
  case (1 n)
  show ?case
  proof (cases "n < 16")
    case True
    then show ?thesis
      using is_hex_digit parse_hex_snoc [of "[]"] by (subst (1 2 3) show_hex.simps) (simp add: parse_hex_def)
  next
    case False
    then show ?thesis
      using 1 is_hex_digit [of "n mod 16"] by (subst (1 2 3) show_hex.simps) (simp add: parse_hex_snoc)
  qed
qed

lemma show_hex_length: "n < 16 ^ Suc k \<Longrightarrow> length (show_hex n) \<le> Suc k"
proof (induction k arbitrary: n)
  case 0
  then show ?case by (simp add: show_hex.simps)
next
  case (Suc k)
  have "n div 16 < 16 ^ Suc k" using Suc.prems by (simp add: less_mult_imp_div_less)
  from Suc.IH [OF this] show ?case by (subst show_hex.simps) simp
qed

lemma hex_escape_reads:
  assumes "n \<le> 0x10FFFF"
  shows "read_escape (u ''u{'' @ show_hex n @ u ''}'' @ r) = (Some n, r)"
proof -
  have brace: "\<not> is_hex 125" by (simp add: is_hex_def)
  have h: "\<forall>c\<in>set (show_hex n). is_hex c" using show_hex_reads [of n] by (simp add: list_all_iff)
  have tw: "takeWhile is_hex (show_hex n @ 125 # r) = show_hex n"
    "dropWhile is_hex (show_hex n @ 125 # r) = 125 # r"
    using h brace by (simp_all add: takeWhile_append2 dropWhile_append2)
  have "length (show_hex n) \<le> 6" using show_hex_length [of n 5] assms by simp
  moreover have "1 \<le> length (show_hex n)" using show_hex_reads [of n] by (cases "show_hex n") auto
  ultimately have "hex_escape (u ''u{'' @ show_hex n @ u ''}'' @ r)"
    by (simp add: hex_escape_def u_def tw starts_with_def)
  then show ?thesis using show_hex_reads [of n] assms by (simp add: read_escape_def u_def tw Let_def)
qed

lemma raw_escape_reads:
  assumes "RAW_BYTE_FIRST \<le> c" "c \<le> RAW_BYTE_LAST"
  shows "read_escape (u ''x'' @ show_hex (c mod 256) @ r) = (Some c, r)"
proof -
  define n where "n = c - 0xDC00"
  have c: "c = 220 * 256 + n" "128 \<le> n" "n < 256"
    using assms by (auto simp: n_def RAW_BYTE_FIRST_def RAW_BYTE_LAST_def)
  have m: "c mod 256 = n" unfolding c(1) mod_mult_self3 using c(3) by simp
  have sh: "show_hex n = [hex_digit (n div 16), hex_digit (n mod 16)]"
    using c(2,3) by (subst show_hex.simps, subst show_hex.simps) simp
  have d: "8 \<le> n div 16" "n div 16 < 16" using c(2,3) by auto
  have "n div 16 \<in> {8, 9, 10, 11, 12, 13, 14, 15}" using d by auto
  then have "hex_digit (n div 16) \<in> set (u ''89abcdef'')" by (auto simp: hex_digit_def u_def)
  moreover have "is_hex (hex_digit (n mod 16))" using is_hex_digit by simp
  moreover have "parse_hex [hex_digit (n div 16), hex_digit (n mod 16)] = n"
    using is_hex_digit [of "n mod 16"] is_hex_digit [OF d(2)] by (simp add: parse_hex_def)
  ultimately show ?thesis
    unfolding m sh by (simp add: read_escape_def raw_escape_def hex_escape_def starts_with_def u_def c(1) RAW_BYTE_FIRST_def)
qed

lemma named_escapes_read:
  "list_all (\<lambda>(c, named). length named = 2 \<and> hd named = BACKSLASH \<and> UNESCAPES (named ! 1) = Some c \<and>
     \<not> line_terminator (named ! 1) \<and> named ! 1 \<notin> {117, 120}) NAMED_ESCAPES"
  by code_simp

lemma named_escape_reads:
  assumes "map_of NAMED_ESCAPES c = Some named"
  shows "\<exists>d. named = [BACKSLASH, d] \<and> read_escape (d # r) = (Some c, r)"
proof -
  have "(c, named) \<in> set NAMED_ESCAPES" using assms by (rule map_of_SomeD)
  then have n: "length named = 2" "hd named = BACKSLASH" "UNESCAPES (named ! 1) = Some c"
    "\<not> line_terminator (named ! 1)" "named ! 1 \<notin> {117, 120}"
    using named_escapes_read unfolding list_all_iff by blast+
  then obtain d where d: "named = [BACKSLASH, d]" by (auto simp: numeral_2_eq_2 length_Suc_conv)
  then have "read_escape (d # r) = (Some c, r)"
    using n(3-5) by (simp add: read_escape_def hex_escape_def raw_escape_def u_def)
  then show ?thesis using d by blast
qed

lemma unescape_escapeChar:
  assumes "c \<le> 0x10FFFF"
  shows "unescapeDisplay (escapeChar c @ r) = map_option (Cons c) (unescapeDisplay r)"
proof (cases "map_of NAMED_ESCAPES c")
  case (Some named)
  from named_escape_reads [OF this, of r] show ?thesis by (auto simp: escapeChar_def Some)
next
  case None
  then show ?thesis
    using raw_escape_reads [of c r] hex_escape_reads [OF assms, of r] by (simp add: escapeChar_def)
qed

lemma unescape_escapeChars:
  "\<forall>c\<in>set s. c \<le> 0x10FFFF \<Longrightarrow>
   unescapeDisplay (concat (map escapeChar s) @ r) = map_option (\<lambda>t. s @ t) (unescapeDisplay r)"
proof (induction s)
  case Nil
  then show ?case by (cases "unescapeDisplay r") simp_all
next
  case (Cons c s)
  then show ?case by (cases "unescapeDisplay r") (simp_all add: unescape_escapeChar)
qed

lemma unescape_escape_rest:
  assumes "unsafe BACKSLASH"
  shows "\<forall>c\<in>set s. c \<le> 0x10FFFF \<Longrightarrow> unescapeDisplay (escape_rest unsafe s) = Some s"
proof (induction s)
  case (Cons c s)
  show ?case
  proof (cases "c = BLANK \<and> blanks s")
    case True
    then show ?thesis using unescape_escapeChars [OF Cons.prems, of "[]"] by simp
  next
    case False
    then show ?thesis using Cons assms unescape_escapeChar [of c "escape_rest unsafe s"] by auto
  qed
qed simp

lemma unescape_escapeWith:
  assumes "unsafe BACKSLASH" and "\<forall>c\<in>set name. c \<le> 0x10FFFF"
  shows "unescapeDisplay (escapeWith unsafe name) = Some name"
proof -
  let ?b = "takeWhile (\<lambda>c. c = BLANK) name" and ?r = "dropWhile (\<lambda>c. c = BLANK) name"
  have s: "set ?b \<subseteq> set name" "set ?r \<subseteq> set name"
    by (rule set_mono_prefix, rule takeWhile_is_prefix) (rule set_mono_suffix, rule suffix_dropWhile)
  have "\<forall>c\<in>set ?b. c \<le> 0x10FFFF" "\<forall>c\<in>set ?r. c \<le> 0x10FFFF" using s assms(2) by blast+
  then show ?thesis
    using unescape_escapeChars [of ?b "escape_rest unsafe ?r"] unescape_escape_rest [of unsafe ?r] assms(1)
    by (simp add: escapeWith_def)
qed

text \<open>C28. The escapes of the summary lose nothing: what \<^verbatim>\<open>escapeForDisplay\<close> shows of a name,
  \<^verbatim>\<open>unescapeDisplay\<close> reads back, so no two names are ever shown alike.\<close>

theorem escapeForDisplay_roundtrip:
  assumes "\<forall>c\<in>set name. c \<le> 0x10FFFF"
  shows "unescapeDisplay (escapeForDisplay name) = Some name"
  unfolding escapeForDisplay_def
  by (rule unescape_escapeWith [OF _ assms]) (simp add: UNSAFE_CHARS_def UNSAFE_def in_ranges_def)

theorem escapeForDisplay_roundtrip_witness:
  "unescapeDisplay (u '' '' @ [BACKSLASH, 0x202E, 10, 0xDC80, 42] @ u ''x'') = None \<and>
   unescapeDisplay (escapeForDisplay (u '' '' @ [BACKSLASH, 0x202E, 10, 0xDC80, 42] @ u ''x'')) =
     Some (u '' '' @ [BACKSLASH, 0x202E, 10, 0xDC80, 42] @ u ''x'')"
proof
  show "unescapeDisplay (u '' '' @ [BACKSLASH, 0x202E, 10, 0xDC80, 42] @ u ''x'') = None" by code_simp
qed (rule escapeForDisplay_roundtrip, simp add: u_def)


end
