(* ===== verification/FsPaths.thy ===== *)
theory FsPaths
  imports FsNames
begin

text \<open>
  \<^verbatim>\<open>src/lib/filesystem-audit/paths.ts\<close>: the keys of paths, the numbers of \<^verbatim>\<open>/proc\<close> they hide, and how
  a path shows under the working directory, the workspace and the home directory.
\<close>

section \<open>Marks\<close>

definition MEMFD_PREFIX :: ustring where "MEMFD_PREFIX = u ''memfd:''"
definition MEMFD :: ustring where "MEMFD = 0 # MEMFD_PREFIX"
definition MEMFDS :: ustring where "MEMFDS = MEMFD @ [0]"
definition DELETED_MARK :: ustring where "DELETED_MARK = u '' (deleted)''"
definition DELETED :: ustring where "DELETED = 0 # DELETED_MARK"
definition RUNNER_FILE :: ustring where "RUNNER_FILE = 0 # u ''$''"

text \<open>\<^verbatim>\<open>memfd\<close> and \<^verbatim>\<open>deleted\<close> are the fields of the record, absent ones false.\<close>

definition marked :: "bool \<Rightarrow> bool \<Rightarrow> ustring \<Rightarrow> ustring" where
  "marked memfd deleted path =
     (if memfd then MEMFD @ drop (length MEMFD_PREFIX) path else if deleted then path @ DELETED else path)"

definition unmarked :: "ustring \<Rightarrow> ustring" where
  "unmarked path = (if ends_with DELETED path then take (length path - length DELETED) path else path)"

text \<open>\<^verbatim>\<open>s.slice(s.lastIndexOf("/") + 1)\<close>.\<close>

definition leaf :: "ustring \<Rightarrow> ustring" where
  "leaf path = (case last_index_of SLASH path of None \<Rightarrow> path | Some i \<Rightarrow> drop (Suc i) path)"

definition isRunnerFile :: "ustring \<Rightarrow> bool" where
  "isRunnerFile path \<longleftrightarrow> starts_with RUNNER_FILE path"

definition hasKnownStart :: "ustring \<Rightarrow> bool" where
  "hasKnownStart path \<longleftrightarrow>
     starts_with [SLASH] path \<or> starts_with [0x2026, SLASH] path \<or> starts_with MEMFD path \<or> isRunnerFile path"

definition unfoldable :: "ustring list \<Rightarrow> ustring \<Rightarrow> bool" where
  "unfoldable parts path \<longleftrightarrow> u ''..'' \<in> set parts \<or> starts_with MEMFD path \<or> isRunnerFile path"

section \<open>Numbers of processes\<close>

definition decimal_digit :: "nat \<Rightarrow> bool" where
  "decimal_digit c \<longleftrightarrow> 48 \<le> c \<and> c \<le> 57"

text \<open>\<^verbatim>\<open>(?=\/|$|\0)\<close>.\<close>

definition ends_here :: "ustring \<Rightarrow> bool" where
  "ends_here r \<longleftrightarrow> r = [] \<or> hd r = SLASH \<or> hd r = 0"

text \<open>\<^verbatim>\<open>\d+\<close> or one of the words, and what follows. Digits are taken as far as they go, as what
  must follow is none.\<close>

definition number_or :: "ustring list \<Rightarrow> ustring \<Rightarrow> (ustring \<times> ustring) option" where
  "number_or words t =
     (let digits = takeWhile decimal_digit t in
      if digits \<noteq> [] then Some (digits, dropWhile decimal_digit t)
      else map_option (\<lambda>w. (w, drop (length w) t)) (find (\<lambda>w. starts_with w t) words))"

definition task_part :: "ustring \<Rightarrow> ustring option" where
  "task_part r =
     (if starts_with (u ''/task/'') r
      then (case number_or [u ''<tid>''] (drop 6 r) of
          Some (_, after) \<Rightarrow> if ends_here after then Some after else None
        | None \<Rightarrow> None)
      else None)"

text \<open>\<^verbatim>\<open>PROC_NUMBERS\<close>: the process as the path names it, whether a thread of it, and the rest.\<close>

definition proc_numbers :: "ustring \<Rightarrow> (ustring \<times> bool \<times> ustring) option" where
  "proc_numbers path =
     (if \<not> starts_with (u ''/proc/'') path then None
      else
        (let t = drop 6 path in
         if starts_with (u ''thread-self'') t \<and> ends_here (drop 11 t) then Some (u ''self'', True, drop 11 t)
         else (case number_or [u ''<pid>'', u ''self''] t of
             None \<Rightarrow> None
           | Some (proc, r) \<Rightarrow>
               (case task_part r of
                  Some after \<Rightarrow> Some (proc, True, after)
                | None \<Rightarrow> if ends_here r then Some (proc, False, r) else None))))"

definition spelledSelf :: "ustring \<Rightarrow> bool" where
  "spelledSelf proc \<longleftrightarrow> proc = u ''self''"

definition unnumbered :: "(ustring \<Rightarrow> bool) \<Rightarrow> ustring \<Rightarrow> ustring" where
  "unnumbered own path =
     (case proc_numbers path of
        None \<Rightarrow> path
      | Some (proc, task, after) \<Rightarrow>
          u ''/proc/'' @ (if own proc then u ''self'' else u ''<pid>'') @
          (if task then u ''/task/<tid>'' else []) @ after)"

text \<open>\<^verbatim>\<open>self\<close> is a number, shown as its text.\<close>

definition normalize :: "ustring \<Rightarrow> nat option \<Rightarrow> ustring" where
  "normalize path self =
     unnumbered
       (case self of None \<Rightarrow> (\<lambda>_. False) | Some n \<Rightarrow> (\<lambda>proc. proc = u ''self'' \<or> proc = u (show_nat n)))
       (if starts_with (u ''./'') path then drop 2 path else path)"

section \<open>Prefixes\<close>

definition WORKSPACE_PREFIX :: ustring where "WORKSPACE_PREFIX = u ''$GITHUB_WORKSPACE''"

record prefixes =
  px_cwd :: "ustring list option"
  px_workspace :: "ustring list"
  px_home :: "ustring list"
  px_runnerFiles :: "ustring \<rightharpoonup> ustring"

definition shownPrefixes :: "prefixes \<Rightarrow> (ustring list \<times> ustring) list" where
  "shownPrefixes p =
     [(case px_cwd p of None \<Rightarrow> px_workspace p | Some cwd \<Rightarrow> cwd, u ''.''),
      (case px_cwd p of None \<Rightarrow> [] | Some _ \<Rightarrow> px_workspace p, WORKSPACE_PREFIX),
      (px_home p, u ''~'')]"

definition rest_of :: "ustring \<Rightarrow> ustring \<Rightarrow> ustring option" where
  "rest_of path prefix' =
     (if path = prefix' then Some []
      else
        (let head = (if prefix' = [SLASH] then [SLASH] else prefix' @ [SLASH]) in
         if starts_with head path then Some (drop (length head) path) else None))"

text \<open>The first spelling that holds the path, with the name it shows under.\<close>

definition spelled_under :: "(ustring list \<times> ustring) list \<Rightarrow> (ustring \<times> ustring) list" where
  "spelled_under shown = concat (map (\<lambda>(spellings, s). map (\<lambda>p. (p, s)) spellings) shown)"

definition relativize :: "ustring \<Rightarrow> prefixes \<Rightarrow> ustring" where
  "relativize path p =
     (if isRunnerFile path then u ''$'' @ drop (length RUNNER_FILE) path
      else (case find (\<lambda>(spelling, _). rest_of path spelling \<noteq> None) (spelled_under (shownPrefixes p)) of
          None \<Rightarrow> path
        | Some (spelling, shown) \<Rightarrow>
            (let tail = the (rest_of path spelling) in if tail = [] then shown else shown @ [SLASH] @ tail)))"

definition under_path :: "ustring \<Rightarrow> ustring \<Rightarrow> bool" where
  "under_path path prefix' \<longleftrightarrow> path = prefix' \<or> starts_with (prefix' @ [SLASH]) path"

definition ruleSpellings :: "ustring \<Rightarrow> prefixes \<Rightarrow> ustring list" where
  "ruleSpellings path p =
     (let shown = relativize path p in
      if \<not> under_path shown (u ''.'') then [shown]
      else remdups [shown, relativize path (p\<lparr>px_cwd := Some []\<rparr>)])"

text \<open>The longest spelling of any prefix that holds the path, the first of equal ones, with the
  real path of its prefix.\<close>

definition longer_spelling :: "ustring \<Rightarrow> ustring \<times> ustring \<Rightarrow> (ustring \<times> ustring) option \<Rightarrow> (ustring \<times> ustring) option" where
  "longer_spelling path sp found =
     (case sp of (spelling, real') \<Rightarrow>
        if rest_of path spelling \<noteq> None \<and> (case found of None \<Rightarrow> True | Some (s, _) \<Rightarrow> length s < length spelling)
        then Some (spelling, real') else found)"

definition real_spellings :: "prefixes \<Rightarrow> (ustring \<times> ustring) list" where
  "real_spellings p =
     concat (map (\<lambda>spellings. map (\<lambda>s. (s, last spellings)) spellings)
       [case px_cwd p of None \<Rightarrow> [] | Some cwd \<Rightarrow> cwd, px_workspace p, px_home p])"

definition canonical_path :: "ustring \<Rightarrow> prefixes \<Rightarrow> ustring" where
  "canonical_path path p =
     (case px_runnerFiles p path of
        Some variable \<Rightarrow> RUNNER_FILE @ variable
      | None \<Rightarrow>
          (case fold (longer_spelling path) (real_spellings p) None of
             None \<Rightarrow> path
           | Some (spelling, real') \<Rightarrow>
               (let tail = the (rest_of path spelling) in
                if tail = [] then real'
                else if real' = [SLASH] then [SLASH] @ tail
                else real' @ [SLASH] @ tail)))"

definition sortKey :: "ustring \<Rightarrow> nat \<times> ustring" where
  "sortKey path =
     (if under_path path (u ''.'') then (0, path)
      else if under_path path WORKSPACE_PREFIX then (1, path)
      else if under_path path (u ''~'') then (2, path)
      else (3, path))"

section \<open>Components\<close>

definition components :: "ustring \<Rightarrow> ustring list" where
  "components p =
     (if p = [SLASH] then [[SLASH]]
      else if starts_with [SLASH] p then [SLASH] # split_on SLASH (drop 1 p)
      else split_on SLASH p)"

definition spell :: "ustring list \<Rightarrow> ustring" where
  "spell parts =
     (if parts \<noteq> [] \<and> hd parts = [SLASH] then [SLASH] @ join_with [SLASH] (drop 1 parts)
      else join_with [SLASH] parts)"

lemma spell_components: "spell (components p) = p"
proof -
  have "hd (split_on SLASH p) \<noteq> [SLASH]"
  proof
    assume "hd (split_on SLASH p) = [SLASH]"
    then have "[SLASH] \<in> set (split_on SLASH p)" using split_on_ne hd_in_set by metis
    then show False using split_on_no_sep by fastforce
  qed
  then show ?thesis by (auto simp: spell_def components_def)
qed

section \<open>Numbers are hidden once\<close>

lemma number_word: "number_or [w] (w @ r) = Some (w, r)" if "w \<noteq> []" "\<not> decimal_digit (hd w)"
  using that by (cases w) (simp_all add: number_or_def starts_with_def)

lemma ends_here_digit: "ends_here r \<Longrightarrow> takeWhile decimal_digit r = []"
  by (cases r) (auto simp: ends_here_def decimal_digit_def)

text \<open>A path already shown with \<^verbatim>\<open><pid>\<close> and \<^verbatim>\<open><tid>\<close> shows as it is: a rule's path written as the
  summary shows it is not taken for one that names a process by number.\<close>

lemma proc_numbers_shown:
  assumes "w = u ''self'' \<or> w = u ''<pid>''" and "ends_here r" and "task_part r = None"
  shows "proc_numbers (u ''/proc/'' @ w @ r) = Some (w, False, r)"
proof -
  have "\<not> starts_with (u ''thread-self'') (w @ r)"
    using assms(1) by (auto simp: u_def)
  moreover have "number_or [u ''<pid>'', u ''self''] (w @ r) = Some (w, r)"
    using assms(1) by (auto simp: number_or_def u_def starts_with_def decimal_digit_def)
  moreover have "starts_with (u ''/proc/'') (u ''/proc/'' @ w @ r)" "drop 6 (u ''/proc/'' @ w @ r) = w @ r"
    by (simp_all add: starts_with_def u_def)
  ultimately show ?thesis using assms(2,3) by (simp add: proc_numbers_def Let_def)
qed

lemma proc_numbers_shown_task:
  assumes "w = u ''self'' \<or> w = u ''<pid>''" and "ends_here r"
  shows "proc_numbers (u ''/proc/'' @ w @ u ''/task/<tid>'' @ r) = Some (w, True, r)"
proof -
  have "\<not> starts_with (u ''thread-self'') (w @ u ''/task/<tid>'' @ r)"
    using assms(1) by (auto simp: u_def)
  moreover have "number_or [u ''<pid>'', u ''self''] (w @ u ''/task/<tid>'' @ r) = Some (w, u ''/task/<tid>'' @ r)"
    using assms(1) by (auto simp: number_or_def u_def starts_with_def decimal_digit_def)
  moreover have "task_part (u ''/task/<tid>'' @ r) = Some r"
    using assms(2) by (simp add: task_part_def number_or_def u_def starts_with_def decimal_digit_def)
  moreover have "starts_with (u ''/proc/'') (u ''/proc/'' @ w @ u ''/task/<tid>'' @ r)"
    "drop 6 (u ''/proc/'' @ w @ u ''/task/<tid>'' @ r) = w @ u ''/task/<tid>'' @ r"
    by (simp_all add: starts_with_def u_def)
  ultimately show ?thesis using assms(2) by (simp add: proc_numbers_def Let_def)
qed

lemma proc_numbers_parts:
  assumes "proc_numbers path = Some (proc, task, r)"
  shows "ends_here r \<and> (\<not> task \<longrightarrow> task_part r = None)"
  using assms by (auto simp: proc_numbers_def task_part_def Let_def split: if_splits option.splits)

text \<open>Once a path's numbers are hidden nothing is left to hide, whatever process it was read
  for.\<close>

theorem unnumbered_shows_none: "unnumbered spelledSelf (unnumbered own path) = unnumbered own path"
proof (cases "proc_numbers path")
  case None
  then show ?thesis by (simp add: unnumbered_def)
next
  case (Some ptr)
  obtain proc task r where p: "ptr = (proc, task, r)" by (cases ptr)
  define w where "w = (if own proc then u ''self'' else u ''<pid>'')"
  have w: "w = u ''self'' \<or> w = u ''<pid>''" by (simp add: w_def)
  have s: "(if spelledSelf w then u ''self'' else u ''<pid>'') = w"
    using w by (auto simp: spelledSelf_def u_def)
  note parts = proc_numbers_parts [OF Some [unfolded p]]
  show ?thesis
  proof (cases task)
    case True
    have "unnumbered own path = u ''/proc/'' @ w @ u ''/task/<tid>'' @ r"
      using True by (simp add: unnumbered_def Some p w_def)
    moreover have "unnumbered spelledSelf (u ''/proc/'' @ w @ u ''/task/<tid>'' @ r) = u ''/proc/'' @ w @ u ''/task/<tid>'' @ r"
      using proc_numbers_shown_task [OF w, of r] parts s by (simp add: unnumbered_def)
    ultimately show ?thesis by simp
  next
    case False
    have "unnumbered own path = u ''/proc/'' @ w @ r"
      using False by (simp add: unnumbered_def Some p w_def)
    moreover have "unnumbered spelledSelf (u ''/proc/'' @ w @ r) = u ''/proc/'' @ w @ r"
      using proc_numbers_shown [OF w, of r] parts False s by (simp add: unnumbered_def)
    ultimately show ?thesis by simp
  qed
qed

end
