(* ===== verification/FsGlob.thy ===== *)
theory FsGlob
  imports FsPaths "HOL-Library.Sublist"
begin

text \<open>
  The globs of \<^verbatim>\<open>src/lib/filesystem-audit/rules.ts\<close>: the compiler in one pass, and the table that
  matches a name in time linear in it, with what a glob means as its specification.
\<close>

section \<open>The table\<close>

datatype gpart = Txt ustring | Star | Any | Dirs | Under

text \<open>A row tells of each suffix of the name whether the parts from one on take it: the row of a
  text part from the row \<^verbatim>\<open>rest\<close> of the parts after it.\<close>

definition text_row :: "ustring \<Rightarrow> ustring \<Rightarrow> bool list \<Rightarrow> bool list" where
  "text_row part name rest =
     map (\<lambda>p. p + length part \<le> length name \<and> rest ! (p + length part) \<and> starts_with part (drop p name))
       [0..<Suc (length name)]"

text \<open>The row of a wildcard, from the right, with \<^verbatim>\<open>later\<close> and \<^verbatim>\<open>afterSlash\<close>.\<close>

fun wild_row :: "gpart \<Rightarrow> ustring \<Rightarrow> bool list \<Rightarrow> bool list \<times> bool \<times> bool" where
  "wild_row part (c # name) (r # rest) =
     (let (cur, later, afterSlash) = wild_row part name rest;
          slash = (c = SLASH); later' = (later \<or> r); afterSlash' = (afterSlash \<or> slash \<and> hd rest);
          v = (case part of
                 Star \<Rightarrow> r \<or> \<not> slash \<and> hd cur
               | Any \<Rightarrow> r \<or> hd cur
               | Dirs \<Rightarrow> r \<or> afterSlash'
               | _ \<Rightarrow> r \<or> slash \<and> later') in
      (v # cur, later', afterSlash'))"
| "wild_row part _ rest = (rest, hd rest, False)"

definition part_row :: "ustring \<Rightarrow> gpart \<Rightarrow> bool list \<Rightarrow> bool list" where
  "part_row name part rest =
     (case part of Txt t \<Rightarrow> text_row t name rest | _ \<Rightarrow> fst (wild_row part name rest))"

definition takesWhole :: "gpart list \<Rightarrow> ustring \<Rightarrow> bool" where
  "takesWhole parts name \<longleftrightarrow>
     (case parts of Txt t # _ \<Rightarrow> starts_with t name | _ \<Rightarrow> True) \<and>
     (parts \<noteq> [] \<longrightarrow> (case last parts of Txt t \<Rightarrow> ends_with t name | _ \<Rightarrow> True)) \<and>
     hd (foldr (part_row name) parts (replicate (length name) False @ [True]))"

section \<open>What the parts mean\<close>

text \<open>A star takes no slash; \<^const>\<open>Dirs\<close> takes whole components, each with its slash, or nothing;
  \<^const>\<open>Under\<close> takes nothing, or a slash and anything after it.\<close>

fun glob_takes :: "gpart list \<Rightarrow> ustring \<Rightarrow> bool" where
  "glob_takes [] s \<longleftrightarrow> s = []"
| "glob_takes (Txt t # ps) s \<longleftrightarrow> (\<exists>r. s = t @ r \<and> glob_takes ps r)"
| "glob_takes (Star # ps) s \<longleftrightarrow> (\<exists>w r. s = w @ r \<and> SLASH \<notin> set w \<and> glob_takes ps r)"
| "glob_takes (Any # ps) s \<longleftrightarrow> (\<exists>w r. s = w @ r \<and> glob_takes ps r)"
| "glob_takes (Dirs # ps) s \<longleftrightarrow> glob_takes ps s \<or> (\<exists>w r. s = w @ SLASH # r \<and> glob_takes ps r)"
| "glob_takes (Under # ps) s \<longleftrightarrow> glob_takes ps s \<or> (\<exists>w r. s = SLASH # w @ r \<and> glob_takes ps r)"

text \<open>The row of the parts from one on.\<close>

definition row_of :: "gpart list \<Rightarrow> ustring \<Rightarrow> bool list" where
  "row_of parts name = map (\<lambda>p. glob_takes parts (drop p name)) [0..<Suc (length name)]"

lemma row_of_Cons: "row_of parts (c # name) = glob_takes parts (c # name) # row_of parts name"
proof -
  have "[0..<Suc (length (c # name))] = 0 # map Suc [0..<Suc (length name)]"
    by (simp add: map_Suc_upt del: upt_Suc) (simp add: upt_rec)
  then show ?thesis by (simp add: row_of_def o_def del: upt_Suc)
qed

lemma row_of_Nil: "row_of parts [] = [glob_takes parts []]"
  by (simp add: row_of_def)

lemma row_of_ne [simp]: "row_of parts name \<noteq> []" "length (row_of parts name) = Suc (length name)"
  by (simp_all add: row_of_def)

lemma hd_row_of [simp]: "hd (row_of parts name) = glob_takes parts name"
  by (cases name) (simp_all add: row_of_Cons row_of_Nil)

lemma row_of_nth: "p \<le> length name \<Longrightarrow> row_of parts name ! p = glob_takes parts (drop p name)"
  by (simp add: row_of_def del: upt_Suc)

lemma text_row_of: "text_row t name (row_of ps name) = row_of (Txt t # ps) name"
proof -
  have "p + length t \<le> length name \<and> row_of ps name ! (p + length t) \<and> starts_with t (drop p name) \<longleftrightarrow>
      glob_takes (Txt t # ps) (drop p name)" if "p \<le> length name" for p
  proof
    assume l: "p + length t \<le> length name \<and> row_of ps name ! (p + length t) \<and> starts_with t (drop p name)"
    then obtain r where r: "drop p name = t @ r" by (auto simp: starts_with_iff)
    then have "drop (p + length t) name = r"
      by (metis add.commute append_eq_conv_conj drop_drop)
    then have "glob_takes ps r" using l row_of_nth [of "p + length t" name ps] by simp
    then show "glob_takes (Txt t # ps) (drop p name)" using r by simp
  next
    assume "glob_takes (Txt t # ps) (drop p name)"
    then obtain r where r: "drop p name = t @ r" "glob_takes ps r" by auto
    then have "drop (p + length t) name = r" by (metis add.commute append_eq_conv_conj drop_drop)
    moreover have "length t \<le> length name - p" using arg_cong [OF r(1), of length] by simp
    ultimately show "p + length t \<le> length name \<and> row_of ps name ! (p + length t) \<and> starts_with t (drop p name)"
      using r that by (simp add: row_of_nth starts_with_iff)
  qed
  then show ?thesis by (auto simp: text_row_def row_of_def [of "Txt t # ps"] simp del: upt_Suc glob_takes.simps)
qed

lemma split_Cons_ex:
  "(\<exists>w r. c # s = w @ r \<and> P w r) \<longleftrightarrow> P [] (c # s) \<or> (\<exists>w r. s = w @ r \<and> P (c # w) r)"
  unfolding Cons_eq_append_conv by blast

lemma star_Cons:
  "glob_takes (Star # ps) (c # s) \<longleftrightarrow> glob_takes ps (c # s) \<or> c \<noteq> SLASH \<and> glob_takes (Star # ps) s"
  using split_Cons_ex [of c s "\<lambda>w r. SLASH \<notin> set w \<and> glob_takes ps r"] by auto

lemma any_Cons: "glob_takes (Any # ps) (c # s) \<longleftrightarrow> glob_takes ps (c # s) \<or> glob_takes (Any # ps) s"
  using split_Cons_ex [of c s "\<lambda>w r. glob_takes ps r"] by auto

text \<open>Whether some suffix is taken, and whether one after a slash is.\<close>

definition some_later :: "gpart list \<Rightarrow> ustring \<Rightarrow> bool" where
  "some_later ps s \<longleftrightarrow> (\<exists>w r. s = w @ r \<and> glob_takes ps r)"

definition some_after_slash :: "gpart list \<Rightarrow> ustring \<Rightarrow> bool" where
  "some_after_slash ps s \<longleftrightarrow> (\<exists>w r. s = w @ SLASH # r \<and> glob_takes ps r)"

lemma later_Cons: "some_later ps (c # s) \<longleftrightarrow> some_later ps s \<or> glob_takes ps (c # s)"
  using split_Cons_ex [of c s "\<lambda>w r. glob_takes ps r"] by (auto simp: some_later_def)

lemma after_slash_Cons:
  "some_after_slash ps (c # s) \<longleftrightarrow> some_after_slash ps s \<or> c = SLASH \<and> glob_takes ps s"
  using split_Cons_ex [of c s "\<lambda>w r'. \<exists>r. r' = SLASH # r \<and> glob_takes ps r"] by (auto simp: some_after_slash_def)

lemma wild_row_of:
  assumes "\<forall>t. part \<noteq> Txt t"
  shows "wild_row part name (row_of ps name) = (row_of (part # ps) name, some_later ps name, some_after_slash ps name)"
proof (induction name)
  case Nil
  have "glob_takes (part # ps) [] = glob_takes ps []" using assms by (cases part) auto
  then show ?case by (simp add: row_of_Nil some_later_def some_after_slash_def)
next
  case (Cons c name)
  have "glob_takes (part # ps) (c # name) \<longleftrightarrow>
      (case part of
         Star \<Rightarrow> glob_takes ps (c # name) \<or> c \<noteq> SLASH \<and> glob_takes (part # ps) name
       | Any \<Rightarrow> glob_takes ps (c # name) \<or> glob_takes (part # ps) name
       | Dirs \<Rightarrow> glob_takes ps (c # name) \<or> some_after_slash ps (c # name)
       | _ \<Rightarrow> glob_takes ps (c # name) \<or> c = SLASH \<and> some_later ps (c # name))"
  proof (cases part)
    case Under
    have "(\<exists>w r. c # name = SLASH # w @ r \<and> glob_takes ps r) \<or> glob_takes ps (c # name) \<longleftrightarrow>
        glob_takes ps (c # name) \<or> c = SLASH \<and> some_later ps (c # name)"
      unfolding later_Cons by (auto simp: some_later_def)
    then show ?thesis using Under by auto
  qed (use assms star_Cons any_Cons in \<open>auto simp: some_after_slash_def simp del: glob_takes.simps(3,4)\<close>)
  then show ?case
    using Cons later_Cons [of ps c name] after_slash_Cons [of ps c name]
    by (cases part) (simp_all add: row_of_Cons Let_def del: glob_takes.simps)
qed

lemma part_row_of: "part_row name part (row_of ps name) = row_of (part # ps) name"
  by (cases part) (simp_all add: part_row_def text_row_of wild_row_of del: glob_takes.simps)

lemma rows_of: "foldr (part_row name) parts (replicate (length name) False @ [True]) = row_of parts name"
proof (induction parts)
  case Nil
  show ?case by (induction name) (simp_all add: row_of_Nil row_of_Cons)
qed (simp add: part_row_of)

lemma laterI: "s = w @ r \<Longrightarrow> glob_takes ps r \<Longrightarrow> some_later ps s"
  unfolding some_later_def by blast

lemma takes_later: "glob_takes (part # ps) s \<Longrightarrow> some_later ps s"
proof (cases part)
  case Dirs
  assume "glob_takes (part # ps) s"
  then show ?thesis using Dirs laterI [of s "[]" s] laterI [of s "_ @ [SLASH]"] by auto
next
  case Under
  assume "glob_takes (part # ps) s"
  then show ?thesis using Under laterI [of s "[]" s] laterI [of s "SLASH # _"] by auto
qed (auto intro: laterI)

lemma takes_last:
  "glob_takes parts s \<Longrightarrow> parts \<noteq> [] \<Longrightarrow> last parts = Txt t \<Longrightarrow> ends_with t s"
proof (induction parts arbitrary: s)
  case (Cons part ps)
  show ?case
  proof (cases "ps = []")
    case True
    with Cons show ?thesis by (auto simp: ends_with_iff)
  next
    case False
    with Cons.prems have l: "last ps = Txt t" by simp
    have "some_later ps s" using takes_later Cons.prems(1) .
    then obtain w r where "s = w @ r" "glob_takes ps r" by (auto simp: some_later_def)
    with Cons.IH [OF this(2) False l] show ?thesis by (auto simp: ends_with_iff)
  qed
qed simp

lemma takesWhole_glob: "takesWhole parts name \<longleftrightarrow> glob_takes parts name"
proof -
  have "glob_takes parts name \<Longrightarrow> (case parts of Txt t # _ \<Rightarrow> starts_with t name | _ \<Rightarrow> True)"
    by (auto simp: starts_with_iff split: list.splits gpart.splits)
  moreover have "glob_takes parts name \<Longrightarrow> parts \<noteq> [] \<Longrightarrow> (case last parts of Txt t \<Rightarrow> ends_with t name | _ \<Rightarrow> True)"
    using takes_last by (auto split: gpart.splits)
  ultimately show ?thesis unfolding takesWhole_def rows_of hd_row_of by blast
qed

section \<open>The compiler\<close>

text \<open>\<^verbatim>\<open>ESCAPE\<close> at a backslash: the escape as it is written.\<close>

definition escape_text :: "ustring \<Rightarrow> ustring" where
  "escape_text s =
     (let cs = tl s in
      if hex_escape cs then take (4 + length (takeWhile is_hex (drop 2 cs))) s
      else if starts_with (u ''x'') cs \<and> 3 \<le> length cs \<and> is_hex (cs ! 1) \<and> is_hex (cs ! 2) then take 4 s
      else if cs \<noteq> [] \<and> \<not> line_terminator (hd cs) then take 2 s
      else take 1 s)"

definition SPACE :: ustring where
  "SPACE = escapeForDisplay [BLANK]"

text \<open>\<^verbatim>\<open>/^(?:...|...)*$/\<close> for words.\<close>

function made_of :: "ustring list \<Rightarrow> ustring \<Rightarrow> bool" where
  "made_of ws s =
     (if s = [] then True
      else list_ex (\<lambda>w. if w \<noteq> [] \<and> starts_with w s then made_of ws (drop (length w) s) else False) ws)"
  by pat_completeness auto
termination by (relation "measure (\<lambda>(ws, s). length s)") auto

declare made_of.simps [simp del]

definition ONLY_SPACES :: "ustring \<Rightarrow> bool" where
  "ONLY_SPACES s \<longleftrightarrow> made_of [SPACE] s"

definition SPACES_OR_STARS :: "ustring \<Rightarrow> bool" where
  "SPACES_OR_STARS s \<longleftrightarrow> made_of [SPACE, [STAR]] s"

definition memfd_name :: "ustring \<Rightarrow> bool" where
  "memfd_name glob \<longleftrightarrow> starts_with (MEMFD_PREFIX @ [QUOTE]) glob \<and> ends_with [QUOTE] glob"

definition name_start :: "ustring \<Rightarrow> nat \<Rightarrow> bool \<Rightarrow> nat" where
  "name_start glob i whole =
     (if memfd_name glob then length MEMFD_PREFIX + 1
      else if whole then 0
      else (case last_index_of SLASH (take i glob) of None \<Rightarrow> 0 | Some j \<Rightarrow> Suc j))"

definition name_end :: "ustring \<Rightarrow> nat \<Rightarrow> bool \<Rightarrow> nat" where
  "name_end glob i whole =
     (if memfd_name glob then length glob - 1
      else if whole then length glob
      else (case index_of SLASH (drop i glob) of None \<Rightarrow> length glob | Some j \<Rightarrow> i + j))"

text \<open>\<^verbatim>\<open>s.slice(i, j)\<close>.\<close>

definition slice :: "nat \<Rightarrow> nat \<Rightarrow> 'a list \<Rightarrow> 'a list" where
  "slice i j s = take (j - i) (drop i s)"

definition atEdge :: "ustring \<Rightarrow> nat \<Rightarrow> nat \<Rightarrow> (ustring \<Rightarrow> bool) \<Rightarrow> bool \<Rightarrow> bool" where
  "atEdge glob i len edge whole \<longleftrightarrow>
     edge (slice (name_start glob i whole) i glob) \<or> edge (slice (i + len) (name_end glob i whole) glob)"

fun drop_dirs :: "gpart list \<Rightarrow> gpart list" where
  "drop_dirs (Dirs # ps) = drop_dirs ps"
| "drop_dirs ps = ps"

text \<open>A trailing \<^verbatim>\<open>/**\<close> takes its directory too, so the slash before it goes.\<close>

definition trailing :: "gpart list \<Rightarrow> gpart list" where
  "trailing parts =
     (let ps = rev (drop_dirs (rev parts)) in
      if ps = [] then [Any]
      else
        (case last ps of
           Txt t \<Rightarrow>
             if ends_with [SLASH] t then (if t = [SLASH] then butlast ps else butlast ps @ [Txt (butlast t)]) @ [Under]
             else ps @ [Any]
         | _ \<Rightarrow> ps @ [Any]))"

definition add_text :: "gpart list \<Rightarrow> ustring \<Rightarrow> gpart list" where
  "add_text parts c =
     (if parts = [] then [Txt c]
      else (case last parts of Txt t \<Rightarrow> butlast parts @ [Txt (t @ c)] | _ \<Rightarrow> parts @ [Txt c]))"

definition first_star :: "nat option \<Rightarrow> nat \<Rightarrow> nat option" where
  "first_star star i = (case star of None \<Rightarrow> Some i | Some k \<Rightarrow> Some k)"

text \<open>The text at an index that a text part takes next, unless the summary never writes it.\<close>

definition next_text :: "ustring \<Rightarrow> bool \<Rightarrow> nat \<Rightarrow> ustring option" where
  "next_text glob whole i =
     (if glob ! i = BACKSLASH then
        (let c = escape_text (drop i glob) in
         case unescapeDisplay c of
           None \<Rightarrow> None
         | Some char' \<Rightarrow>
             if escapeForDisplay char' \<noteq> c then None
             else if c = SPACE \<and> \<not> atEdge glob i (length c) SPACES_OR_STARS whole then None
             else Some c)
      else if glob ! i = BLANK \<and> atEdge glob i 1 ONLY_SPACES whole then None
      else Some [glob ! i])"

lemma escape_text_ne: "s \<noteq> [] \<Longrightarrow> escape_text s \<noteq> []"
  by (auto simp: escape_text_def Let_def)

lemma next_text_ne: "next_text glob whole i = Some c \<Longrightarrow> i < length glob \<Longrightarrow> c \<noteq> []"
  using escape_text_ne [of "drop i glob"] by (auto simp: next_text_def Let_def split: if_splits option.splits)

lemma two_stars: "starts_with [STAR, STAR] s \<Longrightarrow> 2 \<le> length (takeWhile (\<lambda>c. c = STAR) s)"
  by auto

lemma stars_step:
  assumes "starts_with [STAR, STAR] (drop i glob)" "\<not> length glob \<le> i"
  shows "length glob - (i + length (takeWhile (\<lambda>c. c = STAR) (drop i glob))) < length glob - i"
    "length glob - Suc (i + length (takeWhile (\<lambda>c. c = STAR) (drop i glob))) < length glob - i"
  using two_stars [OF assms(1)] assms(2) by linarith+

lemma text_step: "next_text glob whole i = Some c \<Longrightarrow> \<not> length glob \<le> i \<Longrightarrow> length glob - (i + length c) < length glob - i"
  using next_text_ne [of glob whole i c] by (cases c) auto

function compile_loop :: "ustring \<Rightarrow> bool \<Rightarrow> nat \<Rightarrow> gpart list \<Rightarrow> nat option \<Rightarrow> (gpart list \<times> nat option) option" where
  "compile_loop glob whole i parts star =
     (if length glob \<le> i then Some (parts, star)
      else if starts_with [STAR, STAR] (drop i glob) then
        (let atStart = (i = 0 \<or> glob ! (i - 1) = SLASH);
             j = i + length (takeWhile (\<lambda>c. c = STAR) (drop i glob)) in
         if atStart \<and> length glob \<le> j then compile_loop glob whole j (trailing parts) (first_star star i)
         else if atStart \<and> glob ! j = SLASH then compile_loop glob whole (Suc j) (parts @ [Dirs]) (first_star star i)
         else compile_loop glob whole j (parts @ [Any]) (first_star star i))
      else if glob ! i = STAR then compile_loop glob whole (Suc i) (parts @ [Star]) (first_star star i)
      else (case next_text glob whole i of
          None \<Rightarrow> None
        | Some c \<Rightarrow> compile_loop glob whole (i + length c) (add_text parts c) star))"
  by pat_completeness auto

termination
  by (relation "measure (\<lambda>(glob, whole, i, parts, star). length glob - i)")
    (simp_all del: starts_with_Cons add: stars_step text_step)

declare compile_loop.simps [simp del]

record glob =
  gl_parts :: "gpart list"
  gl_start :: "ustring list"

definition compileGlob :: "ustring \<Rightarrow> bool \<Rightarrow> glob option" where
  "compileGlob g whole =
     map_option
       (\<lambda>(parts, star).
         \<lparr>gl_parts = parts,
          gl_start =
            (case star of
               None \<Rightarrow> split_on SLASH g
             | Some k \<Rightarrow> (case last_index_of SLASH (take k g) of None \<Rightarrow> [] | Some e \<Rightarrow> split_on SLASH (take e g)))\<rparr>)
       (compile_loop g whole 0 [] None)"

definition glob_test :: "glob \<Rightarrow> ustring \<Rightarrow> bool" where
  "glob_test g name = (case gl_parts g of [Txt text'] \<Rightarrow> name = text' | parts \<Rightarrow> takesWhole parts name)"

lemma glob_test_takes: "glob_test g name \<longleftrightarrow> glob_takes (gl_parts g) name"
proof -
  consider t where "gl_parts g = [Txt t]" | "glob_test g name = takesWhole (gl_parts g) name"
    unfolding glob_test_def by (cases "gl_parts g"; cases "hd (gl_parts g)"; cases "tl (gl_parts g)") simp_all
  then show ?thesis by cases (auto simp: glob_test_def takesWhole_glob)
qed


section \<open>The components every taken name starts with\<close>

text \<open>The parts before the first wildcard: the glob's text up to it.\<close>

definition lead :: "ustring \<Rightarrow> nat \<Rightarrow> gpart list" where
  "lead g k = (if k = 0 then [] else [Txt (take k g)])"

text \<open>The parts of a glob whose first wildcard is at \<^term>\<open>k\<close>; a trailing \<^verbatim>\<open>/**\<close> has taken the
  slash before it.\<close>

definition starred_parts :: "ustring \<Rightarrow> nat \<Rightarrow> gpart list \<Rightarrow> bool" where
  "starred_parts g k ps \<longleftrightarrow>
     (\<exists>tail'. tail' \<noteq> [] \<and> ps = lead g k @ tail') \<or>
     (\<exists>x. take k g = x @ [SLASH] \<and> ps = (if x = [] then [] else [Txt x]) @ [Under])"

definition pop_dirs :: "gpart list \<Rightarrow> gpart list" where
  "pop_dirs ps = rev (drop_dirs (rev ps))"

lemma pop_dirs_snoc [simp]: "pop_dirs (ps @ [d]) = (if d = Dirs then pop_dirs ps else ps @ [d])"
  by (cases d) (simp_all add: pop_dirs_def)

lemma pop_dirs_lead: "pop_dirs (lead g k) = lead g k"
  by (simp add: lead_def pop_dirs_def)

lemma pop_dirs_append:
  "pop_dirs (xs @ tail') = pop_dirs xs \<or> (\<exists>t. t \<noteq> [] \<and> pop_dirs (xs @ tail') = xs @ t)"
proof (induction tail' rule: rev_induct)
  case (snoc d ds)
  show ?case
  proof (cases "d = Dirs")
    case True
    then show ?thesis using snoc by (simp flip: append_assoc)
  next
    case False
    then have "pop_dirs (xs @ ds @ [d]) = xs @ (ds @ [d])" by (simp flip: append_assoc)
    then show ?thesis by blast
  qed
qed simp

lemma trailing_lead:
  assumes "parts = lead g k @ tail'" shows "starred_parts g k (trailing parts)"
proof -
  have "pop_dirs parts = lead g k \<or> (\<exists>t. t \<noteq> [] \<and> pop_dirs parts = lead g k @ t)"
    using pop_dirs_append [of "lead g k" tail'] by (simp add: assms pop_dirs_lead)
  then consider "pop_dirs parts = []" "k = 0"
    | "pop_dirs parts = [Txt (take k g)]" "k \<noteq> 0"
    | t where "t \<noteq> []" "pop_dirs parts = lead g k @ t"
    by (auto simp: lead_def split: if_splits)
  then show ?thesis
  proof cases
    case 1
    then have "trailing parts = lead g k @ [Any]" by (simp add: trailing_def pop_dirs_def lead_def Let_def)
    then show ?thesis unfolding starred_parts_def by blast
  next
    case 2
    show ?thesis
    proof (cases "ends_with [SLASH] (take k g)")
      case True
      then obtain x where x: "take k g = x @ [SLASH]" by (auto simp: ends_with_iff)
      then have "trailing parts = (if x = [] then [] else [Txt x]) @ [Under]"
        using 2 True by (simp add: trailing_def pop_dirs_def [symmetric] Let_def)
      with x show ?thesis unfolding starred_parts_def by blast
    next
      case False
      then have "trailing parts = lead g k @ [Any]"
        using 2 by (simp add: trailing_def pop_dirs_def [symmetric] lead_def Let_def)
      then show ?thesis unfolding starred_parts_def by blast
    qed
  next
    case (3 t)
    have "trailing parts = (case last t of
        Txt w \<Rightarrow> if ends_with [SLASH] w
          then (if w = [SLASH] then lead g k @ butlast t else (lead g k @ butlast t) @ [Txt (butlast w)]) @ [Under]
          else (lead g k @ t) @ [Any]
      | _ \<Rightarrow> (lead g k @ t) @ [Any])"
      using 3 by (simp add: trailing_def pop_dirs_def [symmetric] butlast_append Let_def split: gpart.splits)
    then obtain v where "trailing parts = lead g k @ v" "v \<noteq> []"
      by (cases "last t") (auto split: if_splits)
    then show ?thesis unfolding starred_parts_def by blast
  qed
qed

lemma add_text_tail: "t \<noteq> [] \<Longrightarrow> \<exists>t'. t' \<noteq> [] \<and> add_text (xs @ t) c = xs @ t'"
  by (cases "last t") (auto simp: add_text_def butlast_append)

lemma escape_text_prefix: "prefix (escape_text s) s"
  by (auto simp: escape_text_def Let_def take_is_prefix)

lemma next_text_prefix:
  assumes "next_text glob whole i = Some c" "i < length glob" shows "prefix c (drop i glob)"
proof -
  obtain d r where d: "drop i glob = d # r" using assms(2) by (cases "drop i glob") auto
  then have "glob ! i = d" using assms(2) by (metis hd_drop_conv_nth list.sel(1))
  then show ?thesis
    using assms(1) escape_text_prefix [of "drop i glob"] d
    by (auto simp: next_text_def Let_def split: if_splits option.splits)
qed

lemma lead_text:
  assumes "prefix c (drop i g)" "i < length g" "c \<noteq> []"
  shows "add_text (lead g i) c = lead g (i + length c)"
proof -
  have "c = take (length c) (drop i g)" using assms(1) by (auto simp: prefix_def)
  then have "take (i + length c) g = take i g @ c" by (metis take_add)
  then show ?thesis using assms by (simp add: lead_def add_text_def)
qed

text \<open>One turn of the loop: it is done, takes a wildcard, or takes text.\<close>

definition takes_wild :: "ustring \<Rightarrow> nat \<Rightarrow> gpart list \<Rightarrow> nat \<Rightarrow> gpart list \<Rightarrow> bool" where
  "takes_wild g i parts j parts' \<longleftrightarrow>
     i < j \<and> ((\<exists>d. parts' = parts @ [d]) \<or> parts' = trailing parts \<and> length g \<le> j)"

lemma compile_turn:
  assumes "compile_loop g whole i parts star = Some r"
  obtains "length g \<le> i" "r = (parts, star)"
  | j parts' where "i < length g" "takes_wild g i parts j parts'"
      "compile_loop g whole j parts' (first_star star i) = Some r"
  | c where "i < length g" "next_text g whole i = Some c"
      "compile_loop g whole (i + length c) (add_text parts c) star = Some r"
proof -
  let ?j = "i + length (takeWhile (\<lambda>c. c = STAR) (drop i g))"
  note step = assms [unfolded compile_loop.simps [of g whole i]]
  consider "length g \<le> i" | "i < length g" "starts_with [STAR, STAR] (drop i g)"
    | "i < length g" "\<not> starts_with [STAR, STAR] (drop i g)" "g ! i = STAR"
    | "i < length g" "\<not> starts_with [STAR, STAR] (drop i g)" "g ! i \<noteq> STAR" by linarith
  then show thesis
  proof cases
    case 2
    then have j: "i < ?j" "i < Suc ?j" using two_stars [OF 2(2)] by linarith+
    then have w: "takes_wild g i parts (Suc ?j) (parts @ [Dirs])" "takes_wild g i parts ?j (parts @ [Any])"
      "length g \<le> ?j \<Longrightarrow> takes_wild g i parts ?j (trailing parts)" by (auto simp: takes_wild_def)
    show thesis
      using step 2 that(2) [OF 2(1) w(1)] that(2) [OF 2(1) w(2)] that(2) [OF 2(1) w(3)]
      by (simp add: Let_def del: starts_with_Cons split: if_splits)
  next
    case 3
    have "takes_wild g i parts (Suc i) (parts @ [Star])" by (simp add: takes_wild_def)
    then show thesis using step 3 that(2) by (simp del: starts_with_Cons)
  next
    case 4
    then show thesis using step that(3) by (simp del: starts_with_Cons split: option.splits)
  qed (use step that(1) in simp)
qed

lemma compile_loop_starred:
  assumes "compile_loop g whole i parts (Some k) = Some (ps, st)"
    and "\<exists>t. t \<noteq> [] \<and> parts = lead g k @ t"
  shows "st = Some k \<and> starred_parts g k ps"
  using assms
proof (induction "length g - i" arbitrary: i parts rule: less_induct)
  case less
  obtain t where t: "t \<noteq> []" "parts = lead g k @ t" using less.prems(2) by blast
  from less.prems(1) show ?case
  proof (cases rule: compile_turn)
    case 1
    then show ?thesis using t unfolding starred_parts_def by blast
  next
    case (2 j parts')
    from 2(2) consider d where "parts' = parts @ [d]" "i < j" | "parts' = trailing parts" "length g \<le> j"
      by (auto simp: takes_wild_def)
    then show ?thesis
    proof cases
      case 1
      then have "\<exists>t. t \<noteq> [] \<and> parts' = lead g k @ t" using t by auto
      moreover have "length g - j < length g - i" using 1(2) 2(1) by linarith
      ultimately show ?thesis using less.hyps [of j parts'] 2(3) by (simp add: first_star_def)
    next
      case fin: 2
      then have "ps = trailing parts" "st = Some k" using 2(3) by (auto simp: first_star_def compile_loop.simps [of g])
      then show ?thesis using trailing_lead [OF t(2)] by simp
    qed
  next
    case (3 c)
    then have "length g - (i + length c) < length g - i" using text_step by (meson not_le)
    then show ?thesis using less.hyps [of "i + length c"] 3(3) add_text_tail [OF t(1), of "lead g k" c] t(2) by blast
  qed
qed

lemma compile_loop_plain:
  assumes "compile_loop g whole i (lead g i) None = Some (ps, st)" and "i \<le> length g"
  shows "st = None \<and> ps = lead g (length g) \<or> (\<exists>k. st = Some k \<and> starred_parts g k ps)"
  using assms
proof (induction "length g - i" arbitrary: i rule: less_induct)
  case less
  from less.prems(1) show ?case
  proof (cases rule: compile_turn)
    case 1
    then show ?thesis using less.prems(2) by simp
  next
    case (2 j parts')
    from 2(2) consider d where "parts' = lead g i @ [d]" | "parts' = trailing (lead g i)" "length g \<le> j"
      by (auto simp: takes_wild_def)
    then show ?thesis
    proof cases
      case 1
      then show ?thesis using compile_loop_starred [of g whole j parts' i ps st] 2(3) by (auto simp: first_star_def)
    next
      case fin: 2
      then have "ps = trailing (lead g i)" "st = Some i" using 2(3) by (auto simp: first_star_def compile_loop.simps [of g])
      then show ?thesis using trailing_lead [of "lead g i" g i "[]"] by simp
    qed
  next
    case (3 c)
    have c: "prefix c (drop i g)" "c \<noteq> []" using next_text_prefix next_text_ne 3(1,2) by blast+
    then have "length c \<le> length (drop i g)" using prefix_length_le by blast
    then have "i + length c \<le> length g" "length g - (i + length c) < length g - i"
      using 3(1) c(2) by (cases c; auto)+
    then show ?thesis using less.hyps [of "i + length c"] 3(3) lead_text [OF c(1) 3(1) c(2)] by simp
  qed
qed

lemma split_prefix:
  assumes "s = x \<or> (\<exists>r. s = x @ SLASH # r)" shows "prefix (split_on SLASH x) (split_on SLASH s)"
  using assms by (auto simp: split_on_append_slash)


lemma last_slash_split:
  assumes "last_index_of SLASH w = Some e"
  shows "prefix (split_on SLASH (take e w)) (split_on SLASH (w @ r))"
proof -
  have "w = take e w @ SLASH # drop (Suc e) w" using last_index_of_Some [OF assms] by blast
  then have "w @ r = take e w @ SLASH # (drop (Suc e) w @ r)" by (metis append_Cons append_assoc)
  then show ?thesis using split_prefix by metis
qed

lemma starred_takes:
  assumes "starred_parts g k ps" and "glob_takes ps name"
  shows "case last_index_of SLASH (take k g) of None \<Rightarrow> True
    | Some e \<Rightarrow> prefix (split_on SLASH (take e g)) (split_on SLASH name)"
proof (cases "last_index_of SLASH (take k g)")
  case (Some e)
  have e: "e < k" using last_index_of_Some [OF Some] by simp
  then have te: "take e (take k g) = take e g" by simp
  from assms(1) consider t where "ps = lead g k @ t"
    | x where "take k g = x @ [SLASH]" "ps = (if x = [] then [] else [Txt x]) @ [Under]"
    unfolding starred_parts_def by blast
  then have "prefix (split_on SLASH (take e g)) (split_on SLASH name)"
  proof cases
    case 1
    then have "\<exists>r. name = take k g @ r" using assms(2) by (auto simp: lead_def split: if_splits)
    then show ?thesis using last_slash_split [OF Some] te by metis
  next
    case (2 x)
    have "last_index_of SLASH (take k g) = Some (length x)" unfolding 2(1) by simp
    then have ex: "take e g = x" using Some te 2(1) by simp
    have "name = x \<or> (\<exists>r. name = x @ SLASH # r)" using assms(2) 2(2) by (auto split: if_splits)
    then show ?thesis unfolding ex by (rule split_prefix)
  qed
  then show ?thesis by (simp add: Some)
qed simp

lemma glob_start:
  assumes "compileGlob g whole = Some gl" and "glob_test gl name"
  shows "prefix (gl_start gl) (split_on SLASH name)"
proof -
  obtain ps st where c: "compile_loop g whole 0 (lead g 0) None = Some (ps, st)" "gl_parts gl = ps"
    "gl_start gl = (case st of None \<Rightarrow> split_on SLASH g
      | Some k \<Rightarrow> (case last_index_of SLASH (take k g) of None \<Rightarrow> [] | Some e \<Rightarrow> split_on SLASH (take e g)))"
    using assms(1) by (auto simp: compileGlob_def lead_def)
  have takes: "glob_takes ps name" using assms(2) c(2) by (simp add: glob_test_takes)
  from compile_loop_plain [OF c(1)] consider "st = None" "ps = lead g (length g)"
    | k where "st = Some k" "starred_parts g k ps" by blast
  then show ?thesis
  proof cases
    case 1
    then have "name = g" using takes by (auto simp: lead_def split: if_splits)
    then show ?thesis using 1 c(3) by simp
  next
    case (2 k)
    then show ?thesis using starred_takes [OF 2(2) takes] c(3) by (simp split: option.splits)
  qed
qed

text \<open>C27. The table that \<^verbatim>\<open>takesWhole\<close> fills in part by part answers what a glob means: the parts take a
  name where it splits into one piece for each, a text being itself, a star a piece without a
  slash, the others what the header of the file says.\<close>

theorem takesWhole_reference: "takesWhole parts name \<longleftrightarrow> glob_takes parts name"
  by (rule takesWhole_glob)

end
