(* ===== verification/FsRecord.thy ===== *)
theory FsRecord
  imports FsPaths LogScan "HOL-Library.Word" "HOL-Library.Extended_Nat"
begin

unbundle bit_operations_syntax

text \<open>
  \<^verbatim>\<open>record.ts\<close> and \<^verbatim>\<open>agg.ts\<close> under \<^verbatim>\<open>src/lib/filesystem-audit\<close>: what a record of the tracer
  counts as, and what the accesses folded into one line did. A field a record lacks is
  \<^const>\<open>None\<close>, a flag it lacks is false. A time is in milliseconds, \<^const>\<open>None\<close> where it does not
  parse; an infinite sequence number or bound is \<^term>\<open>\<infinity>\<close> or \<^const>\<open>None\<close>.
\<close>

section \<open>Records\<close>

record audit_record =
  ar_kind :: string
  ar_pid :: "nat option"
  ar_ppid :: "nat option"
  ar_nspid :: "nat option"
  ar_comm :: "ustring option"
  ar_program :: "ustring option"
  ar_path :: "ustring option"
  ar_name :: "ustring option"
  ar_to :: "ustring option"
  ar_access :: "string option"
  ar_err :: "int option"
  ar_failed :: bool
  ar_image :: bool
  ar_memfd :: bool
  ar_deleted :: bool
  ar_exchange :: bool

definition LETTER :: "string \<Rightarrow> string option" where
  "LETTER = map_of
     [(''read'', ''R''), (''write'', ''W''), (''exec'', ''X''), (''mkdir'', ''W''), (''mknod'', ''W''),
      (''truncate'', ''W''), (''symlink'', ''W''), (''link'', ''W''), (''rename'', ''M''), (''unlink'', ''D''),
      (''rmdir'', ''D''), (''chmod'', ''A''), (''chown'', ''A''), (''attr'', ''A'')]"

definition ORDER :: string where "ORDER = ''RWXMLDA''"

definition PERM_ERRNO :: "int set" where "PERM_ERRNO = {1, 13, 30}"

record classified =
  cl_letter :: string
  cl_path :: ustring
  cl_failed :: bool
  cl_perm :: bool

text \<open>A path that is absent or empty is falsy.\<close>

definition truthy :: "ustring option \<Rightarrow> bool" where
  "truthy p \<longleftrightarrow> p \<noteq> None \<and> p \<noteq> Some []"

definition classify_letter :: "'x audit_record_scheme \<Rightarrow> string" where
  "classify_letter r =
     (if ar_failed r \<and> ar_kind r = ''open'' then
        (let access = (case ar_access r of None \<Rightarrow> ''r'' | Some a \<Rightarrow> a) in
         (if starts_with ''w'' access then [] else ''R'') @
         (if list_ex (\<lambda>c. c \<in> set ''wct'') access then ''W'' else []))
      else if ar_failed r then (case LETTER (ar_kind r) of None \<Rightarrow> [] | Some l \<Rightarrow> l)
      else if ar_kind r = ''mmap'' then (if ar_access r = Some ''w'' then ''W'' else ''R'')
      else if ar_kind r = ''open'' then
        (case ar_access r of None \<Rightarrow> []
         | Some a \<Rightarrow> if CHR ''c'' \<in> set a \<or> CHR ''t'' \<in> set a then ''W'' else [])
      else (case LETTER (ar_kind r) of None \<Rightarrow> [] | Some l \<Rightarrow> l))"

definition classifyLink :: "'x audit_record_scheme \<Rightarrow> string \<Rightarrow> bool \<Rightarrow> bool \<Rightarrow> classified list" where
  "classifyLink r letter failed perm =
     (let file = (if \<not> ar_deleted r \<and> \<not> ar_memfd r then ar_path r else None);
          fileRefused = (truthy file \<and> failed \<and> ar_err r = Some 1) in
      (if truthy (ar_to r)
       then [\<lparr>cl_letter = letter, cl_path = the (ar_to r), cl_failed = failed, cl_perm = perm \<and> \<not> fileRefused\<rparr>]
       else []) @
      (if truthy file
       then [\<lparr>cl_letter = ''L'', cl_path = the file, cl_failed = failed, cl_perm = fileRefused\<rparr>] else []))"

definition classify :: "'x audit_record_scheme \<Rightarrow> classified list" where
  "classify r =
     (let letter = classify_letter r; failed = ar_failed r;
          perm = (failed \<and> (case ar_err r of None \<Rightarrow> 0 | Some e \<Rightarrow> e) \<in> PERM_ERRNO) in
      if letter = [] then []
      else if ar_kind r = ''link'' then classifyLink r letter failed perm
      else
        (if truthy (ar_path r)
         then [\<lparr>cl_letter = letter, cl_path = the (ar_path r), cl_failed = failed, cl_perm = perm\<rparr>] else []) @
        (if ar_kind r = ''rename'' \<and> truthy (ar_to r)
         then [\<lparr>cl_letter = (if ar_exchange r then letter else ''W''), cl_path = the (ar_to r), cl_failed = failed,
                cl_perm = perm\<rparr>]
         else []))"

section \<open>Actions as bits\<close>

type_synonym actions = "32 word"

definition BIT :: "char \<Rightarrow> actions" where
  "BIT c = (case index_of c ORDER of None \<Rightarrow> 0 | Some i \<Rightarrow> push_bit i 1)"

definition bitsOf :: "string \<Rightarrow> actions" where
  "bitsOf letter = foldl (\<lambda>b l. b OR BIT l) 0 letter"

section \<open>Processes\<close>

text \<open>The number of forks and execs that handed each pid on.\<close>

definition procOf :: "(nat option \<Rightarrow> nat) \<Rightarrow> 'x audit_record_scheme \<Rightarrow> (nat option \<times> nat) \<times> (nat option \<Rightarrow> nat)" where
  "procOf gens r =
     (let gens = (if ar_kind r = ''fork'' then gens(ar_pid r := gens (ar_pid r) + 1) else gens);
          gen = gens (ar_pid r) in
      ((ar_pid r, gen), if ar_kind r = ''exec'' then gens(ar_pid r := gen + 1) else gens))"

section \<open>The accesses of a line\<close>

record agg =
  ag_ok :: actions
  ag_failed :: actions
  ag_perm :: actions
  ag_first :: "int option"
  ag_last :: "int option"
  ag_seq :: enat
  ag_cmds :: "(ustring \<times> enat) list"

definition newAgg :: agg where
  "newAgg = \<lparr>ag_ok = 0, ag_failed = 0, ag_perm = 0, ag_first = None, ag_last = None, ag_seq = \<infinity>, ag_cmds = []\<rparr>"

definition flagBits :: "agg \<Rightarrow> actions" where
  "flagBits a = ag_ok a OR ag_failed a"

definition bound_of :: "(int \<Rightarrow> int \<Rightarrow> int) \<Rightarrow> int option \<Rightarrow> int option \<Rightarrow> int option" where
  "bound_of f x y = (case (x, y) of (None, _) \<Rightarrow> y | (_, None) \<Rightarrow> x | (Some a, Some b) \<Rightarrow> Some (f a b))"

definition addCmd :: "ustring \<Rightarrow> enat \<Rightarrow> agg \<Rightarrow> agg" where
  "addCmd cmd seq a =
     a\<lparr>ag_cmds := omap_update cmd (\<lambda>had. case had of None \<Rightarrow> seq | Some h \<Rightarrow> min h seq) (ag_cmds a)\<rparr>"

definition mergeAgg :: "agg \<Rightarrow> agg \<Rightarrow> agg" where
  "mergeAgg dst src =
     fold (\<lambda>(cmd, seq). addCmd cmd seq) (ag_cmds src)
       (dst\<lparr>ag_ok := ag_ok dst OR ag_ok src, ag_failed := ag_failed dst OR ag_failed src,
           ag_perm := ag_perm dst OR ag_perm src, ag_first := bound_of min (ag_first dst) (ag_first src),
           ag_last := bound_of max (ag_last dst) (ag_last src), ag_seq := min (ag_seq dst) (ag_seq src)\<rparr>)"

record access =
  ac_comm :: ustring
  ac_path :: ustring
  ac_bit :: actions
  ac_failed :: bool
  ac_perm :: bool
  ac_t :: "int option"
  ac_seq :: enat
  ac_cmd :: "ustring option"

definition apply_access :: "agg \<Rightarrow> access \<Rightarrow> agg" where
  "apply_access a x =
     (let a1 = (if \<not> ac_failed x then a\<lparr>ag_ok := ag_ok a OR ac_bit x\<rparr>
           else
             (let b = a\<lparr>ag_failed := ag_failed a OR ac_bit x\<rparr> in
              if ac_perm x then b\<lparr>ag_perm := ag_perm a OR ac_bit x\<rparr> else b));
          a2 = (case ac_cmd x of None \<Rightarrow> a1 | Some cmd \<Rightarrow> addCmd cmd (ac_seq x) a1) in
      case ac_t x of
        None \<Rightarrow> a2
      | Some t \<Rightarrow>
          a2\<lparr>ag_first := bound_of min (ag_first a2) (Some t), ag_last := bound_of max (ag_last a2) (Some t),
             ag_seq := min (ag_seq a2) (ac_seq x)\<rparr>)"

definition fmtFlags :: "agg \<Rightarrow> string" where
  "fmtFlags a =
     filter (\<lambda>c. ag_ok a AND BIT c \<noteq> 0) ORDER @
     concat (map (\<lambda>c.
       if ag_perm a AND BIT c \<noteq> 0 then [lower_char c, CHR ''!'']
       else if ag_failed a AND NOT (ag_ok a) AND BIT c \<noteq> 0 then [lower_char c] else []) ORDER)"

section \<open>Folding loses nothing\<close>

definition agg_of :: "access list \<Rightarrow> agg" where
  "agg_of xs = foldl apply_access newAgg xs"

abbreviation cmd_min :: "enat \<Rightarrow> enat option \<Rightarrow> enat" where
  "cmd_min seq had \<equiv> (case had of None \<Rightarrow> seq | Some h \<Rightarrow> min h seq)"

lemma cmd_same: "omap_update c (cmd_min s) (omap_update c (cmd_min v) m) = omap_update c (cmd_min (min v s)) m"
  by (induction m) (auto simp: min.assoc split: option.splits)

lemma cmd_keys: "c \<in> fst ` set (omap_update k f m) \<longleftrightarrow> c = k \<or> c \<in> fst ` set m"
  using omap_update_keys [of k f m] by (metis (no_types, lifting) insert_iff list.set_map list.simps(15) set_append
    Un_insert_right sup_bot.right_neutral list.set(1) insert_absorb)

lemma cmd_swap:
  "c \<in> fst ` set m \<Longrightarrow>
   omap_update k (cmd_min v) (omap_update c (cmd_min s) m) = omap_update c (cmd_min s) (omap_update k (cmd_min v) m)"
proof (induction m)
  case (Cons kv m)
  then show ?case by (cases kv) (auto simp: ac_simps)
qed simp

definition add_cmds :: "(ustring \<times> enat) list \<Rightarrow> (ustring \<times> enat) list \<Rightarrow> (ustring \<times> enat) list" where
  "add_cmds cmds m = fold (\<lambda>(cmd, seq). omap_update cmd (cmd_min seq)) cmds m"

lemma add_cmds_swap:
  "c \<in> fst ` set m \<Longrightarrow> omap_update c (cmd_min s) (add_cmds cmds m) = add_cmds cmds (omap_update c (cmd_min s) m)"
proof (induction cmds arbitrary: m)
  case (Cons kv cmds)
  obtain k v where kv: "kv = (k, v)" by (cases kv)
  have "c \<in> fst ` set (omap_update k (cmd_min v) m)" using Cons.prems cmd_keys by metis
  from Cons.IH [OF this] cmd_swap [OF Cons.prems, of k v s] show ?case by (simp add: kv add_cmds_def)
qed (simp add: add_cmds_def)

lemma add_cmds_update: "add_cmds (omap_update c (cmd_min s) cmds) m = omap_update c (cmd_min s) (add_cmds cmds m)"
proof (induction cmds arbitrary: m)
  case Nil
  then show ?case by (simp add: add_cmds_def)
next
  case (Cons kv cmds)
  obtain k v where kv: "kv = (k, v)" by (cases kv)
  show ?case
  proof (cases "k = c")
    case True
    have "c \<in> fst ` set (omap_update c (cmd_min v) m)" using cmd_keys by metis
    from add_cmds_swap [OF this, of s cmds] show ?thesis using True by (simp add: kv add_cmds_def cmd_same)
  next
    case False
    then show ?thesis using Cons [of "omap_update k (cmd_min v) m"] by (simp add: kv add_cmds_def)
  qed
qed

lemma fold_addCmd: "fold (\<lambda>(cmd, seq). addCmd cmd seq) cmds a = a\<lparr>ag_cmds := add_cmds cmds (ag_cmds a)\<rparr>"
  by (induction cmds arbitrary: a) (auto simp: add_cmds_def addCmd_def)

lemma merge_apply: "mergeAgg d (apply_access s x) = apply_access (mergeAgg d s) x"
  by (cases "ac_cmd x"; cases "ac_t x")
    (auto simp: mergeAgg_def fold_addCmd apply_access_def addCmd_def add_cmds_update bound_of_def Let_def
      or.assoc min.assoc max.assoc split: option.splits)

lemma merge_newAgg: "mergeAgg a newAgg = a"
  by (simp add: mergeAgg_def newAgg_def bound_of_def fold_addCmd add_cmds_def split: option.splits)

lemma agg_of_snoc: "agg_of (xs @ [x]) = apply_access (agg_of xs) x"
  by (simp add: agg_of_def)

lemma merge_agg_of: "mergeAgg (agg_of xs) (agg_of ys) = agg_of (xs @ ys)"
proof (induction ys rule: rev_induct)
  case Nil
  then show ?case using merge_newAgg [of "agg_of xs"] by (simp add: agg_of_def)
next
  case (snoc y ys)
  then show ?case using agg_of_snoc [of ys] agg_of_snoc [of "xs @ ys" y] merge_apply by simp
qed

text \<open>C29. Merging two lines loses nothing: the line that \<^verbatim>\<open>mergeAgg\<close> makes of the lines of two lists of
  accesses is the line of all of them in order, its commands and their first places included.\<close>

theorem mergeAgg_folds: "mergeAgg (agg_of xs) (agg_of ys) = agg_of (xs @ ys)"
  by (rule merge_agg_of)

end
