(* ===== verification/FsRules.thy ===== *)
theory FsRules
  imports FsGlob FsRecord
begin

text \<open>
  The rest of \<^verbatim>\<open>src/lib/filesystem-audit/rules.ts\<close>: the lines of \<^verbatim>\<open>expected-filesystem-rules\<close>, and
  the matcher, with its index by fixed components and its cache. A failed parse is the reference
  of the line with what is wrong with it.
\<close>

section \<open>Fields\<close>

datatype rule_error =
    UnclosedQuote
  | TextAfterQuote
  | FieldCount nat
  | BadAccess ustring
  | BadEscape ustring
  | UntidyPath ustring
  | ProcByNumber ustring

type_synonym 'a ruled = "(ustring \<times> rule_error) + 'a"

definition field_blank :: "nat \<Rightarrow> bool" where
  "field_blank c \<longleftrightarrow> c = BLANK \<or> c = 9"

text \<open>The index of the first quote no backslash escapes.\<close>

fun closing_quote :: "ustring \<Rightarrow> nat option" where
  "closing_quote [] = None"
| "closing_quote [c] = (if c = QUOTE then Some 0 else None)"
| "closing_quote (c # d # s) =
     (if c = QUOTE then Some 0
      else if c = BACKSLASH then map_option (\<lambda>i. i + 2) (closing_quote s)
      else map_option Suc (closing_quote (d # s)))"

text \<open>A quoted field at the start of a text, with its prefix where it is a memfd: what is taken of
  it, and the text after its closing quote.\<close>

definition quoted_field :: "bool \<Rightarrow> ustring \<Rightarrow> (ustring \<times> ustring) option" where
  "quoted_field memfd s =
     (let body = drop (if memfd then length MEMFD_PREFIX + 1 else 1) s in
      map_option (\<lambda>end'.
          (if memfd then MEMFD_PREFIX @ [QUOTE] @ take end' body @ [QUOTE] else take end' body, drop (Suc end') body))
        (closing_quote body))"

lemma quoted_field_less: "quoted_field memfd (c # s) = Some (raw, after) \<Longrightarrow> length after \<le> length s"
  by (auto simp: quoted_field_def Let_def split: if_splits)

function rule_fields :: "ustring \<Rightarrow> ustring \<Rightarrow> ustring list ruled" where
  "rule_fields ref [] = Inr []"
| "rule_fields ref (c # s) =
     (if field_blank c then rule_fields ref s
      else if c = QUOTE \<or> starts_with (MEMFD_PREFIX @ [QUOTE]) (c # s) then
        (case quoted_field (starts_with (MEMFD_PREFIX @ [QUOTE]) (c # s)) (c # s) of
           None \<Rightarrow> Inl (ref, UnclosedQuote)
         | Some (raw, after) \<Rightarrow>
             if after \<noteq> [] \<and> \<not> field_blank (hd after) then Inl (ref, TextAfterQuote)
             else map_e (Cons raw) (rule_fields ref after))
      else
        map_e (Cons (takeWhile (\<lambda>d. \<not> field_blank d) (c # s)))
          (rule_fields ref (dropWhile (\<lambda>d. \<not> field_blank d) (c # s))))"
  by pat_completeness auto
termination
proof (relation "measure (\<lambda>(ref, s). length s)", simp_all, goal_cases)
  case (1 c s raw after)
  then show ?case using quoted_field_less by (metis le_imp_less_Suc)
next
  case (2 c s)
  then show ?case using length_dropWhile_le [of "\<lambda>d. \<not> field_blank d" s] by simp
qed

declare rule_fields.simps(2) [simp del]

section \<open>Accesses\<close>

definition upper_letter :: "nat \<Rightarrow> bool" where
  "upper_letter c \<longleftrightarrow> c \<in> set (u ORDER)"

definition to_upper_code :: "nat \<Rightarrow> nat" where
  "to_upper_code c = (if 97 \<le> c \<and> c \<le> 122 then c - 32 else c)"

definition access_letter :: "nat \<Rightarrow> bool" where
  "access_letter c \<longleftrightarrow> \<not> upper_letter c \<and> upper_letter (to_upper_code c)"

text \<open>\<^verbatim>\<open>/^(?:[RWXMLDA]|[rwxmlda]!?)+$/\<close>.\<close>

fun access_tokens :: "ustring \<Rightarrow> bool" where
  "access_tokens [] = True"
| "access_tokens [c] = (upper_letter c \<or> access_letter c)"
| "access_tokens (c # d # s) =
     (if upper_letter c then access_tokens (d # s)
      else access_letter c \<and> (if d = 33 then access_tokens s else access_tokens (d # s)))"

definition ACCESS :: "ustring \<Rightarrow> bool" where
  "ACCESS access \<longleftrightarrow> access \<noteq> [] \<and> access_tokens access"

record access_bits =
  ab_ok :: actions
  ab_failed :: actions
  ab_perm :: actions

definition code_BIT :: "nat \<Rightarrow> actions" where
  "code_BIT c = (case index_of c (u ORDER) of None \<Rightarrow> 0 | Some i \<Rightarrow> push_bit i 1)"

text \<open>\<^verbatim>\<open>c === c.toUpperCase()\<close>.\<close>

definition is_upper_code :: "nat \<Rightarrow> bool" where
  "is_upper_code c \<longleftrightarrow> to_upper_code c = c"

fun accessBits_from :: "access_bits \<Rightarrow> ustring \<Rightarrow> access_bits" where
  "accessBits_from b [] = b"
| "accessBits_from b [c] =
     (let bit = code_BIT (to_upper_code c) in
      if is_upper_code c then b\<lparr>ab_ok := ab_ok b OR bit\<rparr> else b\<lparr>ab_failed := ab_failed b OR bit\<rparr>)"
| "accessBits_from b (c # d # s) =
     (let bit = code_BIT (to_upper_code c) in
      if is_upper_code c then accessBits_from (b\<lparr>ab_ok := ab_ok b OR bit\<rparr>) (d # s)
      else if d = 33 then accessBits_from (b\<lparr>ab_perm := ab_perm b OR bit\<rparr>) s
      else accessBits_from (b\<lparr>ab_failed := ab_failed b OR bit\<rparr>) (d # s))"

definition accessBits :: "ustring \<Rightarrow> access_bits" where
  "accessBits access = accessBits_from \<lparr>ab_ok = 0, ab_failed = 0, ab_perm = 0\<rparr> access"

section \<open>Rules\<close>

definition procByNumber :: "ustring \<Rightarrow> bool" where
  "procByNumber name \<longleftrightarrow> unnumbered spelledSelf name \<noteq> name"

text \<open>\<^verbatim>\<open>/\/\.?\//\<close> somewhere in the text.\<close>

fun UNTIDY :: "ustring \<Rightarrow> bool" where
  "UNTIDY [] = False"
| "UNTIDY (c # s) \<longleftrightarrow> starts_with (u ''//'') (c # s) \<or> starts_with (u ''/./'') (c # s) \<or> UNTIDY s"

definition component_end :: "ustring \<Rightarrow> bool" where
  "component_end r \<longleftrightarrow> r = [] \<or> hd r = SLASH"

definition ANY_PROCESS :: "ustring \<Rightarrow> bool" where
  "ANY_PROCESS glob \<longleftrightarrow> starts_with (u ''/proc/<pid>'') glob \<and> component_end (drop 11 glob)"

definition asAnyProcess :: "ustring \<Rightarrow> ustring option" where
  "asAnyProcess name =
     (if starts_with (u ''/proc/self'') name \<and> component_end (drop 10 name)
      then Some (u ''/proc/<pid>'' @ drop 10 name) else None)"

text \<open>A glob, and whether it takes a process's own directory as any process's.\<close>

record name_matcher =
  nm_glob :: glob
  nm_any :: bool

definition anyProcess :: "ustring \<Rightarrow> glob \<Rightarrow> name_matcher" where
  "anyProcess text' g = \<lparr>nm_glob = g, nm_any = ANY_PROCESS text'\<rparr>"

definition name_test :: "name_matcher \<Rightarrow> ustring \<Rightarrow> bool" where
  "name_test m name \<longleftrightarrow>
     glob_test (nm_glob m) name \<or>
     nm_any m \<and> (case asAnyProcess name of None \<Rightarrow> False | Some any \<Rightarrow> glob_test (nm_glob m) any)"

record expected_rule =
  er_ref :: ustring
  er_program :: "name_matcher option"
  er_path :: name_matcher
  er_pathStart :: "ustring list"
  er_ok :: actions
  er_failed :: actions
  er_perm :: actions

text \<open>A program is tried as a path and then as one name.\<close>

definition rule_glob :: "ustring \<Rightarrow> bool \<Rightarrow> ustring \<Rightarrow> glob ruled" where
  "rule_glob field' asProgram ref =
     (case compileGlob field' False of
        Some g \<Rightarrow> Inr g
      | None \<Rightarrow>
          (case (if asProgram then compileGlob field' True else None) of
             Some g \<Rightarrow> Inr g
           | None \<Rightarrow> Inl (ref, BadEscape field')))"

definition check_name :: "ustring \<Rightarrow> ustring \<Rightarrow> unit ruled" where
  "check_name ref name = ensure_e (\<not> procByNumber name) (ref, ProcByNumber name)"

definition compile_rule :: "ustring \<Rightarrow> ustring \<Rightarrow> ustring \<Rightarrow> ustring \<Rightarrow> expected_rule ruled" where
  "compile_rule ref program access path =
     bind_e (ensure_e (ACCESS access) (ref, BadAccess access)) (\<lambda>_.
     bind_e (ensure_e (starts_with MEMFD_PREFIX path \<or> \<not> UNTIDY path) (ref, UntidyPath path)) (\<lambda>_.
     bind_e (check_name ref program) (\<lambda>_.
     bind_e (check_name ref path) (\<lambda>_.
     bind_e (if program = [STAR] then Inr None else map_e Some (rule_glob program True ref)) (\<lambda>programGlob.
     bind_e (rule_glob path False ref) (\<lambda>pathGlob.
     let bits = accessBits access in
     Inr \<lparr>er_ref = ref, er_program = map_option (anyProcess program) programGlob, er_path = anyProcess path pathGlob,
          er_pathStart = gl_start pathGlob, er_ok = ab_ok bits, er_failed = ab_failed bits,
          er_perm = ab_perm bits\<rparr>))))))"

definition uspace :: "nat \<Rightarrow> bool" where
  "uspace c \<longleftrightarrow>
     in_ranges [(9, 13), (32, 32), (0xA0, 0xA0), (0x1680, 0x1680), (0x2000, 0x200A), (0x2028, 0x2029), (0x202F, 0x202F),
       (0x205F, 0x205F), (0x3000, 0x3000), (0xFEFF, 0xFEFF)] c"

definition utrim :: "ustring \<Rightarrow> ustring" where
  "utrim s = rev (dropWhile uspace (rev (dropWhile uspace s)))"

text \<open>A line that is a rule, or \<^const>\<open>None\<close> for a blank line and a comment.\<close>

definition parse_rule_line :: "ustring \<Rightarrow> ustring \<Rightarrow> expected_rule option ruled" where
  "parse_rule_line ref raw =
     (let line = utrim raw in
      if line = [] \<or> starts_with (u ''#'') line then Inr None
      else
        bind_e (rule_fields ref line) (\<lambda>parts.
        case parts of
          [program, access, path] \<Rightarrow> map_e Some (compile_rule ref program access path)
        | _ \<Rightarrow> Inl (ref, FieldCount (length parts))))"

record rule_source =
  rs_text :: ustring
  rs_origin :: ustring
  rs_firstLine :: "nat option"

definition line_ref :: "rule_source \<Rightarrow> nat \<Rightarrow> ustring" where
  "line_ref src n =
     (case rs_firstLine src of
        None \<Rightarrow> rs_origin src
      | Some first \<Rightarrow> rs_origin src @ u '':'' @ u (show_nat (first + n)))"

definition source_lines :: "rule_source \<Rightarrow> (ustring \<times> ustring) list" where
  "source_lines src = map (\<lambda>(n, raw). (line_ref src n, raw)) (List.enumerate 0 (split_on 10 (rs_text src)))"

definition parseExpectedRules :: "rule_source list \<Rightarrow> expected_rule list ruled" where
  "parseExpectedRules sources =
     map_e (List.map_filter (\<lambda>r. r))
       (traverse_e (\<lambda>(ref, raw). parse_rule_line ref raw) (concat (map source_lines sources)))"

section \<open>The matcher\<close>

definition takes :: "expected_rule \<Rightarrow> actions \<Rightarrow> bool \<Rightarrow> bool \<Rightarrow> bool" where
  "takes rule b failed perm \<longleftrightarrow>
     (if \<not> failed then er_ok rule AND b \<noteq> 0
      else (if perm then er_perm rule else er_ok rule OR er_failed rule OR er_perm rule) AND b \<noteq> 0)"

definition CACHE_MAX :: nat where "CACHE_MAX = 100000"

datatype start_node = StartNode (sn_rules: "nat list") (sn_next: "(ustring \<times> start_node) list")

fun start_insert :: "ustring list \<Rightarrow> nat \<Rightarrow> start_node \<Rightarrow> start_node" where
  "start_insert [] i (StartNode rules next') = StartNode (rules @ [i]) next'"
| "start_insert (part # parts) i (StartNode rules next') =
     StartNode rules
       (omap_update part (\<lambda>n. start_insert parts i (case n of None \<Rightarrow> StartNode [] [] | Some node \<Rightarrow> node)) next')"

definition start_tree :: "expected_rule list \<Rightarrow> start_node" where
  "start_tree rules = fold (\<lambda>(i, r). start_insert (er_pathStart r) i) (List.enumerate 0 rules) (StartNode [] [])"

text \<open>The rules whose fixed components lead the components of a path.\<close>

fun startingAt :: "ustring list \<Rightarrow> start_node \<Rightarrow> nat list" where
  "startingAt [] node = sn_rules node"
| "startingAt (part # parts) node =
     sn_rules node @ (case map_of (sn_next node) part of None \<Rightarrow> [] | Some n \<Rightarrow> startingAt parts n)"

definition start_candidates :: "start_node \<Rightarrow> ustring \<Rightarrow> nat list" where
  "start_candidates starts path =
     startingAt (split_on SLASH path) starts @
     (case asAnyProcess path of None \<Rightarrow> [] | Some any \<Rightarrow> startingAt (split_on SLASH any) starts)"

definition candidates :: "expected_rule list \<Rightarrow> start_node \<Rightarrow> ustring list \<Rightarrow> expected_rule list" where
  "candidates rules starts paths =
     map (\<lambda>i. rules ! i) (sort (remdups (concat (map (start_candidates starts) paths))))"

definition rule_named :: "ustring list \<Rightarrow> ustring list \<Rightarrow> expected_rule \<Rightarrow> bool" where
  "rule_named programs paths r \<longleftrightarrow>
     (case er_program r of None \<Rightarrow> True | Some m \<Rightarrow> list_ex (name_test m) programs) \<and>
     list_ex (name_test (er_path r)) paths"

definition cache_key :: "ustring list \<Rightarrow> ustring list \<Rightarrow> ustring" where
  "cache_key programs paths = join_with [0] programs @ [0, 0] @ join_with [0] paths"

text \<open>A matcher: its rules, their index and its cache.\<close>

record rule_matcher =
  rm_rules :: "expected_rule list"
  rm_starts :: start_node
  rm_cache :: "(ustring \<times> expected_rule list) list"

definition new_matcher :: "expected_rule list \<Rightarrow> rule_matcher" where
  "new_matcher rules = \<lparr>rm_rules = rules, rm_starts = start_tree rules, rm_cache = []\<rparr>"

definition cached_candidates :: "ustring list \<Rightarrow> ustring list \<Rightarrow> rule_matcher \<Rightarrow> expected_rule list \<times> rule_matcher" where
  "cached_candidates programs paths m =
     (let key = cache_key programs paths in
      case map_of (rm_cache m) key of
        Some found \<Rightarrow> (found, m)
      | None \<Rightarrow>
          (let cache = (if CACHE_MAX \<le> length (rm_cache m) then [] else rm_cache m);
               found = filter (rule_named programs paths) (candidates (rm_rules m) (rm_starts m) paths) in
           (found, m\<lparr>rm_cache := cache @ [(key, found)]\<rparr>)))"

record match_result =
  mr_unmatched :: actions
  mr_ref :: "ustring option"

text \<open>Each action of the access in order: the first rule that takes it, or none.\<close>

definition match_letter ::
    "expected_rule list \<Rightarrow> actions \<Rightarrow> bool \<Rightarrow> bool \<Rightarrow> char \<Rightarrow> match_result \<Rightarrow> match_result" where
  "match_letter found bits failed perm c res =
     (let bit = BIT c in
      if bits AND bit = 0 then res
      else (case find (\<lambda>r. takes r bit failed perm) found of
          None \<Rightarrow> res\<lparr>mr_unmatched := mr_unmatched res OR bit\<rparr>
        | Some rule \<Rightarrow> (case mr_ref res of None \<Rightarrow> res\<lparr>mr_ref := Some (er_ref rule)\<rparr> | Some _ \<Rightarrow> res)))"

definition match_found :: "expected_rule list \<Rightarrow> actions \<Rightarrow> bool \<Rightarrow> bool \<Rightarrow> match_result" where
  "match_found found bits failed perm =
     fold (match_letter found bits failed perm) ORDER \<lparr>mr_unmatched = 0, mr_ref = None\<rparr>"

definition rule_match ::
    "ustring list \<Rightarrow> ustring list \<Rightarrow> actions \<Rightarrow> bool \<Rightarrow> bool \<Rightarrow> rule_matcher \<Rightarrow> match_result \<times> rule_matcher" where
  "rule_match programs paths bits failed perm m =
     (let (found, m') = cached_candidates programs paths m in (match_found found bits failed perm, m'))"

end
