(* ===== verification/Memo.thy ===== *)
theory Memo
  imports LogScan
begin

text \<open>
  A memory of what a function returned, that starts afresh once it is full: the contract of the
  caches the code keeps. An argument is remembered under a key, and \<^term>\<open>proper\<close> arguments with
  one key have one result.
\<close>

locale memo =
  fixes key :: "'a \<Rightarrow> 'k" and f :: "'a \<Rightarrow> 'v" and proper :: "'a \<Rightarrow> bool" and room :: nat
  assumes key_determines: "proper a \<Longrightarrow> proper b \<Longrightarrow> key a = key b \<Longrightarrow> f a = f b"
begin

definition recall :: "'a \<Rightarrow> ('k \<times> 'v) list \<Rightarrow> 'v \<times> ('k \<times> 'v) list" where
  "recall a m =
     (case map_of m (key a) of
        Some v \<Rightarrow> (v, m)
      | None \<Rightarrow> (f a, (if room \<le> length m then [] else m) @ [(key a, f a)]))"

text \<open>A memory holds only results of proper arguments, and no more than it has room for.\<close>

definition agrees :: "('k \<times> 'v) list \<Rightarrow> bool" where
  "agrees m \<longleftrightarrow> (\<forall>(k, v)\<in>set m. \<exists>a. proper a \<and> key a = k \<and> f a = v)"

lemma agrees_Nil: "agrees []"
  by (simp add: agrees_def)

lemma recall_agrees: "agrees m \<Longrightarrow> proper a \<Longrightarrow> agrees (snd (recall a m))"
  by (auto simp: recall_def agrees_def split: option.splits)

lemma recall_value: "agrees m \<Longrightarrow> proper a \<Longrightarrow> fst (recall a m) = f a"
proof (cases "map_of m (key a)")
  case (Some v)
  assume m: "agrees m" and a: "proper a"
  have "(key a, v) \<in> set m" using Some by (rule map_of_SomeD)
  then obtain b where "proper b" "key b = key a" "f b = v" using m by (auto simp: agrees_def)
  then show ?thesis using key_determines [OF _ a] Some by (simp add: recall_def)
qed (simp add: recall_def)

lemma recall_room: "0 < room \<Longrightarrow> length m \<le> room \<Longrightarrow> length (snd (recall a m)) \<le> room"
  by (auto simp: recall_def split: option.splits)

lemma recalls_agree:
  "\<forall>a\<in>set as. proper a \<Longrightarrow> agrees m \<Longrightarrow> agrees (fold (\<lambda>a m. snd (recall a m)) as m)"
  by (induction as arbitrary: m) (simp_all add: recall_agrees)

end

end
