(* ===== verification/FsMatch.thy ===== *)
theory FsMatch
  imports FsRules Memo
begin

text \<open>
  The matcher of \<^theory_text>\<open>FsRules\<close> against its specification: what a rule takes, tried on every rule in
  the order they were written. The index by fixed components and the cache change nothing.
\<close>

section \<open>The index\<close>

lemma startingAt_insert:
  "set (startingAt parts (start_insert ps i node)) =
     set (startingAt parts node) \<union> (if prefix ps parts then {i} else {})"
proof (induction ps arbitrary: parts node)
  case Nil
  obtain rules next' where "node = StartNode rules next'" by (cases node)
  then show ?case by (cases parts) auto
next
  case (Cons p ps)
  obtain rules next' where n: "node = StartNode rules next'" by (cases node)
  show ?case
  proof (cases parts)
    case Nil
    then show ?thesis by (simp add: n)
  next
    case (Cons q qs)
    have empty: "set (startingAt qs (StartNode [] [])) = {}" by (cases qs) simp_all
    show ?thesis
    proof (cases "p = q")
      case True
      then show ?thesis
        using Cons.IH [of qs] empty
        by (cases "map_of next' q") (auto simp: Cons n omap_update_get)
    next
      case False
      then show ?thesis by (auto simp: Cons n omap_update_get)
    qed
  qed
qed

lemma startingAt_fold:
  "set (startingAt parts (fold (\<lambda>(i, r). start_insert (er_pathStart r) i) irs node)) =
     set (startingAt parts node) \<union> {i. \<exists>r. (i, r) \<in> set irs \<and> prefix (er_pathStart r) parts}"
proof (induction irs arbitrary: node)
  case (Cons ir irs)
  obtain i r where ir: "ir = (i, r)" by (cases ir)
  show ?case by (auto simp: Cons.IH ir startingAt_insert)
qed simp

lemma startingAt_tree:
  "i \<in> set (startingAt parts (start_tree rules)) \<longleftrightarrow> i < length rules \<and> prefix (er_pathStart (rules ! i)) parts"
proof -
  have "set (startingAt parts (StartNode [] [])) = {}" by (cases parts) simp_all
  then show ?thesis
    unfolding start_tree_def startingAt_fold by (auto simp: in_set_enumerate_eq)
qed

text \<open>Whether the fixed components of a rule lead one of the paths.\<close>

definition leads :: "ustring list \<Rightarrow> expected_rule \<Rightarrow> bool" where
  "leads paths r \<longleftrightarrow>
     (\<exists>path\<in>set paths. prefix (er_pathStart r) (split_on SLASH path) \<or>
        (\<exists>any. asAnyProcess path = Some any \<and> prefix (er_pathStart r) (split_on SLASH any)))"

lemma nth_filter_upt: "map (\<lambda>i. xs ! i) (filter (\<lambda>i. P (xs ! i)) [0..<length xs]) = filter P xs"
  using filter_map [of P "\<lambda>i. xs ! i" "[0..<length xs]"] by (simp add: o_def map_nth)

lemma start_candidates_leads:
  "i \<in> set (start_candidates (start_tree rules) path) \<longleftrightarrow> i < length rules \<and> leads [path] (rules ! i)"
  by (cases "asAnyProcess path") (auto simp: start_candidates_def startingAt_tree leads_def)

lemma leads_any: "leads paths r \<longleftrightarrow> (\<exists>path\<in>set paths. leads [path] r)"
  by (simp add: leads_def)

lemma found_leading:
  "set (sort (remdups (concat (map (start_candidates (start_tree rules)) paths)))) =
     {i. i < length rules \<and> leads paths (rules ! i)}"
  by (subst leads_any) (auto simp: start_candidates_leads)

lemma candidates_leading: "candidates rules (start_tree rules) paths = filter (leads paths) rules"
proof -
  let ?found = "concat (map (start_candidates (start_tree rules)) paths)"
  have "set (sort (remdups ?found)) = {i. i < length rules \<and> leads paths (rules ! i)}"
    by (rule found_leading)
  then have "sort (remdups ?found) = filter (\<lambda>i. leads paths (rules ! i)) [0..<length rules]"
    by (intro sorted_distinct_set_unique) (auto simp: sorted_wrt_filter)
  then show ?thesis by (simp add: candidates_def nth_filter_upt)
qed

text \<open>A rule as the parser makes it: its fixed components are its glob's.\<close>

definition compiled :: "expected_rule \<Rightarrow> bool" where
  "compiled r \<longleftrightarrow>
     (\<exists>text' whole g. compileGlob text' whole = Some g \<and> nm_glob (er_path r) = g \<and> er_pathStart r = gl_start g)"

lemma named_leads:
  assumes "compiled r" and "rule_named programs paths r"
  shows "leads paths r"
proof -
  obtain text' whole g where g: "compileGlob text' whole = Some g" "nm_glob (er_path r) = g"
    "er_pathStart r = gl_start g"
    using assms(1) unfolding compiled_def by blast
  have lead: "prefix (er_pathStart r) (split_on SLASH name)" if "glob_test g name" for name
    using glob_start [OF g(1) that] g(3) by simp
  obtain path where path: "path \<in> set paths" "name_test (er_path r) path"
    using assms(2) by (auto simp: rule_named_def list_ex_iff)
  then consider "glob_test g path" | any where "asAnyProcess path = Some any" "glob_test g any"
    by (auto simp: name_test_def g(2) split: option.splits)
  then show ?thesis unfolding leads_def using path(1) lead by cases blast+
qed

lemma rule_glob_compiled: "rule_glob field' asProgram ref = Inr g \<Longrightarrow> \<exists>text' whole. compileGlob text' whole = Some g"
  by (fastforce simp: rule_glob_def split: option.splits if_splits)

lemma compile_rule_compiled:
  assumes "compile_rule ref program access path = Inr r" shows "compiled r"
proof -
  obtain g where g: "rule_glob path False ref = Inr g" "er_path r = anyProcess path g" "er_pathStart r = gl_start g"
    using assms by (auto simp: compile_rule_def Let_def)
  then show ?thesis using rule_glob_compiled [OF g(1)] by (simp add: compiled_def anyProcess_def)
qed

lemma case_three_Inr:
  assumes "(case parts of [a, b, c] \<Rightarrow> f a b c | _ \<Rightarrow> Inl e) = Inr y"
  shows "\<exists>a b c. parts = [a, b, c] \<and> f a b c = Inr y"
  using assms by (auto split: list.split_asm)

lemma parse_rule_line_compiled:
  assumes "parse_rule_line ref raw = Inr (Some r)" shows "compiled r"
proof -
  obtain parts where "(case parts of [program, access, path] \<Rightarrow> map_e Some (compile_rule ref program access path)
      | _ \<Rightarrow> Inl (ref, FieldCount (length parts))) = Inr (Some r)"
    using assms unfolding parse_rule_line_def Let_def by (auto split: if_split_asm)
  from case_three_Inr [OF this] show ?thesis using compile_rule_compiled by auto
qed

lemma parse_compiled:
  assumes "parseExpectedRules sources = Inr rules" shows "\<forall>r\<in>set rules. compiled r"
proof
  fix r assume r: "r \<in> set rules"
  obtain parsed where p: "traverse_e (\<lambda>(ref, raw). parse_rule_line ref raw) (concat (map source_lines sources)) = Inr parsed"
    "rules = List.map_filter (\<lambda>r. r) parsed"
    using assms by (auto simp: parseExpectedRules_def)
  from r have "Some r \<in> set parsed" by (auto simp: p(2) List.map_filter_def)
  from traverse_e_member [OF p(1) this] show "compiled r" by (auto intro: parse_rule_line_compiled)
qed

lemma found_named:
  assumes "\<forall>r\<in>set rules. compiled r"
  shows "filter (rule_named programs paths) (candidates rules (start_tree rules) paths) =
    filter (rule_named programs paths) rules"
  unfolding candidates_leading filter_filter
  by (rule filter_cong) (use assms named_leads in auto)

section \<open>The cache\<close>

text \<open>The names a program and a path go by: at least one each, none with a NUL, no path empty.\<close>

definition proper_names :: "ustring list \<times> ustring list \<Rightarrow> bool" where
  "proper_names np \<longleftrightarrow>
     fst np \<noteq> [] \<and> snd np \<noteq> [] \<and> (\<forall>n\<in>set (fst np) \<union> set (snd np). 0 \<notin> set n) \<and> [] \<notin> set (snd np)"

lemma cache_key_split:
  assumes "proper_names np"
  shows "split_on 0 (cache_key (fst np) (snd np)) = fst np @ [] # snd np"
proof -
  have "split_on 0 (join_with [0] (fst np) @ 0 # (0 # join_with [0] (snd np))) =
      split_on 0 (join_with [0] (fst np)) @ split_on 0 (0 # join_with [0] (snd np))"
    by (rule split_on_append_slash)
  moreover have "split_on 0 (join_with [0] (fst np)) = fst np" "split_on 0 (join_with [0] (snd np)) = snd np"
    using assms by (auto simp: proper_names_def intro!: split_on_join)
  ultimately show ?thesis by (simp add: cache_key_def)
qed

lemma last_blank_inject:
  assumes "xs @ [] # ys = xs' @ [] # ys'" and "[] \<notin> set ys" "[] \<notin> set ys'"
  shows "xs = xs' \<and> ys = ys'"
proof -
  have "rev ys @ [] # rev xs = rev ys' @ [] # rev xs'" using arg_cong [OF assms(1), of rev] by simp
  then show ?thesis using sep_inject [of "[]" "rev ys" "rev ys'" "rev xs" "rev xs'"] assms(2,3) by simp
qed

lemma cache_key_inj:
  assumes "proper_names a" "proper_names b" and "cache_key (fst a) (snd a) = cache_key (fst b) (snd b)"
  shows "a = b"
proof -
  have "fst a @ [] # snd a = fst b @ [] # snd b"
    using cache_key_split [OF assms(1)] cache_key_split [OF assms(2)] assms(3) by simp
  then show ?thesis using last_blank_inject assms(1,2) unfolding proper_names_def by (metis prod_eqI)
qed

interpretation found: memo "\<lambda>np. cache_key (fst np) (snd np)" "\<lambda>np. filter (rule_named (fst np) (snd np)) rules"
  proper_names CACHE_MAX for rules
  by unfold_locales (metis cache_key_inj)

text \<open>A matcher of rules: its index is theirs, and its cache holds what they take.\<close>

definition matcher_of :: "expected_rule list \<Rightarrow> rule_matcher \<Rightarrow> bool" where
  "matcher_of rules m \<longleftrightarrow> rm_rules m = rules \<and> rm_starts m = start_tree rules \<and> found.agrees rules (rm_cache m)"

lemma new_matcher_of: "matcher_of rules (new_matcher rules)"
  by (simp add: matcher_of_def new_matcher_def found.agrees_Nil)

lemma cached_candidates_recall:
  assumes "matcher_of rules m" and "\<forall>r\<in>set rules. compiled r"
  shows "cached_candidates programs paths m =
    (fst (found.recall rules (programs, paths) (rm_cache m)),
     m\<lparr>rm_cache := snd (found.recall rules (programs, paths) (rm_cache m))\<rparr>)"
  using assms
  by (simp add: cached_candidates_def found.recall_def matcher_of_def found_named Let_def split: option.splits)

lemma rule_match_step:
  assumes "matcher_of rules m" and "\<forall>r\<in>set rules. compiled r" and "proper_names (programs, paths)"
  shows "fst (rule_match programs paths bits failed perm m) =
      match_found (filter (rule_named programs paths) rules) bits failed perm \<and>
    matcher_of rules (snd (rule_match programs paths bits failed perm m))"
proof -
  have ag: "found.agrees rules (rm_cache m)" using assms(1) by (simp add: matcher_of_def)
  show ?thesis
    using found.recall_value [OF ag assms(3)] found.recall_agrees [OF ag assms(3)] assms(1)
    by (simp add: rule_match_def cached_candidates_recall [OF assms(1,2)] matcher_of_def)
qed

section \<open>Every rule in order\<close>

definition linear_rule ::
    "expected_rule list \<Rightarrow> ustring list \<Rightarrow> ustring list \<Rightarrow> bool \<Rightarrow> bool \<Rightarrow> char \<Rightarrow> expected_rule option" where
  "linear_rule rules programs paths failed perm c =
     find (\<lambda>r. rule_named programs paths r \<and> takes r (BIT c) failed perm) rules"

text \<open>The actions no rule takes, and the rule of the first of the others.\<close>

definition linear_match ::
    "expected_rule list \<Rightarrow> ustring list \<Rightarrow> ustring list \<Rightarrow> actions \<Rightarrow> bool \<Rightarrow> bool \<Rightarrow> match_result" where
  "linear_match rules programs paths bits failed perm =
     (let asked = filter (\<lambda>c. bits AND BIT c \<noteq> 0) ORDER;
          rule = linear_rule rules programs paths failed perm in
      \<lparr>mr_unmatched = foldl (OR) 0 (map BIT (filter (\<lambda>c. rule c = None) asked)),
       mr_ref = map_option er_ref (case filter (\<lambda>c. rule c \<noteq> None) asked of [] \<Rightarrow> None | c # _ \<Rightarrow> rule c)\<rparr>)"

lemma find_filter: "find P (filter Q xs) = find (\<lambda>x. Q x \<and> P x) xs"
  by (induction xs) auto

lemma match_letters:
  fixes bits failed perm rules programs paths
  defines "rule \<equiv> linear_rule rules programs paths failed perm"
  shows "fold (match_letter (filter (rule_named programs paths) rules) bits failed perm) cs res =
    (let asked = filter (\<lambda>c. bits AND BIT c \<noteq> 0) cs in
     \<lparr>mr_unmatched = foldl (OR) (mr_unmatched res) (map BIT (filter (\<lambda>c. rule c = None) asked)),
      mr_ref = (case mr_ref res of
          Some r \<Rightarrow> Some r
        | None \<Rightarrow> map_option er_ref (case filter (\<lambda>c. rule c \<noteq> None) asked of [] \<Rightarrow> None | c # _ \<Rightarrow> rule c))\<rparr>)"
proof (induction cs arbitrary: res)
  case Nil
  then show ?case by (cases res) (simp split: option.splits)
next
  case (Cons c cs)
  have r: "find (\<lambda>r. takes r (BIT c) failed perm) (filter (rule_named programs paths) rules) = rule c"
    by (simp add: rule_def linear_rule_def find_filter)
  show ?case
    unfolding fold_Cons o_apply Cons
    by (cases "bits AND BIT c = 0"; cases "rule c"; cases "mr_ref res") (simp_all add: match_letter_def Let_def r)
qed

lemma match_found_linear:
  "match_found (filter (rule_named programs paths) rules) bits failed perm =
     linear_match rules programs paths bits failed perm"
  by (simp add: match_found_def match_letters linear_match_def Let_def)

text \<open>A call of the matcher: the names, the actions and their outcome.\<close>

type_synonym match_call = "ustring list \<times> ustring list \<times> actions \<times> bool \<times> bool"

definition proper_call :: "match_call \<Rightarrow> bool" where
  "proper_call c \<longleftrightarrow> proper_names (fst c, fst (snd c))"

definition run_call :: "match_call \<Rightarrow> rule_matcher \<Rightarrow> match_result \<times> rule_matcher" where
  "run_call c m = (case c of (programs, paths, bits, failed, perm) \<Rightarrow> rule_match programs paths bits failed perm m)"

definition after_calls :: "match_call list \<Rightarrow> rule_matcher \<Rightarrow> rule_matcher" where
  "after_calls calls m = fold (\<lambda>c m. snd (run_call c m)) calls m"

lemma after_calls_matcher:
  assumes "\<forall>r\<in>set rules. compiled r"
  shows "\<forall>c\<in>set calls. proper_call c \<Longrightarrow> matcher_of rules m \<Longrightarrow> matcher_of rules (after_calls calls m)"
proof (induction calls arbitrary: m)
  case (Cons c calls)
  obtain programs paths bits failed perm where c: "c = (programs, paths, bits, failed, perm)" by (cases c)
  have "matcher_of rules (snd (run_call c m))"
    using rule_match_step [OF Cons.prems(2) assms] Cons.prems(1) by (auto simp: c run_call_def proper_call_def)
  with Cons show ?case by (simp add: after_calls_def)
qed (simp add: after_calls_def)

text \<open>C26. The matcher takes each access by the rule that trying every rule in the order they were
  written would, whatever it was asked before: neither the index by fixed components nor the
  cache, full or not, changes a result.\<close>

theorem matcher_linear:
  assumes "parseExpectedRules sources = Inr rules" and "\<forall>c\<in>set calls. proper_call c"
    and "proper_names (programs, paths)"
  shows "fst (rule_match programs paths bits failed perm (after_calls calls (new_matcher rules))) =
    linear_match rules programs paths bits failed perm"
  using rule_match_step [OF after_calls_matcher [OF parse_compiled [OF assms(1)] assms(2) new_matcher_of]
      parse_compiled [OF assms(1)] assms(3)]
  by (simp add: match_found_linear)


definition sample_rules :: "rule_source list" where
  "sample_rules =
     [\<lparr>rs_text = u ''node  R  /repo/src/**'' @ [10] @ u ''*  RWm!  /tmp/build-*'', rs_origin = u ''rules'', rs_firstLine = Some 1\<rparr>]"

lemma matcher_linear_witness:
  "\<exists>rules. parseExpectedRules sample_rules = Inr rules \<and>
     fst (rule_match [u ''node''] [u ''/tmp/build-7''] (BIT CHR ''R'' OR BIT CHR ''X'') False False
       (after_calls [([u ''sh''], [u ''/repo/src/a''], BIT CHR ''R'', True, False)] (new_matcher rules))) =
     linear_match rules [u ''node''] [u ''/tmp/build-7''] (BIT CHR ''R'' OR BIT CHR ''X'') False False \<and>
     linear_match rules [u ''node''] [u ''/tmp/build-7''] (BIT CHR ''R'' OR BIT CHR ''X'') False False =
       \<lparr>mr_unmatched = BIT CHR ''X'', mr_ref = Some (u ''rules:2'')\<rparr>"
proof -
  have "case parseExpectedRules sample_rules of Inl _ \<Rightarrow> False | Inr rules \<Rightarrow>
      linear_match rules [u ''node''] [u ''/tmp/build-7''] (BIT CHR ''R'' OR BIT CHR ''X'') False False =
        \<lparr>mr_unmatched = BIT CHR ''X'', mr_ref = Some (u ''rules:2'')\<rparr>"
    by code_simp
  then obtain rules where r: "parseExpectedRules sample_rules = Inr rules"
    "linear_match rules [u ''node''] [u ''/tmp/build-7''] (BIT CHR ''R'' OR BIT CHR ''X'') False False =
       \<lparr>mr_unmatched = BIT CHR ''X'', mr_ref = Some (u ''rules:2'')\<rparr>"
    by (auto split: sum.splits)
  have "proper_names ([u ''sh''], [u ''/repo/src/a''])" "proper_names ([u ''node''], [u ''/tmp/build-7''])"
    by code_simp+
  then show ?thesis using r matcher_linear [OF r(1)] by (auto simp: proper_call_def)
qed

end
