(* ===== verification/FsStrip.thy ===== *)
theory FsStrip
  imports FsRecord
begin

text \<open>
  \<^verbatim>\<open>src/lib/filesystem-audit/strip.ts\<close>: the records of the sandbox's own machinery taken out of a
  recording, in two passes over its lines. A line comes with what it parses to, \<^const>\<open>None\<close> where
  that is no object. A record may have any further fields, so it is of the record scheme; how one is
  written back, \<^verbatim>\<open>JSON.stringify\<close>, is a parameter.
\<close>

definition SHELL_COMM :: ustring where "SHELL_COMM = u ''run-script.sh''"
definition SHELL_LABEL :: ustring where "SHELL_LABEL = u ''bash''"

definition readsOnly :: "'x audit_record_scheme \<Rightarrow> bool" where
  "readsOnly r \<longleftrightarrow>
     ar_kind r = ''read'' \<or> (ar_kind r = ''open'' \<or> ar_kind r = ''mmap'') \<and> ar_access r = Some ''r''"

text \<open>A path below the scratch base, \<^const>\<open>None\<close> being no path.\<close>

definition under_base :: "ustring \<Rightarrow> ustring option \<Rightarrow> bool" where
  "under_base base p \<longleftrightarrow>
     (case p of None \<Rightarrow> False | Some path \<Rightarrow> path = base \<or> starts_with (base @ [SLASH]) path)"

definition isShellExec :: "'x audit_record_scheme \<Rightarrow> bool" where
  "isShellExec r \<longleftrightarrow>
     ar_kind r = ''exec'' \<and> ar_pid r \<noteq> None \<and>
     (case ar_path r of None \<Rightarrow> False | Some path \<Rightarrow> leaf path = SHELL_COMM)"

record stripper =
  sp_own :: "nat list"
  sp_shell :: "nat option"
  sp_script :: "ustring option"
  sp_init :: "nat option"
  sp_boundary :: int
  sp_observed :: nat
  sp_filtered :: nat

definition createStripper :: stripper where
  "createStripper =
     \<lparr>sp_own = [], sp_shell = None, sp_script = None, sp_init = None, sp_boundary = - 1, sp_observed = 0,
      sp_filtered = 0\<rparr>"

definition observe :: "ustring \<Rightarrow> 'x audit_record_scheme option \<Rightarrow> stripper \<Rightarrow> stripper" where
  "observe base rec s =
     (let i = sp_observed s; s = s\<lparr>sp_observed := i + 1\<rparr> in
      case rec of
        None \<Rightarrow> s
      | Some r \<Rightarrow>
          if sp_shell s = None \<and> isShellExec r \<and> under_base base (ar_path r)
          then s\<lparr>sp_shell := ar_pid r, sp_script := ar_path r, sp_boundary := int i, sp_init := ar_ppid r\<rparr>
          else s)"

text \<open>The processes that run a \<^verbatim>\<open>run-script.sh\<close> of their own, once a record is taken.\<close>

definition own_shells :: "ustring \<Rightarrow> nat option \<Rightarrow> 'x audit_record_scheme \<Rightarrow> nat list \<Rightarrow> nat list" where
  "own_shells base shell r own =
     (let own1 = (if isShellExec r \<and> (\<not> under_base base (ar_path r) \<or> ar_pid r \<noteq> shell)
           then List.insert (the (ar_pid r)) own else own) in
      if ar_kind r = ''fork'' \<and> ar_pid r \<noteq> None then
        (if ar_ppid r \<noteq> None \<and> the (ar_ppid r) \<in> set own1 then List.insert (the (ar_pid r)) own1
         else removeAll (the (ar_pid r)) own1)
      else own1)"

definition readsScript :: "stripper \<Rightarrow> 'x audit_record_scheme \<Rightarrow> bool" where
  "readsScript s r \<longleftrightarrow> ar_pid r = sp_shell s \<and> ar_path r = sp_script s \<and> \<not> ar_failed r \<and> readsOnly r"

text \<open>A record of the step as it is kept: the step's shell goes by \<^verbatim>\<open>bash\<close> and without a program.\<close>

definition relabelled :: "stripper \<Rightarrow> 'x audit_record_scheme \<Rightarrow> bool" where
  "relabelled s r \<longleftrightarrow>
     sp_shell s \<noteq> None \<and> ar_pid r \<noteq> None \<and> the (ar_pid r) \<notin> set (sp_own s) \<and> ar_comm r = Some SHELL_COMM"

definition unnamed :: "stripper \<Rightarrow> 'x audit_record_scheme \<Rightarrow> bool" where
  "unnamed s r \<longleftrightarrow>
     sp_shell s \<noteq> None \<and> ar_pid r \<noteq> None \<and> the (ar_pid r) \<notin> set (sp_own s) \<and> ar_program r = sp_script s"

definition kept_record ::
    "('x audit_record_scheme \<Rightarrow> ustring) \<Rightarrow> stripper \<Rightarrow> ustring \<Rightarrow> 'x audit_record_scheme \<Rightarrow>
     ustring \<times> 'x audit_record_scheme option" where
  "kept_record stringify s line r =
     (if relabelled s r \<or> unnamed s r then
        (let r1 = (if relabelled s r then r\<lparr>ar_comm := Some SHELL_LABEL\<rparr> else r);
             r2 = (if unnamed s r then r1\<lparr>ar_program := None\<rparr> else r1) in
         (stringify r2, Some r2))
      else (line, Some r))"

definition filter_line ::
    "ustring \<Rightarrow> ('x audit_record_scheme \<Rightarrow> ustring) \<Rightarrow> ustring \<times> 'x audit_record_scheme option \<Rightarrow> stripper \<Rightarrow>
     (ustring \<times> 'x audit_record_scheme option) option \<times> stripper" where
  "filter_line base stringify lr s =
     (let i = sp_filtered s; s = s\<lparr>sp_filtered := i + 1\<rparr> in
      case snd lr of
        None \<Rightarrow> (if fst lr = [] then None else Some lr, s)
      | Some r \<Rightarrow>
          (let s = s\<lparr>sp_own := own_shells base (sp_shell s) r (sp_own s)\<rparr> in
           if sp_shell s \<noteq> None \<and> ar_pid r \<noteq> None \<and>
              (int i \<le> sp_boundary s \<or> ar_pid r = sp_init s \<or> readsScript s r)
           then (None, s)
           else (Some (kept_record stringify s (fst lr) r), s)))"

text \<open>The two passes: what is kept of each line, \<^const>\<open>None\<close> where it is dropped.\<close>

definition observed :: "ustring \<Rightarrow> 'x audit_record_scheme option list \<Rightarrow> stripper" where
  "observed base recs = fold (observe base) recs createStripper"

fun filter_lines ::
    "ustring \<Rightarrow> ('x audit_record_scheme \<Rightarrow> ustring) \<Rightarrow> (ustring \<times> 'x audit_record_scheme option) list \<Rightarrow> stripper \<Rightarrow>
     (ustring \<times> 'x audit_record_scheme option) option list" where
  "filter_lines base stringify [] s = []"
| "filter_lines base stringify (lr # lrs) s =
     (let (kept, s') = filter_line base stringify lr s in kept # filter_lines base stringify lrs s')"

definition strip_recording ::
    "ustring \<Rightarrow> ('x audit_record_scheme \<Rightarrow> ustring) \<Rightarrow> (ustring \<times> 'x audit_record_scheme option) list \<Rightarrow>
     (ustring \<times> 'x audit_record_scheme option) option list" where
  "strip_recording base stringify lines = filter_lines base stringify lines (observed base (map snd lines))"

section \<open>What is kept\<close>

definition anchors :: "ustring \<Rightarrow> 'x audit_record_scheme option \<Rightarrow> bool" where
  "anchors base rec \<longleftrightarrow>
     (case rec of None \<Rightarrow> False | Some r \<Rightarrow> isShellExec r \<and> under_base base (ar_path r))"

text \<open>The place of the shell's exec, the first of a \<^verbatim>\<open>run-script.sh\<close> below the scratch base, and its
  record.\<close>

definition anchor :: "ustring \<Rightarrow> 'x audit_record_scheme option list \<Rightarrow> (nat \<times> 'x audit_record_scheme) option" where
  "anchor base recs =
     map_option (\<lambda>(i, rec). (i, the rec)) (find (\<lambda>(i, rec). anchors base rec) (List.enumerate 0 recs))"

lemma observe_after: "sp_shell s \<noteq> None \<Longrightarrow>
   fold (observe base) recs s = s\<lparr>sp_observed := sp_observed s + length recs\<rparr>"
proof (induction recs arbitrary: s)
  case (Cons rec recs)
  have "observe base rec s = s\<lparr>sp_observed := sp_observed s + 1\<rparr>"
    using Cons.prems by (auto simp: observe_def Let_def split: option.splits)
  then show ?case using Cons.IH [of "observe base rec s"] Cons.prems by simp
qed simp

lemma observe_from:
  "sp_shell s = None \<Longrightarrow>
   fold (observe base) recs s =
     (case find (\<lambda>(i, rec). anchors base rec) (List.enumerate (sp_observed s) recs) of
        None \<Rightarrow> s\<lparr>sp_observed := sp_observed s + length recs\<rparr>
      | Some (i, rec) \<Rightarrow>
          s\<lparr>sp_observed := sp_observed s + length recs, sp_shell := ar_pid (the rec), sp_script := ar_path (the rec),
            sp_boundary := int i, sp_init := ar_ppid (the rec)\<rparr>)"
proof (induction recs arbitrary: s)
  case (Cons rec recs)
  show ?case
  proof (cases "anchors base rec")
    case True
    then obtain r where r: "rec = Some r" "isShellExec r" "under_base base (ar_path r)"
      by (auto simp: anchors_def split: option.splits)
    then have "observe base rec s = s\<lparr>sp_observed := sp_observed s + 1, sp_shell := ar_pid r, sp_script := ar_path r,
        sp_boundary := int (sp_observed s), sp_init := ar_ppid r\<rparr>"
      using Cons.prems by (simp add: observe_def Let_def)
    moreover have "ar_pid r \<noteq> None" using r(2) by (simp add: isShellExec_def)
    ultimately show ?thesis using True r(1) by (simp add: observe_after)
  next
    case False
    then have o: "observe base rec s = s\<lparr>sp_observed := sp_observed s + 1\<rparr>"
      by (auto simp: observe_def anchors_def Let_def split: option.splits)
    show ?thesis using Cons.IH [of "observe base rec s"] Cons.prems False by (simp add: o split: option.splits)
  qed
qed simp

text \<open>Whether a line is the step's: one that is no record, one of no process, and past the shell's
  exec one that is neither the init's nor the shell reading its script. Every line is where no
  shell is found, but a blank one.\<close>

definition steps_own :: "(nat \<times> 'x audit_record_scheme) option \<Rightarrow> nat \<Rightarrow> ustring \<times> 'x audit_record_scheme option \<Rightarrow> bool" where
  "steps_own a i lr \<longleftrightarrow>
     (case (snd lr, a) of
        (None, _) \<Rightarrow> fst lr \<noteq> []
      | (Some r, None) \<Rightarrow> True
      | (Some r, Some (b, shell)) \<Rightarrow>
          ar_pid r = None \<or>
          b < i \<and> ar_pid r \<noteq> ar_ppid shell \<and>
          \<not> (ar_pid r = ar_pid shell \<and> ar_path r = ar_path shell \<and> \<not> ar_failed r \<and> readsOnly r))"

text \<open>A stripper that has observed a whole recording.\<close>

definition anchored :: "(nat \<times> 'x audit_record_scheme) option \<Rightarrow> stripper \<Rightarrow> bool" where
  "anchored a s \<longleftrightarrow>
     (case a of
        None \<Rightarrow> sp_shell s = None
      | Some (b, r) \<Rightarrow>
          sp_shell s = ar_pid r \<and> ar_pid r \<noteq> None \<and> sp_script s = ar_path r \<and> sp_init s = ar_ppid r \<and> sp_boundary s = int b)"

lemma find_Some_pred: "find P xs = Some x \<Longrightarrow> P x"
  by (induction xs) (auto split: if_splits)

lemma observed_anchored: "anchored (anchor base recs) (observed base recs)"
proof (cases "find (\<lambda>(i, rec). anchors base rec) (List.enumerate 0 recs)")
  case None
  then show ?thesis
    using observe_from [of createStripper base recs]
    by (simp add: anchored_def anchor_def observed_def createStripper_def)
next
  case (Some irec)
  obtain i rec where ir: "irec = (i, rec)" by (cases irec)
  have "anchors base rec" using find_Some_pred [OF Some] by (simp add: ir)
  then have "ar_pid (the rec) \<noteq> None" by (auto simp: anchors_def isShellExec_def split: option.splits)
  then show ?thesis
    using observe_from [of createStripper base recs] Some
    by (simp add: anchored_def anchor_def observed_def createStripper_def ir)
qed

text \<open>Whether a process goes by a \<^verbatim>\<open>run-script.sh\<close> of its own after some records, the latest first:
  it ran one, or was forked by a process that did.\<close>

fun named_own :: "ustring \<Rightarrow> nat option \<Rightarrow> 'x audit_record_scheme option list \<Rightarrow> nat \<Rightarrow> bool" where
  "named_own base shell [] p \<longleftrightarrow> False"
| "named_own base shell (None # earlier) p \<longleftrightarrow> named_own base shell earlier p"
| "named_own base shell (Some r # earlier) p \<longleftrightarrow>
     (if ar_pid r = Some p \<and> isShellExec r \<and> (\<not> under_base base (ar_path r) \<or> ar_pid r \<noteq> shell) then True
      else if ar_pid r = Some p \<and> ar_kind r = ''fork''
      then (case ar_ppid r of None \<Rightarrow> False | Some q \<Rightarrow> named_own base shell earlier q)
      else named_own base shell earlier p)"

text \<open>A line of the step as it is kept: the step's shell and its forks are shown as \<^verbatim>\<open>bash\<close> with no
  program, any other line verbatim.\<close>

definition shown_line ::
    "ustring \<Rightarrow> ('x audit_record_scheme \<Rightarrow> ustring) \<Rightarrow> (nat \<times> 'x audit_record_scheme) option \<Rightarrow>
     'x audit_record_scheme option list \<Rightarrow> ustring \<times> 'x audit_record_scheme option \<Rightarrow>
     ustring \<times> 'x audit_record_scheme option" where
  "shown_line base stringify a earlier lr =
     (case (snd lr, a) of
        (Some r, Some (b, shell)) \<Rightarrow>
          (let ours = (\<exists>p\<in>set_option (ar_pid r). \<not> named_own base (ar_pid shell) earlier p);
               relabel = (ours \<and> ar_comm r = Some SHELL_COMM); nameless = (ours \<and> ar_program r = ar_path shell) in
           if relabel \<or> nameless then
             (let r' = r\<lparr>ar_comm := (if relabel then Some SHELL_LABEL else ar_comm r),
                   ar_program := (if nameless then None else ar_program r)\<rparr> in
              (stringify r', Some r'))
           else lr)
      | _ \<Rightarrow> lr)"

definition shown_at ::
    "ustring \<Rightarrow> ('x audit_record_scheme \<Rightarrow> ustring) \<Rightarrow> (nat \<times> 'x audit_record_scheme) option \<Rightarrow>
     'x audit_record_scheme option list \<Rightarrow> nat \<Rightarrow> ustring \<times> 'x audit_record_scheme option \<Rightarrow>
     (ustring \<times> 'x audit_record_scheme option) option" where
  "shown_at base stringify a recs i lr =
     (if steps_own a i lr then Some (shown_line base stringify a (rev (take (Suc i) recs)) lr) else None)"

definition tracks :: "ustring \<Rightarrow> 'x audit_record_scheme option list \<Rightarrow> stripper \<Rightarrow> bool" where
  "tracks base earlier s \<longleftrightarrow>
     sp_filtered s = length earlier \<and> (\<forall>p. p \<in> set (sp_own s) \<longleftrightarrow> named_own base (sp_shell s) earlier p)"

lemma own_shells_named:
  assumes "\<forall>p. p \<in> set own \<longleftrightarrow> named_own base shell earlier p"
  shows "p \<in> set (own_shells base shell r own) \<longleftrightarrow> named_own base shell (Some r # earlier) p"
proof -
  have exec: "isShellExec r \<Longrightarrow> ar_kind r = ''exec'' \<and> (\<exists>q. ar_pid r = Some q)" by (auto simp: isShellExec_def)
  have m: "q \<in> set own \<longleftrightarrow> named_own base shell earlier q" for q using assms by blast
  show ?thesis
  proof (cases "ar_kind r = ''fork''")
    case True
    then have "\<not> isShellExec r" by (simp add: isShellExec_def)
    then show ?thesis
      using True m by (cases "ar_pid r"; cases "ar_ppid r") (simp_all add: own_shells_def Let_def)
  next
    case False
    show ?thesis
    proof (cases "isShellExec r \<and> (\<not> under_base base (ar_path r) \<or> ar_pid r \<noteq> shell)")
      case True
      then obtain q where q: "ar_pid r = Some q" using exec by blast
      have "named_own base shell (Some r # earlier) p \<longleftrightarrow> p = q \<or> named_own base shell earlier p"
        using True False q by auto
      then show ?thesis using True False q m by (simp add: own_shells_def del: named_own.simps)
    next
      case none: False
      have "named_own base shell (Some r # earlier) p \<longleftrightarrow> named_own base shell earlier p"
        using none False by auto
      moreover have "own_shells base shell r own = own" using none False by (auto simp: own_shells_def)
      ultimately show ?thesis using m by simp
    qed
  qed
qed

lemma kept_record_shown:
  assumes "anchored a s" and "tracks base earlier s"
  shows "kept_record stringify s line r = shown_line base stringify a earlier (line, Some r)"
proof (cases a)
  case None
  then show ?thesis
    using assms by (simp add: shown_line_def kept_record_def relabelled_def unnamed_def anchored_def)
next
  case (Some bs)
  then show ?thesis
    using assms
    by (cases bs; cases "ar_pid r")
      (simp_all add: shown_line_def kept_record_def relabelled_def unnamed_def anchored_def tracks_def Let_def)
qed

lemma filter_line_shown:
  assumes "anchored a s" and "tracks base earlier s"
  shows "fst (filter_line base stringify lr s) =
      (if steps_own a (length earlier) lr then Some (shown_line base stringify a (snd lr # earlier) lr) else None)"
    and "anchored a (snd (filter_line base stringify lr s)) \<and> tracks base (snd lr # earlier) (snd (filter_line base stringify lr s))"
proof -
  obtain line rec where lr: "lr = (line, rec)" by (cases lr)
  define s' where "s' = (case rec of None \<Rightarrow> s\<lparr>sp_filtered := sp_filtered s + 1\<rparr>
    | Some r \<Rightarrow> s\<lparr>sp_filtered := sp_filtered s + 1, sp_own := own_shells base (sp_shell s) r (sp_own s)\<rparr>)"
  have own: "\<forall>p. p \<in> set (sp_own s) \<longleftrightarrow> named_own base (sp_shell s) earlier p" "sp_filtered s = length earlier"
    using assms(2) by (auto simp: tracks_def)
  have a: "anchored a s'" using assms(1) by (cases rec; cases a) (auto simp: s'_def anchored_def)
  have t: "tracks base (rec # earlier) s'"
    using own by (simp add: tracks_def s'_def own_shells_named [OF own(1)] del: named_own.simps(3) split: option.splits)
  have f: "filter_line base stringify lr s =
      (if steps_own a (length earlier) lr then Some (shown_line base stringify a (rec # earlier) lr) else None, s')"
  proof (cases rec)
    case None
    then show ?thesis
      by (simp add: lr filter_line_def s'_def steps_own_def shown_line_def Let_def)
  next
    case (Some r)
    have k: "kept_record stringify s' line r = shown_line base stringify a (rec # earlier) lr"
      using kept_record_shown [OF a t, of stringify line r] by (simp add: lr Some)
    have "filter_line base stringify lr s =
        (if sp_shell s' \<noteq> None \<and> ar_pid r \<noteq> None \<and>
            (int (length earlier) \<le> sp_boundary s' \<or> ar_pid r = sp_init s' \<or> readsScript s' r)
         then None else Some (kept_record stringify s' line r), s')"
      by (simp add: filter_line_def lr Some s'_def own(2) Let_def)
    then show ?thesis
      unfolding k using a by (auto simp: lr Some steps_own_def anchored_def readsScript_def split: option.splits)
  qed
  show "fst (filter_line base stringify lr s) =
      (if steps_own a (length earlier) lr then Some (shown_line base stringify a (snd lr # earlier) lr) else None)"
    "anchored a (snd (filter_line base stringify lr s)) \<and> tracks base (snd lr # earlier) (snd (filter_line base stringify lr s))"
    using a t unfolding f by (simp_all add: lr)
qed

lemma filter_lines_shown:
  "anchored a s \<Longrightarrow> tracks base (rev before) s \<Longrightarrow>
   filter_lines base stringify lrs s =
     map (\<lambda>(i, lr). shown_at base stringify a (before @ map snd lrs) i lr) (List.enumerate (length before) lrs)"
proof (induction lrs arbitrary: s before)
  case (Cons lr lrs)
  obtain kept s' where f: "filter_line base stringify lr s = (kept, s')" by fastforce
  have "kept = shown_at base stringify a (before @ snd lr # map snd lrs) (length before) lr"
    using filter_line_shown(1) [OF Cons.prems, of stringify lr] by (simp add: f shown_at_def)
  moreover have now: "anchored a s'" "tracks base (rev (before @ [snd lr])) s'"
    using filter_line_shown(2) [OF Cons.prems, of stringify lr] by (simp_all add: f)
  ultimately show ?case using Cons.IH [OF now] by (simp add: f)
qed simp

lemma observed_filtered: "sp_filtered (observed base recs) = 0 \<and> sp_own (observed base recs) = []"
  using observe_from [of createStripper base recs]
  by (auto simp: observed_def createStripper_def split: option.splits)

text \<open>C23. The stripped recording holds the step's lines and no others, whatever the step does with its
  processes: without the shell's exec every line but a blank one, and with it every line past it
  but the init's and the shell's reads of its own script, and wherever they stand the lines that are
  no record of a process. Each is kept verbatim, but for the name
  of the step's shell and of the forks that inherit it.\<close>

theorem strip_exact:
  "strip_recording base stringify lines =
     (let recs = map snd lines in
      map (\<lambda>(i, lr). shown_at base stringify (anchor base recs) recs i lr) (List.enumerate 0 lines))"
  using filter_lines_shown [where before = "[]" and lrs = lines and base = base and stringify = stringify,
      OF observed_anchored [of base "map snd lines"]]
  by (simp add: strip_recording_def Let_def observed_filtered tracks_def)

end
