(* ===== verification/FsInput.thy ===== *)
theory FsInput
  imports FsRules
begin

text \<open>
  \<^verbatim>\<open>mode.ts\<close> and \<^verbatim>\<open>rules-input.ts\<close> under \<^verbatim>\<open>src/lib/filesystem-audit\<close>: whether a step's accesses are
  recorded, and the expected rules of the workflow and of \<^verbatim>\<open>config-file\<close> in one input.
\<close>

section \<open>Whether to record\<close>

definition FILESYSTEM_AUDIT :: "ustring list" where
  "FILESYSTEM_AUDIT = [u ''off'', u ''record'']"

definition resolveFilesystemAudit :: "ustring option \<Rightarrow> ustring option + ustring" where
  "resolveFilesystemAudit input =
     (let given = (case input of None \<Rightarrow> [] | Some text' \<Rightarrow> utrim text'); trimmed = (if given = [] then u ''off'' else given) in
      if trimmed \<notin> set FILESYSTEM_AUDIT then Inl input else Inr trimmed)"

section \<open>The two sources of rules\<close>

record config_origin =
  co_offset :: nat
  co_line :: "nat option"

definition sources_of :: "ustring \<Rightarrow> config_origin option \<Rightarrow> rule_source list" where
  "sources_of value' config =
     (let lines = split_on 10 value'; offset = (case config of None \<Rightarrow> length lines | Some c \<Rightarrow> co_offset c) in
      [\<lparr>rs_text = join_with [10] (take offset lines), rs_origin = u ''input'', rs_firstLine = Some 1\<rparr>,
       \<lparr>rs_text = join_with [10] (drop offset lines), rs_origin = u ''config'',
        rs_firstLine = (case config of None \<Rightarrow> None | Some c \<Rightarrow> co_line c)\<rparr>])"

definition ruleSources :: "ustring \<Rightarrow> config_origin option \<Rightarrow> rule_source list" where
  "ruleSources value' config = filter (\<lambda>src. utrim (rs_text src) \<noteq> []) (sources_of value' config)"

text \<open>A failed read: a line that is no rule, or rules for a step that records nothing.\<close>

datatype rules_input_error = BadRule ustring rule_error | NotRecorded

definition readExpectedFilesystemRules ::
    "ustring \<Rightarrow> config_origin option \<Rightarrow> ustring \<Rightarrow> rules_input_error + expected_rule list option option" where
  "readExpectedFilesystemRules value' config filesystemAudit =
     (let sources = ruleSources value' config in
      if sources = [] then Inr None
      else (case parseExpectedRules sources of
          Inl (ref, e) \<Rightarrow> Inl (BadRule ref e)
        | Inr rules \<Rightarrow>
            if rules = [] then Inr (Some None)
            else if filesystemAudit \<noteq> u ''record'' then Inl NotRecorded
            else Inr (Some (Some rules))))"

section \<open>Each rule by its line\<close>

text \<open>How a line of the input's value is known: one of the workflow's by its number there, one of
  the file's by its number in the file, where that is known.\<close>

definition value_ref :: "config_origin option \<Rightarrow> nat \<Rightarrow> ustring" where
  "value_ref config n =
     (case config of
        None \<Rightarrow> u ''input:'' @ u (show_nat (1 + n))
      | Some c \<Rightarrow>
          if n < co_offset c then u ''input:'' @ u (show_nat (1 + n))
          else (case co_line c of
              None \<Rightarrow> u ''config''
            | Some line \<Rightarrow> u ''config:'' @ u (show_nat (line + (n - co_offset c)))))"

definition value_lines :: "ustring \<Rightarrow> config_origin option \<Rightarrow> (ustring \<times> ustring) list" where
  "value_lines value' config = map (\<lambda>(n, raw). (value_ref config n, raw)) (List.enumerate 0 (split_on 10 value'))"

definition parse_lines :: "(ustring \<times> ustring) list \<Rightarrow> expected_rule list ruled" where
  "parse_lines lines = map_e (List.map_filter (\<lambda>r. r)) (traverse_e (\<lambda>(ref, raw). parse_rule_line ref raw) lines)"

lemma parse_lines_Nil: "parse_lines [] = Inr []"
  by (simp add: parse_lines_def List.map_filter_def)

lemma parse_lines_Cons:
  "parse_lines ((ref, raw) # lines) =
     bind_e (parse_rule_line ref raw) (\<lambda>r. map_e (\<lambda>rs. (case r of None \<Rightarrow> rs | Some rule \<Rightarrow> rule # rs)) (parse_lines lines))"
proof (cases "parse_rule_line ref raw")
  case (Inr r)
  then show ?thesis
    by (cases "traverse_e (\<lambda>(ref, raw). parse_rule_line ref raw) lines")
      (simp_all add: parse_lines_def List.map_filter_def split: option.splits)
qed (simp add: parse_lines_def)

lemma parse_lines_append:
  "parse_lines (xs @ ys) = bind_e (parse_lines xs) (\<lambda>rs. map_e (\<lambda>ss. rs @ ss) (parse_lines ys))"
proof (induction xs)
  case Nil
  then show ?case by (cases "parse_lines ys") (simp_all add: parse_lines_Nil)
next
  case (Cons x xs)
  obtain ref raw where x: "x = (ref, raw)" by (cases x)
  show ?case
    using Cons
    by (cases "parse_rule_line ref raw"; cases "parse_lines xs"; cases "parse_lines ys")
      (simp_all add: x parse_lines_Cons split: option.splits)
qed

lemma parseExpectedRules_lines: "parseExpectedRules sources = parse_lines (concat (map source_lines sources))"
  by (simp add: parseExpectedRules_def parse_lines_def)

text \<open>A text of blanks holds no rule.\<close>

lemma utrim_Nil: "utrim s = [] \<longleftrightarrow> (\<forall>c\<in>set s. uspace c)"
proof -
  have "utrim s = [] \<longleftrightarrow> (\<forall>c\<in>set (dropWhile uspace s). uspace c)" by (simp add: utrim_def dropWhile_eq_Nil_conv)
  also have "\<dots> \<longleftrightarrow> dropWhile uspace s = []"
    using hd_dropWhile [of uspace s] by (cases "dropWhile uspace s") (auto dest: set_dropWhileD)
  also have "\<dots> \<longleftrightarrow> (\<forall>c\<in>set s. uspace c)" by (rule dropWhile_eq_Nil_conv)
  finally show ?thesis .
qed

lemma parse_blank: "\<forall>l\<in>set ls. utrim (snd l) = [] \<Longrightarrow> parse_lines ls = Inr []"
proof (induction ls)
  case (Cons l ls)
  obtain ref raw where l: "l = (ref, raw)" by (cases l)
  then show ?case using Cons by (simp add: parse_lines_Cons parse_rule_line_def)
qed (simp add: parse_lines_Nil)

lemma blank_source:
  assumes "utrim (rs_text src) = []" shows "parse_lines (source_lines src) = Inr []"
proof (rule parse_blank)
  have "utrim w = []" if "w \<in> set (split_on 10 (rs_text src))" for w
    using assms split_on_subset [OF that] by (auto simp: utrim_Nil)
  then show "\<forall>l\<in>set (source_lines src). utrim (snd l) = []"
    by (auto simp: source_lines_def in_set_enumerate_eq)
qed

lemma parse_filtered:
  "parse_lines (concat (map source_lines (filter (\<lambda>src. utrim (rs_text src) \<noteq> []) sources))) =
     parse_lines (concat (map source_lines sources))"
proof (induction sources)
  case (Cons src sources)
  then show ?case
    using blank_source [of src]
    by (cases "parse_lines (concat (map source_lines sources))") (simp_all add: parse_lines_append)
qed simp

lemma line_ref_text:
  "line_ref \<lparr>rs_text = text', rs_origin = origin, rs_firstLine = first\<rparr> =
     line_ref \<lparr>rs_text = [], rs_origin = origin, rs_firstLine = first\<rparr>"
  by (simp add: fun_eq_iff line_ref_def split: option.splits)

lemma source_lines_join:
  assumes "\<forall>w\<in>set ls. 10 \<notin> set w"
  shows "parse_lines (source_lines \<lparr>rs_text = join_with [10] ls, rs_origin = origin, rs_firstLine = first\<rparr>) =
    parse_lines (map (\<lambda>(n, raw). (line_ref \<lparr>rs_text = [], rs_origin = origin, rs_firstLine = first\<rparr> n, raw)) (List.enumerate 0 ls))"
proof (cases "ls = []")
  case True
  then have "parse_lines (source_lines \<lparr>rs_text = join_with [10] ls, rs_origin = origin, rs_firstLine = first\<rparr>) = Inr []"
    by (intro blank_source) (simp add: utrim_Nil)
  then show ?thesis using True by (simp add: parse_lines_Nil)
next
  case False
  then show ?thesis
    using split_on_join [OF False assms] by (simp add: source_lines_def line_ref_text [of "join_with [10] ls"])
qed

lemma enumerate_take_drop:
  "List.enumerate 0 xs =
     List.enumerate 0 (take k xs) @ map (\<lambda>(n, x). (k + n, x)) (List.enumerate 0 (drop k xs))"
proof (cases "k \<le> length xs")
  case True
  have "List.enumerate 0 (take k xs @ drop k xs) = List.enumerate 0 (take k xs) @ List.enumerate k (drop k xs)"
    using True by (simp only: enumerate_append_eq) simp
  moreover have "List.enumerate k ys = map (\<lambda>(n, x). (k + n, x)) (List.enumerate 0 ys)" for ys
    by (rule nth_equalityI) (simp_all add: nth_enumerate_eq)
  ultimately show ?thesis by simp
qed simp

text \<open>C24. The rules of an input are those of its lines in order, each known by where it was written:
  splitting the value at the file's offset and leaving out a blank source changes neither.\<close>

theorem ruleSources_lines: "parseExpectedRules (ruleSources value' config) = parse_lines (value_lines value' config)"
proof -
  let ?ls = "split_on 10 value'"
  define k where "k = (case config of None \<Rightarrow> length ?ls | Some c \<Rightarrow> co_offset c)"
  define first where "first = (case config of None \<Rightarrow> None | Some c \<Rightarrow> co_line c)"
  let ?in = "\<lparr>rs_text = [], rs_origin = u ''input'', rs_firstLine = Some 1\<rparr>"
  let ?file = "\<lparr>rs_text = [], rs_origin = u ''config'', rs_firstLine = first\<rparr>"
  have free: "\<forall>w\<in>set (take k ?ls). 10 \<notin> set w" "\<forall>w\<in>set (drop k ?ls). 10 \<notin> set w"
    using split_on_no_sep [of _ 10 value'] by (meson in_set_takeD in_set_dropD)+
  have "parseExpectedRules (ruleSources value' config) =
      parse_lines (map (\<lambda>(n, raw). (line_ref ?in n, raw)) (List.enumerate 0 (take k ?ls)) @
        map (\<lambda>(n, raw). (line_ref ?file n, raw)) (List.enumerate 0 (drop k ?ls)))"
    using source_lines_join [OF free(1), of "u ''input''" "Some 1"] source_lines_join [OF free(2), of "u ''config''" first]
    unfolding parseExpectedRules_lines ruleSources_def parse_filtered
    by (simp add: sources_of_def k_def [symmetric] first_def [symmetric] parse_lines_append Let_def)
  also have "map (\<lambda>(n, raw). (line_ref ?in n, raw)) (List.enumerate 0 (take k ?ls)) @
        map (\<lambda>(n, raw). (line_ref ?file n, raw)) (List.enumerate 0 (drop k ?ls)) = value_lines value' config"
    unfolding value_lines_def enumerate_take_drop [of ?ls k] map_append map_map
    by (auto simp: k_def first_def value_ref_def line_ref_def in_set_enumerate_eq u_def split: option.splits)
  finally show ?thesis .
qed

end
