(* ===== verification/FsLineFile.thy ===== *)
theory FsLineFile
  imports FsPaths
begin

text \<open>
  \<^verbatim>\<open>line-file.ts\<close> and \<^verbatim>\<open>command.ts\<close> under \<^verbatim>\<open>src/lib/filesystem-audit\<close>: files read and written a
  chunk at a time, and how a details row names a command. What a read returns is a list of bytes, empty
  at the end of the file; \<^verbatim>\<open>decode\<close> is \<^verbatim>\<open>Buffer.toString("utf8")\<close>.
\<close>

section \<open>Bytes of a text\<close>

text \<open>UTF-8 as \<^verbatim>\<open>TextEncoder\<close> and \<^verbatim>\<open>Buffer.from\<close> write it, a lone surrogate as the replacement
  character.\<close>

definition utf8_char :: "nat \<Rightarrow> nat list" where
  "utf8_char c =
     (if c < 0x80 then [c]
      else if c < 0x800 then [192 + c div 64, 128 + c mod 64]
      else if 0xD800 \<le> c \<and> c \<le> 0xDFFF then [0xEF, 0xBF, 0xBD]
      else if c < 0x10000 then [224 + c div 4096, 128 + c div 64 mod 64, 128 + c mod 64]
      else [240 + c div 262144, 128 + c div 4096 mod 64, 128 + c div 64 mod 64, 128 + c mod 64])"

definition utf8 :: "ustring \<Rightarrow> nat list" where
  "utf8 s = concat (map utf8_char s)"

section \<open>Reading lines\<close>

text \<open>The lines a chunk ends, and the start of a line it leaves open, joined once one ends it.\<close>

function chunk_loop :: "(nat list \<Rightarrow> 't) \<Rightarrow> nat list list \<Rightarrow> nat list \<Rightarrow> 't list \<times> nat list list" where
  "chunk_loop decode carry chunk =
     (if 10 \<in> set chunk then
        (let line = takeWhile (\<lambda>b. b \<noteq> 10) chunk;
             (lines, carry') = chunk_loop decode [] (tl (dropWhile (\<lambda>b. b \<noteq> 10) chunk)) in
         ((if carry = [] then decode line else decode (concat (carry @ [line]))) # lines, carry'))
      else ([], if chunk \<noteq> [] then carry @ [chunk] else carry))"
  by pat_completeness auto
termination
proof (relation "measure (\<lambda>(decode, carry, chunk). length chunk)", simp, goal_cases)
  case (1 decode carry chunk)
  then have "dropWhile (\<lambda>b. b \<noteq> 10) chunk \<noteq> []" by (auto simp: dropWhile_eq_Nil_conv)
  then show ?case using length_dropWhile_le [of "\<lambda>b. b \<noteq> 10" chunk] by (cases "dropWhile (\<lambda>b. b \<noteq> 10) chunk") auto
qed

declare chunk_loop.simps [simp del]

fun read_chunks :: "(nat list \<Rightarrow> 't) \<Rightarrow> nat list list \<Rightarrow> nat list list \<Rightarrow> 't list" where
  "read_chunks decode carry [] = [decode (concat carry)]"
| "read_chunks decode carry (chunk # chunks) =
     (if chunk = [] then [decode (concat carry)]
      else (let (lines, carry') = chunk_loop decode carry chunk in lines @ read_chunks decode carry' chunks))"

definition readLines :: "(nat list \<Rightarrow> 't) \<Rightarrow> nat list list \<Rightarrow> 't list" where
  "readLines decode reads = read_chunks decode [] reads"

section \<open>Writing lines\<close>

record line_writer =
  lw_file :: "nat list"
  lw_pending :: "ustring list"
  lw_size :: nat
  lw_first :: bool

definition openWriter :: line_writer where
  "openWriter = \<lparr>lw_file = [], lw_pending = [], lw_size = 0, lw_first = True\<rparr>"

text \<open>\<^verbatim>\<open>writeSync\<close> tells how much of the data the system takes, with the file as it stands; the
  loop that writes the rest is \<^const>\<open>None\<close> where it never ends.\<close>

partial_function (option) write_all :: "(nat list \<Rightarrow> nat list \<Rightarrow> nat) \<Rightarrow> nat list \<Rightarrow> nat list \<Rightarrow> nat list option" where
  "write_all writeSync written data =
     (if data = [] then Some written
      else write_all writeSync (written @ take (writeSync written data) data) (drop (writeSync written data) data))"

definition flush_lines :: "(nat list \<Rightarrow> nat list \<Rightarrow> nat) \<Rightarrow> line_writer \<Rightarrow> line_writer option" where
  "flush_lines writeSync w =
     map_option (\<lambda>written. w\<lparr>lw_file := written, lw_pending := [], lw_size := 0\<rparr>)
       (write_all writeSync (lw_file w) (utf8 (concat (lw_pending w))))"

definition utf16_length :: "ustring \<Rightarrow> nat" where
  "utf16_length s = sum_list (map (\<lambda>c. if c < 0x10000 then 1 else 2) s)"

definition write_line :: "(nat list \<Rightarrow> nat list \<Rightarrow> nat) \<Rightarrow> nat \<Rightarrow> ustring \<Rightarrow> line_writer \<Rightarrow> line_writer option" where
  "write_line writeSync chunkBytes line w =
     (let w = w\<lparr>lw_pending := lw_pending w @ [if lw_first w then line else 10 # line], lw_first := False,
           lw_size := lw_size w + utf16_length line + 1\<rparr> in
      if chunkBytes \<le> lw_size w then flush_lines writeSync w else Some w)"

primrec write_lines ::
    "(nat list \<Rightarrow> nat list \<Rightarrow> nat) \<Rightarrow> nat \<Rightarrow> ustring list \<Rightarrow> line_writer \<Rightarrow> line_writer option" where
  "write_lines writeSync chunkBytes [] w = Some w"
| "write_lines writeSync chunkBytes (line # lines) w =
     Option.bind (write_line writeSync chunkBytes line w) (write_lines writeSync chunkBytes lines)"

text \<open>The file once it is closed.\<close>

definition written_file :: "(nat list \<Rightarrow> nat list \<Rightarrow> nat) \<Rightarrow> nat \<Rightarrow> ustring list \<Rightarrow> nat list option" where
  "written_file writeSync chunkBytes lines =
     map_option lw_file (Option.bind (write_lines writeSync chunkBytes lines openWriter) (flush_lines writeSync))"

section \<open>Names of commands\<close>

definition COMM_BYTES :: nat where "COMM_BYTES = 15"

definition bytesOf :: "ustring \<Rightarrow> nat list" where
  "bytesOf s = concat (map (\<lambda>c. if RAW_BYTE_FIRST \<le> c \<and> c \<le> RAW_BYTE_LAST then [c mod 256] else utf8_char c) s)"

definition isCutFrom :: "ustring \<Rightarrow> ustring \<Rightarrow> bool" where
  "isCutFrom comm name \<longleftrightarrow> bytesOf comm = take COMM_BYTES (bytesOf name)"

definition isExecName :: "ustring \<Rightarrow> ustring \<Rightarrow> bool" where
  "isExecName comm name \<longleftrightarrow> isCutFrom comm (leaf name)"

text \<open>A command as text and as its line's field.\<close>

record command =
  cm_text :: ustring
  cm_field :: ustring

definition commandOf :: "ustring option \<Rightarrow> ustring option \<Rightarrow> ustring \<Rightarrow> command" where
  "commandOf program runName comm =
     (let own = escapeCommandName comm in
      case program of
        None \<Rightarrow> \<lparr>cm_text = own, cm_field = field own\<rparr>
      | Some prog \<Rightarrow>
          (let memfd = starts_with MEMFD prog; name = drop (length MEMFD) prog;
               file = (if memfd then MEMFD_PREFIX @ name else unmarked prog);
               base = (if memfd then MEMFD_PREFIX @ [QUOTE] @ escapeCommandName name @ [QUOTE] else escapeCommandName (leaf file));
               baseField = (if memfd then base else field base);
               named = (if memfd then isCutFrom comm file else isExecName comm file) in
           if named \<or> (case runName of None \<Rightarrow> False | Some n \<Rightarrow> isExecName comm n)
           then \<lparr>cm_text = base, cm_field = baseField\<rparr>
           else \<lparr>cm_text = base @ u ''['' @ own @ u '']'', cm_field = baseField @ u ''['' @ own @ u '']''\<rparr>))"

section \<open>The lines are the file's\<close>

lemma split_on_first: "c \<in> set s \<Longrightarrow>
  split_on c s = takeWhile (\<lambda>b. b \<noteq> c) s # split_on c (tl (dropWhile (\<lambda>b. b \<noteq> c) s))"
proof -
  assume "c \<in> set s"
  then have "dropWhile (\<lambda>b. b \<noteq> c) s = c # tl (dropWhile (\<lambda>b. b \<noteq> c) s)"
    using hd_dropWhile [of "\<lambda>b. b \<noteq> c" s] by (cases "dropWhile (\<lambda>b. b \<noteq> c) s") (auto simp: dropWhile_eq_Nil_conv)
  then have "s = takeWhile (\<lambda>b. b \<noteq> c) s @ c # tl (dropWhile (\<lambda>b. b \<noteq> c) s)"
    using takeWhile_dropWhile_id [of "\<lambda>b. b \<noteq> c" s] by metis
  moreover have "c \<notin> set (takeWhile (\<lambda>b. b \<noteq> c) s)" by (auto dest: set_takeWhileD)
  ultimately show ?thesis using split_on_append_sep by metis
qed

lemma split_on_prepend:
  "c \<notin> set w \<Longrightarrow> split_on c (w @ s) = (w @ hd (split_on c s)) # tl (split_on c s)"
proof (induction w)
  case Nil
  then show ?case by (cases "split_on c s") simp_all
next
  case (Cons x w)
  then show ?case by (cases "split_on c s") auto
qed

lemma chunk_loop_lines:
  assumes "chunk_loop decode carry chunk = (lines, carry')" and "10 \<notin> set (concat carry)"
  shows "map decode (split_on 10 (concat carry @ chunk @ s)) = lines @ map decode (split_on 10 (concat carry' @ s)) \<and>
    10 \<notin> set (concat carry')"
  using assms
proof (induction decode carry chunk arbitrary: lines carry' rule: chunk_loop.induct)
  case (1 decode carry chunk)
  let ?line = "takeWhile (\<lambda>b. b \<noteq> 10) chunk" and ?rest = "tl (dropWhile (\<lambda>b. b \<noteq> 10) chunk)"
  show ?case
  proof (cases "10 \<in> set chunk")
    case True
    obtain ls c where l: "chunk_loop decode [] ?rest = (ls, c)" by fastforce
    have out: "lines = decode (concat carry @ ?line) # ls" "carry' = c"
      using "1.prems"(1) True l by (auto simp: chunk_loop.simps [of decode carry chunk] Let_def)
    have "split_on 10 (chunk @ s) = ?line # split_on 10 (?rest @ s)"
      using split_on_first [of 10 "chunk @ s"] True by (simp add: takeWhile_append1 dropWhile_append1 split: if_splits)
    then have "split_on 10 (concat carry @ chunk @ s) = (concat carry @ ?line) # split_on 10 (?rest @ s)"
      using split_on_prepend [OF "1.prems"(2), of "chunk @ s"] by simp
    then show ?thesis using "1.IH" [OF True refl l] out by simp
  next
    case False
    then show ?thesis using "1.prems" by (auto simp: chunk_loop.simps [of decode carry chunk] split: if_splits)
  qed
qed

lemma read_chunks_lines:
  "10 \<notin> set (concat carry) \<Longrightarrow>
   read_chunks decode carry reads = map decode (split_on 10 (concat carry @ concat (takeWhile (\<lambda>c. c \<noteq> []) reads)))"
proof (induction decode carry reads rule: read_chunks.induct)
  case (2 decode carry chunk chunks)
  show ?case
  proof (cases "chunk = []")
    case False
    obtain ls c where l: "chunk_loop decode carry chunk = (ls, c)" by fastforce
    show ?thesis
      using chunk_loop_lines [OF l "2.prems"] "2.IH" [OF False l [symmetric] refl] False by (simp add: l)
  qed (use 2 in simp)
qed simp

lemma readLines_split_lines:
  "readLines decode reads = map decode (split_on 10 (concat (takeWhile (\<lambda>c. c \<noteq> []) reads)))"
  using read_chunks_lines [of "[]" decode reads] by (simp add: readLines_def)

text \<open>However the file is cut into chunks, the lines are what splitting all of it at its newlines
  gives, a line that spans chunks included.\<close>

theorem readLines_split:
  "readLines decode reads = map decode (split_on 10 (concat (takeWhile (\<lambda>c. c \<noteq> []) reads)))"
  by (rule readLines_split_lines)

lemma utf8_newline: "10 \<in> set (utf8 s) \<longleftrightarrow> 10 \<in> set s"
proof -
  have "10 \<in> set (utf8_char c) \<longleftrightarrow> c = 10" for c by (auto simp: utf8_char_def)
  then show ?thesis by (auto simp: utf8_def)
qed

lemma utf8_append: "utf8 (xs @ ys) = utf8 xs @ utf8 ys"
  by (simp add: utf8_def)

lemma utf8_join: "utf8 (join_with [10] lines) = join_with [10] (map utf8 lines)"
  by (induction lines rule: induct_list012) (simp_all add: utf8_def utf8_char_def)

text \<open>What a writer holds: the lines so far.\<close>

definition holds_text :: "ustring list \<Rightarrow> line_writer \<Rightarrow> bool" where
  "holds_text lines w \<longleftrightarrow>
     lw_file w @ utf8 (concat (lw_pending w)) = utf8 (join_with [10] lines) \<and> lw_first w = (lines = [])"

lemma join_with_snoc: "lines \<noteq> [] \<Longrightarrow> join_with sep (lines @ [l]) = join_with sep lines @ sep @ l"
  by (induction sep lines rule: join_with.induct) simp_all

text \<open>The system takes at least a byte of what it is given.\<close>

definition takes_some :: "(nat list \<Rightarrow> nat list \<Rightarrow> nat) \<Rightarrow> bool" where
  "takes_some writeSync \<longleftrightarrow> (\<forall>written data. data \<noteq> [] \<longrightarrow> 0 < writeSync written data)"

lemma write_all_writes: "takes_some writeSync \<Longrightarrow> write_all writeSync written data = Some (written @ data)"
proof (induction data arbitrary: written rule: length_induct)
  case (1 data)
  show ?case
  proof (cases "data = []")
    case False
    let ?n = "writeSync written data"
    have "length (drop ?n data) < length data" using 1(2) False by (simp add: takes_some_def)
    then have "write_all writeSync (written @ take ?n data) (drop ?n data) = Some (written @ data)"
      using 1 by simp
    then show ?thesis using False by (subst write_all.simps) simp
  qed (simp add: write_all.simps)
qed

lemma flush_holds:
  "takes_some writeSync \<Longrightarrow> holds_text lines w \<Longrightarrow>
   \<exists>w'. flush_lines writeSync w = Some w' \<and> holds_text lines w' \<and> lw_pending w' = []"
  by (simp add: flush_lines_def write_all_writes holds_text_def utf8_def)

lemma write_line_holds:
  assumes "takes_some writeSync" "holds_text lines w"
  shows "\<exists>w'. write_line writeSync n line w = Some w' \<and> holds_text (lines @ [line]) w'"
proof -
  let ?w = "w\<lparr>lw_pending := lw_pending w @ [if lw_first w then line else 10 # line], lw_first := False,
      lw_size := lw_size w + utf16_length line + 1\<rparr>"
  have "holds_text (lines @ [line]) ?w"
    using assms(2) by (cases "lines = []") (auto simp: holds_text_def utf8_append join_with_snoc utf8_def)
  then show ?thesis using flush_holds [OF assms(1)] unfolding write_line_def Let_def by (metis (no_types, lifting))
qed

lemma write_lines_hold:
  "takes_some writeSync \<Longrightarrow> holds_text before w \<Longrightarrow>
   \<exists>w'. write_lines writeSync n lines w = Some w' \<and> holds_text (before @ lines) w'"
proof (induction lines arbitrary: before w)
  case (Cons line lines)
  obtain w' where "write_line writeSync n line w = Some w'" "holds_text (before @ [line]) w'"
    using write_line_holds [OF Cons.prems] by blast
  then show ?case using Cons.IH [OF Cons.prems(1), of "before @ [line]" w'] by simp
qed simp

lemma written_file_join:
  assumes "takes_some writeSync" shows "written_file writeSync n lines = Some (utf8 (join_with [10] lines))"
proof -
  have "holds_text [] openWriter" by (simp add: holds_text_def openWriter_def utf8_def)
  then obtain w where w: "write_lines writeSync n lines openWriter = Some w" "holds_text lines w"
    using write_lines_hold [OF assms] by fastforce
  from flush_holds [OF assms this(2)] obtain w' where
    "flush_lines writeSync w = Some w'" "holds_text lines w'" "lw_pending w' = []" by blast
  then show ?thesis using w(1) by (simp add: written_file_def holds_text_def utf8_def)
qed

text \<open>C25. What \<^verbatim>\<open>openWriter\<close> writes, \<^verbatim>\<open>readLines\<close> reads back, whatever the sizes of the chunks on either
  side and however little of the data each write takes, as long as it takes some, no line holds a
  newline and each is text that UTF-8 can spell.\<close>

theorem written_lines_read:
  assumes "lines \<noteq> []" and "\<forall>l\<in>set lines. 10 \<notin> set l \<and> decode (utf8 l) = l"
    and "\<forall>written data. data \<noteq> [] \<longrightarrow> 0 < writeSync written data"
  shows "\<exists>bytes. written_file writeSync n lines = Some bytes \<and>
    (\<forall>reads. concat reads = bytes \<and> [] \<notin> set reads \<longrightarrow> readLines decode reads = lines)"
proof -
  have split: "split_on 10 (join_with [10] (map utf8 lines)) = map utf8 lines"
    using assms(1,2) by (intro split_on_join) (auto simp: utf8_newline)
  have "readLines decode reads = lines" if "concat reads = utf8 (join_with [10] lines)" "[] \<notin> set reads" for reads
  proof -
    have tw: "takeWhile (\<lambda>c. c \<noteq> []) reads = reads" using that(2) by (auto simp: takeWhile_eq_all_conv)
    show ?thesis
      using assms(2) split unfolding readLines_split_lines tw that(1) utf8_join by (simp add: map_idI)
  qed
  then show ?thesis using written_file_join [of writeSync n lines] assms(3) by (simp add: takes_some_def)
qed

theorem written_lines_read_witness:
  "readLines (map (\<lambda>b. b)) [[97], [98, 10], [99]] = [u ''ab'', u ''c'']"
proof -
  obtain bytes where b: "written_file (\<lambda>_ _. 1) 2 [u ''ab'', u ''c''] = Some bytes"
    "\<And>reads. concat reads = bytes \<and> [] \<notin> set reads \<longrightarrow> readLines (map (\<lambda>b. b)) reads = [u ''ab'', u ''c'']"
    using written_lines_read [where lines = "[u ''ab'', u ''c'']" and writeSync = "\<lambda>_ _. 1" and n = 2 and decode = "map (\<lambda>b. b)"]
    by (auto simp: u_def utf8_def utf8_char_def)
  have "takes_some (\<lambda>_ _. 1)" by (simp add: takes_some_def)
  then have "bytes = [97, 98, 10, 99]"
    using b(1) written_file_join by (auto simp: u_def utf8_def utf8_char_def)
  then show ?thesis using b(2) [of "[[97], [98, 10], [99]]"] by simp
qed

end
