(* ===== verification/FsFold.thy ===== *)
theory FsFold
  imports FsRecord
begin

text \<open>
  \<^verbatim>\<open>src/lib/filesystem-audit/fold-tree.ts\<close>: the lines of one table as the accesses arrive, kept as
  a tree of path components whose directories fold into one line as they grow, until the table
  is finished and its lines are written out. The class is the state \<^verbatim>\<open>lines\<close> below. The code
  walks its trees with stacks, as a path can be deep; here the walks are recursive. Its flag
  \<^verbatim>\<open>loosening\<close> is left out: \<^verbatim>\<open>loose\<close> is set before it, and \<^verbatim>\<open>count\<close> asks for neither.
\<close>

section \<open>Nodes\<close>

text \<open>A node: its children, absent being none, its own accesses, what it folded, whether it is never
  folded, and its size in the estimate.\<close>

datatype fnode = FNode (nd_kids: "(ustring \<times> fnode) list") (nd_own: "agg option") (nd_folded: "agg option")
  (nd_kept: bool) (nd_bytes: int)

type_synonym kids = "(ustring \<times> fnode) list"

definition LOOSE_FANOUT :: nat where "LOOSE_FANOUT = 5"

definition starred :: "ustring \<Rightarrow> ustring" where
  "starred path = (if path = [SLASH] then u ''/**'' else path @ u ''/**'')"

definition has_kid :: "kids \<Rightarrow> ustring \<Rightarrow> bool" where
  "has_kid kids name \<longleftrightarrow> map_of kids name \<noteq> None"

definition twin :: "kids \<Rightarrow> ustring \<Rightarrow> bool" where
  "twin kids name \<longleftrightarrow> unmarked name \<noteq> name \<and> has_kid kids (unmarked name)"

definition another :: "kids \<Rightarrow> ustring \<Rightarrow> bool" where
  "another kids name \<longleftrightarrow> \<not> twin kids name \<and> \<not> has_kid kids (name @ DELETED)"

definition childCount :: "kids \<Rightarrow> nat" where
  "childCount kids = length (filter (\<lambda>(name, _). \<not> twin kids name) kids)"

definition looseKids :: "kids \<Rightarrow> nat" where
  "looseKids kids = length (filter (\<lambda>(name, kid). \<not> nd_kept kid \<and> \<not> twin kids name) kids)"

definition climbGroup :: "ustring \<Rightarrow> ustring list \<Rightarrow> ustring" where
  "climbGroup path parts =
     (if starts_with MEMFD path then MEMFDS
      else if isRunnerFile path then path
      else starred (spell (take (case index_of (u ''..'') parts of None \<Rightarrow> 0 | Some i \<Rightarrow> Suc i) parts)))"

definition ran :: "agg \<Rightarrow> bool" where
  "ran a \<longleftrightarrow> (ag_ok a OR ag_failed a) AND BIT CHR ''X'' \<noteq> 0"

datatype cut_cause = Size | Paths

definition keyOf :: "ustring \<Rightarrow> ustring \<Rightarrow> ustring" where
  "keyOf comm path = comm @ [0] @ path"

definition commOf :: "ustring \<Rightarrow> ustring" where
  "commOf key = takeWhile (\<lambda>c. c \<noteq> 0) key"

definition pathOf :: "ustring \<Rightarrow> ustring" where
  "pathOf key = tl (dropWhile (\<lambda>c. c \<noteq> 0) key)"

text \<open>The nodes of a subtree as \<^verbatim>\<open>forEachInSubtree\<close> visits them, the last child first, by what each
  does to an aggregate that takes its accesses in.\<close>

definition merge_some :: "agg option \<Rightarrow> agg \<Rightarrow> agg" where
  "merge_some a acc = (case a of None \<Rightarrow> acc | Some b \<Rightarrow> mergeAgg acc b)"

fun merge_subtree :: "fnode \<Rightarrow> agg \<Rightarrow> agg" where
  "merge_subtree (FNode kids own folded kept bytes) acc =
     foldr (\<lambda>(_, kid). merge_subtree kid) kids (merge_some folded (merge_some own acc))"

definition treeAgg :: "fnode \<Rightarrow> agg" where
  "treeAgg node = merge_subtree node newAgg"

fun subtree_bytes :: "fnode \<Rightarrow> int" where
  "subtree_bytes (FNode kids own folded kept bytes) = bytes + sum_list (map (\<lambda>(_, kid). subtree_bytes kid) kids)"

fun subtree_nodes :: "fnode \<Rightarrow> int" where
  "subtree_nodes (FNode kids own folded kept bytes) = 1 + sum_list (map (\<lambda>(_, kid). subtree_nodes kid) kids)"

section \<open>Walked directories\<close>

text \<open>The flags of the lines below a node, and whether its own line only walks to them.\<close>

definition own_bits :: "agg option \<Rightarrow> actions" where
  "own_bits a = (case a of None \<Rightarrow> 0 | Some b \<Rightarrow> flagBits b)"

fun below_bits :: "fnode \<Rightarrow> actions" where
  "below_bits (FNode kids own folded kept bytes) =
     foldl (\<lambda>b (_, kid). b OR below_bits kid OR own_bits (nd_own kid) OR own_bits (nd_folded kid))
       (own_bits folded) kids"

definition walked :: "fnode \<Rightarrow> bool" where
  "walked node \<longleftrightarrow>
     (case nd_own node of
        None \<Rightarrow> False
      | Some own \<Rightarrow>
          ag_perm own = 0 \<and> (nd_kids node \<noteq> [] \<or> nd_folded node \<noteq> None) \<and>
          flagBits own AND NOT (below_bits node) = 0)"

text \<open>The lines of a node that print, with their paths, in the order they were added.\<close>

definition folded_lines :: "ustring list \<Rightarrow> agg option \<Rightarrow> (ustring \<times> agg) list" where
  "folded_lines pre folded =
     (case folded of None \<Rightarrow> [] | Some a \<Rightarrow> if flagBits a \<noteq> 0 then [(starred (spell pre), a)] else [])"

definition own_lines :: "ustring list \<Rightarrow> agg option \<Rightarrow> (ustring \<times> agg) list" where
  "own_lines pre own =
     (case own of None \<Rightarrow> [] | Some a \<Rightarrow> if flagBits a \<noteq> 0 then [(spell pre, a)] else [])"

fun tree_lines :: "nat \<Rightarrow> bool \<Rightarrow> ustring list \<Rightarrow> fnode \<Rightarrow> (ustring \<times> agg) list" where
  "tree_lines fanout showWalked pre (FNode kids own folded kept bytes) =
     (let node = FNode kids own folded kept bytes; shown = own_lines pre own;
          ownLine = (if walked node then [] else shown) in
      folded_lines pre folded @
      (if kids \<noteq> [] \<and> \<not> kept \<and> fanout \<le> childCount kids + length ownLine
       then [(starred (spell pre), treeAgg node)]
       else (if showWalked then shown else ownLine) @
         concat (map (\<lambda>(part, kid). tree_lines fanout showWalked (pre @ [part]) kid) kids)))"

definition treeLines :: "nat \<Rightarrow> bool \<Rightarrow> kids \<Rightarrow> (ustring \<times> agg) list" where
  "treeLines fanout showWalked roots =
     concat (map (\<lambda>(part, node). tree_lines fanout showWalked [part] node) roots)"

section \<open>The table\<close>

record lines_options =
  lo_fanout :: nat
  lo_keep :: "ustring list list"
  lo_limit :: int
  lo_loose :: "int option"
  lo_nodes :: int
  lo_rowBytes :: "ustring \<Rightarrow> ustring \<Rightarrow> agg option \<Rightarrow> int"
  lo_showWalked :: bool

record lines =
  ln_trees :: "(ustring \<times> kids) list"
  ln_climbing :: "(ustring \<times> agg) list"
  ln_bytes :: int
  ln_nodes :: int
  ln_loose :: bool
  ln_members :: "(ustring \<times> ustring list) list"
  ln_dropped :: bool
  ln_truncated :: bool
  ln_stopped :: "cut_cause option"

definition newLines :: lines where
  "newLines =
     \<lparr>ln_trees = [], ln_climbing = [], ln_bytes = 0, ln_nodes = 0, ln_loose = False, ln_members = [],
      ln_dropped = False, ln_truncated = False, ln_stopped = None\<rparr>"

definition full_bytes :: "lines_options \<Rightarrow> int \<Rightarrow> bool" where
  "full_bytes o' bytes \<longleftrightarrow> lo_limit o' < bytes"

definition lines_full :: "lines_options \<Rightarrow> lines \<Rightarrow> bool" where
  "lines_full o' s \<longleftrightarrow> full_bytes o' (ln_bytes s)"

definition lines_cut :: "lines \<Rightarrow> cut_cause option" where
  "lines_cut s = (case ln_stopped s of Some c \<Rightarrow> Some c | None \<Rightarrow> if ln_truncated s then Some Size else None)"

definition isKept :: "lines_options \<Rightarrow> ustring list \<Rightarrow> bool" where
  "isKept o' parts \<longleftrightarrow> list_ex (\<lambda>k. starts_with parts k) (lo_keep o')"

definition stop_lines :: "cut_cause \<Rightarrow> lines \<Rightarrow> lines" where
  "stop_lines cause s = s\<lparr>ln_stopped := Some cause, ln_trees := [], ln_climbing := []\<rparr>"

subsection \<open>Folding\<close>

text \<open>A node folded: its own accesses and everything below it.\<close>

definition fold_node :: "fnode \<Rightarrow> fnode" where
  "fold_node node = FNode [] None (Some (treeAgg node)) (nd_kept node) 0"

text \<open>A kept directory's children but the kept ones folded.\<close>

definition foldLoose :: "lines_options \<Rightarrow> ustring list \<Rightarrow> ustring \<Rightarrow> fnode \<Rightarrow> fnode" where
  "foldLoose o' parts comm node =
     FNode (filter (\<lambda>(_, kid). nd_kept kid) (nd_kids node)) (nd_own node)
       (Some (fold (\<lambda>(_, kid). merge_subtree kid) (filter (\<lambda>(_, kid). \<not> nd_kept kid) (nd_kids node)) newAgg))
       (nd_kept node)
       (lo_rowBytes o' (starred (spell parts)) comm None +
         (if lo_showWalked o' \<and> own_bits (nd_own node) \<noteq> 0 then lo_rowBytes o' (spell parts) comm None else 0))"

definition addFolded :: "lines_options \<Rightarrow> ustring list \<Rightarrow> access \<Rightarrow> bool \<Rightarrow> fnode \<Rightarrow> fnode" where
  "addFolded o' parts x settled node =
     (let a = apply_access (case nd_folded node of None \<Rightarrow> newAgg | Some f \<Rightarrow> f) x in
      FNode (nd_kids node) (nd_own node) (Some a) (nd_kept node)
        (if settled \<and> flagBits a \<noteq> 0 \<and> nd_bytes node = 0 then lo_rowBytes o' (starred (spell parts)) (ac_comm x) None
         else nd_bytes node))"

text \<open>The path's own line takes an access.\<close>

definition add_own :: "lines_options \<Rightarrow> access \<Rightarrow> bool \<Rightarrow> fnode \<Rightarrow> fnode" where
  "add_own o' x settled node =
     (let own = (case nd_own node of None \<Rightarrow> newAgg | Some a \<Rightarrow> a); own' = apply_access own x in
      FNode (nd_kids node) (Some own') (nd_folded node) (nd_kept node)
        (if settled \<and> flagBits own = 0 \<and> flagBits own' \<noteq> 0 \<and> (nd_kids node = [] \<or> lo_showWalked o')
         then nd_bytes node + lo_rowBytes o' (ac_path x) (ac_comm x) None else nd_bytes node))"

text \<open>Whether taking a new child makes its parent fold, which shrinks the table.\<close>

definition foldsInto :: "lines_options \<Rightarrow> bool \<Rightarrow> ustring list \<Rightarrow> fnode \<Rightarrow> ustring \<Rightarrow> bool" where
  "foldsInto o' loose pre parent part \<longleftrightarrow>
     (let added = (if another (nd_kids parent) part then 1 else 0) in
      if \<not> nd_kept parent then lo_fanout o' \<le> childCount (nd_kids parent) + added
      else loose \<and> \<not> isKept o' (pre @ [part]) \<and> LOOSE_FANOUT \<le> looseKids (nd_kids parent) + added)"

definition new_node :: "lines_options \<Rightarrow> ustring list \<Rightarrow> fnode" where
  "new_node o' pre = FNode [] None None (isKept o' pre) 0"

definition set_kid :: "ustring \<Rightarrow> fnode \<Rightarrow> fnode \<Rightarrow> fnode" where
  "set_kid part kid node =
     FNode (omap_update part (\<lambda>_. kid) (nd_kids node)) (nd_own node) (nd_folded node) (nd_kept node) (nd_bytes node)"

text \<open>No longer a leaf, a node's own line may be only the walk to the new child.\<close>

definition new_kid :: "lines_options \<Rightarrow> ustring list \<Rightarrow> ustring \<Rightarrow> fnode \<Rightarrow> fnode" where
  "new_kid o' pre part node =
     (let n = set_kid part (new_node o' (pre @ [part])) node in
      if nd_folded node = None \<and> \<not> lo_showWalked o' then FNode (nd_kids n) (nd_own n) (nd_folded n) (nd_kept n) 0 else n)"

text \<open>Whether a folded node takes an access of the rest of a path; a kept one still leads to the kept
  ones below it.\<close>

definition takes_rest :: "lines_options \<Rightarrow> ustring list \<Rightarrow> fnode \<Rightarrow> ustring list \<Rightarrow> bool" where
  "takes_rest o' pre node rest \<longleftrightarrow>
     nd_folded node \<noteq> None \<and>
     \<not> (nd_kept node \<and>
        (case rest of [] \<Rightarrow> True | part # _ \<Rightarrow> has_kid (nd_kids node) part \<or> isKept o' (pre @ [part])))"

subsection \<open>The walk down to a node\<close>

text \<open>A walk from a root. A table that is full only takes a child that makes its parent fold, which
  ends the walk, and on the way down the estimate only falls, so whether it is full is asked of the
  table as the walk starts. A walk stops the table, turns its line away, or changes the node and the count of nodes.\<close>

datatype walk = Stop | Turned_away | Walked fnode int

fun visit :: "lines_options \<Rightarrow> bool \<Rightarrow> bool \<Rightarrow> access \<Rightarrow> ustring list \<Rightarrow> ustring list \<Rightarrow> bool \<Rightarrow> fnode \<Rightarrow> int \<Rightarrow> walk" where
  "visit o' loose full x pre [] settled node nodes =
     (if takes_rest o' pre node [] then Walked (addFolded o' pre x settled node) nodes
      else Walked (add_own o' x settled node) nodes)"
| "visit o' loose full x pre (part # rest) settled node nodes =
     (if takes_rest o' pre node (part # rest) then Walked (addFolded o' pre x settled node) nodes
      else
        (case map_of (nd_kids node) part of
           Some kid \<Rightarrow>
             (case visit o' loose full x (pre @ [part]) rest (settled \<and> nd_kept node) kid nodes of
                Walked kid' nodes' \<Rightarrow> Walked (set_kid part kid' node) nodes'
              | w \<Rightarrow> w)
         | None \<Rightarrow>
             if full \<and> \<not> foldsInto o' loose pre node part then Turned_away
             else
               (let n = new_kid o' pre part node; kid = new_node o' (pre @ [part]) in
                if \<not> nd_kept node \<and> lo_fanout o' \<le> childCount (nd_kids n)
                then Walked (addFolded o' pre x settled (fold_node n)) (nodes + 1 - (subtree_nodes n - 1))
                else if nd_kept node \<and> \<not> nd_kept kid \<and> loose \<and> LOOSE_FANOUT \<le> looseKids (nd_kids n)
                then
                  (let n' = foldLoose o' pre (ac_comm x) n in
                   Walked (addFolded o' pre x settled n') (nodes + 1 - (subtree_nodes n - subtree_nodes n')))
                else if lo_nodes o' < nodes + 1 then Stop
                else
                  (case visit o' loose full x (pre @ [part]) rest (settled \<and> nd_kept node) kid (nodes + 1) of
                     Walked kid' nodes' \<Rightarrow> Walked (set_kid part kid' n) nodes'
                   | w \<Rightarrow> w))))"

text \<open>What the estimate asks for once it has changed: a table that has outgrown \<^verbatim>\<open>loose\<close> is loosened.\<close>

lemma kid_size: "(part, kid) \<in> set kids \<Longrightarrow> size kid < Suc (size_list (size_prod (\<lambda>x. 0) size) kids)"
  by (induction kids) auto

definition loose_fold :: "lines_options \<Rightarrow> ustring \<Rightarrow> ustring list \<Rightarrow> fnode \<Rightarrow> fnode" where
  "loose_fold o' comm pre node =
     (if nd_kept node \<and> LOOSE_FANOUT \<le> looseKids (nd_kids node) then foldLoose o' pre comm node else node)"

lemma loose_fold_size: "(part, kid) \<in> set (nd_kids (loose_fold o' comm pre node)) \<Longrightarrow> size kid < size node"
  by (cases node) (auto simp: loose_fold_def foldLoose_def dest: kid_size split: if_splits)

function loosen_node :: "lines_options \<Rightarrow> ustring \<Rightarrow> ustring list \<Rightarrow> fnode \<Rightarrow> fnode" where
  "loosen_node o' comm pre node =
     (if \<not> nd_kept node then node
      else FNode (map (\<lambda>(part, kid). (part, loosen_node o' comm (pre @ [part]) kid)) (nd_kids (loose_fold o' comm pre node)))
        (nd_own node) (nd_folded (loose_fold o' comm pre node)) True (nd_bytes (loose_fold o' comm pre node)))"
  by pat_completeness auto
termination
  by (relation "measure (\<lambda>(o', comm, pre, node). size node)") (auto dest: loose_fold_size)

declare loosen_node.simps [simp del]

definition loosen_trees :: "lines_options \<Rightarrow> (ustring \<times> kids) list \<Rightarrow> (ustring \<times> kids) list" where
  "loosen_trees o' trees =
     map (\<lambda>(comm, roots). (comm, map (\<lambda>(part, node). (part, loosen_node o' comm [part] node)) roots)) trees"

definition total :: "(fnode \<Rightarrow> int) \<Rightarrow> (ustring \<times> kids) list \<Rightarrow> int" where
  "total f trees = sum_list (map (\<lambda>(_, roots). sum_list (map (\<lambda>(_, node). f node) roots)) trees)"

text \<open>The lines of a climbing group folded into its one line.\<close>

definition gather :: "lines_options \<Rightarrow> ustring \<Rightarrow> ustring list \<Rightarrow> lines \<Rightarrow> lines" where
  "gather o' grp keys s =
     (let comm = commOf grp; had = map_of (ln_climbing s) grp;
          agg = fold (\<lambda>key. merge_some (map_of (ln_climbing s) key)) keys (case had of None \<Rightarrow> newAgg | Some a \<Rightarrow> a);
          s1 = s\<lparr>ln_climbing := filter (\<lambda>(key, _). key \<notin> set keys) (ln_climbing s),
               ln_nodes := ln_nodes s - int (length keys),
               ln_bytes := ln_bytes s - sum_list (map (\<lambda>key. lo_rowBytes o' (pathOf key) comm None) keys),
               ln_members := filter (\<lambda>(g, _). g \<noteq> grp) (ln_members s)\<rparr>;
          s2 = s1\<lparr>ln_climbing := omap_update grp (\<lambda>_. agg) (ln_climbing s1)\<rparr> in
      case had of
        Some _ \<Rightarrow> s2
      | None \<Rightarrow> s2\<lparr>ln_nodes := ln_nodes s2 + 1, ln_bytes := ln_bytes s2 + lo_rowBytes o' (pathOf grp) comm None\<rparr>)"

definition climbing_group :: "ustring \<times> agg \<Rightarrow> ustring option" where
  "climbing_group ka =
     (let (key, a) = ka; grp = keyOf (commOf key) (climbGroup (pathOf key) (components (pathOf key))) in
      if ran a \<or> grp = key then None else Some grp)"

definition climbing_groups :: "(ustring \<times> agg) list \<Rightarrow> (ustring \<times> ustring list) list" where
  "climbing_groups climbing =
     fold (\<lambda>ka groups. case climbing_group ka of
         None \<Rightarrow> groups
       | Some g \<Rightarrow> omap_update g (\<lambda>had. (case had of None \<Rightarrow> [] | Some keys \<Rightarrow> keys) @ [fst ka]) groups)
       climbing []"

definition loosen_group :: "lines_options \<Rightarrow> ustring \<times> ustring list \<Rightarrow> lines \<Rightarrow> lines" where
  "loosen_group o' gk s =
     (if LOOSE_FANOUT \<le> length (snd gk) then gather o' (fst gk) (snd gk) s
      else s\<lparr>ln_members := omap_update (fst gk) (\<lambda>_. snd gk) (ln_members s)\<rparr>)"

definition loosen :: "lines_options \<Rightarrow> lines \<Rightarrow> lines" where
  "loosen o' s =
     (let trees = loosen_trees o' (ln_trees s);
          s1 = s\<lparr>ln_loose := True, ln_trees := trees,
               ln_bytes := ln_bytes s + total subtree_bytes trees - total subtree_bytes (ln_trees s),
               ln_nodes := ln_nodes s + total subtree_nodes trees - total subtree_nodes (ln_trees s)\<rparr> in
      fold (loosen_group o') (climbing_groups (ln_climbing s1)) s1)"

definition past_loose :: "lines_options \<Rightarrow> int \<Rightarrow> bool" where
  "past_loose o' bytes \<longleftrightarrow> (case lo_loose o' of None \<Rightarrow> False | Some l \<Rightarrow> l < bytes)"

definition count_bytes :: "lines_options \<Rightarrow> int \<Rightarrow> lines \<Rightarrow> lines" where
  "count_bytes o' bytes s =
     (let s = s\<lparr>ln_bytes := ln_bytes s + bytes\<rparr> in
      if \<not> ln_loose s \<and> past_loose o' (ln_bytes s) then loosen o' s else s)"

subsection \<open>An access added\<close>

text \<open>A line of its own that takes an access, once the table is loose: the line its group has folded
  into, after folding it where the new line would make one too many.\<close>

definition climb_into :: "lines_options \<Rightarrow> access \<Rightarrow> ustring list \<Rightarrow> ustring \<Rightarrow> lines \<Rightarrow> ustring \<times> lines" where
  "climb_into o' x parts key s =
     (let folded = keyOf (ac_comm x) (climbGroup (ac_path x) parts) in
      if map_of (ln_climbing s) folded \<noteq> None then (folded, s)
      else if folded = key then (key, s)
      else
        (let keys = filter (\<lambda>k. \<not> (case map_of (ln_climbing s) k of None \<Rightarrow> False | Some a \<Rightarrow> ran a))
               (case map_of (ln_members s) folded of None \<Rightarrow> [] | Some ks \<Rightarrow> ks) in
         if LOOSE_FANOUT \<le> length keys + 1 then (folded, gather o' folded keys s)
         else if \<not> lines_full o' s then (key, s\<lparr>ln_members := omap_update folded (\<lambda>_. keys @ [key]) (ln_members s)\<rparr>)
         else (key, s)))"

definition add_climbing :: "lines_options \<Rightarrow> access \<Rightarrow> ustring list \<Rightarrow> lines \<Rightarrow> lines" where
  "add_climbing o' x parts s =
     (let key0 = keyOf (ac_comm x) (ac_path x);
          (key, s) = (if map_of (ln_climbing s) key0 = None \<and> ln_loose s \<and> ac_bit x \<noteq> BIT CHR ''X''
            then climb_into o' x parts key0 s else (key0, s)) in
      case map_of (ln_climbing s) key of
        Some a \<Rightarrow> s\<lparr>ln_climbing := omap_update key (\<lambda>_. apply_access a x) (ln_climbing s)\<rparr>
      | None \<Rightarrow>
          if lines_full o' s then s\<lparr>ln_dropped := True\<rparr>
          else
            (let s1 = s\<lparr>ln_climbing := ln_climbing s @ [(key, apply_access newAgg x)]\<rparr>;
                 s2 = count_bytes o' (lo_rowBytes o' (pathOf key) (ac_comm x) None) s1;
                 s3 = s2\<lparr>ln_nodes := ln_nodes s2 + 1\<rparr> in
             if lo_nodes o' < ln_nodes s3 then stop_lines Paths s3 else s3))"

text \<open>A folded path, walked down from its root, whose difference in size is counted once the tree
  holds it: on the way down the estimate only falls, which loosens no table.\<close>

definition walk_root :: "lines_options \<Rightarrow> access \<Rightarrow> ustring \<Rightarrow> ustring list \<Rightarrow> kids \<Rightarrow> lines \<Rightarrow> walk" where
  "walk_root o' x part rest roots s =
     (case map_of roots part of
        Some node \<Rightarrow> visit o' (ln_loose s) (lines_full o' s) x [part] rest True node (ln_nodes s)
      | None \<Rightarrow>
          if lines_full o' s then Turned_away
          else if lo_nodes o' < ln_nodes s + 1 then Stop
          else visit o' (ln_loose s) (lines_full o' s) x [part] rest True (new_node o' [part]) (ln_nodes s + 1))"

definition add_tree :: "lines_options \<Rightarrow> access \<Rightarrow> ustring list \<Rightarrow> lines \<Rightarrow> lines" where
  "add_tree o' x parts s =
     (let roots = (case map_of (ln_trees s) (ac_comm x) of None \<Rightarrow> [] | Some r \<Rightarrow> r);
          s = s\<lparr>ln_trees := omap_update (ac_comm x) (\<lambda>_. roots) (ln_trees s)\<rparr> in
      case parts of
        [] \<Rightarrow> s
      | part # rest \<Rightarrow>
          (case walk_root o' x part rest roots s of
             Stop \<Rightarrow> stop_lines Paths s
           | Turned_away \<Rightarrow> s\<lparr>ln_dropped := True\<rparr>
           | Walked node nodes \<Rightarrow>
               count_bytes o'
                 (subtree_bytes node - (case map_of roots part of None \<Rightarrow> 0 | Some old \<Rightarrow> subtree_bytes old))
                 (s\<lparr>ln_trees := omap_update (ac_comm x) (\<lambda>_. omap_update part (\<lambda>_. node) roots) (ln_trees s),
                    ln_nodes := nodes\<rparr>)))"

definition lines_add :: "lines_options \<Rightarrow> access \<Rightarrow> ustring list \<Rightarrow> lines \<Rightarrow> lines" where
  "lines_add o' x parts s =
     (if ln_stopped s \<noteq> None \<or> ac_bit x = 0 then s
      else if unfoldable parts (ac_path x) \<or> ac_bit x = BIT CHR ''X'' then add_climbing o' x parts s
      else add_tree o' x parts s)"

subsection \<open>The lines of a table\<close>

type_synonym fold_line = "ustring \<times> ustring \<times> agg"

definition put_line :: "ustring \<Rightarrow> ustring \<times> agg \<Rightarrow> fold_line list \<times> (ustring \<times> agg) list \<Rightarrow>
    fold_line list \<times> (ustring \<times> agg) list" where
  "put_line comm pa oc =
     (let (path, agg) = pa; (out, climbing) = oc in
      case map_of climbing (keyOf comm path) of
        Some run \<Rightarrow> (out, omap_update (keyOf comm path) (\<lambda>_. mergeAgg run agg) climbing)
      | None \<Rightarrow> (out @ [(comm, path, agg)], climbing))"

text \<open>A command that also ran a file keeps one row for it. The rows come in the order of the
  recording.\<close>

definition all_lines :: "lines_options \<Rightarrow> lines \<Rightarrow> fold_line list \<times> lines" where
  "all_lines o' s =
     (let (out, climbing) =
        fold (\<lambda>(comm, roots) oc. fold (put_line comm) (treeLines (lo_fanout o') (lo_showWalked o') roots) oc)
          (ln_trees s) ([], ln_climbing s) in
      (sort_key (\<lambda>(_, _, agg). ag_seq agg) (out @ map (\<lambda>(key, agg). (commOf key, pathOf key, agg)) climbing),
       s\<lparr>ln_climbing := climbing\<rparr>))"

fun fit_lines :: "lines_options \<Rightarrow> int \<Rightarrow> fold_line list \<Rightarrow> fold_line list \<times> int \<times> bool" where
  "fit_lines o' bytes [] = ([], bytes, False)"
| "fit_lines o' bytes ((comm, path, agg) # ls) =
     (let size = lo_rowBytes o' path comm (Some agg) in
      if lo_limit o' < bytes + size then ([], bytes, True)
      else (let (out, bytes', cut') = fit_lines o' (bytes + size) ls in ((comm, path, agg) # out, bytes', cut')))"

definition within_limit :: "lines_options \<Rightarrow> lines \<Rightarrow> (fold_line list \<times> int \<times> bool) \<times> lines" where
  "within_limit o' s = (let (ls, s') = all_lines o' s in (fit_lines o' 0 ls, s'))"

definition lines_finish :: "lines_options \<Rightarrow> lines \<Rightarrow> fold_line list option \<times> lines" where
  "lines_finish o' s =
     (if ln_stopped s \<noteq> None then (None, s)
      else
        (let ((out, bytes, cut'), s1) = within_limit o' s;
             ((out', _, cut''), s2) =
               (if \<not> ln_loose s1 \<and> lo_loose o' \<noteq> None \<and> (cut' \<or> past_loose o' bytes) then within_limit o' (loosen o' s1)
                else ((out, bytes, cut'), s1)) in
         (Some out', s2\<lparr>ln_truncated := ln_dropped s2 \<or> cut''\<rparr>)))"

end
