(* ===== verification/FsFoldKeeps.thy ===== *)
theory FsFoldKeeps
  imports FsFold "HOL-Library.Sublist"
begin

text \<open>
  The table of \<^theory_text>\<open>FsFold\<close> loses no access: however its lines fold, each access shows on a
  line that stands for its path, unless the table says it was cut or gave up.
\<close>

section \<open>What a line has taken\<close>

text \<open>A line that has taken an access shows its action with its outcome, its command no later than
  it, and spans its time.\<close>

definition inside :: "actions \<Rightarrow> actions \<Rightarrow> bool" where
  "inside b a \<longleftrightarrow> b AND NOT a = 0"

definition shows_bit :: "agg \<Rightarrow> access \<Rightarrow> bool" where
  "shows_bit a x \<longleftrightarrow>
     (if ac_failed x then inside (ac_bit x) (ag_failed a) \<and> (ac_perm x \<longrightarrow> inside (ac_bit x) (ag_perm a))
      else inside (ac_bit x) (ag_ok a))"

definition shows_cmd :: "(ustring \<times> enat) list \<Rightarrow> access \<Rightarrow> bool" where
  "shows_cmd cmds x \<longleftrightarrow>
     (case ac_cmd x of
        None \<Rightarrow> True
      | Some c \<Rightarrow> (case map_of cmds c of None \<Rightarrow> False | Some h \<Rightarrow> h \<le> ac_seq x))"

definition from_by :: "int option \<Rightarrow> int \<Rightarrow> bool" where
  "from_by first t \<longleftrightarrow> (case first of None \<Rightarrow> False | Some f \<Rightarrow> f \<le> t)"

definition until_by :: "int option \<Rightarrow> int \<Rightarrow> bool" where
  "until_by last' t \<longleftrightarrow> (case last' of None \<Rightarrow> False | Some l \<Rightarrow> t \<le> l)"

definition spans :: "agg \<Rightarrow> access \<Rightarrow> bool" where
  "spans a x \<longleftrightarrow>
     (case ac_t x of
        None \<Rightarrow> True
      | Some t \<Rightarrow> from_by (ag_first a) t \<and> until_by (ag_last a) t \<and> ag_seq a \<le> ac_seq x)"

definition taken :: "agg \<Rightarrow> access \<Rightarrow> bool" where
  "taken a x \<longleftrightarrow> shows_bit a x \<and> shows_cmd (ag_cmds a) x \<and> spans a x"

lemma inside_or: "inside b a \<Longrightarrow> inside b (a OR c)" "inside b c \<Longrightarrow> inside b (a OR c)" "inside b (a OR b)"
  by (auto simp: inside_def bit_eq_iff bit_simps)

lemma bounds_grow [simp]:
  "from_by (bound_of min f g) t \<longleftrightarrow> from_by f t \<or> from_by g t"
  "until_by (bound_of max f g) t \<longleftrightarrow> until_by f t \<or> until_by g t"
  by (auto simp: bound_of_def from_by_def until_by_def split: option.splits)

lemma bounds_self [simp]: "from_by (Some t) t" "until_by (Some t) t"
  by (simp_all add: from_by_def until_by_def)

lemma cmd_grows: "shows_cmd m x \<Longrightarrow> shows_cmd (omap_update k (cmd_min v) m) x"
  by (auto simp: shows_cmd_def omap_update_get min_le_iff_disj split: option.splits)

lemma cmd_takes: "ac_cmd x = Some k \<Longrightarrow> v \<le> ac_seq x \<Longrightarrow> shows_cmd (omap_update k (cmd_min v) m) x"
  by (auto simp: shows_cmd_def omap_update_get min_le_iff_disj split: option.splits)

lemma cmds_grow: "shows_cmd m x \<Longrightarrow> shows_cmd (add_cmds cmds m) x"
  by (induction cmds arbitrary: m) (auto simp: add_cmds_def cmd_grows)

lemma cmds_take: "shows_cmd cmds x \<Longrightarrow> shows_cmd (add_cmds cmds m) x"
proof (induction cmds arbitrary: m)
  case Nil
  then show ?case by (simp add: shows_cmd_def add_cmds_def split: option.splits)
next
  case (Cons kv cmds)
  obtain k v where kv: "kv = (k, v)" by (cases kv)
  show ?case
  proof (cases "ac_cmd x = Some k")
    case True
    then have "shows_cmd (omap_update k (cmd_min v) m) x" using Cons.prems by (intro cmd_takes) (auto simp: kv shows_cmd_def)
    from cmds_grow [OF this, of cmds] show ?thesis by (simp add: kv add_cmds_def)
  next
    case False
    then have "shows_cmd cmds x" using Cons.prems by (auto simp: kv shows_cmd_def split: option.splits if_splits)
    from Cons.IH [OF this] show ?thesis by (simp add: kv add_cmds_def)
  qed
qed

lemma apply_fields:
  "ag_ok (apply_access a x) = (if ac_failed x then ag_ok a else ag_ok a OR ac_bit x)"
  "ag_failed (apply_access a x) = (if ac_failed x then ag_failed a OR ac_bit x else ag_failed a)"
  "ag_perm (apply_access a x) = (if ac_failed x \<and> ac_perm x then ag_perm a OR ac_bit x else ag_perm a)"
  "ag_cmds (apply_access a x) = (case ac_cmd x of None \<Rightarrow> ag_cmds a | Some c \<Rightarrow> omap_update c (cmd_min (ac_seq x)) (ag_cmds a))"
  "ag_first (apply_access a x) = (case ac_t x of None \<Rightarrow> ag_first a | Some t \<Rightarrow> bound_of min (ag_first a) (Some t))"
  "ag_last (apply_access a x) = (case ac_t x of None \<Rightarrow> ag_last a | Some t \<Rightarrow> bound_of max (ag_last a) (Some t))"
  "ag_seq (apply_access a x) = (case ac_t x of None \<Rightarrow> ag_seq a | Some t \<Rightarrow> min (ag_seq a) (ac_seq x))"
  by (simp_all add: apply_access_def addCmd_def Let_def split: option.splits)

lemma merge_fields:
  "ag_ok (mergeAgg a b) = ag_ok a OR ag_ok b" "ag_failed (mergeAgg a b) = ag_failed a OR ag_failed b"
  "ag_perm (mergeAgg a b) = ag_perm a OR ag_perm b" "ag_cmds (mergeAgg a b) = add_cmds (ag_cmds b) (ag_cmds a)"
  "ag_first (mergeAgg a b) = bound_of min (ag_first a) (ag_first b)"
  "ag_last (mergeAgg a b) = bound_of max (ag_last a) (ag_last b)" "ag_seq (mergeAgg a b) = min (ag_seq a) (ag_seq b)"
  by (simp_all add: mergeAgg_def fold_addCmd)

lemma taken_apply: "taken (apply_access a x) x"
proof -
  have "shows_cmd (ag_cmds (apply_access a x)) x"
  proof (cases "ac_cmd x")
    case None
    then show ?thesis by (simp add: shows_cmd_def)
  next
    case (Some c)
    then show ?thesis by (simp add: apply_fields cmd_takes)
  qed
  then show ?thesis by (auto simp: taken_def shows_bit_def spans_def apply_fields inside_or split: option.splits)
qed

lemma taken_apply_other:
  assumes "taken a x" shows "taken (apply_access a y) x"
proof -
  have "shows_bit (apply_access a y) x" using assms by (auto simp: taken_def shows_bit_def apply_fields inside_or)
  moreover have "shows_cmd (ag_cmds (apply_access a y)) x"
    using assms by (auto simp: taken_def apply_fields cmd_grows split: option.splits)
  moreover have "spans (apply_access a y) x" using assms by (auto simp: taken_def spans_def apply_fields min_le_iff_disj split: option.splits)
  ultimately show ?thesis by (simp add: taken_def)
qed

lemma taken_merge: "taken a x \<Longrightarrow> taken (mergeAgg a b) x"
  by (auto simp: taken_def shows_bit_def spans_def merge_fields inside_or cmds_grow min_le_iff_disj split: option.splits)

lemma taken_merge_src: "taken b x \<Longrightarrow> taken (mergeAgg a b) x"
  by (auto simp: taken_def shows_bit_def spans_def merge_fields inside_or cmds_take min_le_iff_disj split: option.splits)

section \<open>What a tree has taken\<close>

definition some_taken :: "agg option \<Rightarrow> access \<Rightarrow> bool" where
  "some_taken a x \<longleftrightarrow> (\<exists>b. a = Some b \<and> taken b x)"

lemma some_taken_simps [simp]: "\<not> some_taken None x" "some_taken (Some a) x \<longleftrightarrow> taken a x"
  by (simp_all add: some_taken_def)

text \<open>A node has taken an access of the path below it on its own line, on a line it folded, or below.\<close>

fun has_taken :: "fnode \<Rightarrow> ustring list \<Rightarrow> access \<Rightarrow> bool" where
  "has_taken node [] x \<longleftrightarrow> some_taken (nd_folded node) x \<or> some_taken (nd_own node) x"
| "has_taken node (part # parts) x \<longleftrightarrow>
     some_taken (nd_folded node) x \<or>
     (case map_of (nd_kids node) part of None \<Rightarrow> False | Some kid \<Rightarrow> has_taken kid parts x)"

lemma has_taken_cong:
  "nd_kids m = nd_kids n \<Longrightarrow> nd_own m = nd_own n \<Longrightarrow> nd_folded m = nd_folded n \<Longrightarrow> has_taken m ps x = has_taken n ps x"
  by (cases ps) simp_all

lemma merge_some_taken: "taken acc x \<or> some_taken a x \<Longrightarrow> taken (merge_some a acc) x"
  by (auto simp: merge_some_def taken_merge taken_merge_src split: option.splits)

lemma foldr_taken:
  assumes "\<And>k acc. k \<in> set ks \<Longrightarrow> taken acc x \<Longrightarrow> taken (f k acc) x"
    and "taken acc x \<or> (\<exists>k\<in>set ks. \<forall>acc. taken (f k acc) x)"
  shows "taken (foldr f ks acc) x"
  using assms
proof (induction ks)
  case (Cons k ks)
  show ?case
  proof (cases "\<forall>acc. taken (f k acc) x")
    case True
    then show ?thesis by simp
  next
    case False
    then have "taken acc x \<or> (\<exists>k\<in>set ks. \<forall>acc. taken (f k acc) x)" using Cons.prems(2) by auto
    then have "taken (foldr f ks acc) x" using Cons.IH Cons.prems(1) by simp
    then show ?thesis using Cons.prems(1) by simp
  qed
qed simp

lemma merge_subtree_keeps: "taken acc x \<Longrightarrow> taken (merge_subtree node acc) x"
proof (induction node acc rule: merge_subtree.induct)
  case (1 kids own folded kept bytes acc)
  have "taken (merge_some folded (merge_some own acc)) x" using "1.prems" by (simp add: merge_some_taken)
  moreover have "taken ((\<lambda>(_, kid). merge_subtree kid) k acc') x" if "k \<in> set kids" "taken acc' x" for k acc'
    using "1.IH" [of k "fst k" "snd k"] that by (cases k) auto
  ultimately show ?case by (simp add: foldr_taken)
qed

lemma merge_subtree_takes: "has_taken node ps x \<Longrightarrow> taken (merge_subtree node acc) x"
proof (induction ps arbitrary: node acc)
  case Nil
  obtain kids own folded kept bytes where n: "node = FNode kids own folded kept bytes" by (cases node)
  have "taken (merge_some folded (merge_some own acc)) x" using Nil by (auto simp: n merge_some_taken)
  then show ?case by (auto simp: n intro!: foldr_taken merge_subtree_keeps)
next
  case (Cons p ps)
  obtain kids own folded kept bytes where n: "node = FNode kids own folded kept bytes" by (cases node)
  show ?case
  proof (cases "some_taken folded x")
    case True
    then have "taken (merge_some folded (merge_some own acc)) x" by (simp add: merge_some_taken)
    then show ?thesis by (auto simp: n intro!: foldr_taken merge_subtree_keeps)
  next
    case False
    then obtain kid where k: "map_of kids p = Some kid" "has_taken kid ps x"
      using Cons.prems by (auto simp: n split: option.splits)
    have "(p, kid) \<in> set kids" using k(1) by (rule map_of_SomeD)
    then have "\<exists>k\<in>set kids. \<forall>acc. taken ((\<lambda>(_, kid). merge_subtree kid) k acc) x" using Cons.IH [OF k(2)] by force
    then show ?thesis unfolding n merge_subtree.simps by (intro foldr_taken) (auto intro: merge_subtree_keeps)
  qed
qed

lemma fold_node_takes: "has_taken node ps x \<Longrightarrow> has_taken (fold_node node) qs x"
  using merge_subtree_takes [of node ps x newAgg] by (cases qs) (simp_all add: fold_node_def treeAgg_def)

lemma addFolded_keeps: "has_taken node ps y \<Longrightarrow> has_taken (addFolded o' pre x settled node) ps y"
  by (cases ps) (auto simp: addFolded_def Let_def taken_apply_other split: option.splits)

lemma addFolded_takes: "has_taken (addFolded o' pre x settled node) ps x"
  by (cases ps) (simp_all add: addFolded_def Let_def taken_apply)

lemma add_own_keeps: "has_taken node ps y \<Longrightarrow> has_taken (add_own o' x settled node) ps y"
  by (cases ps) (auto simp: add_own_def Let_def taken_apply_other split: option.splits)

lemma add_own_takes: "has_taken (add_own o' x settled node) [] x"
  by (simp add: add_own_def Let_def taken_apply)

lemma set_kid_takes: "has_taken kid ps x \<Longrightarrow> has_taken (set_kid part kid node) (part # ps) x"
  by (simp add: set_kid_def omap_update_get)

lemma set_kid_keeps:
  assumes "has_taken node ps x"
    and "\<And>old qs. map_of (nd_kids node) part = Some old \<Longrightarrow> has_taken old qs x \<Longrightarrow> has_taken kid qs x"
  shows "has_taken (set_kid part kid node) ps x"
  using assms by (cases ps) (auto simp: set_kid_def omap_update_get split: option.splits)

lemma new_kid_keeps:
  assumes "map_of (nd_kids node) part = None" and "has_taken node ps x"
  shows "has_taken (new_kid o' pre part node) ps x"
proof -
  have "has_taken (set_kid part (new_node o' (pre @ [part])) node) ps x"
    by (rule set_kid_keeps [OF assms(2)]) (simp add: assms(1))
  then show ?thesis
    using has_taken_cong [of "new_kid o' pre part node" "set_kid part (new_node o' (pre @ [part])) node"]
    by (simp add: new_kid_def Let_def)
qed

lemma map_of_filter_fst_snd: "map_of (filter (\<lambda>(_, v). P v) m) k = Some v \<Longrightarrow> (k, v) \<in> set m \<and> P v"
  by (auto dest: map_of_SomeD)

lemma map_of_filter_keeps: "map_of m k = Some v \<Longrightarrow> P v \<Longrightarrow> map_of (filter (\<lambda>(_, v). P v) m) k = Some v"
  by (induction m) auto

lemma foldLoose_keeps:
  assumes "nd_folded node = None" and "has_taken node ps x"
  shows "has_taken (foldLoose o' pre comm node) ps x"
proof (cases ps)
  case Nil
  then show ?thesis using assms by (simp add: foldLoose_def)
next
  case (Cons p qs)
  then obtain kid where k: "map_of (nd_kids node) p = Some kid" "has_taken kid qs x"
    using assms by (auto split: option.splits)
  show ?thesis
  proof (cases "nd_kept kid")
    case True
    then show ?thesis using k Cons by (simp add: foldLoose_def map_of_filter_keeps)
  next
    case False
    let ?ks = "filter (\<lambda>(_, kid). \<not> nd_kept kid) (nd_kids node)"
    have "(p, kid) \<in> set ?ks" using map_of_SomeD [OF k(1)] False by simp
    then have "\<exists>k\<in>set (rev ?ks). \<forall>acc. taken ((\<lambda>(_, kid). merge_subtree kid) k acc) x"
      using merge_subtree_takes [OF k(2)] by force
    then have "taken (foldr (\<lambda>(_, kid). merge_subtree kid) (rev ?ks) newAgg) x"
      by (intro foldr_taken) (auto intro: merge_subtree_keeps)
    then show ?thesis using Cons by (simp add: foldLoose_def foldr_conv_fold)
  qed
qed

text \<open>A walk keeps what the node had taken and takes its access.\<close>

definition walk_takes :: "access \<Rightarrow> ustring list \<Rightarrow> fnode \<Rightarrow> walk \<Rightarrow> bool" where
  "walk_takes x rest node w \<longleftrightarrow>
     (case w of
        Walked node' _ \<Rightarrow> has_taken node' rest x \<and> (\<forall>ps y. has_taken node ps y \<longrightarrow> has_taken node' ps y)
      | _ \<Rightarrow> True)"

lemma walk_addFolded: "walk_takes x rest node (Walked (addFolded o' pre x settled node) nodes)"
  by (simp add: walk_takes_def addFolded_takes addFolded_keeps del: has_taken.simps)

lemma walk_kid:
  assumes "map_of (nd_kids node) part = Some kid" and "walk_takes x rest kid w"
  shows "walk_takes x (part # rest) node (case w of Walked kid' nodes' \<Rightarrow> Walked (set_kid part kid' node) nodes' | w \<Rightarrow> w)"
proof (cases w)
  case (Walked kid' nodes')
  then have "has_taken kid' rest x" "\<And>ps y. has_taken kid ps y \<Longrightarrow> has_taken kid' ps y"
    using assms(2) by (auto simp: walk_takes_def)
  then show ?thesis
    using Walked assms(1) set_kid_takes set_kid_keeps [of node _ _ part kid']
    by (auto simp: walk_takes_def simp del: has_taken.simps)
qed (simp_all add: walk_takes_def)

lemma walk_from: "walk_takes x rest n w \<Longrightarrow> (\<And>ps y. has_taken node ps y \<Longrightarrow> has_taken n ps y) \<Longrightarrow> walk_takes x rest node w"
  by (auto simp: walk_takes_def split: walk.splits)

lemma visit_takes: "walk_takes x rest node (visit o' loose full x pre rest settled node nodes)"
proof (induction rest arbitrary: pre settled node nodes)
  case Nil
  then show ?case
    by (simp add: walk_takes_def addFolded_takes addFolded_keeps add_own_takes add_own_keeps
        del: has_taken.simps)
next
  case (Cons part rest)
  let ?n = "new_kid o' pre part node" and ?kid = "new_node o' (pre @ [part])"
  show ?case
  proof (cases "takes_rest o' pre node (part # rest) \<or> map_of (nd_kids node) part \<noteq> None")
    case True
    then show ?thesis using Cons.IH walk_kid walk_addFolded by auto
  next
    case False
    then have none: "map_of (nd_kids node) part = None" by simp
    have k: "has_taken node ps y \<Longrightarrow> has_taken ?n ps y" for ps y using new_kid_keeps [OF none] .
    have "nd_folded ?n = None \<or> nd_kept ?kid"
      using False by (auto simp: takes_rest_def new_node_def has_kid_def new_kid_def set_kid_def Let_def)
    then have loosely: "\<not> nd_kept ?kid \<Longrightarrow> has_taken node ps y \<Longrightarrow> has_taken (foldLoose o' pre (ac_comm x) ?n) ps y" for ps y
      using k foldLoose_keeps by blast
    have kid: "map_of (nd_kids ?n) part = Some ?kid"
      by (simp add: new_kid_def set_kid_def omap_update_get Let_def)
    have folds: "walk_takes x (part # rest) node (Walked (addFolded o' pre x settled (fold_node ?n)) m)" for m
      by (rule walk_from [OF walk_addFolded]) (rule fold_node_takes [OF k])
    have folds_loose: "\<not> nd_kept ?kid \<Longrightarrow>
        walk_takes x (part # rest) node (Walked (addFolded o' pre x settled (foldLoose o' pre (ac_comm x) ?n)) m)" for m
      by (rule walk_from [OF walk_addFolded]) (rule loosely)
    have goes: "walk_takes x (part # rest) node
        (case visit o' loose full x (pre @ [part]) rest b ?kid (nodes + 1) of
           Walked kid' nodes' \<Rightarrow> Walked (set_kid part kid' ?n) nodes' | w \<Rightarrow> w)" for b
      by (rule walk_from [OF walk_kid [OF kid Cons.IH] k])
    show ?thesis
      using False none folds folds_loose goes by (simp add: Let_def walk_takes_def [of _ _ _ Turned_away] walk_takes_def [of _ _ _ Stop])
  qed
qed

section \<open>Loosening a tree\<close>

text \<open>A tree that was never loosened: no kept directory has folded anything.\<close>

fun tight :: "fnode \<Rightarrow> bool" where
  "tight (FNode kids own folded kept bytes) \<longleftrightarrow> (kept \<longrightarrow> folded = None) \<and> (\<forall>k\<in>set kids. tight (snd k))"

lemma tight_iff: "tight node \<longleftrightarrow> (nd_kept node \<longrightarrow> nd_folded node = None) \<and> (\<forall>k\<in>set (nd_kids node). tight (snd k))"
  by (cases node) simp

definition walk_tight :: "walk \<Rightarrow> bool" where
  "walk_tight w \<longleftrightarrow> (case w of Walked node _ \<Rightarrow> tight node | _ \<Rightarrow> True)"

lemma omap_update_in: "kv \<in> set (omap_update k f m) \<Longrightarrow> kv \<in> set m \<or> (\<exists>v. kv = (k, f v))"
  by (induction m) (auto split: if_splits)

lemma set_kid_tight: "tight node \<Longrightarrow> tight kid \<Longrightarrow> tight (set_kid part kid node)"
  by (auto simp: tight_iff [of node] tight_iff [of "set_kid part kid node"] set_kid_def dest!: omap_update_in)

lemma addFolded_tight: "tight node \<Longrightarrow> \<not> nd_kept node \<Longrightarrow> tight (addFolded o' pre x settled node)"
  by (simp add: tight_iff [of node] tight_iff [of "addFolded o' pre x settled node"] addFolded_def Let_def)

lemma add_own_tight: "tight node \<Longrightarrow> tight (add_own o' x settled node)"
  by (simp add: tight_iff [of node] tight_iff [of "add_own o' x settled node"] add_own_def Let_def)

lemma new_kid_tight: "tight node \<Longrightarrow> tight (new_kid o' pre part node)"
  using set_kid_tight [of node "new_node o' (pre @ [part])" part]
  by (simp add: new_kid_def new_node_def tight_iff [of "set_kid _ _ _"] Let_def)

lemma new_kid_kept: "nd_kept (new_kid o' pre part node) = nd_kept node"
  by (simp add: new_kid_def set_kid_def Let_def)

lemma takes_rest_tight: "tight node \<Longrightarrow> takes_rest o' pre node rest \<Longrightarrow> \<not> nd_kept node"
  by (auto simp: takes_rest_def tight_iff [of node])

lemma walk_tight_kid:
  assumes "tight node" and "walk_tight w"
  shows "walk_tight (case w of Walked kid' nodes' \<Rightarrow> Walked (set_kid part kid' node) nodes' | w \<Rightarrow> w)"
  using assms by (auto simp: walk_tight_def set_kid_tight split: walk.splits)

lemma visit_tight: "tight node \<Longrightarrow> walk_tight (visit o' False full x pre rest settled node nodes)"
proof (induction rest arbitrary: pre settled node nodes full)
  case Nil
  then show ?case
    using takes_rest_tight [of node o' pre "[]"] by (simp add: walk_tight_def addFolded_tight add_own_tight)
next
  case (Cons part rest)
  let ?n = "new_kid o' pre part node" and ?kid = "new_node o' (pre @ [part])"
  have a: "takes_rest o' pre node (part # rest) \<Longrightarrow> walk_tight (Walked (addFolded o' pre x settled node) nodes)"
    using takes_rest_tight [OF Cons.prems] Cons.prems by (simp add: walk_tight_def addFolded_tight)
  have old: "walk_tight (case visit o' False fl x (pre @ [part]) rest b kid nodes of
      Walked kid' nodes' \<Rightarrow> Walked (set_kid part kid' node) nodes' | w \<Rightarrow> w)"
    if "map_of (nd_kids node) part = Some kid" for kid b fl
    using Cons.prems map_of_SomeD [OF that]
    by (intro walk_tight_kid Cons.IH Cons.prems) (auto simp: tight_iff [of node])
  have folds: "\<not> nd_kept node \<Longrightarrow> walk_tight (Walked (addFolded o' pre x settled (fold_node ?n)) m)" for m
    by (simp add: walk_tight_def addFolded_tight fold_node_def new_kid_kept)
  have goes: "walk_tight (case visit o' False fl x (pre @ [part]) rest b ?kid m of
      Walked kid' nodes' \<Rightarrow> Walked (set_kid part kid' ?n) nodes' | w \<Rightarrow> w)" for b m fl
    by (intro walk_tight_kid new_kid_tight Cons.IH Cons.prems) (simp add: new_node_def)
  show ?case
    using a old folds goes
    by (simp add: Let_def walk_tight_def [of Stop] walk_tight_def [of Turned_away] split: option.split)
qed

lemma loose_fold_keeps:
  assumes "tight node" "has_taken node ps x" shows "has_taken (loose_fold o' comm pre node) ps x"
  using assms foldLoose_keeps [of node ps x o' pre comm] by (auto simp: loose_fold_def tight_iff [of node])

lemma loose_fold_kids: "set (nd_kids (loose_fold o' comm pre node)) \<subseteq> set (nd_kids node)"
  by (auto simp: loose_fold_def foldLoose_def)

lemma map_of_map_pair: "map_of (map (\<lambda>(k, v). (k, f k v)) m) k = map_option (f k) (map_of m k)"
  by (induction m) auto

lemma loosen_node_keeps: "tight node \<Longrightarrow> has_taken node ps x \<Longrightarrow> has_taken (loosen_node o' comm pre node) ps x"
proof (induction o' comm pre node arbitrary: ps rule: loosen_node.induct)
  case (1 o' comm pre node)
  let ?l = "loose_fold o' comm pre node"
  have l: "has_taken ?l ps x" using loose_fold_keeps "1.prems" .
  show ?case
  proof (cases "nd_kept node")
    case kept: True
    show ?thesis
    proof (cases ps)
      case Nil
      then show ?thesis using l kept
        by (simp add: loosen_node.simps [of _ _ _ node] loose_fold_def foldLoose_def split: if_splits)
    next
      case (Cons p qs)
      have ih: "has_taken (loosen_node o' comm (pre @ [p]) kid) qs x"
        if "map_of (nd_kids ?l) p = Some kid" "has_taken kid qs x" for kid
      proof -
        have k: "(p, kid) \<in> set (nd_kids ?l)" using that(1) by (rule map_of_SomeD)
        then have "tight kid" using loose_fold_kids [of o' comm pre node] "1.prems"(1) by (fastforce simp: tight_iff [of node])
        with that(2) show ?thesis using "1.IH" [of "(p, kid)" p kid qs] kept k by simp
      qed
      then show ?thesis using l kept Cons
        by (auto simp: loosen_node.simps [of _ _ _ node] map_of_map_pair split: option.splits)
    qed
  next
    case False
    then show ?thesis using "1.prems" by (simp add: loosen_node.simps [of _ _ _ node])
  qed
qed

section \<open>Climbing groups\<close>

lemma key_parts [simp]: "0 \<notin> set c \<Longrightarrow> commOf (keyOf c p) = c" "0 \<notin> set c \<Longrightarrow> pathOf (keyOf c p) = p"
  by (induction c) (auto simp: keyOf_def commOf_def pathOf_def)

lemma commOf_free [simp]: "0 \<notin> set (commOf k)"
  by (auto simp: commOf_def dest: set_takeWhileD)

definition group_of :: "ustring \<Rightarrow> ustring" where
  "group_of key = keyOf (commOf key) (climbGroup (pathOf key) (components (pathOf key)))"

lemma group_of_key: "0 \<notin> set c \<Longrightarrow> group_of (keyOf c p) = keyOf c (climbGroup p (components p))"
  by (simp add: group_of_def)

definition climbs :: "ustring \<Rightarrow> bool" where
  "climbs path \<longleftrightarrow> unfoldable (components path) path"

lemma index_of_take: "index_of c xs = Some i \<Longrightarrow> take (Suc i) xs = take i xs @ [c] \<and> c \<notin> set (take i xs)"
proof (induction xs arbitrary: i)
  case (Cons x xs)
  then show ?case by (cases i) (auto split: if_splits)
qed simp

lemma index_of_less: "index_of c xs = Some i \<Longrightarrow> i < length xs"
  by (induction xs arbitrary: i) (auto split: if_splits)

lemma index_of_append: "c \<notin> set xs \<Longrightarrow> index_of c (xs @ c # ys) = Some (length xs)"
  by (induction xs) auto

lemma components_starred:
  assumes "p \<noteq> []" "p \<noteq> [SLASH]" shows "components (starred p) = components p @ [u ''**'']"
proof -
  have s: "u ''/**'' = SLASH # u ''**''" "SLASH \<notin> set (u ''**'')" by (simp_all add: u_def)
  have "split_on SLASH (q @ u ''/**'') = split_on SLASH q @ [u ''**'']" for q
    using split_on_id [OF s(2)] by (simp add: s(1) split_on_append_slash)
  then show ?thesis
    using assms split_on_ne [of SLASH "tl p"]
    by (cases p; cases "split_on SLASH (tl p)") (auto simp: components_def starred_def u_def)
qed

text \<open>The path up to its first \<^verbatim>\<open>..\<close> is spelled and split as it is in the whole path.\<close>

lemma components_take:
  assumes "index_of (u ''..'') (components path) = Some i"
  shows "components (spell (take (Suc i) (components path))) = take (Suc i) (components path)"
    "spell (take (Suc i) (components path)) \<notin> {[], [SLASH]}"
proof -
  have up: "u ''..'' \<noteq> []" "u ''..'' \<noteq> [SLASH]" "SLASH \<notin> set (u ''..'')" "hd (u ''..'') \<noteq> SLASH" by (simp_all add: u_def)
  let ?t = "take (Suc i) (components path)"
  note t = index_of_take [OF assms]
  have last: "last ?t = u ''..''" "?t \<noteq> []" using t by simp_all
  have free: "w \<in> set (split_on SLASH q) \<Longrightarrow> SLASH \<notin> set w" for w q by (rule split_on_no_sep)
  have "components (spell ?t) = ?t \<and> spell ?t \<notin> {[], [SLASH]}"
  proof (cases "path \<noteq> [] \<and> hd path = SLASH")
    case True
    then obtain q where q: "path = SLASH # q" by (cases path) auto
    have "i \<noteq> 0" using assms by (auto simp: q components_def u_def split: if_splits)
    then obtain j where j: "i = Suc j" by (cases i) auto
    have c: "components path = [SLASH] # split_on SLASH q" "q \<noteq> []"
      using assms by (auto simp: q components_def u_def split: if_splits)
    have tt: "?t = [SLASH] # take (Suc j) (split_on SLASH q)" by (simp add: c j)
    let ?r = "take (Suc j) (split_on SLASH q)"
    have ne: "?r \<noteq> []" by simp
    have lr: "last ?r = u ''..''" using last(1) ne unfolding tt by (simp del: take_Suc)
    have sp: "spell ?t = SLASH # join_with [SLASH] ?r" unfolding tt by (simp add: spell_def del: take_Suc)
    have r: "split_on SLASH (join_with [SLASH] ?r) = ?r"
      using ne free by (intro split_on_join) (auto dest: in_set_takeD)
    moreover have "join_with [SLASH] ?r \<noteq> []"
    proof
      assume "join_with [SLASH] ?r = []"
      then have "?r = [[]]" using r by simp
      then show False using lr up(1) by simp
    qed
    ultimately have "components (SLASH # join_with [SLASH] ?r) = [SLASH] # ?r \<and> SLASH # join_with [SLASH] ?r \<notin> {[], [SLASH]}"
      by (simp add: components_def del: take_Suc)
    then show ?thesis by (simp only: sp) (simp only: tt simp_thms)
  next
    case False
    then have c: "components path = split_on SLASH path" by (cases path) (auto simp: components_def)
    have hd: "hd ?t \<noteq> [SLASH]" using free [of "hd ?t" path] last(2) by (metis c hd_in_set in_set_takeD list.set_intros(1))
    have sp: "spell ?t = join_with [SLASH] ?t" using hd last(2) by (simp add: spell_def del: take_Suc)
    have r: "split_on SLASH (join_with [SLASH] ?t) = ?t"
      using last(2) free by (intro split_on_join) (auto simp: c dest: in_set_takeD)
    have ne: "join_with [SLASH] ?t \<noteq> []"
    proof
      assume "join_with [SLASH] ?t = []"
      then have "?t = [[]]" using r by simp
      then show False using last(1) up(1) by simp
    qed
    have "hd (join_with [SLASH] ?t) \<noteq> SLASH"
    proof
      assume h: "hd (join_with [SLASH] ?t) = SLASH"
      then obtain s where "join_with [SLASH] ?t = SLASH # s" using ne by (cases "join_with [SLASH] ?t") auto
      then have "hd ?t = []" using r by (metis list.sel(1) split_on.simps(2))
      then have "hd (split_on SLASH path) = []" by (simp add: c)
      then have "path = []"
        using False split_on_ne [of SLASH "tl path"] by (cases path; cases "split_on SLASH (tl path)") auto
      then show False using assms by (simp add: components_def u_def)
    qed
    then show ?thesis using ne r unfolding sp by (cases "join_with [SLASH] ?t") (auto simp: components_def)
  qed
  then show "components (spell ?t) = ?t" "spell ?t \<notin> {[], [SLASH]}" by blast+
qed

lemma join_with_prefix: "prefix (join_with sep xs) (join_with sep (xs @ ys))"
proof (induction sep xs rule: join_with.induct)
  case (2 sep w)
  then show ?case by (cases ys) simp_all
next
  case (3 sep x y xs)
  then show ?case by simp
qed simp

lemma spell_prefix: "xs \<noteq> [] \<Longrightarrow> prefix (spell xs) (spell (xs @ ys))"
proof -
  assume "xs \<noteq> []"
  then obtain x xs' where x: "xs = x # xs'" by (cases xs) auto
  have a: "prefix (join_with [SLASH] (x # xs')) (join_with [SLASH] ((x # xs') @ ys))" by (rule join_with_prefix)
  have b: "prefix (join_with [SLASH] xs') (join_with [SLASH] (xs' @ ys))" by (rule join_with_prefix)
  show ?thesis using a b by (cases "x = [SLASH]") (simp_all add: spell_def x)
qed

lemma prefix_before_slash: "prefix m (s @ SLASH # r) \<Longrightarrow> SLASH \<notin> set m \<Longrightarrow> prefix m s"
  unfolding prefix_append by (auto simp: prefix_Cons)

lemma starts_with_prefix: "starts_with p s \<longleftrightarrow> prefix p s"
  by (auto simp: starts_with_iff prefix_def)

lemma starred_marks:
  assumes "p \<noteq> [SLASH]" and "SLASH \<notin> set m" and "prefix p path" and "\<not> prefix m path"
  shows "\<not> starts_with m (starred p)"
proof
  assume "starts_with m (starred p)"
  then have "prefix m (p @ SLASH # u ''**'')" using assms(1) by (simp add: starts_with_prefix starred_def u_def)
  from prefix_before_slash [OF this assms(2)] assms(3,4) show False by (meson prefix_order.trans)
qed

lemma marks_slash: "SLASH \<notin> set MEMFD" "SLASH \<notin> set RUNNER_FILE"
  by (simp_all add: MEMFD_def MEMFD_PREFIX_def RUNNER_FILE_def u_def)

text \<open>A group's line is its own group.\<close>

lemma climbGroup_idem:
  assumes "climbs path"
  shows "climbGroup (climbGroup path (components path)) (components (climbGroup path (components path))) =
      climbGroup path (components path) \<and> climbs (climbGroup path (components path))"
proof (cases "starts_with MEMFD path \<or> isRunnerFile path")
  case True
  have "starts_with MEMFD MEMFDS" by (simp add: MEMFDS_def starts_with_iff)
  then show ?thesis using True by (auto simp: climbGroup_def climbs_def unfoldable_def)
next
  case False
  then obtain i where i: "index_of (u ''..'') (components path) = Some i"
    using assms by (cases "index_of (u ''..'') (components path)") (auto simp: climbs_def unfoldable_def index_of_None)
  let ?t = "take (Suc i) (components path)"
  let ?g = "starred (spell ?t)"
  have t: "?t = take i (components path) @ [u ''..'']" "u ''..'' \<notin> set (take i (components path))"
    using index_of_take [OF i] by blast+
  note sp = components_take [OF i]
  have len: "i < length (components path)" using index_of_less [OF i] .
  have g: "climbGroup path (components path) = ?g" using False i by (simp add: climbGroup_def del: take_Suc)
  have c: "components ?g = ?t @ [u ''**'']" using sp components_starred [of "spell ?t"] by (auto simp del: take_Suc)
  have io: "index_of (u ''..'') (?t @ [u ''**'']) = Some i"
    using len index_of_append [OF t(2), of "[u ''**'']"] unfolding t(1) by (simp del: take_Suc)
  have tt: "take (Suc i) (?t @ [u ''**'']) = ?t" using len by (simp del: take_Suc)
  have "?t \<noteq> []" unfolding t(1) by simp
  then have "prefix (spell ?t) path"
    using spell_prefix [of ?t "drop (Suc i) (components path)"] spell_components [of path] by (simp del: take_Suc)
  then have m: "\<not> starts_with MEMFD ?g" "\<not> starts_with RUNNER_FILE ?g"
    using False sp(2) starred_marks [OF _ marks_slash(1), of "spell ?t" path]
      starred_marks [OF _ marks_slash(2), of "spell ?t" path]
    by (simp_all add: isRunnerFile_def starts_with_prefix del: take_Suc)
  have "climbGroup ?g (components ?g) = ?g"
    unfolding c using m by (simp add: climbGroup_def isRunnerFile_def io tt del: take_Suc take_append)
  moreover have "climbs ?g" unfolding climbs_def unfoldable_def c by (subst t(1)) simp
  ultimately show ?thesis unfolding g by blast
qed

lemma group_of_idem: "climbs (pathOf k) \<Longrightarrow> group_of (group_of k) = group_of k \<and> climbs (pathOf (group_of k))"
  using climbGroup_idem [of "pathOf k"] by (simp add: group_of_def)

end
