(* ===== verification/FsFoldHeld.thy ===== *)
theory FsFoldHeld
  imports FsFoldKeeps
begin

text \<open>
  What the table of \<^theory_text>\<open>FsFold\<close> holds as accesses are added: each one in a tree, on a line of its
  own, or on the line of its climbing group; and what is left of them as the lines are written out.
\<close>

section \<open>The invariant of a table\<close>

definition in_tree :: "lines \<Rightarrow> access \<Rightarrow> bool" where
  "in_tree s x \<longleftrightarrow>
     (\<exists>roots part rest node. map_of (ln_trees s) (ac_comm x) = Some roots \<and> components (ac_path x) = part # rest \<and>
        map_of roots part = Some node \<and> has_taken node rest x)"

definition on_line :: "lines \<Rightarrow> ustring \<Rightarrow> access \<Rightarrow> bool" where
  "on_line s key x \<longleftrightarrow> some_taken (map_of (ln_climbing s) key) x"

definition own_key :: "access \<Rightarrow> ustring" where
  "own_key x = keyOf (ac_comm x) (ac_path x)"

text \<open>A program run is never on its group's line.\<close>

definition held :: "lines \<Rightarrow> access \<Rightarrow> bool" where
  "held s x \<longleftrightarrow>
     in_tree s x \<or> on_line s (own_key x) x \<or>
     ac_bit x \<noteq> BIT CHR ''X'' \<and> climbs (ac_path x) \<and> on_line s (group_of (own_key x)) x"

text \<open>Keys that may fold into a group's line.\<close>

definition gathers :: "lines \<Rightarrow> ustring \<Rightarrow> ustring list \<Rightarrow> bool" where
  "gathers s g keys \<longleftrightarrow>
     (\<forall>k\<in>set keys. group_of k = g \<and> k \<noteq> g \<and> climbs (pathOf k) \<and>
        (\<forall>a. map_of (ln_climbing s) k = Some a \<longrightarrow> \<not> ran a))"

definition member_keys :: "lines \<Rightarrow> bool" where
  "member_keys s \<longleftrightarrow>
     (\<forall>(g, keys)\<in>set (ln_members s). \<forall>k\<in>set keys. group_of k = g \<and> k \<noteq> g \<and> climbs (pathOf k))"

definition climbing_lines :: "lines \<Rightarrow> bool" where
  "climbing_lines s \<longleftrightarrow> (\<forall>(k, a)\<in>set (ln_climbing s). ran a \<or> climbs (pathOf k))"

definition tight_trees :: "lines \<Rightarrow> bool" where
  "tight_trees s \<longleftrightarrow> (\<forall>(c, roots)\<in>set (ln_trees s). \<forall>(p, node)\<in>set roots. tight node)"

definition lines_ok :: "lines \<Rightarrow> bool" where
  "lines_ok s \<longleftrightarrow>
     member_keys s \<and> climbing_lines s \<and> distinct (map fst (ln_climbing s)) \<and> (ln_loose s \<or> tight_trees s)"

lemma in_tree_cong: "ln_trees s = ln_trees s' \<Longrightarrow> in_tree s x = in_tree s' x"
  by (simp add: in_tree_def)

lemma on_line_cong: "map_of (ln_climbing s) k = map_of (ln_climbing s') k \<Longrightarrow> on_line s k x = on_line s' k x"
  by (simp add: on_line_def)

lemma held_cong: "ln_trees s = ln_trees s' \<Longrightarrow> ln_climbing s = ln_climbing s' \<Longrightarrow> held s x = held s' x"
  by (simp add: held_def in_tree_def on_line_def)

lemma own_key_parts: "0 \<notin> set (ac_comm x) \<Longrightarrow> pathOf (own_key x) = ac_path x \<and> commOf (own_key x) = ac_comm x"
  by (simp add: own_key_def)

section \<open>Groups folded\<close>

lemma map_of_remove: "map_of (filter (\<lambda>(k, _). k \<notin> K) m) k = (if k \<in> K then None else map_of m k)"
  by (induction m) auto

lemma gather_climbing:
  "map_of (ln_climbing (gather o' g keys s)) k =
     (if k = g then Some (fold (\<lambda>key. merge_some (map_of (ln_climbing s) key)) keys
          (case map_of (ln_climbing s) g of None \<Rightarrow> newAgg | Some a \<Rightarrow> a))
      else if k \<in> set keys then None else map_of (ln_climbing s) k)"
  by (simp add: gather_def Let_def omap_update_get map_of_remove split: option.split)

lemma gather_fields [simp]:
  "ln_trees (gather o' g keys s) = ln_trees s" "ln_loose (gather o' g keys s) = ln_loose s"
  "ln_stopped (gather o' g keys s) = ln_stopped s" "ln_dropped (gather o' g keys s) = ln_dropped s"
  "ln_members (gather o' g keys s) = filter (\<lambda>(h, _). h \<noteq> g) (ln_members s)"
  by (simp_all add: gather_def Let_def split: option.split)

lemma gathered_taken:
  assumes "taken acc x \<or> (\<exists>k\<in>set keys. some_taken (map_of m k) x)"
  shows "taken (fold (\<lambda>key. merge_some (map_of m key)) keys acc) x"
proof -
  have "taken (foldr (\<lambda>key. merge_some (map_of m key)) (rev keys) acc) x"
    using assms by (intro foldr_taken) (auto intro: merge_some_taken)
  then show ?thesis by (simp add: foldr_conv_fold)
qed

lemma group_line_taken:
  "some_taken (map_of (ln_climbing s) g) x \<or> (\<exists>k\<in>set keys. some_taken (map_of (ln_climbing s) k) x) \<Longrightarrow>
   on_line (gather o' g keys s) g x"
  by (auto simp: on_line_def gather_climbing intro!: gathered_taken split: option.splits)

lemma bit_X: "bit (BIT CHR ''X'') n \<longleftrightarrow> n = 2"
proof -
  have "BIT CHR ''X'' = push_bit 2 1" by (simp add: BIT_def ORDER_def)
  then show ?thesis by (auto simp: bit_push_bit_iff bit_1_iff simp del: push_bit_of_1)
qed

lemma ran_bit: "ran a \<longleftrightarrow> bit (ag_ok a OR ag_failed a) 2"
proof -
  have "c AND BIT CHR ''X'' = 0 \<longleftrightarrow> \<not> bit c 2" for c :: actions
  proof
    assume z: "c AND BIT CHR ''X'' = 0"
    have "\<not> bit (c AND BIT CHR ''X'') 2" unfolding z by simp
    then show "\<not> bit c 2" by (simp only: bit_and_iff bit_X simp_thms)
  next
    assume z: "\<not> bit c 2"
    have "\<not> bit (c AND BIT CHR ''X'') n" for n using z by (auto simp only: bit_and_iff bit_X)
    then show "c AND BIT CHR ''X'' = 0" by (intro bit_word_eqI) simp
  qed
  then show ?thesis by (simp add: ran_def)
qed

lemma inside_bit: "inside b a \<Longrightarrow> bit b n \<Longrightarrow> bit a n"
proof -
  assume i: "inside b a" and n: "bit b n"
  have l: "n < 32" using bit_imp_le_length [OF n] by simp
  have "\<not> bit (b AND NOT a) n" using i by (simp add: inside_def)
  then show "bit a n" using n l by (simp add: bit_and_iff bit_not_iff)
qed

lemma run_taken: "taken a x \<Longrightarrow> ac_bit x = BIT CHR ''X'' \<Longrightarrow> ran a"
  using inside_bit [of "BIT CHR ''X''" _ 2]
  by (auto simp: taken_def shows_bit_def ran_bit bit_X bit_or_iff split: if_splits)

lemma gather_held:
  assumes "gathers s g keys" and "0 \<notin> set (ac_comm x)" and "held s x"
  shows "held (gather o' g keys s) x"
proof -
  let ?s = "gather o' g keys s"
  note path = own_key_parts [OF assms(2)]
  consider "in_tree s x" | "on_line s (own_key x) x"
    | "ac_bit x \<noteq> BIT CHR ''X''" "climbs (ac_path x)" "on_line s (group_of (own_key x)) x"
    using assms(3) by (auto simp: held_def)
  then show ?thesis
  proof cases
    case 1
    then show ?thesis by (simp add: held_def in_tree_def)
  next
    case 2
    show ?thesis
    proof (cases "own_key x \<in> set keys")
      case True
      then have k: "group_of (own_key x) = g" "climbs (ac_path x)"
        "\<And>a. map_of (ln_climbing s) (own_key x) = Some a \<Longrightarrow> \<not> ran a"
        using assms(1) path by (auto simp: gathers_def)
      have "ac_bit x \<noteq> BIT CHR ''X''"
        using 2 k(3) run_taken by (auto simp: on_line_def some_taken_def)
      moreover have "on_line ?s g x" using 2 True by (intro group_line_taken) (auto simp: on_line_def)
      ultimately show ?thesis using k by (simp add: held_def)
    next
      case False
      then have "on_line ?s (own_key x) x"
        using 2 group_line_taken [of s g x keys o'] by (cases "own_key x = g") (auto simp: on_line_def gather_climbing)
      then show ?thesis by (simp add: held_def)
    qed
  next
    case 3
    have "group_of (own_key x) \<notin> set keys"
    proof
      assume "group_of (own_key x) \<in> set keys"
      then have "group_of (group_of (own_key x)) = g" "group_of (own_key x) \<noteq> g" using assms(1) by (auto simp: gathers_def)
      then show False using group_of_idem [of "own_key x"] 3(2) path by simp
    qed
    then have "on_line ?s (group_of (own_key x)) x"
      using 3(3) group_line_taken [of s g x keys o']
      by (cases "group_of (own_key x) = g") (auto simp: on_line_def gather_climbing)
    then show ?thesis using 3 by (simp add: held_def)
  qed
qed

lemma gather_ok:
  assumes "lines_ok s" and "gathers s g keys" and "climbs (pathOf g)"
  shows "lines_ok (gather o' g keys s)"
proof -
  have "member_keys (gather o' g keys s)" using assms(1) by (auto simp: lines_ok_def member_keys_def)
  moreover have "climbing_lines (gather o' g keys s)"
  proof -
    have "ka \<in> set (ln_climbing (gather o' g keys s)) \<Longrightarrow> ka \<in> set (ln_climbing s) \<or> fst ka = g" for ka
      by (auto simp: gather_def Let_def dest!: omap_update_in split: option.splits)
    then show ?thesis using assms(1,3) by (fastforce simp: lines_ok_def climbing_lines_def)
  qed
  moreover have "distinct (map fst (ln_climbing (gather o' g keys s)))"
  proof -
    have "distinct (map fst (filter (\<lambda>(key, _). key \<notin> set keys) (ln_climbing s)))"
      using assms(1) by (simp add: lines_ok_def distinct_map_filter)
    then show ?thesis by (simp add: gather_def Let_def omap_update_distinct split: option.split)
  qed
  ultimately show ?thesis using assms(1) by (simp add: lines_ok_def tight_trees_def)
qed

text \<open>Groups of keys folded one after another.\<close>

definition groups_ok :: "lines \<Rightarrow> (ustring \<times> ustring list) list \<Rightarrow> bool" where
  "groups_ok s gks \<longleftrightarrow> (\<forall>(g, keys)\<in>set gks. gathers s g keys \<and> climbs (pathOf g))"

lemma gather_gathers:
  assumes "gathers s g keys" and "climbs (pathOf g)" and "gathers s h hkeys" and "group_of g = g"
  shows "gathers (gather o' g keys s) h hkeys"
  using assms(1,3,4) unfolding gathers_def
  by (auto simp: gather_climbing)

lemma loosen_group_fields [simp]:
  "ln_trees (loosen_group o' gk s) = ln_trees s" "ln_loose (loosen_group o' gk s) = ln_loose s"
  "ln_stopped (loosen_group o' gk s) = ln_stopped s" "ln_dropped (loosen_group o' gk s) = ln_dropped s"
  by (simp_all add: loosen_group_def)

lemma loosen_groups:
  assumes "groups_ok s gks" and "\<forall>(g, keys)\<in>set gks. group_of g = g" and "lines_ok s"
  shows "lines_ok (fold (loosen_group o') gks s) \<and>
    (\<forall>x. 0 \<notin> set (ac_comm x) \<longrightarrow> held s x \<longrightarrow> held (fold (loosen_group o') gks s) x) \<and>
    ln_loose (fold (loosen_group o') gks s) = ln_loose s \<and> ln_stopped (fold (loosen_group o') gks s) = ln_stopped s \<and>
    ln_dropped (fold (loosen_group o') gks s) = ln_dropped s"
  using assms
proof (induction gks arbitrary: s)
  case (Cons gk gks)
  obtain g keys where gk: "gk = (g, keys)" by (cases gk)
  have g: "gathers s g keys" "climbs (pathOf g)" "group_of g = g" using Cons.prems by (auto simp: gk groups_ok_def)
  let ?s = "loosen_group o' gk s"
  have "groups_ok ?s gks"
  proof (cases "LOOSE_FANOUT \<le> length keys")
    case True
    then show ?thesis using Cons.prems(1) gather_gathers [OF g(1,2) _ g(3)] by (fastforce simp: gk groups_ok_def loosen_group_def)
  next
    case False
    then show ?thesis using Cons.prems(1) by (auto simp: gk groups_ok_def loosen_group_def gathers_def)
  qed
  moreover have "lines_ok ?s"
  proof (cases "LOOSE_FANOUT \<le> length keys")
    case True
    then show ?thesis using gather_ok [OF Cons.prems(3) g(1,2)] by (simp add: gk loosen_group_def)
  next
    case False
    then show ?thesis using Cons.prems(3) g(1)
      by (auto simp: gk loosen_group_def lines_ok_def member_keys_def climbing_lines_def tight_trees_def gathers_def
          dest!: omap_update_in)
  qed
  moreover have "held ?s x" if "0 \<notin> set (ac_comm x)" "held s x" for x
    using gather_held [OF g(1) that] that(2) held_cong [of ?s s x] by (auto simp: gk loosen_group_def)
  ultimately show ?case using Cons.IH [of ?s] Cons.prems(2) by simp
qed simp

section \<open>A table loosened\<close>

lemma omap_update_from:
  "(k, v) \<in> set (omap_update h f m) \<Longrightarrow>
   (k, v) \<in> set m \<or> k = h \<and> (\<exists>old. v = f old \<and> (\<forall>w. old = Some w \<longrightarrow> (h, w) \<in> set m))"
  by (induction m) (auto split: if_splits)

lemma climbing_groups_from:
  "(g, keys) \<in> set (climbing_groups climbing) \<Longrightarrow>
   keys \<noteq> [] \<and> (\<forall>k\<in>set keys. \<exists>a. (k, a) \<in> set climbing \<and> climbing_group (k, a) = Some g)"
proof (induction climbing arbitrary: g keys rule: rev_induct)
  case Nil
  then show ?case by (simp add: climbing_groups_def)
next
  case (snoc ka climbing)
  obtain k a where ka: "ka = (k, a)" by (cases ka)
  show ?case
  proof (cases "climbing_group ka")
    case None
    then have "climbing_groups (climbing @ [ka]) = climbing_groups climbing" by (simp add: climbing_groups_def)
    then show ?thesis using snoc.IH [of g keys] snoc.prems by fastforce
  next
    case (Some h)
    then have e: "climbing_groups (climbing @ [ka]) =
        omap_update h (\<lambda>had. (case had of None \<Rightarrow> [] | Some keys \<Rightarrow> keys) @ [k]) (climbing_groups climbing)"
      by (simp add: climbing_groups_def ka)
    from snoc.prems consider "(g, keys) \<in> set (climbing_groups climbing)"
      | old where "g = h" "keys = (case old of None \<Rightarrow> [] | Some ks \<Rightarrow> ks) @ [k]"
          "\<forall>ks. old = Some ks \<longrightarrow> (h, ks) \<in> set (climbing_groups climbing)"
      unfolding e by (auto dest!: omap_update_from)
    then show ?thesis
    proof cases
      case 1
      then show ?thesis using snoc.IH [of g keys] by fastforce
    next
      case 2
      then show ?thesis using snoc.IH [of h] Some by (fastforce simp: ka split: option.splits)
    qed
  qed
qed

lemma climbing_groups_ok:
  assumes "lines_ok s"
  shows "groups_ok s (climbing_groups (ln_climbing s))" "\<forall>(g, keys)\<in>set (climbing_groups (ln_climbing s)). group_of g = g"
proof -
  have k: "group_of k = g \<and> k \<noteq> g \<and> climbs (pathOf k) \<and> (\<forall>b. map_of (ln_climbing s) k = Some b \<longrightarrow> \<not> ran b)"
    if "(k, a) \<in> set (ln_climbing s)" "climbing_group (k, a) = Some g" for k a g
  proof -
    have g: "group_of k = g" "\<not> ran a" "g \<noteq> k" using that(2) by (auto simp: climbing_group_def group_of_def Let_def split: if_splits)
    moreover have "climbs (pathOf k)" using assms that(1) g(2) by (auto simp: lines_ok_def climbing_lines_def)
    moreover have "map_of (ln_climbing s) k = Some a" using assms that(1) by (simp add: lines_ok_def)
    ultimately show ?thesis by auto
  qed
  have all: "gathers s g keys \<and> climbs (pathOf g) \<and> group_of g = g"
    if "(g, keys) \<in> set (climbing_groups (ln_climbing s))" for g keys
  proof -
    note src = climbing_groups_from [OF that]
    have ks: "\<forall>k\<in>set keys. group_of k = g \<and> k \<noteq> g \<and> climbs (pathOf k) \<and> (\<forall>b. map_of (ln_climbing s) k = Some b \<longrightarrow> \<not> ran b)"
      using src k by blast
    moreover obtain k where "k \<in> set keys" using src by (cases keys) auto
    ultimately show ?thesis using group_of_idem [of k] by (auto simp: gathers_def)
  qed
  then show "groups_ok s (climbing_groups (ln_climbing s))" "\<forall>(g, keys)\<in>set (climbing_groups (ln_climbing s)). group_of g = g"
    by (auto simp: groups_ok_def)
qed

lemma loosen_trees_get:
  "map_of (loosen_trees o' trees) comm =
     map_option (\<lambda>roots. map (\<lambda>(part, node). (part, loosen_node o' comm [part] node)) roots) (map_of trees comm)"
  unfolding loosen_trees_def by (induction trees) auto

lemma loosen_keeps:
  assumes "lines_ok s" and "\<not> ln_loose s"
  shows "lines_ok (loosen o' s) \<and> (\<forall>x. 0 \<notin> set (ac_comm x) \<longrightarrow> held s x \<longrightarrow> held (loosen o' s) x) \<and>
    ln_stopped (loosen o' s) = ln_stopped s \<and> ln_dropped (loosen o' s) = ln_dropped s \<and> ln_loose (loosen o' s)"
proof -
  define s1 where "s1 = s\<lparr>ln_loose := True, ln_trees := loosen_trees o' (ln_trees s),
      ln_bytes := ln_bytes s + total subtree_bytes (loosen_trees o' (ln_trees s)) - total subtree_bytes (ln_trees s),
      ln_nodes := ln_nodes s + total subtree_nodes (loosen_trees o' (ln_trees s)) - total subtree_nodes (ln_trees s)\<rparr>"
  have l: "loosen o' s = fold (loosen_group o') (climbing_groups (ln_climbing s1)) s1"
    by (simp add: loosen_def s1_def Let_def)
  have ok: "lines_ok s1" using assms(1) by (simp add: s1_def lines_ok_def member_keys_def climbing_lines_def)
  have tree: "in_tree s1 x" if "in_tree s x" for x
  proof -
    from that obtain roots part rest node where n: "map_of (ln_trees s) (ac_comm x) = Some roots"
      "components (ac_path x) = part # rest" "map_of roots part = Some node" "has_taken node rest x"
      by (auto simp: in_tree_def)
    have "tight node"
      using assms map_of_SomeD [OF n(1)] map_of_SomeD [OF n(3)] by (fastforce simp: lines_ok_def tight_trees_def)
    from loosen_node_keeps [OF this n(4)] show ?thesis
      using n by (auto simp: in_tree_def s1_def loosen_trees_get map_of_map_pair)
  qed
  have "held s1 x" if "held s x" for x
    using that tree [of x] by (auto simp: held_def on_line_def s1_def)
  then show ?thesis
    using loosen_groups [OF climbing_groups_ok(1) climbing_groups_ok(2) ok, OF ok ok, of o']
    by (auto simp: l s1_def)
qed

lemma count_keeps:
  assumes "lines_ok s"
  shows "lines_ok (count_bytes o' n s) \<and> (\<forall>x. 0 \<notin> set (ac_comm x) \<longrightarrow> held s x \<longrightarrow> held (count_bytes o' n s) x) \<and>
    ln_stopped (count_bytes o' n s) = ln_stopped s \<and> ln_dropped (count_bytes o' n s) = ln_dropped s"
proof -
  let ?s = "s\<lparr>ln_bytes := ln_bytes s + n\<rparr>"
  have "lines_ok ?s" using assms by (simp add: lines_ok_def member_keys_def climbing_lines_def tight_trees_def)
  moreover have "held ?s x = held s x" for x by (rule held_cong) simp_all
  ultimately show ?thesis using loosen_keeps [of ?s o'] by (auto simp: count_bytes_def Let_def)
qed

section \<open>An access added\<close>

text \<open>A state that keeps what another held, and stays sound.\<close>

definition keeps :: "lines \<Rightarrow> lines \<Rightarrow> bool" where
  "keeps s s' \<longleftrightarrow>
     lines_ok s' \<and> (\<forall>x. 0 \<notin> set (ac_comm x) \<longrightarrow> held s x \<longrightarrow> held s' x) \<and> ln_stopped s' = ln_stopped s \<and>
     (ln_dropped s \<longrightarrow> ln_dropped s')"

lemma keeps_refl: "lines_ok s \<Longrightarrow> keeps s s"
  by (simp add: keeps_def)

lemma keeps_trans: "keeps s s' \<Longrightarrow> keeps s' s'' \<Longrightarrow> keeps s s''"
  by (auto simp: keeps_def)

lemma keeps_count: "lines_ok s \<Longrightarrow> keeps s (count_bytes o' n s)"
  using count_keeps [of s o' n] by (simp add: keeps_def)

text \<open>A line of its own that takes an access.\<close>

lemma keeps_line:
  fixes x :: access
  assumes "lines_ok s" and "map_of (ln_climbing s) key = Some a"
  defines "s' \<equiv> s\<lparr>ln_climbing := omap_update key (\<lambda>_. apply_access a x) (ln_climbing s)\<rparr>"
  shows "keeps s s'" and "on_line s' key x"
proof -
  have get: "map_of (ln_climbing s') k = (if k = key then Some (apply_access a x) else map_of (ln_climbing s) k)" for k
    by (simp add: s'_def omap_update_get)
  have line: "on_line s' k y" if "on_line s k y" for k y
    using that assms(2) by (cases "k = key") (auto simp: on_line_def get taken_apply_other)
  have "held s' y" if "held s y" for y
    using that line by (auto simp: held_def in_tree_def s'_def)
  moreover have "ran (apply_access a x) \<or> climbs (pathOf key)"
  proof -
    have "ran a \<or> climbs (pathOf key)" using assms(1) map_of_SomeD [OF assms(2)] by (auto simp: lines_ok_def climbing_lines_def)
    moreover have "ran a \<Longrightarrow> ran (apply_access a x)" by (auto simp: ran_bit apply_fields bit_or_iff)
    ultimately show ?thesis by blast
  qed
  then have "lines_ok s'"
    using assms(1) by (auto simp: lines_ok_def s'_def member_keys_def tight_trees_def climbing_lines_def omap_update_distinct
        dest!: omap_update_in)
  ultimately show "keeps s s'" by (simp add: keeps_def s'_def)
  show "on_line s' key x" by (simp add: on_line_def get taken_apply)
qed

lemma keeps_new_line:
  fixes x :: access
  assumes "lines_ok s" and "map_of (ln_climbing s) key = None" and "ac_bit x = BIT CHR ''X'' \<or> climbs (pathOf key)"
  defines "s' \<equiv> s\<lparr>ln_climbing := ln_climbing s @ [(key, apply_access newAgg x)]\<rparr>"
  shows "keeps s s'" and "on_line s' key x"
proof -
  have get: "map_of (ln_climbing s') k = (if k = key then Some (apply_access newAgg x) else map_of (ln_climbing s) k)" for k
    using assms(2) by (auto simp: s'_def map_add_def split: option.splits)
  have line: "on_line s' k y" if "on_line s k y" for k y
    using that assms(2) by (cases "k = key") (auto simp: on_line_def get)
  have "held s' y" if "held s y" for y
    using that line by (auto simp: held_def in_tree_def s'_def)
  moreover have "lines_ok s'"
    using assms(1,2,3) run_taken [OF taken_apply [of newAgg x]]
    by (auto simp: lines_ok_def s'_def member_keys_def tight_trees_def climbing_lines_def map_of_eq_None_iff)
  ultimately show "keeps s s'" by (simp add: keeps_def s'_def)
  show "on_line s' key x" by (simp add: on_line_def get taken_apply)
qed

lemma climb_into_keeps:
  assumes "lines_ok s" and "0 \<notin> set (ac_comm x)" and "climbs (ac_path x)" and "map_of (ln_climbing s) (own_key x) = None"
    and "climb_into o' x (components (ac_path x)) (own_key x) s = (key, s')"
  shows "keeps s s' \<and> (key = own_key x \<or> key = group_of (own_key x))"
proof -
  let ?g = "group_of (own_key x)"
  note path = own_key_parts [OF assms(2)]
  have g: "keyOf (ac_comm x) (climbGroup (ac_path x) (components (ac_path x))) = ?g"
    by (simp add: group_of_def path)
  note idem = group_of_idem [of "own_key x", unfolded conjunct1 [OF path], OF assms(3)]
  define keys where "keys = filter (\<lambda>k. \<not> (case map_of (ln_climbing s) k of None \<Rightarrow> False | Some a \<Rightarrow> ran a))
      (case map_of (ln_members s) ?g of None \<Rightarrow> [] | Some ks \<Rightarrow> ks)"
  have ks: "\<forall>k\<in>set keys. group_of k = ?g \<and> k \<noteq> ?g \<and> climbs (pathOf k)"
  proof
    fix k assume "k \<in> set keys"
    then obtain ms where m: "map_of (ln_members s) ?g = Some ms" "k \<in> set ms"
      by (cases "map_of (ln_members s) ?g") (auto simp: keys_def)
    have "member_keys s" using assms(1) by (simp add: lines_ok_def)
    from bspec [OF this [unfolded member_keys_def] map_of_SomeD [OF m(1)]] m(2)
    show "group_of k = ?g \<and> k \<noteq> ?g \<and> climbs (pathOf k)" by simp
  qed
  have gs: "gathers s ?g keys" using ks by (auto simp: gathers_def keys_def)
  have members: "keeps s (s\<lparr>ln_members := omap_update ?g (\<lambda>_. keys @ [own_key x]) (ln_members s)\<rparr>)" if "?g \<noteq> own_key x"
  proof -
    have "member_keys (s\<lparr>ln_members := omap_update ?g (\<lambda>_. keys @ [own_key x]) (ln_members s)\<rparr>)"
      using assms(1,3) ks that path by (auto simp: member_keys_def lines_ok_def dest!: omap_update_in)
    then have "lines_ok (s\<lparr>ln_members := omap_update ?g (\<lambda>_. keys @ [own_key x]) (ln_members s)\<rparr>)"
      using assms(1) by (simp add: lines_ok_def climbing_lines_def tight_trees_def)
    moreover have "held (s\<lparr>ln_members := omap_update ?g (\<lambda>_. keys @ [own_key x]) (ln_members s)\<rparr>) y = held s y" for y
      by (rule held_cong) simp_all
    ultimately show ?thesis by (simp add: keeps_def)
  qed
  have gather: "keeps s (gather o' ?g keys s)"
    using gather_ok [OF assms(1) gs conjunct2 [OF idem]] gather_held [OF gs] by (simp add: keeps_def)
  show ?thesis
    using assms(5) members gather keeps_refl [OF assms(1)]
    unfolding climb_into_def Let_def g keys_def [symmetric] by (auto split: if_splits)
qed

lemma stop_lines_stopped [simp]: "ln_stopped (stop_lines c s) = Some c"
  by (simp add: stop_lines_def)

text \<open>What an addition comes to: it stops the table, or keeps all it held and holds the access too,
  or says it dropped it.\<close>

definition adds :: "access \<Rightarrow> lines \<Rightarrow> lines \<Rightarrow> bool" where
  "adds x s s' \<longleftrightarrow> ln_stopped s' \<noteq> None \<or> keeps s s' \<and> (held s' x \<or> ln_dropped s')"

lemma add_climbing_adds:
  assumes "lines_ok s" and "0 \<notin> set (ac_comm x)" and "ac_bit x = BIT CHR ''X'' \<or> climbs (ac_path x)"
  shows "adds x s (add_climbing o' x (components (ac_path x)) s)"
proof -
  let ?parts = "components (ac_path x)"
  obtain key s1 where c: "(if map_of (ln_climbing s) (own_key x) = None \<and> ln_loose s \<and> ac_bit x \<noteq> BIT CHR ''X''
      then climb_into o' x ?parts (own_key x) s else (own_key x, s)) = (key, s1)" by fastforce
  have k: "keeps s s1 \<and> (key = own_key x \<or> key = group_of (own_key x) \<and> ac_bit x \<noteq> BIT CHR ''X'')"
    using c climb_into_keeps [OF assms(1,2)] keeps_refl [OF assms(1)] assms(3) by (auto split: if_splits)
  have climbs: "ac_bit x = BIT CHR ''X'' \<or> climbs (pathOf key)"
    using k assms(3) own_key_parts [OF assms(2)] group_of_idem [of "own_key x"] by auto
  have held: "held s' x" if "on_line s' key x" for s'
    using that k assms(3) by (auto simp: held_def)
  have ok: "lines_ok s1" using k by (simp add: keeps_def)
  have def: "add_climbing o' x ?parts s =
      (case map_of (ln_climbing s1) key of
        Some a \<Rightarrow> s1\<lparr>ln_climbing := omap_update key (\<lambda>_. apply_access a x) (ln_climbing s1)\<rparr>
      | None \<Rightarrow>
          if lines_full o' s1 then s1\<lparr>ln_dropped := True\<rparr>
          else
            (let s2 = count_bytes o' (lo_rowBytes o' (pathOf key) (ac_comm x) None)
                   (s1\<lparr>ln_climbing := ln_climbing s1 @ [(key, apply_access newAgg x)]\<rparr>);
                 s3 = s2\<lparr>ln_nodes := ln_nodes s2 + 1\<rparr> in
             if lo_nodes o' < ln_nodes s3 then stop_lines Paths s3 else s3))"
    unfolding add_climbing_def own_key_def [symmetric] Let_def c by simp
  show ?thesis
  proof (cases "map_of (ln_climbing s1) key")
    case (Some a)
    note line = keeps_line [OF ok Some, of x]
    show ?thesis unfolding def Some adds_def using keeps_trans [OF conjunct1 [OF k] line(1)] held [OF line(2)] by simp
  next
    case None
    let ?n = "s1\<lparr>ln_climbing := ln_climbing s1 @ [(key, apply_access newAgg x)]\<rparr>"
    note line = keeps_new_line [OF ok None climbs]
    have n: "keeps s ?n" "held ?n x" using keeps_trans [OF conjunct1 [OF k] line(1)] held [OF line(2)] by simp_all
    let ?c = "count_bytes o' (lo_rowBytes o' (pathOf key) (ac_comm x) None) ?n"
    have "keeps ?n ?c" using n(1) by (intro keeps_count) (simp add: keeps_def)
    then have c: "keeps s ?c" "held ?c x" using n assms(2) keeps_trans by (blast, simp add: keeps_def)
    have same: "held (?c\<lparr>ln_nodes := m\<rparr>) y = held ?c y" "lines_ok (?c\<lparr>ln_nodes := m\<rparr>) = lines_ok ?c" for m y
      by (rule held_cong; simp) (simp add: lines_ok_def member_keys_def climbing_lines_def tight_trees_def)
    have d: "keeps s (s1\<lparr>ln_dropped := True\<rparr>)"
      using k held_cong [of "s1\<lparr>ln_dropped := True\<rparr>" s1]
      by (simp add: keeps_def lines_ok_def member_keys_def climbing_lines_def tight_trees_def)
    show ?thesis
      unfolding def None using c d same by (auto simp: adds_def keeps_def Let_def)
  qed
qed

lemma keeps_roots:
  assumes "lines_ok s" and "ln_trees s' = omap_update comm (\<lambda>_. roots') (ln_trees s)"
    and "ln_climbing s' = ln_climbing s" "ln_members s' = ln_members s" "ln_loose s' = ln_loose s"
    and "ln_stopped s' = ln_stopped s" "ln_dropped s' = ln_dropped s"
    and "ln_loose s \<or> (\<forall>(p, node)\<in>set roots'. tight node)"
    and "\<And>p node. \<exists>roots. map_of (ln_trees s) comm = Some roots \<and> map_of roots p = Some node \<Longrightarrow>
      \<exists>node'. map_of roots' p = Some node' \<and> (\<forall>ps y. has_taken node ps y \<longrightarrow> has_taken node' ps y)"
  shows "keeps s s'"
proof -
  have "lines_ok s'"
    using assms(1-8) by (auto simp: lines_ok_def member_keys_def climbing_lines_def tight_trees_def dest!: omap_update_in)
  moreover have "in_tree s' y" if y: "in_tree s y" for y
  proof -
    from y obtain roots part rest node where n: "map_of (ln_trees s) (ac_comm y) = Some roots"
      "components (ac_path y) = part # rest" "map_of roots part = Some node" "has_taken node rest y"
      by (auto simp: in_tree_def)
    show ?thesis
    proof (cases "ac_comm y = comm")
      case True
      then obtain node' where "map_of roots' part = Some node'" "has_taken node' rest y"
        using assms(9) [of part node] n by auto
      then show ?thesis using True n(2) by (auto simp: in_tree_def assms(2) omap_update_get)
    next
      case False
      then show ?thesis using n by (auto simp: in_tree_def assms(2) omap_update_get)
    qed
  qed
  ultimately show ?thesis using assms(3,6,7) by (auto simp: keeps_def held_def on_line_def)
qed

lemma components_ne: "components p \<noteq> []"
  by (simp add: components_def)

lemma walk_root_takes:
  assumes "walk_root o' x part rest roots s = Walked node nodes"
    and "ln_loose s \<or> (\<forall>(p, node)\<in>set roots. tight node)"
  shows "has_taken node rest x" and "ln_loose s \<or> tight node"
    and "map_of roots part = Some old \<Longrightarrow> has_taken old ps y \<Longrightarrow> has_taken node ps y"
proof -
  obtain start m where v: "visit o' (ln_loose s) (lines_full o' s) x [part] rest True start m = Walked node nodes"
    "map_of roots part = Some start \<or> map_of roots part = None \<and> start = new_node o' [part]"
    using assms(1) by (auto simp: walk_root_def split: option.splits if_splits)
  have w: "walk_takes x rest start (Walked node nodes)" using visit_takes [of x rest start o' _ _ "[part]" True m] v(1) by metis
  then show "has_taken node rest x" by (simp add: walk_takes_def)
  show "map_of roots part = Some old \<Longrightarrow> has_taken old ps y \<Longrightarrow> has_taken node ps y"
    using w v(2) by (auto simp: walk_takes_def)
  show "ln_loose s \<or> tight node"
  proof (cases "ln_loose s")
    case False
    then have "tight start" using v(2) assms(2) map_of_SomeD [of roots part start] by (auto simp: new_node_def)
    from visit_tight [OF this] show ?thesis using v(1) False by (metis walk_tight_def walk.case(3))
  qed simp
qed

lemma add_tree_adds:
  assumes "lines_ok s" and "0 \<notin> set (ac_comm x)"
  shows "adds x s (add_tree o' x (components (ac_path x)) s)"
proof -
  obtain part rest where p: "components (ac_path x) = part # rest" using components_ne by (cases "components (ac_path x)") auto
  define roots where "roots = (case map_of (ln_trees s) (ac_comm x) of None \<Rightarrow> [] | Some r \<Rightarrow> r)"
  define s0 where "s0 = s\<lparr>ln_trees := omap_update (ac_comm x) (\<lambda>_. roots) (ln_trees s)\<rparr>"
  have tight: "ln_loose s \<or> (\<forall>(p, node)\<in>set roots. tight node)"
    using assms(1) map_of_SomeD [of "ln_trees s" "ac_comm x"]
    by (cases "map_of (ln_trees s) (ac_comm x)") (fastforce simp: roots_def lines_ok_def tight_trees_def)+
  have k0: "keeps s s0"
    by (rule keeps_roots [OF assms(1), where roots' = roots and comm = "ac_comm x"])
      (use tight in \<open>auto simp: s0_def roots_def split: option.splits\<close>)
  have r0: "map_of (ln_trees s0) (ac_comm x) = Some roots" by (simp add: s0_def omap_update_get)
  have def: "add_tree o' x (components (ac_path x)) s =
      (case walk_root o' x part rest roots s0 of
         Stop \<Rightarrow> stop_lines Paths s0
       | Turned_away \<Rightarrow> s0\<lparr>ln_dropped := True\<rparr>
       | Walked node nodes \<Rightarrow>
           count_bytes o' (subtree_bytes node - (case map_of roots part of None \<Rightarrow> 0 | Some old \<Rightarrow> subtree_bytes old))
             (s0\<lparr>ln_trees := omap_update (ac_comm x) (\<lambda>_. omap_update part (\<lambda>_. node) roots) (ln_trees s0), ln_nodes := nodes\<rparr>))"
    unfolding add_tree_def p list.case roots_def [symmetric] Let_def s0_def [symmetric] by (rule refl)
  have ok0: "lines_ok s0" using k0 by (simp add: keeps_def)
  show ?thesis
  proof (cases "walk_root o' x part rest roots s0")
    case Stop
    then show ?thesis by (simp add: def adds_def)
  next
    case Turned_away
    have "keeps s (s0\<lparr>ln_dropped := True\<rparr>)"
      using k0 held_cong [of "s0\<lparr>ln_dropped := True\<rparr>" s0]
      by (simp add: keeps_def lines_ok_def member_keys_def climbing_lines_def tight_trees_def)
    then show ?thesis using Turned_away by (simp add: def adds_def)
  next
    case (Walked node nodes)
    have tight0: "ln_loose s0 \<or> (\<forall>(p, node)\<in>set roots. tight node)" using tight by (simp add: s0_def)
    note w = walk_root_takes [OF Walked tight0]
    let ?s = "s0\<lparr>ln_trees := omap_update (ac_comm x) (\<lambda>_. omap_update part (\<lambda>_. node) roots) (ln_trees s0), ln_nodes := nodes\<rparr>"
    have k1: "keeps s0 ?s"
    proof (rule keeps_roots [OF ok0, where roots' = "omap_update part (\<lambda>_. node) roots" and comm = "ac_comm x"])
      show "ln_loose s0 \<or> (\<forall>(p, node)\<in>set (omap_update part (\<lambda>_. node) roots). tight node)"
        using tight0 w(2) by (auto dest!: omap_update_in)
    next
      fix q old assume "\<exists>rs. map_of (ln_trees s0) (ac_comm x) = Some rs \<and> map_of rs q = Some old"
      then have "map_of roots q = Some old" by (simp add: r0)
      then show "\<exists>node'. map_of (omap_update part (\<lambda>_. node) roots) q = Some node' \<and>
          (\<forall>ps y. has_taken old ps y \<longrightarrow> has_taken node' ps y)"
        using w(3) by (auto simp: omap_update_get)
    qed simp_all
    have h: "held ?s x" using w(1) p by (auto simp: held_def in_tree_def omap_update_get)
    have c: "keeps ?s (count_bytes o' n ?s)" for n using k1 by (intro keeps_count) (simp add: keeps_def)
    then have "held (count_bytes o' n ?s) x" for n using h assms(2) by (auto simp: keeps_def)
    then have "keeps s (count_bytes o' n ?s) \<and> held (count_bytes o' n ?s) x" for n
      using keeps_trans [OF keeps_trans [OF k0 k1] c] by blast
    then show ?thesis using Walked by (simp add: def adds_def)
  qed
qed

lemma lines_add_adds:
  assumes "lines_ok s" and "0 \<notin> set (ac_comm x)" and "ac_bit x \<noteq> 0"
  shows "adds x s (lines_add o' x (components (ac_path x)) s)"
proof (cases "ln_stopped s \<noteq> None")
  case True
  then show ?thesis by (simp add: lines_add_def adds_def)
next
  case False
  then show ?thesis
    using add_climbing_adds [OF assms(1,2)] add_tree_adds [OF assms(1,2)] assms(3)
    by (auto simp: lines_add_def climbs_def)
qed

text \<open>A table after some accesses, each with the components of its path.\<close>

definition lines_after :: "lines_options \<Rightarrow> access list \<Rightarrow> lines" where
  "lines_after o' xs = fold (\<lambda>x. lines_add o' x (components (ac_path x))) xs newLines"

lemma lines_after_snoc: "lines_after o' (xs @ [x]) = lines_add o' x (components (ac_path x)) (lines_after o' xs)"
  by (simp add: lines_after_def)

lemma lines_add_none: "ac_bit x = 0 \<Longrightarrow> lines_add o' x parts s = s"
  by (simp add: lines_add_def)

lemma lines_add_stopped: "ln_stopped s \<noteq> None \<Longrightarrow> lines_add o' x parts s = s"
  by (simp add: lines_add_def)

lemma lines_after_held:
  "\<forall>x\<in>set xs. 0 \<notin> set (ac_comm x) \<Longrightarrow>
   ln_stopped (lines_after o' xs) \<noteq> None \<or>
   lines_ok (lines_after o' xs) \<and>
   (\<forall>x\<in>set xs. ac_bit x \<noteq> 0 \<longrightarrow> held (lines_after o' xs) x \<or> ln_dropped (lines_after o' xs))"
proof (induction xs rule: rev_induct)
  case Nil
  then show ?case
    by (simp add: lines_after_def newLines_def lines_ok_def member_keys_def climbing_lines_def tight_trees_def)
next
  case (snoc x xs)
  show ?case
  proof (cases "ln_stopped (lines_after o' xs) \<noteq> None")
    case True
    then show ?thesis by (simp add: lines_after_snoc lines_add_stopped)
  next
    case False
    with snoc have ih: "lines_ok (lines_after o' xs)"
      "\<forall>y\<in>set xs. ac_bit y \<noteq> 0 \<longrightarrow> held (lines_after o' xs) y \<or> ln_dropped (lines_after o' xs)" by auto
    show ?thesis
    proof (cases "ac_bit x = 0")
      case True
      then show ?thesis using ih by (simp add: lines_after_snoc lines_add_none)
    next
      case nonzero: False
      have "adds x (lines_after o' xs) (lines_after o' (xs @ [x]))"
        using lines_add_adds [OF ih(1) _ nonzero, of o'] snoc.prems by (simp add: lines_after_snoc)
      then show ?thesis using ih(2) snoc.prems by (auto simp: adds_def keeps_def)
    qed
  qed
qed

end
