(* ===== verification/FsFoldLines.thy ===== *)
theory FsFoldLines
  imports FsFoldHeld
begin

text \<open>
  The lines a table of \<^theory_text>\<open>FsFold\<close> writes out: each access it holds shows on one that stands for
  its path, but that the line of a directory that is only walked to the lines below it is left out
  where the table says so.
\<close>

section \<open>The lines of a tree\<close>

definition in_flags :: "agg \<Rightarrow> nat \<Rightarrow> bool" where
  "in_flags a n \<longleftrightarrow> bit (flagBits a) n"

lemma in_flags_bits: "in_flags a n \<longleftrightarrow> bit (ag_ok a) n \<or> bit (ag_failed a) n"
  by (simp add: in_flags_def flagBits_def bit_or_iff)

definition in_some :: "agg option \<Rightarrow> nat \<Rightarrow> bool" where
  "in_some a n \<longleftrightarrow> bit (own_bits a) n"

lemma in_some_simps [simp]: "\<not> in_some None n" "in_some (Some a) n \<longleftrightarrow> in_flags a n"
  by (simp_all add: in_some_def own_bits_def in_flags_def)

lemma taken_flags: "taken a x \<Longrightarrow> bit (ac_bit x) n \<Longrightarrow> in_flags a n"
  using inside_bit by (auto simp: taken_def shows_bit_def in_flags_bits split: if_splits)

lemma nonzero_bit: "(b :: actions) \<noteq> 0 \<Longrightarrow> \<exists>n. bit b n"
  using bit_word_eqI [of b 0] by auto

lemma flags_nonzero: "in_flags a n \<Longrightarrow> flagBits a \<noteq> 0"
  by (auto simp: in_flags_def)

lemma taken_nonzero: "taken a x \<Longrightarrow> ac_bit x \<noteq> 0 \<Longrightarrow> flagBits a \<noteq> 0"
  using nonzero_bit taken_flags flags_nonzero by metis

lemma merge_flags: "in_flags (mergeAgg a b) n \<longleftrightarrow> in_flags a n \<or> in_flags b n"
  by (auto simp: in_flags_bits merge_fields bit_or_iff)

lemma merge_some_flags: "in_flags (merge_some a acc) n \<longleftrightarrow> in_some a n \<or> in_flags acc n"
  by (auto simp: merge_some_def merge_flags split: option.split)

lemma foldr_flags: "in_flags acc n \<or> (\<exists>k\<in>set ks. \<forall>acc. in_flags (f k acc) n) \<Longrightarrow>
   (\<And>k acc. k \<in> set ks \<Longrightarrow> in_flags acc n \<Longrightarrow> in_flags (f k acc) n) \<Longrightarrow> in_flags (foldr f ks acc) n"
  by (induction ks) auto

lemma foldl_or_bit: "bit (foldl (\<lambda>b k. b OR f k) b ks) n \<longleftrightarrow> bit b n \<or> (\<exists>k\<in>set ks. bit (f k :: actions) n)"
  by (induction ks arbitrary: b) (auto simp: bit_or_iff)

text \<open>The flags of a subtree: those of the node's own line, of what it folded, and those below.\<close>

definition in_subtree :: "fnode \<Rightarrow> nat \<Rightarrow> bool" where
  "in_subtree node n \<longleftrightarrow> in_some (nd_own node) n \<or> in_some (nd_folded node) n \<or> bit (below_bits node) n"

lemma below_bits_kids:
  "bit (below_bits (FNode kids own folded kept bytes)) n \<longleftrightarrow> in_some folded n \<or> (\<exists>(p, kid)\<in>set kids. in_subtree kid n)"
proof -
  have e: "foldl (\<lambda>b (_, kid). b OR below_bits kid OR own_bits (nd_own kid) OR own_bits (nd_folded kid)) c kids =
      foldl (\<lambda>b k. b OR (below_bits (snd k) OR own_bits (nd_own (snd k)) OR own_bits (nd_folded (snd k)))) c kids" for c
    by (rule foldl_cong) (auto simp: or.assoc)
  show ?thesis
    unfolding below_bits.simps e foldl_or_bit
    by (auto simp: in_subtree_def in_some_def bit_or_iff case_prod_beta)
qed

lemma merge_subtree_flags: "in_flags acc n \<or> in_subtree node n \<Longrightarrow> in_flags (merge_subtree node acc) n"
proof (induction node acc rule: merge_subtree.induct)
  case (1 kids own folded kept bytes acc)
  let ?acc = "merge_some folded (merge_some own acc)"
  have kid: "in_flags acc' n \<or> in_subtree (snd k) n \<Longrightarrow> in_flags ((\<lambda>(_, kid). merge_subtree kid) k acc') n"
    if "k \<in> set kids" for k acc'
    using "1.IH" [of k "fst k" "snd k"] that by (cases k) auto
  have "in_flags ?acc n \<or> (\<exists>k\<in>set kids. in_subtree (snd k) n)"
    using "1.prems" unfolding in_subtree_def [of "FNode kids own folded kept bytes"] below_bits_kids merge_some_flags
    by (auto simp: case_prod_beta)
  then have "in_flags ?acc n \<or> (\<exists>k\<in>set kids. \<forall>acc. in_flags ((\<lambda>(_, kid). merge_subtree kid) k acc) n)"
    using kid by blast
  then have "in_flags (foldr (\<lambda>(_, kid). merge_subtree kid) kids ?acc) n" by (rule foldr_flags) (rule kid, simp_all)
  then show ?case by simp
qed

text \<open>The lines at and below a directory.\<close>

definition at_or_below :: "ustring list \<Rightarrow> ustring \<Rightarrow> bool" where
  "at_or_below parts line \<longleftrightarrow> (\<exists>qs. line = spell (parts @ qs) \<or> line = starred (spell (parts @ qs)))"

lemma at_or_below_more: "at_or_below (parts @ qs) line \<Longrightarrow> at_or_below parts line"
  unfolding at_or_below_def append_assoc by blast

lemma at_or_below_self: "at_or_below parts (spell parts)" "at_or_below parts (starred (spell parts))"
  unfolding at_or_below_def by (metis append_Nil2)+

text \<open>Every flag in a subtree shows on one of its lines.\<close>

lemma tree_lines_flags:
  "in_subtree node n \<Longrightarrow>
   \<exists>(line, a)\<in>set (tree_lines fanout showWalked pre node). in_flags a n \<and> at_or_below pre line"
proof (induction fanout showWalked pre node rule: tree_lines.induct)
  case (1 fanout showWalked pre kids own folded kept bytes)
  let ?node = "FNode kids own folded kept bytes"
  let ?lines = "tree_lines fanout showWalked pre ?node"
  let ?ownLine = "if walked ?node then [] else own_lines pre own"
  let ?folds = "kids \<noteq> [] \<and> \<not> kept \<and> fanout \<le> childCount kids + length ?ownLine"
  consider "in_some folded n" | "?folds" "\<not> in_some folded n" | "\<not> ?folds" "\<not> in_some folded n" by blast
  then show ?case
  proof cases
    case 1
    then obtain a where a: "folded = Some a" "in_flags a n" by (cases folded) auto
    then have "(starred (spell pre), a) \<in> set ?lines" using flags_nonzero by (simp add: folded_lines_def Let_def)
    then show ?thesis using a at_or_below_self by force
  next
    case 2
    have "(starred (spell pre), treeAgg ?node) \<in> set ?lines"
      unfolding tree_lines.simps Let_def if_P [OF 2(1)] by simp
    moreover have "in_flags (treeAgg ?node) n"
      unfolding treeAgg_def by (rule merge_subtree_flags) (simp only: "1.prems" simp_thms)
    ultimately show ?thesis using at_or_below_self by force
  next
    case 3
    have ls: "set (own_lines pre own) \<subseteq> set ?lines" if "showWalked \<or> \<not> walked ?node"
      unfolding tree_lines.simps Let_def if_not_P [OF 3(1)] using that by auto
    have ks: "set (tree_lines fanout showWalked (pre @ [part]) kid) \<subseteq> set ?lines" if "(part, kid) \<in> set kids" for part kid
      unfolding tree_lines.simps Let_def if_not_P [OF 3(1)] using that by fastforce
    have below: ?thesis if b: "bit (below_bits ?node) n"
    proof -
      obtain part kid where k: "(part, kid) \<in> set kids" "in_subtree kid n" using b 3(2) unfolding below_bits_kids by blast
      have "\<exists>(line, a)\<in>set (tree_lines fanout showWalked (pre @ [part]) kid). in_flags a n \<and> at_or_below (pre @ [part]) line"
        using "1.IH" [OF refl refl refl _ k(1) refl k(2)] 3(1) by (auto simp: Let_def)
      then show ?thesis using ks [OF k(1)] at_or_below_more by blast
    qed
    show ?thesis
    proof (cases "in_some own n \<and> \<not> bit (below_bits ?node) n")
      case True
      then obtain a where a: "own = Some a" "in_flags a n" by (cases own) auto
      have "\<not> walked ?node"
      proof
        assume "walked ?node"
        then have "inside (flagBits a) (below_bits ?node)" by (simp add: walked_def a(1) inside_def)
        from inside_bit [OF this] a(2) True show False by (simp add: in_flags_def)
      qed
      then have "(spell pre, a) \<in> set ?lines" using ls a flags_nonzero by (auto simp: own_lines_def)
      then show ?thesis using a(2) at_or_below_self by force
    next
      case False
      then show ?thesis using below "1.prems" 3(2) by (auto simp: in_subtree_def)
    qed
  qed
qed

section \<open>The line of an access\<close>

text \<open>A line stands for a path that it is, or that is in the directory or group it folds.\<close>

definition stands_for :: "ustring \<Rightarrow> ustring \<Rightarrow> bool" where
  "stands_for line path \<longleftrightarrow>
     line = path \<or> (\<exists>k. line = starred (spell (take (Suc k) (components path)))) \<or> starts_with MEMFD path \<and> line = MEMFDS"

text \<open>An access shows where a line that stands for its path has taken it, or where it is a walk: not
  refused, and each of its actions on a line at or below its path.\<close>

definition shows_access :: "(ustring \<times> agg) set \<Rightarrow> access \<Rightarrow> bool" where
  "shows_access ls x \<longleftrightarrow> (\<exists>(line, a)\<in>ls. stands_for line (ac_path x) \<and> taken a x)"

definition shows_walk :: "(ustring \<times> agg) set \<Rightarrow> access \<Rightarrow> bool" where
  "shows_walk ls x \<longleftrightarrow>
     \<not> (ac_failed x \<and> ac_perm x) \<and>
     (\<forall>n. bit (ac_bit x) n \<longrightarrow> (\<exists>(line, a)\<in>ls. at_or_below (components (ac_path x)) line \<and> in_flags a n))"

definition node_folds :: "nat \<Rightarrow> ustring list \<Rightarrow> fnode \<Rightarrow> bool" where
  "node_folds fanout pre node \<longleftrightarrow>
     nd_kids node \<noteq> [] \<and> \<not> nd_kept node \<and>
     fanout \<le> childCount (nd_kids node) + length (if walked node then [] else own_lines pre (nd_own node))"

lemma tree_lines_eq:
  "tree_lines fanout showWalked pre node =
     folded_lines pre (nd_folded node) @
     (if node_folds fanout pre node then [(starred (spell pre), treeAgg node)]
      else (if showWalked \<or> \<not> walked node then own_lines pre (nd_own node) else []) @
        concat (map (\<lambda>(part, kid). tree_lines fanout showWalked (pre @ [part]) kid) (nd_kids node)))"
proof (cases node)
  case (FNode kids own folded kept bytes)
  define w where "w = walked (FNode kids own folded kept bytes)"
  show ?thesis
    unfolding FNode tree_lines.simps Let_def node_folds_def fnode.sel w_def [symmetric] by (cases w) simp_all
qed

lemma stands_for_dir: "components path = pre @ rest \<Longrightarrow> pre \<noteq> [] \<Longrightarrow> stands_for (starred (spell pre)) path"
proof -
  assume c: "components path = pre @ rest" "pre \<noteq> []"
  then have "take (Suc (length pre - 1)) (components path) = pre" by (cases pre) auto
  then show ?thesis unfolding stands_for_def by metis
qed

lemma shows_access_mono: "shows_access ls x \<Longrightarrow> ls \<subseteq> ls' \<Longrightarrow> shows_access ls' x"
  unfolding shows_access_def by blast

lemma shows_walk_mono: "shows_walk ls x \<Longrightarrow> ls \<subseteq> ls' \<Longrightarrow> shows_walk ls' x"
  unfolding shows_walk_def by blast

lemma shows_line: "(line, a) \<in> ls \<Longrightarrow> stands_for line (ac_path x) \<Longrightarrow> taken a x \<Longrightarrow> shows_access ls x"
  unfolding shows_access_def by blast

text \<open>A directory's folded line shows what the directory has folded, or folds as it is printed.\<close>

lemma dir_shows:
  assumes "ac_bit x \<noteq> 0" and "components (ac_path x) = pre @ rest" and "pre \<noteq> []" and "has_taken node rest x"
    and "some_taken (nd_folded node) x \<or> node_folds fanout pre node"
  shows "shows_access (set (tree_lines fanout showWalked pre node)) x"
  using assms(5)
proof
  assume "some_taken (nd_folded node) x"
  then obtain a where "nd_folded node = Some a" "taken a x" by (auto simp: some_taken_def)
  then show ?thesis
    using shows_line [of _ a _ x, OF _ stands_for_dir [OF assms(2,3)]] taken_nonzero [OF _ assms(1)]
    by (simp add: tree_lines_eq [of _ _ _ node] folded_lines_def)
next
  assume "node_folds fanout pre node"
  then show ?thesis
    using shows_line [of _ "treeAgg node" _ x, OF _ stands_for_dir [OF assms(2,3)]] merge_subtree_takes [OF assms(4), of newAgg]
    by (simp add: tree_lines_eq [of _ _ _ node] treeAgg_def)
qed

lemma tree_lines_show:
  assumes "ac_bit x \<noteq> 0" and "components (ac_path x) = pre @ rest" and "pre \<noteq> []" and "has_taken node rest x"
  shows "shows_access (set (tree_lines fanout showWalked pre node)) x \<or>
    \<not> showWalked \<and> shows_walk (set (tree_lines fanout showWalked pre node)) x"
  using assms(2-4)
proof (induction rest arbitrary: pre node)
  case Nil
  let ?ls = "set (tree_lines fanout showWalked pre node)"
  have path: "spell pre = ac_path x" using spell_components [of "ac_path x"] Nil.prems(1) by simp
  show ?case
  proof (cases "some_taken (nd_folded node) x \<or> node_folds fanout pre node")
    case True
    then show ?thesis using dir_shows [OF assms(1) Nil.prems] by blast
  next
    case False
    then obtain a where a: "nd_own node = Some a" "taken a x" using Nil.prems(3) by (auto simp: some_taken_def)
    show ?thesis
    proof (cases "showWalked \<or> \<not> walked node")
      case True
      then have "(spell pre, a) \<in> ?ls"
        using False a taken_nonzero [OF _ assms(1)] by (simp add: tree_lines_eq [of _ _ _ node] own_lines_def)
      then show ?thesis using shows_line a(2) path by (auto simp: stands_for_def)
    next
      case walked: False
      then have "ag_perm a = 0" by (simp add: walked_def a(1))
      then have "\<not> (ac_failed x \<and> ac_perm x)"
        using a(2) nonzero_bit [OF assms(1)] inside_bit by (fastforce simp: taken_def shows_bit_def)
      moreover have "\<exists>(line, b)\<in>?ls. at_or_below (components (ac_path x)) line \<and> in_flags b n" if "bit (ac_bit x) n" for n
      proof -
        have "in_subtree node n" using taken_flags [OF a(2) that] by (simp add: in_subtree_def a(1))
        from tree_lines_flags [OF this, of fanout showWalked pre] show ?thesis using Nil.prems(1) by auto
      qed
      ultimately show ?thesis using walked by (simp add: shows_walk_def)
    qed
  qed
next
  case (Cons part rest)
  let ?ls = "set (tree_lines fanout showWalked pre node)"
  show ?case
  proof (cases "some_taken (nd_folded node) x \<or> node_folds fanout pre node")
    case True
    then show ?thesis using dir_shows [OF assms(1) Cons.prems] by blast
  next
    case False
    then obtain kid where k: "map_of (nd_kids node) part = Some kid" "has_taken kid rest x"
      using Cons.prems(3) by (auto split: option.splits)
    have "set (tree_lines fanout showWalked (pre @ [part]) kid) \<subseteq> ?ls"
      using False map_of_SomeD [OF k(1)] by (fastforce simp: tree_lines_eq [of _ _ _ node])
    then show ?thesis
      using Cons.IH [of "pre @ [part]" kid] Cons.prems(1) k(2) shows_access_mono shows_walk_mono by force
  qed
qed

section \<open>The lines of a table\<close>

text \<open>A line that shows all another one does.\<close>

definition absorbs :: "agg \<Rightarrow> agg \<Rightarrow> bool" where
  "absorbs b a \<longleftrightarrow> (\<forall>x. taken a x \<longrightarrow> taken b x) \<and> (\<forall>n. in_flags a n \<longrightarrow> in_flags b n)"

lemma absorbs_refl [simp]: "absorbs a a"
  by (simp add: absorbs_def)

lemma absorbs_trans: "absorbs c b \<Longrightarrow> absorbs b a \<Longrightarrow> absorbs c a"
  by (simp add: absorbs_def)

lemma absorbs_merge: "absorbs (mergeAgg b a) b" "absorbs (mergeAgg b a) a"
  by (simp_all add: absorbs_def taken_merge taken_merge_src merge_flags)

definition has_line :: "fold_line list \<times> (ustring \<times> agg) list \<Rightarrow> ustring \<Rightarrow> ustring \<Rightarrow> agg \<Rightarrow> bool" where
  "has_line oc comm line a \<longleftrightarrow>
     (\<exists>b. absorbs b a \<and> ((comm, line, b) \<in> set (fst oc) \<or> map_of (snd oc) (keyOf comm line) = Some b))"

lemma put_line_keeps: "has_line oc comm line a \<Longrightarrow> has_line (put_line c pa oc) comm line a"
proof -
  assume h: "has_line oc comm line a"
  obtain path agg where pa: "pa = (path, agg)" by (cases pa)
  obtain out climbing where oc: "oc = (out, climbing)" by (cases oc)
  obtain b where b: "absorbs b a" "(comm, line, b) \<in> set out \<or> map_of climbing (keyOf comm line) = Some b"
    using h by (auto simp: has_line_def oc)
  show ?thesis
  proof (cases "map_of climbing (keyOf c path)")
    case None
    then show ?thesis using b by (auto simp: has_line_def put_line_def pa oc)
  next
    case (Some run)
    show ?thesis
    proof (cases "(comm, line, b) \<in> set out \<or> keyOf comm line \<noteq> keyOf c path")
      case True
      then show ?thesis using b Some by (auto simp: has_line_def put_line_def pa oc omap_update_get)
    next
      case False
      then have "b = run" using b(2) Some by auto
      then show ?thesis
        using False Some absorbs_trans [OF absorbs_merge(1) b(1)] by (auto simp: has_line_def put_line_def pa oc omap_update_get)
    qed
  qed
qed

lemma put_line_puts: "has_line (put_line c (line, a) oc) c line a"
proof -
  obtain out climbing where oc: "oc = (out, climbing)" by (cases oc)
  show ?thesis
  proof (cases "map_of climbing (keyOf c line)")
    case None
    then show ?thesis by (auto simp: has_line_def put_line_def oc intro!: exI [of _ a])
  next
    case (Some run)
    then show ?thesis
      by (auto simp: has_line_def put_line_def oc omap_update_get absorbs_merge intro!: exI [of _ "mergeAgg run a"])
  qed
qed

lemma put_lines_keep: "has_line oc comm line a \<Longrightarrow> has_line (fold (put_line c) ls oc) comm line a"
  by (induction ls arbitrary: oc) (simp_all add: put_line_keeps)

lemma put_lines_put: "(line, a) \<in> set ls \<Longrightarrow> has_line (fold (put_line c) ls oc) c line a"
proof (induction ls arbitrary: oc)
  case (Cons l ls)
  show ?case
  proof (cases "l = (line, a)")
    case True
    then show ?thesis using put_lines_keep [OF put_line_puts] by simp
  next
    case False
    then show ?thesis using Cons by auto
  qed
qed simp

definition put_trees :: "lines_options \<Rightarrow> (ustring \<times> kids) list \<Rightarrow> fold_line list \<times> (ustring \<times> agg) list \<Rightarrow>
    fold_line list \<times> (ustring \<times> agg) list" where
  "put_trees o' trees oc =
     fold (\<lambda>(comm, roots) oc. fold (put_line comm) (treeLines (lo_fanout o') (lo_showWalked o') roots) oc) trees oc"

lemma put_trees_keep: "has_line oc comm line a \<Longrightarrow> has_line (put_trees o' trees oc) comm line a"
proof (induction trees arbitrary: oc)
  case (Cons t trees)
  obtain c roots where "t = (c, roots)" by (cases t)
  then show ?case using Cons.IH [OF put_lines_keep [OF Cons.prems]] by (simp add: put_trees_def)
qed (simp add: put_trees_def)

lemma put_trees_put:
  "(comm, roots) \<in> set trees \<Longrightarrow> (line, a) \<in> set (treeLines (lo_fanout o') (lo_showWalked o') roots) \<Longrightarrow>
   has_line (put_trees o' trees oc) comm line a"
proof (induction trees arbitrary: oc)
  case (Cons t trees)
  show ?case
  proof (cases "t = (comm, roots)")
    case True
    then have "has_line (fold (put_line comm) (treeLines (lo_fanout o') (lo_showWalked o') roots) oc) comm line a"
      using put_lines_put Cons.prems(2) by simp
    then show ?thesis using put_trees_keep True by (simp add: put_trees_def)
  next
    case False
    then show ?thesis using Cons by (auto simp: put_trees_def)
  qed
qed simp

text \<open>The rows of a table by what was run, and what its climbing lines come to.\<close>

definition rows_of :: "ustring \<Rightarrow> fold_line list \<Rightarrow> (ustring \<times> agg) set" where
  "rows_of comm ls = {(line, a). (comm, line, a) \<in> set ls}"

lemma all_lines_eq:
  "all_lines o' s =
     (let (out, climbing) = put_trees o' (ln_trees s) ([], ln_climbing s) in
      (sort_key (\<lambda>(_, _, agg). ag_seq agg) (out @ map (\<lambda>(key, agg). (commOf key, pathOf key, agg)) climbing),
       s\<lparr>ln_climbing := climbing\<rparr>))"
  by (simp add: all_lines_def put_trees_def)

lemma has_line_row:
  assumes "has_line (put_trees o' (ln_trees s) ([], ln_climbing s)) comm line a" and "0 \<notin> set comm"
  shows "\<exists>b. absorbs b a \<and> (line, b) \<in> rows_of comm (fst (all_lines o' s))"
proof -
  obtain out climbing where oc: "put_trees o' (ln_trees s) ([], ln_climbing s) = (out, climbing)" by fastforce
  then obtain b where b: "absorbs b a" "(comm, line, b) \<in> set out \<or> map_of climbing (keyOf comm line) = Some b"
    using assms(1) by (auto simp: has_line_def)
  have "(comm, line, b) \<in> set out \<union> set (map (\<lambda>(key, agg). (commOf key, pathOf key, agg)) climbing)"
    using b(2)
  proof
    assume "map_of climbing (keyOf comm line) = Some b"
    then have "(keyOf comm line, b) \<in> set climbing" by (rule map_of_SomeD)
    then have "(commOf (keyOf comm line), pathOf (keyOf comm line), b) \<in>
        set (map (\<lambda>(key, agg). (commOf key, pathOf key, agg)) climbing)" by force
    then show ?thesis using assms(2) by simp
  qed simp
  then show ?thesis using b(1) by (auto simp: rows_of_def all_lines_eq oc)
qed

lemma shows_absorbed:
  assumes "\<And>line a. (line, a) \<in> ls \<Longrightarrow> \<exists>b. absorbs b a \<and> (line, b) \<in> ls'"
  shows "shows_access ls x \<Longrightarrow> shows_access ls' x" "shows_walk ls x \<Longrightarrow> shows_walk ls' x"
  using assms unfolding shows_access_def shows_walk_def absorbs_def by (blast, fast)

lemma group_stands_for:
  assumes "climbs path" shows "stands_for (climbGroup path (components path)) path"
proof (cases "starts_with MEMFD path \<or> isRunnerFile path")
  case True
  then show ?thesis by (auto simp: climbGroup_def stands_for_def)
next
  case False
  then obtain i where "index_of (u ''..'') (components path) = Some i"
    using assms by (cases "index_of (u ''..'') (components path)") (auto simp: climbs_def unfoldable_def index_of_None)
  then show ?thesis using False by (auto simp: climbGroup_def stands_for_def simp del: take_Suc)
qed

definition shown_in :: "bool \<Rightarrow> (ustring \<times> agg) set \<Rightarrow> access \<Rightarrow> bool" where
  "shown_in showWalked ls x \<longleftrightarrow> shows_access ls x \<or> \<not> showWalked \<and> shows_walk ls x"

lemma all_lines_show:
  assumes "held s x" and "0 \<notin> set (ac_comm x)" and "ac_bit x \<noteq> 0"
  shows "shown_in (lo_showWalked o') (rows_of (ac_comm x) (fst (all_lines o' s))) x"
proof -
  let ?rows = "rows_of (ac_comm x) (fst (all_lines o' s))"
  let ?oc = "put_trees o' (ln_trees s) ([], ln_climbing s)"
  have line: "shows_access ?rows x" if l: "on_line s key x" "key = keyOf (ac_comm x) p" "stands_for p (ac_path x)" for key p
  proof -
    obtain a where a: "map_of (ln_climbing s) key = Some a" "taken a x" using l(1) by (auto simp: on_line_def some_taken_def)
    have "has_line ([], ln_climbing s) (ac_comm x) p a" using a(1) l(2) absorbs_refl by (auto simp: has_line_def)
    from has_line_row [OF put_trees_keep [OF this] assms(2)] obtain b where "absorbs b a" "(p, b) \<in> ?rows" by blast
    then show ?thesis using a(2) l(3) shows_line [of p b ?rows x] by (simp add: absorbs_def)
  qed
  consider "in_tree s x" | "on_line s (own_key x) x" | "climbs (ac_path x)" "on_line s (group_of (own_key x)) x"
    using assms(1) by (auto simp: held_def)
  then show ?thesis
  proof cases
    case 1
    then obtain roots part rest node where n: "map_of (ln_trees s) (ac_comm x) = Some roots"
      "components (ac_path x) = [part] @ rest" "map_of roots part = Some node" "has_taken node rest x"
      by (auto simp: in_tree_def)
    let ?ls = "set (tree_lines (lo_fanout o') (lo_showWalked o') [part] node)"
    have "?ls \<subseteq> set (treeLines (lo_fanout o') (lo_showWalked o') roots)"
      using map_of_SomeD [OF n(3)] by (fastforce simp: treeLines_def)
    then have "\<exists>b. absorbs b a \<and> (line, b) \<in> ?rows" if "(line, a) \<in> ?ls" for line a
      using that put_trees_put [OF map_of_SomeD [OF n(1)]] has_line_row assms(2) by blast
    from shows_absorbed [OF this, where x = x] tree_lines_show [OF assms(3) n(2) _ n(4), of "lo_fanout o'" "lo_showWalked o'"]
    show ?thesis by (auto simp: shown_in_def)
  next
    case 2
    then show ?thesis using line [of "own_key x" "ac_path x"] by (simp add: shown_in_def own_key_def stands_for_def)
  next
    case 3
    have "group_of (own_key x) = keyOf (ac_comm x) (climbGroup (ac_path x) (components (ac_path x)))"
      using assms(2) by (simp add: group_of_def own_key_def)
    then show ?thesis using line [OF 3(2)] group_stands_for [OF 3(1)] by (simp add: shown_in_def)
  qed
qed

section \<open>A finished table\<close>

definition grows :: "(ustring \<times> agg) list \<Rightarrow> (ustring \<times> agg) list \<Rightarrow> bool" where
  "grows climbing climbing' \<longleftrightarrow>
     map fst climbing' = map fst climbing \<and>
     (\<forall>k a. map_of climbing k = Some a \<longrightarrow> (\<exists>b. map_of climbing' k = Some b \<and> absorbs b a))"

lemma grows_refl: "grows c c"
  by (simp add: grows_def)

lemma grows_trans: "grows a b \<Longrightarrow> grows b c \<Longrightarrow> grows a c"
  unfolding grows_def using absorbs_trans by metis

lemma put_line_grows: "grows (snd oc) (snd (put_line c pa oc))"
proof -
  obtain path agg where pa: "pa = (path, agg)" by (cases pa)
  obtain out climbing where oc: "oc = (out, climbing)" by (cases oc)
  show ?thesis
  proof (cases "map_of climbing (keyOf c path)")
    case None
    then show ?thesis by (simp add: pa oc put_line_def grows_refl)
  next
    case (Some run)
    then have "keyOf c path \<in> fst ` set climbing" by (force dest: map_of_SomeD)
    then show ?thesis
      using Some by (auto simp: pa oc put_line_def grows_def omap_update_get omap_update_keys absorbs_merge)
  qed
qed

lemma put_lines_grow: "grows (snd oc) (snd (fold (put_line c) ls oc))"
proof (induction ls arbitrary: oc)
  case (Cons l ls)
  then show ?case using grows_trans [OF put_line_grows Cons] by simp
qed (simp add: grows_refl)

lemma put_trees_grow: "grows (snd oc) (snd (put_trees o' trees oc))"
proof (induction trees arbitrary: oc)
  case (Cons t trees)
  obtain c roots where "t = (c, roots)" by (cases t)
  then show ?case using grows_trans [OF put_lines_grow Cons] by (simp add: put_trees_def)
qed (simp add: grows_refl put_trees_def)

lemma all_lines_keeps: "lines_ok s \<Longrightarrow> keeps s (snd (all_lines o' s)) \<and> ln_loose (snd (all_lines o' s)) = ln_loose s"
proof -
  assume ok: "lines_ok s"
  obtain out climbing where oc: "put_trees o' (ln_trees s) ([], ln_climbing s) = (out, climbing)" by fastforce
  have g: "grows (ln_climbing s) climbing" using put_trees_grow [of "([], ln_climbing s)" o' "ln_trees s"] by (simp add: oc)
  let ?s = "s\<lparr>ln_climbing := climbing\<rparr>"
  have d: "distinct (map fst climbing)" using ok g by (simp add: lines_ok_def grows_def)
  have line: "on_line ?s k x" if "on_line s k x" for k x
    using that g by (fastforce simp: on_line_def grows_def absorbs_def some_taken_def)
  have "held ?s x" if "held s x" for x using that line by (auto simp: held_def in_tree_def)
  moreover have "climbing_lines ?s"
  proof -
    have "ran b \<or> climbs (pathOf k)" if kb: "(k, b) \<in> set climbing" for k b
    proof -
      have "k \<in> fst ` set (ln_climbing s)" using kb g by (metis grows_def image_eqI fst_conv list.set_map)
      then obtain a where a: "(k, a) \<in> set (ln_climbing s)" by auto
      then have "map_of (ln_climbing s) k = Some a" using ok by (simp add: lines_ok_def)
      then obtain b' where "map_of climbing k = Some b'" "absorbs b' a" using g by (auto simp: grows_def)
      then have "absorbs b a" using kb d by simp
      then have "ran a \<Longrightarrow> ran b" by (auto simp: absorbs_def ran_bit in_flags_bits bit_or_iff)
      then show ?thesis using ok a by (auto simp: lines_ok_def climbing_lines_def)
    qed
    then show ?thesis by (auto simp: climbing_lines_def)
  qed
  ultimately show ?thesis
    using ok d by (simp add: all_lines_eq oc keeps_def lines_ok_def member_keys_def tight_trees_def)
qed

lemma fit_lines_all: "fit_lines o' bytes ls = (out, bytes', False) \<Longrightarrow> out = ls"
  by (induction o' bytes ls arbitrary: out bytes' rule: fit_lines.induct)
    (auto simp: Let_def split: if_splits prod.splits)

lemma lines_finish_rows:
  assumes "lines_ok s" and "lines_finish o' s = (Some out, s')" and "lines_cut s' = None"
  shows "\<exists>t. keeps s t \<and> out = fst (all_lines o' t) \<and> \<not> ln_dropped s"
proof -
  obtain out1 bytes1 cut1 s1 where w: "within_limit o' s = ((out1, bytes1, cut1), s1)" by (metis prod_cases3 surj_pair)
  have k1: "keeps s s1" and loose1: "ln_loose s1 = ln_loose s"
    using all_lines_keeps [OF assms(1), of o'] w by (auto simp: within_limit_def split: prod.splits)
  have run: "ln_stopped s = None" using assms(2) by (auto simp: lines_finish_def split: if_splits)
  show ?thesis
  proof (cases "\<not> ln_loose s1 \<and> lo_loose o' \<noteq> None \<and> (cut1 \<or> past_loose o' bytes1)")
    case False
    then have s': "s' = s1\<lparr>ln_truncated := ln_dropped s1 \<or> cut1\<rparr>" "out = out1"
      using assms(2) run by (auto simp: lines_finish_def w Let_def)
    then have "\<not> cut1 \<and> \<not> ln_dropped s1" using assms(3) by (auto simp: lines_cut_def split: option.splits if_splits)
    moreover have "out1 = fst (all_lines o' s)" if "\<not> cut1"
      using w that fit_lines_all by (auto simp: within_limit_def split: prod.splits)
    ultimately show ?thesis using s' keeps_refl [OF assms(1)] k1 by (auto simp: keeps_def)
  next
    case True
    let ?l = "loosen o' s1"
    have l: "keeps s1 ?l" using loosen_keeps [of s1 o'] True k1 by (simp add: keeps_def)
    obtain out2 bytes2 cut2 s2 where w2: "within_limit o' ?l = ((out2, bytes2, cut2), s2)" by (metis prod_cases3 surj_pair)
    have k2: "keeps ?l s2" using all_lines_keeps [of ?l o'] l w2 by (auto simp: keeps_def within_limit_def split: prod.splits)
    have s': "s' = s2\<lparr>ln_truncated := ln_dropped s2 \<or> cut2\<rparr>" "out = out2"
      using assms(2) run True w2 by (auto simp: lines_finish_def w Let_def)
    then have "\<not> cut2 \<and> \<not> ln_dropped s2" using assms(3) by (auto simp: lines_cut_def split: option.splits if_splits)
    moreover have "out2 = fst (all_lines o' ?l)" if "\<not> cut2"
      using w2 that fit_lines_all by (auto simp: within_limit_def split: prod.splits)
    ultimately show ?thesis using s' keeps_trans [OF k1 l] keeps_trans [OF keeps_trans [OF k1 l] k2] by (auto simp: keeps_def)
  qed
qed

text \<open>C19. However its lines fold, a table that neither gave up nor says it was cut shows every access:
  on a line of its command that stands for its path, with its action, its outcome, its command
  and its time, or where only the walks are left out, not refused and each of its actions on a
  line of its command at or below its path.\<close>

theorem lines_show_accesses:
  assumes "\<forall>x\<in>set xs. 0 \<notin> set (ac_comm x)" and "lines_finish o' (lines_after o' xs) = (Some out, s)"
    and "lines_cut s = None" and "x \<in> set xs" and "ac_bit x \<noteq> 0"
  shows "shown_in (lo_showWalked o') (rows_of (ac_comm x) out) x"
proof -
  have "ln_stopped (lines_after o' xs) = None" using assms(2) by (auto simp: lines_finish_def split: if_splits)
  then have ok: "lines_ok (lines_after o' xs)" "held (lines_after o' xs) x \<or> ln_dropped (lines_after o' xs)"
    using lines_after_held [OF assms(1), of o'] assms(4,5) by auto
  obtain t where t: "keeps (lines_after o' xs) t" "out = fst (all_lines o' t)" "\<not> ln_dropped (lines_after o' xs)"
    using lines_finish_rows [OF ok(1) assms(2,3)] by blast
  then have "held t x" using ok(2) assms(1,4) by (auto simp: keeps_def)
  then show ?thesis using all_lines_show assms(1,4,5) t(2) by blast
qed

definition sample_access :: "string \<Rightarrow> char \<Rightarrow> nat \<Rightarrow> access" where
  "sample_access path action n =
     \<lparr>ac_comm = u ''0'', ac_path = u path, ac_bit = BIT action, ac_failed = False, ac_perm = False, ac_t = Some (int n),
      ac_seq = enat n, ac_cmd = None\<rparr>"

definition sample_options :: lines_options where
  "sample_options =
     \<lparr>lo_fanout = 3, lo_keep = [], lo_limit = 1000, lo_loose = Some 1000, lo_nodes = 100, lo_rowBytes = (\<lambda>_ _ _. 1),
      lo_showWalked = True\<rparr>"

definition sample_accesses :: "access list" where
  "sample_accesses = [sample_access ''/a/1'' CHR ''R'' 0, sample_access ''/a/2'' CHR ''W'' 1, sample_access ''/a/3'' CHR ''R'' 2]"

lemma lines_show_accesses_witness:
  "case lines_finish sample_options (lines_after sample_options sample_accesses) of
     (Some out, s) \<Rightarrow> map (\<lambda>(_, line, _). line) out = [u ''/a/**''] \<and>
       shown_in True (rows_of (u ''0'') out) (sample_access ''/a/2'' CHR ''W'' 1)
   | _ \<Rightarrow> False"
proof -
  have "case lines_finish sample_options (lines_after sample_options sample_accesses) of
      (Some out, s) \<Rightarrow> map (\<lambda>(_, line, _). line) out = [u ''/a/**''] \<and> lines_cut s = None | _ \<Rightarrow> False"
    by code_simp
  then obtain out s where r: "lines_finish sample_options (lines_after sample_options sample_accesses) = (Some out, s)"
    "map (\<lambda>(_, line, _). line) out = [u ''/a/**'']" "lines_cut s = None"
    by (auto split: prod.splits option.splits)
  have "\<forall>x\<in>set sample_accesses. 0 \<notin> set (ac_comm x)" by (simp add: sample_accesses_def sample_access_def u_def)
  moreover have "ac_bit (sample_access ''/a/2'' CHR ''W'' 1) \<noteq> 0" by (simp add: sample_access_def BIT_def ORDER_def)
  moreover have "sample_access ''/a/2'' CHR ''W'' 1 \<in> set sample_accesses" by (simp add: sample_accesses_def)
  ultimately have "shown_in (lo_showWalked sample_options) (rows_of (ac_comm (sample_access ''/a/2'' CHR ''W'' 1)) out)
      (sample_access ''/a/2'' CHR ''W'' 1)"
    using lines_show_accesses [OF _ r(1,3)] by blast
  then show ?thesis using r(1,2) by (simp add: sample_options_def sample_access_def)
qed

end
