(* ===== verification/FsTally.thy ===== *)
theory FsTally
  imports FsMatch FsFoldLines
begin

text \<open>
  \<^verbatim>\<open>src/lib/filesystem-audit/rule-tally.ts\<close>: each access of a recording matched against the rules, the
  mark its line gets, and what no rule took, gathered into a table of its own.
\<close>

text \<open>Where a line stands: taken, by the rule of the first action its last access had taken, or
  holding an action no rule took.\<close>

datatype rule_mark = By_rule "ustring option" | Unexpected

record audit_names =
  nm_program :: "nat \<Rightarrow> ustring list"
  nm_path :: "ustring \<Rightarrow> ustring list"

record rule_tally =
  tl_rules :: "rule_matcher option"
  tl_lines :: lines
  tl_matched :: nat
  tl_unexpected :: nat
  tl_mark :: "rule_mark option"

definition newTally :: "rule_matcher option \<Rightarrow> rule_tally" where
  "newTally rules = \<lparr>tl_rules = rules, tl_lines = newLines, tl_matched = 0, tl_unexpected = 0, tl_mark = None\<rparr>"

text \<open>The mark of a line once it has an access with these actions left and this rule.\<close>

definition mark_access :: "actions \<Rightarrow> ustring option \<Rightarrow> rule_mark option \<Rightarrow> rule_mark option" where
  "mark_access left ref mark =
     (if left \<noteq> 0 then Some Unexpected else case mark of Some m \<Rightarrow> Some m | None \<Rightarrow> Some (By_rule ref))"

definition tally_match ::
    "audit_names \<Rightarrow> access \<Rightarrow> nat \<Rightarrow> ustring \<Rightarrow> rule_tally \<Rightarrow> actions \<times> rule_tally" where
  "tally_match names x by' path t =
     (case tl_rules t of
        None \<Rightarrow> (ac_bit x, t)
      | Some rules \<Rightarrow>
          (let (res, rules') = rule_match (nm_program names by') (nm_path names path) (ac_bit x) (ac_failed x) (ac_perm x) rules in
           (mr_unmatched res,
            t\<lparr>tl_rules := Some rules', tl_mark := mark_access (mr_unmatched res) (mr_ref res) (tl_mark t)\<rparr>)))"

definition tally_take ::
    "lines_options \<Rightarrow> audit_names \<Rightarrow> access \<Rightarrow> ustring list \<Rightarrow> nat \<Rightarrow> ustring \<Rightarrow> ustring \<Rightarrow> rule_tally \<Rightarrow>
     actions \<times> rule_tally" where
  "tally_take o' names x parts by' path cmd t =
     (let (left, t1) = tally_match names x by' path t;
          y = x\<lparr>ac_comm := u (show_nat by'), ac_path := path, ac_bit := left, ac_cmd := Some cmd\<rparr> in
      (left, t1\<lparr>tl_lines := lines_add o' y parts (tl_lines t1)\<rparr>))"

definition tally_endLine :: "rule_tally \<Rightarrow> rule_mark option \<times> rule_tally" where
  "tally_endLine t =
     (tl_mark t,
      (case tl_mark t of
         None \<Rightarrow> t
       | Some (By_rule r) \<Rightarrow> t\<lparr>tl_mark := None, tl_matched := tl_matched t + 1\<rparr>
       | Some Unexpected \<Rightarrow> t\<lparr>tl_mark := None, tl_unexpected := tl_unexpected t + 1\<rparr>))"

text \<open>The number a rank's text spells.\<close>

definition rank_of_text :: "ustring \<Rightarrow> nat" where
  "rank_of_text s = foldl (\<lambda>n c. 10 * n + (c - 48)) 0 s"

definition tally_finish :: "lines_options \<Rightarrow> rule_tally \<Rightarrow> (nat \<times> ustring \<times> agg) list option \<times> rule_tally" where
  "tally_finish o' t =
     (let (rows, lines') = lines_finish o' (tl_lines t) in
      (map_option (map (\<lambda>(comm, path, a). (rank_of_text comm, path, a))) rows, t\<lparr>tl_lines := lines'\<rparr>))"

definition tally_cut :: "rule_tally \<Rightarrow> cut_cause option" where
  "tally_cut t = lines_cut (tl_lines t)"

definition tally_full :: "lines_options \<Rightarrow> rule_tally \<Rightarrow> bool" where
  "tally_full o' t = lines_full o' (tl_lines t)"

definition tally_givenUp :: "rule_tally \<Rightarrow> bool" where
  "tally_givenUp t \<longleftrightarrow> ln_stopped (tl_lines t) \<noteq> None"

end
