(* ===== verification/FsReduce.thy ===== *)
theory FsReduce
  imports FsTally FsLineFile JsSort
begin

text \<open>
  \<^verbatim>\<open>src/lib/filesystem-audit/reduce.ts\<close>: a recording reduced to the rows of the summary, in two
  passes over its records. The closure of \<^verbatim>\<open>createAuditSummary\<close> is the state \<^verbatim>\<open>summary_state\<close> below, with
  the state of \<^verbatim>\<open>observe\<close> as \<^verbatim>\<open>first_pass\<close>. A \<^verbatim>\<open>Map\<close> that is only looked up is a function. A key
  \<^verbatim>\<open>keyOf(proc, path)\<close> or \<^verbatim>\<open>`${pid}/${gen}`\<close> is a pair, as its first part holds no separator.
\<close>

section \<open>Records and options\<close>

text \<open>The fields of a record only the summary reads: \<^verbatim>\<open>Date.parse\<close> of its time, \<^const>\<open>None\<close> for \<^verbatim>\<open>NaN\<close>;
  whether the tracer dropped records or lost processes; the hooks the kernel skipped, \<^verbatim>\<open>0\<close> where that is no number.
  An object whose kind is no text is not a record, which the flag says.\<close>

record recorded = audit_record +
  rc_isRecord :: bool
  rc_t :: "int option"
  rc_syscall :: "ustring option"
  rc_killed :: bool
  rc_lost :: bool
  rc_hostMissed :: nat

definition as_record :: "recorded option \<Rightarrow> recorded option" where
  "as_record rec = (case rec of None \<Rightarrow> None | Some r \<Rightarrow> if rc_isRecord r then Some r else None)"

record limits =
  li_bytes :: int
  li_loose :: int
  li_nodes :: int
  li_loads :: nat

definition LIMITS :: limits where
  "LIMITS = \<lparr>li_bytes = 1024 * 1024, li_loose = 300 * 1024, li_nodes = 200000, li_loads = 200000\<rparr>"

record summary_options =
  so_prefixes :: prefixes
  so_rules :: "rule_matcher option"
  so_propose :: bool
  so_toolCache :: "ustring list"
  so_fanout :: nat
  so_limits :: limits

definition DEFAULT_FANOUT :: nat where "DEFAULT_FANOUT = 3"

definition SENSITIVE_IN_HOME :: "ustring list" where
  "SENSITIVE_IN_HOME = map u [''.ssh'', ''.aws'', ''.config'', ''.docker'', ''.kube'', ''.gnupg'']"

definition SYSCALL_PREFIX :: ustring where "SYSCALL_PREFIX = u ''syscall:''"

text \<open>\<^verbatim>\<open>(\.\d+)*\<close> up to the end, and \<^verbatim>\<open>/\.(so(\.\d+)*|node)$/\<close> somewhere in the text.\<close>

definition versions :: "ustring \<Rightarrow> bool" where
  "versions s \<longleftrightarrow>
     (case split_on 46 s of
        [] \<Rightarrow> False
      | first # parts \<Rightarrow> first = [] \<and> list_all (\<lambda>p. p \<noteq> [] \<and> list_all decimal_digit p) parts)"

fun LIBRARY_NAME :: "ustring \<Rightarrow> bool" where
  "LIBRARY_NAME [] = False"
| "LIBRARY_NAME (c # s) \<longleftrightarrow>
     c # s = u ''.node'' \<or> starts_with (u ''.so'') (c # s) \<and> versions (drop 3 (c # s)) \<or> LIBRARY_NAME s"

section \<open>The first pass\<close>

type_synonym proc = "nat option \<times> nat"

record first_pass =
  fp_loaded :: "(proc \<times> ustring) list"
  fp_images :: "proc \<Rightarrow> ustring list"
  fp_observed :: "nat option \<Rightarrow> nat"

definition newPass :: first_pass where
  "newPass = \<lparr>fp_loaded = [], fp_images = (\<lambda>_. []), fp_observed = (\<lambda>_. 0)\<rparr>"

definition load_path :: "summary_options \<Rightarrow> proc \<Rightarrow> bool \<Rightarrow> ustring \<Rightarrow> first_pass \<Rightarrow> first_pass" where
  "load_path o' proc library path f =
     (if li_loads (so_limits o') \<le> length (fp_loaded f) then f
      else
        (let ld = List.insert (proc, canonical_path path (so_prefixes o')) (fp_loaded f) in
         f\<lparr>fp_loaded := (if library then List.insert (proc, u ''/etc/ld.so.cache'') ld else ld)\<rparr>))"

text \<open>A memfd's or deleted file's name proves nothing about what it holds.\<close>

definition isLibraryMap :: "'x audit_record_scheme \<Rightarrow> bool" where
  "isLibraryMap r \<longleftrightarrow>
     ar_kind r = ''mmap'' \<and> ar_access r = Some ''x'' \<and> truthy (ar_path r) \<and>
     (ar_image r \<or> \<not> ar_memfd r \<and> \<not> ar_deleted r \<and> LIBRARY_NAME (the (ar_path r)))"

definition mark_of :: "'x audit_record_scheme \<Rightarrow> ustring \<Rightarrow> ustring" where
  "mark_of r path = marked (ar_memfd r) (ar_deleted r) path"

text \<open>What an exec ran and mapped counts as loaded on both sides of it.\<close>

definition load_exec :: "summary_options \<Rightarrow> proc \<Rightarrow> proc \<Rightarrow> ustring \<Rightarrow> first_pass \<Rightarrow> first_pass" where
  "load_exec o' proc next' path f =
     load_path o' next' (\<not> starts_with MEMFD path \<and> LIBRARY_NAME (unmarked path)) path (load_path o' proc False path f)"

definition pass_observe :: "summary_options \<Rightarrow> recorded option \<Rightarrow> first_pass \<Rightarrow> first_pass" where
  "pass_observe o' rec f =
     (case as_record rec of
        None \<Rightarrow> f
      | Some r \<Rightarrow>
          (let (proc, gens) = procOf (fp_observed f) r; f = f\<lparr>fp_observed := gens\<rparr> in
           if isLibraryMap r then
             (if ar_image r then f\<lparr>fp_images := (fp_images f)(proc := fp_images f proc @ [mark_of r (the (ar_path r))])\<rparr>
              else load_path o' proc True (the (ar_path r)) f)
           else if ar_kind r = ''exec'' then
             (let next' = (ar_pid r, gens (ar_pid r));
                  ran = (if truthy (ar_path r) then [mark_of r (the (ar_path r))] else []);
                  f = fold (load_exec o' proc next') (fp_images f proc @ ran) f in
              f\<lparr>fp_images := (fp_images f)(proc := [])\<rparr>)
           else f))"

section \<open>Names\<close>

record shown =
  sh_path :: ustring
  sh_memfd :: bool
  sh_deleted :: bool

definition real_path :: "ustring list \<Rightarrow> ustring list" where
  "real_path spellings = (if spellings = [] then [] else [escapePath (last spellings)])"

definition reduce_prefixes :: "summary_options \<Rightarrow> prefixes" where
  "reduce_prefixes o' =
     \<lparr>px_cwd = map_option real_path (px_cwd (so_prefixes o')), px_workspace = real_path (px_workspace (so_prefixes o')),
      px_home = real_path (px_home (so_prefixes o')), px_runnerFiles = Map.empty\<rparr>"

text \<open>A relative name, keyed as the walk it shows as.\<close>

definition walk_path :: "ustring \<Rightarrow> ustring" where
  "walk_path path = (if hasKnownStart path then path else [0x2026, SLASH] @ path)"

text \<open>A path escaped as the summary shows it, its marks kept.\<close>

definition escaped_path :: "ustring \<Rightarrow> ustring" where
  "escaped_path path =
     (if starts_with MEMFD path then MEMFD @ escapeForDisplay (drop (length MEMFD) path)
      else if isRunnerFile path then path
      else if \<not> ends_with DELETED path then escapePath path
      else escapePath (take (length path - length DELETED) path) @ DELETED)"

definition ruleNames :: "summary_options \<Rightarrow> ustring \<Rightarrow> ustring list" where
  "ruleNames o' path =
     (if starts_with MEMFD path then [MEMFD_PREFIX @ [QUOTE] @ drop (length MEMFD) path @ [QUOTE]]
      else ruleSpellings (unmarked path) (reduce_prefixes o'))"

definition shown_path :: "summary_options \<Rightarrow> ustring \<Rightarrow> shown" where
  "shown_path o' path =
     (if path = MEMFDS then \<lparr>sh_path = MEMFD_PREFIX @ u ''**'', sh_memfd = False, sh_deleted = False\<rparr>
      else if starts_with MEMFD path then \<lparr>sh_path = hd (ruleNames o' path), sh_memfd = True, sh_deleted = False\<rparr>
      else if \<not> ends_with DELETED path
      then \<lparr>sh_path = relativize path (reduce_prefixes o'), sh_memfd = False, sh_deleted = False\<rparr>
      else \<lparr>sh_path = hd (ruleNames o' path), sh_memfd = False, sh_deleted = True\<rparr>)"

section \<open>The state of the second pass\<close>

text \<open>A program: how it shows and what that prints in, its path unless it is a command's name, the
  names a rule is matched against, and the first program of the same name in a rule.\<close>

record rank_info =
  rk_shown :: shown
  rk_bytes :: int
  rk_leaf :: int
  rk_program :: "ustring option"
  rk_ruleNames :: "ustring list"
  rk_ruleId :: nat

record row =
  rw_agg :: agg
  rw_flags :: string
  rw_comm :: ustring
  rw_commField :: ustring
  rw_shown :: shown
  rw_syscall :: bool

record summary_state =
  ss_pass :: first_pass
  ss_paths :: lines
  ss_details :: lines
  ss_programs :: "nat option \<rightharpoonup> nat"
  ss_ranks :: "rank_info list"
  ss_ruleIds :: "ustring \<rightharpoonup> nat"
  ss_rankOf :: "bool \<times> ustring \<rightharpoonup> nat"
  ss_runNames :: "nat option \<rightharpoonup> ustring"
  ss_commands :: "ustring \<rightharpoonup> command"
  ss_commandKeys :: "ustring \<rightharpoonup> ustring"
  ss_tally :: "rule_tally option"
  ss_deletedOnly :: "ustring \<rightharpoonup> bool \<times> bool"
  ss_programDeletedOnly :: "nat \<rightharpoonup> bool"
  ss_commsBefore :: "nat option \<rightharpoonup> ustring"
  ss_nsPids :: "nat option \<rightharpoonup> nat"
  ss_ended :: bool
  ss_lost :: bool
  ss_hostMissed :: nat
  ss_seq :: nat
  ss_added :: "nat option \<Rightarrow> nat"
  ss_killed :: "(ustring \<times> row) list"

definition newSummary :: "summary_options \<Rightarrow> first_pass \<Rightarrow> summary_state" where
  "newSummary o' f =
     \<lparr>ss_pass = f, ss_paths = newLines, ss_details = newLines, ss_programs = Map.empty, ss_ranks = [],
      ss_ruleIds = Map.empty, ss_rankOf = Map.empty, ss_runNames = Map.empty, ss_commands = Map.empty,
      ss_commandKeys = Map.empty,
      ss_tally = (if so_propose o' \<or> so_rules o' \<noteq> None then Some (newTally (so_rules o')) else None),
      ss_deletedOnly = Map.empty, ss_programDeletedOnly = Map.empty, ss_commsBefore = Map.empty,
      ss_nsPids = Map.empty, ss_ended = False, ss_lost = False, ss_hostMissed = 0, ss_seq = 0,
      ss_added = (\<lambda>_. 0), ss_killed = []\<rparr>"

subsection \<open>Programs and commands\<close>

definition new_rank :: "summary_options \<Rightarrow> ustring \<Rightarrow> bool \<Rightarrow> summary_state \<Rightarrow> rank_info" where
  "new_rank o' key name s =
     (let shown = (if name then \<lparr>sh_path = escapeForDisplay key, sh_memfd = False, sh_deleted = False\<rparr>
            else shown_path o' (escaped_path key));
          names = (if name then [sh_path shown] else ruleNames o' (escaped_path key)) in
      \<lparr>rk_shown = shown,
       rk_bytes = int (utf16_length (sh_path shown) + (if sh_deleted shown then utf16_length DELETED_MARK else 0)),
       rk_leaf = int (utf16_length (leaf (sh_path shown))), rk_program = (if name then None else Some key),
       rk_ruleNames = names,
       rk_ruleId = (case ss_ruleIds s (hd names) of Some i \<Rightarrow> i | None \<Rightarrow> length (ss_ranks s))\<rparr>)"

text \<open>A program's rank in the order programs first ran.\<close>

definition rank :: "summary_options \<Rightarrow> ustring \<Rightarrow> bool \<Rightarrow> summary_state \<Rightarrow> nat \<times> summary_state" where
  "rank o' key name s =
     (case ss_rankOf s (name, key) of
        Some r \<Rightarrow> (r, s)
      | None \<Rightarrow>
          (let r = length (ss_ranks s); info = new_rank o' key name s in
           (r, s\<lparr>ss_rankOf := (ss_rankOf s)((name, key) \<mapsto> r),
                ss_ruleIds := (ss_ruleIds s)(hd (rk_ruleNames info) \<mapsto> rk_ruleId info),
                ss_ranks := ss_ranks s @ [info]\<rparr>)))"

text \<open>A process with no exec in the step's records goes by its command name.\<close>

definition programOf :: "summary_options \<Rightarrow> nat option \<Rightarrow> ustring \<Rightarrow> summary_state \<Rightarrow> nat \<times> summary_state" where
  "programOf o' pid comm s =
     (case ss_programs s pid of
        Some r \<Rightarrow> (r, s)
      | None \<Rightarrow> (let (r, s) = rank o' comm True s in (r, s\<lparr>ss_programs := (ss_programs s)(pid \<mapsto> r)\<rparr>)))"

definition text_or_empty :: "ustring option \<Rightarrow> ustring" where
  "text_or_empty t = (case t of None \<Rightarrow> [] | Some x \<Rightarrow> x)"

definition commandKey :: "summary_options \<Rightarrow> nat option \<Rightarrow> ustring \<Rightarrow> summary_state \<Rightarrow> ustring \<times> summary_state" where
  "commandKey o' pid comm s =
     (let (r, s) = programOf o' pid comm s; runName = ss_runNames s pid;
          memo = u (show_nat r) @ [0] @ text_or_empty runName @ [0] @ comm in
      case ss_commandKeys s memo of
        Some key \<Rightarrow> (key, s)
      | None \<Rightarrow>
          (let c = commandOf (rk_program (ss_ranks s ! r)) runName comm; key = u (show_nat r) @ [SLASH] @ cm_text c in
           (key, s\<lparr>ss_commands := (if ss_commands s key = None then (ss_commands s)(key \<mapsto> c) else ss_commands s),
                  ss_commandKeys := (ss_commandKeys s)(memo \<mapsto> key)\<rparr>)))"

subsection \<open>The tables\<close>

definition sensitive :: "ustring list \<Rightarrow> ustring list" where
  "sensitive homes = concat (map (\<lambda>home. map (\<lambda>dir. home @ [SLASH] @ dir) SENSITIVE_IN_HOME) homes)"

text \<open>The directories that never fold into one line.\<close>

definition keep_dirs :: "summary_options \<Rightarrow> ustring list list" where
  "keep_dirs o' =
     (let p = reduce_prefixes o' in
      map components
        (map u [''/'', ''/home'', ''/tmp'', ''/proc'', ''/proc/<pid>'', ''/proc/<pid>/fd'', ''/proc/<pid>/task/<tid>/fd'',
           ''/proc/self'', ''/etc'', ''/usr/local''] @
         map (\<lambda>t. escapePath (canonical_path t (so_prefixes o'))) (so_toolCache o') @
         [u ''/root'', [0x2026]] @ (case px_cwd p of None \<Rightarrow> [] | Some cwd \<Rightarrow> cwd) @ px_workspace p @ px_home p @
         sensitive (px_home p @ [u ''/root''])))"

definition relLength :: "summary_options \<Rightarrow> ustring \<Rightarrow> int" where
  "relLength o' path = int (utf16_length (relativize path (reduce_prefixes o')))"

text \<open>The commands of a line in the order they first made an access, each text once.\<close>

definition commandsOf :: "(ustring \<rightharpoonup> command) \<Rightarrow> agg \<Rightarrow> ustring list" where
  "commandsOf commands a = unique_first (map (\<lambda>(cmd, _). cm_text (the (commands cmd))) (sort_key snd (ag_cmds a)))"

definition commandsBytes :: "(ustring \<rightharpoonup> command) \<Rightarrow> agg \<Rightarrow> int" where
  "commandsBytes commands a =
     (let texts = commandsOf commands a; shown = (if 3 < length texts then take 2 texts else texts) in
      sum_list (map (\<lambda>t. int (utf16_length t) + 4) shown) + (if 3 < length texts then 14 else 0))"

definition tableRowBytes :: "summary_options \<Rightarrow> summary_state \<Rightarrow> ustring \<Rightarrow> ustring \<Rightarrow> agg option \<Rightarrow> int" where
  "tableRowBytes o' s path rk a =
     (let info = ss_ranks s ! rank_of_text rk in
      relLength o' path + rk_bytes info + 16 +
      (case a of
         Some agg \<Rightarrow> if ag_cmds agg \<noteq> [] then commandsBytes (ss_commands s) agg else rk_leaf info + 5
       | None \<Rightarrow> rk_leaf info + 5))"

definition loose_bytes :: "summary_options \<Rightarrow> int" where
  "loose_bytes o' = min (li_loose (so_limits o')) (li_bytes (so_limits o'))"

definition paths_options :: "summary_options \<Rightarrow> summary_state \<Rightarrow> lines_options" where
  "paths_options o' s =
     \<lparr>lo_fanout = so_fanout o', lo_keep = keep_dirs o', lo_limit = li_bytes (so_limits o'), lo_loose = Some (loose_bytes o'),
      lo_nodes = li_nodes (so_limits o'), lo_rowBytes = tableRowBytes o' s, lo_showWalked = False\<rparr>"

definition detailRowBytes :: "summary_options \<Rightarrow> summary_state \<Rightarrow> ustring \<Rightarrow> ustring \<Rightarrow> agg option \<Rightarrow> int" where
  "detailRowBytes o' s path key a = relLength o' path + int (utf16_length (cm_field (the (ss_commands s key)))) + 3"

text \<open>Under rules the details are the unexpected accesses, listed as their table is.\<close>

definition details_options :: "summary_options \<Rightarrow> summary_state \<Rightarrow> lines_options" where
  "details_options o' s =
     (paths_options o' s)\<lparr>lo_rowBytes := detailRowBytes o' s, lo_showWalked := so_rules o' \<noteq> None\<rparr>"

text \<open>A rule proposed from a loose fold would take far more than the step touched.\<close>

definition tally_options :: "summary_options \<Rightarrow> summary_state \<Rightarrow> lines_options" where
  "tally_options o' s = (paths_options o' s)\<lparr>lo_loose := None, lo_showWalked := True\<rparr>"

section \<open>The second pass\<close>

definition names_of_rank :: "summary_state \<Rightarrow> nat \<Rightarrow> ustring list" where
  "names_of_rank s r = rk_ruleNames (ss_ranks s ! r)"

definition tally_names :: "summary_options \<Rightarrow> summary_state \<Rightarrow> audit_names" where
  "tally_names o' s = \<lparr>nm_program = names_of_rank s, nm_path = ruleNames o'\<rparr>"

text \<open>Whether every unexpected access of a row so far was by a deleted program, and to a deleted file.\<close>

definition note_deleted :: "nat \<Rightarrow> ustring \<Rightarrow> bool \<Rightarrow> bool \<Rightarrow> bool \<Rightarrow> summary_state \<Rightarrow> summary_state" where
  "note_deleted i path full program deletedPath s =
     (let key = keyOf (u (show_nat i)) path; was = ss_deletedOnly s key;
          row = (case was of None \<Rightarrow> (program, deletedPath) | Some (p, d) \<Rightarrow> (p \<and> program, d \<and> deletedPath)) in
      s\<lparr>ss_deletedOnly := (if was \<noteq> None \<or> \<not> full then (ss_deletedOnly s)(key \<mapsto> row) else ss_deletedOnly s),
        ss_programDeletedOnly := (ss_programDeletedOnly s)
          (i \<mapsto> (case ss_programDeletedOnly s i of None \<Rightarrow> True | Some p \<Rightarrow> p) \<and> program)\<rparr>)"

text \<open>The actions no rule took. A rule never names the deleted mark, so the tally keys a program by
  its rule and a path without the mark.\<close>

definition takeForRules ::
    "summary_options \<Rightarrow> access \<Rightarrow> ustring list \<Rightarrow> nat \<Rightarrow> ustring \<Rightarrow> rule_tally \<Rightarrow> summary_state \<Rightarrow> actions \<times> summary_state" where
  "takeForRules o' x parts by' cmd t s =
     (let info = ss_ranks s ! by'; i = rk_ruleId info;
          deletedPath = (\<not> starts_with MEMFD (ac_path x) \<and> ends_with DELETED (ac_path x));
          path = (if deletedPath then unmarked (ac_path x) else ac_path x);
          full = tally_full (tally_options o' s) t;
          (left, t') = tally_take (tally_options o' s) (tally_names o' s) x (if deletedPath then components path else parts)
            i path cmd t;
          s = s\<lparr>ss_tally := Some t'\<rparr> in
      if left = 0 \<or> tally_givenUp t' then (left, s)
      else (left, note_deleted i path full (sh_deleted (rk_shown info)) deletedPath s))"

text \<open>The program and the command a run is expected of: by the name before the exec, or its parent
  where the recording has no earlier line of it but has one of the parent.\<close>

definition runnerOf :: "summary_options \<Rightarrow> recorded \<Rightarrow> summary_state \<Rightarrow> (nat \<times> ustring) \<times> summary_state" where
  "runnerOf o' r s =
     (case (ss_commsBefore s (ar_pid r), ss_commsBefore s (ar_ppid r)) of
        (None, Some parent) \<Rightarrow>
          (let (rk, s) = programOf o' (ar_ppid r) parent s; (key, s) = commandKey o' (ar_ppid r) parent s in ((rk, key), s))
      | (before, _) \<Rightarrow>
          (let comm = text_or_empty (ar_comm r); (rk, s) = programOf o' (ar_pid r) comm s;
               (key, s) = commandKey o' (ar_pid r) (case before of None \<Rightarrow> comm | Some b \<Rightarrow> b) s in ((rk, key), s)))"

definition set_nspid :: "recorded \<Rightarrow> summary_state \<Rightarrow> summary_state" where
  "set_nspid r s =
     (if ar_kind r = ''fork'' \<or> ar_kind r = ''exec''
      then s\<lparr>ss_nsPids := (ss_nsPids s)(ar_pid r := (if ar_nspid r = Some 0 then None else ar_nspid r))\<rparr> else s)"

text \<open>The fork's name is the parent's, copied to the child.\<close>

definition take_fork :: "summary_options \<Rightarrow> recorded \<Rightarrow> summary_state \<Rightarrow> summary_state" where
  "take_fork o' r s =
     (if ar_kind r = ''fork'' then
        (let (rk, s) = programOf o' (ar_ppid r) (text_or_empty (ar_comm r)) s in
         s\<lparr>ss_programs := (ss_programs s)(ar_pid r \<mapsto> rk), ss_runNames := (ss_runNames s)(ar_pid r := ss_runNames s (ar_ppid r))\<rparr>)
      else s)"

text \<open>A killed system call's row.\<close>

definition time_row :: "int \<Rightarrow> nat \<Rightarrow> row \<Rightarrow> row" where
  "time_row t seq w =
     (let a = rw_agg w in
      w\<lparr>rw_agg := a\<lparr>ag_seq := (if ag_seq a = \<infinity> then enat seq else ag_seq a),
         ag_first := bound_of min (ag_first a) (Some t), ag_last := bound_of max (ag_last a) (Some t)\<rparr>\<rparr>)"

definition take_syscall :: "summary_options \<Rightarrow> recorded \<Rightarrow> summary_state \<Rightarrow> summary_state" where
  "take_syscall o' r s =
     (if \<not> rc_killed r then s
      else
        (let name = escapeForDisplay (if truthy (rc_syscall r) then the (rc_syscall r) else u ''?'');
             path = SYSCALL_PREFIX @ u ''32-bit '' @ name @ u '' (killed)'';
             (comm, s) = commandKey o' (ar_pid r) (text_or_empty (ar_comm r)) s;
             key = keyOf comm path; c = the (ss_commands s comm);
             had = (case map_of (ss_killed s) key of
                 Some w \<Rightarrow> w
               | None \<Rightarrow> \<lparr>rw_agg = newAgg, rw_flags = ''!'', rw_comm = cm_text c, rw_commField = cm_field c,
                   rw_shown = \<lparr>sh_path = path, sh_memfd = False, sh_deleted = False\<rparr>, rw_syscall = True\<rparr>);
             w = (case rc_t r of None \<Rightarrow> had | Some t \<Rightarrow> time_row t (ss_seq s) had) in
         s\<lparr>ss_killed := omap_update key (\<lambda>_. w) (ss_killed s),
           ss_seq := (if rc_t r \<noteq> None \<and> ag_seq (rw_agg had) = \<infinity> then ss_seq s + 1 else ss_seq s)\<rparr>))"

text \<open>What a process runs once it execs.\<close>

definition take_exec :: "summary_options \<Rightarrow> recorded \<Rightarrow> summary_state \<Rightarrow> summary_state" where
  "take_exec o' r s =
     (if ar_kind r \<noteq> ''exec'' then s
      else if truthy (ar_path r) then
        (let path = the (ar_path r);
             p = walk_path (normalize (mark_of r (canonical_path path (so_prefixes o'))) (ss_nsPids s (ar_pid r)));
             (rk, s) = rank o' p False s in
         s\<lparr>ss_programs := (ss_programs s)(ar_pid r \<mapsto> rk),
           ss_runNames := (ss_runNames s)(ar_pid r \<mapsto> (case ar_name r of None \<Rightarrow> path | Some n \<Rightarrow> n))\<rparr>)
      else s\<lparr>ss_programs := (ss_programs s)(ar_pid r := None), ss_runNames := (ss_runNames s)(ar_pid r := None)\<rparr>)"

text \<open>The path an access is of, and whether it is left out: a target that is no file, or a read of
  what the process loaded.\<close>

definition access_path :: "summary_options \<Rightarrow> recorded \<Rightarrow> classified \<Rightarrow> ustring" where
  "access_path o' r c =
     (let own = canonical_path (cl_path c) (so_prefixes o') in if ar_path r = Some (cl_path c) then mark_of r own else own)"

definition left_out :: "summary_options \<Rightarrow> recorded \<Rightarrow> proc \<Rightarrow> first_pass \<Rightarrow> classified \<Rightarrow> bool" where
  "left_out o' r proc f c \<longleftrightarrow>
     \<not> cl_failed c \<and>
     (ar_kind r \<noteq> ''exec'' \<and> \<not> hasKnownStart (access_path o' r c) \<or>
      cl_letter c = ''R'' \<and> (proc, access_path o' r c) \<in> set (fp_loaded f))"

definition access_of :: "summary_options \<Rightarrow> recorded \<Rightarrow> classified \<Rightarrow> ustring \<Rightarrow> summary_state \<Rightarrow> access" where
  "access_of o' r c comm s =
     \<lparr>ac_comm = comm,
      ac_path = walk_path (escaped_path (normalize (access_path o' r c) (ss_nsPids s (ar_pid r)))),
      ac_bit = bitsOf (cl_letter c), ac_failed = cl_failed c, ac_perm = cl_perm c, ac_t = rc_t r,
      ac_seq = (if rc_t r = None then \<infinity> else enat (ss_seq s)), ac_cmd = None\<rparr>"

text \<open>An access given to the tables: under rules the unexpected table stands in for the accessed paths,
  and a run is the command's that started it, as in the table.\<close>

definition give_tables :: "summary_options \<Rightarrow> access \<Rightarrow> nat \<Rightarrow> ustring \<Rightarrow> summary_state \<Rightarrow> summary_state" where
  "give_tables o' x by' cmd s =
     (let parts = components (ac_path x);
          s = (if so_rules o' = None
               then s\<lparr>ss_paths := lines_add (paths_options o' s) (x\<lparr>ac_comm := u (show_nat by'), ac_cmd := Some cmd\<rparr>) parts (ss_paths s)\<rparr>
               else s);
          (left, s) = (case ss_tally s of None \<Rightarrow> (ac_bit x, s) | Some t \<Rightarrow> takeForRules o' x parts by' cmd t s) in
      if left \<noteq> 0 then s\<lparr>ss_details := lines_add (details_options o' s) (x\<lparr>ac_comm := cmd, ac_bit := left\<rparr>) parts (ss_details s)\<rparr>
      else s)"

definition take_access ::
    "summary_options \<Rightarrow> recorded \<Rightarrow> proc \<Rightarrow> (nat \<times> ustring) option \<Rightarrow> classified \<Rightarrow> summary_state \<Rightarrow> summary_state" where
  "take_access o' r proc runner c s =
     (if left_out o' r proc (ss_pass s) c then s
      else
        (let (comm, s) = commandKey o' (ar_pid r) (text_or_empty (ar_comm r)) s;
             x = access_of o' r c comm s;
             s = s\<lparr>ss_seq := (if rc_t r = None then ss_seq s else ss_seq s + 1)\<rparr>;
             (by', s) = (case runner of Some (rk, _) \<Rightarrow> (rk, s) | None \<Rightarrow> programOf o' (ar_pid r) (text_or_empty (ar_comm r)) s) in
         give_tables o' x by' (case runner of Some (_, key) \<Rightarrow> key | None \<Rightarrow> comm) s))"

definition end_line :: "summary_state \<Rightarrow> rule_mark option \<times> summary_state" where
  "end_line s =
     (case ss_tally s of
        None \<Rightarrow> (None, s)
      | Some t \<Rightarrow> (let (mark, t') = tally_endLine t in (mark, s\<lparr>ss_tally := Some t'\<rparr>)))"

text \<open>The exec maps its image under the name it gives, before its own record.\<close>

definition take_file :: "summary_options \<Rightarrow> recorded \<Rightarrow> proc \<Rightarrow> summary_state \<Rightarrow> rule_mark option \<times> summary_state" where
  "take_file o' r proc s =
     (let (runner, s) = (if ar_kind r = ''exec'' then (let (rn, s) = runnerOf o' r s in (Some rn, s)) else (None, s));
          s = (if ar_image r then s else s\<lparr>ss_commsBefore := (ss_commsBefore s)(ar_pid r \<mapsto> text_or_empty (ar_comm r))\<rparr>);
          s = take_exec o' r s in
      if isLibraryMap r then (None, s)
      else end_line (fold (take_access o' r proc runner) (classify r) s))"

definition take_counted :: "summary_options \<Rightarrow> recorded \<Rightarrow> proc \<Rightarrow> summary_state \<Rightarrow> rule_mark option \<times> summary_state" where
  "take_counted o' r proc s =
     (let s = take_fork o' r s in
      if ar_kind r = ''end'' then (None, s\<lparr>ss_ended := True, ss_lost := rc_lost r, ss_hostMissed := rc_hostMissed r\<rparr>)
      else if ar_kind r = ''syscall'' then (None, take_syscall o' r s)
      else take_file o' r proc s)"

text \<open>Uncounted lines too keep the processes in step: the step's shell forks before it runs the
  step.\<close>

definition summary_add :: "summary_options \<Rightarrow> recorded option \<Rightarrow> bool \<Rightarrow> summary_state \<Rightarrow> rule_mark option \<times> summary_state" where
  "summary_add o' rec counted s =
     (case as_record rec of
        None \<Rightarrow> (None, s)
      | Some r \<Rightarrow>
          (let (proc, gens) = procOf (ss_added s) r; s = set_nspid r (s\<lparr>ss_added := gens\<rparr>) in
           if counted then take_counted o' r proc s else (None, s)))"

section \<open>The summary\<close>

record path_row = row +
  pr_program :: shown
  pr_rank :: nat
  pr_commands :: "ustring list"

record rule_row =
  rr_program :: shown
  rr_commands :: "ustring list"
  rr_flags :: string
  rr_path :: shown

record audit_summary =
  au_ended :: bool
  au_lost :: bool
  au_hostMissed :: nat
  au_paths :: "path_row list option"
  au_details :: "row list option"
  au_killed :: "row list"
  au_pathsCut :: "cut_cause option"
  au_detailsCut :: "cut_cause option"
  au_proposed :: "rule_row list option"
  au_proposedCut :: "cut_cause option"
  au_matched :: nat
  au_unexpected :: nat

definition recordedNoFileAccess :: "audit_summary \<Rightarrow> bool" where
  "recordedNoFileAccess a \<longleftrightarrow> au_details a = Some [] \<and> au_matched a = 0"

text \<open>A part cut short with no line left is given up, its note standing alone.\<close>

definition kept_part :: "'a list option \<Rightarrow> cut_cause option \<Rightarrow> 'a list option" where
  "kept_part rows cut' = (case rows of None \<Rightarrow> None | Some ls \<Rightarrow> if ls \<noteq> [] \<or> cut' = None then Some ls else None)"

definition detail_row :: "summary_options \<Rightarrow> summary_state \<Rightarrow> fold_line \<Rightarrow> row" where
  "detail_row o' s line =
     (case line of (comm, path, a) \<Rightarrow>
        (let c = the (ss_commands s comm) in
         \<lparr>rw_agg = a, rw_flags = fmtFlags a, rw_comm = cm_text c, rw_commField = cm_field c, rw_shown = shown_path o' path,
          rw_syscall = False\<rparr>))"

definition access_row :: "summary_options \<Rightarrow> summary_state \<Rightarrow> fold_line \<Rightarrow> path_row" where
  "access_row o' s line =
     (case line of (comm, path, a) \<Rightarrow>
        \<lparr>rw_agg = a, rw_flags = fmtFlags a, rw_comm = [], rw_commField = [], rw_shown = shown_path o' path, rw_syscall = False,
         pr_program = rk_shown (ss_ranks s ! rank_of_text comm), pr_rank = rank_of_text comm,
         pr_commands = commandsOf (ss_commands s) a\<rparr>)"

text \<open>A row shows the deleted mark only where every unexpected access under it was to the deleted file,
  or by the deleted program.\<close>

definition rule_row_of :: "summary_options \<Rightarrow> summary_state \<Rightarrow> nat \<times> ustring \<times> agg \<Rightarrow> rule_row" where
  "rule_row_of o' s line =
     (case line of (rk, path, a) \<Rightarrow>
        (let only = ss_deletedOnly s (keyOf (u (show_nat rk)) path);
             program = (case only of Some (p, _) \<Rightarrow> p | None \<Rightarrow> ss_programDeletedOnly s rk = Some True) in
         \<lparr>rr_program = (rk_shown (ss_ranks s ! rk))\<lparr>sh_deleted := program\<rparr>, rr_commands = commandsOf (ss_commands s) a,
          rr_flags = fmtFlags a,
          rr_path = shown_path o' (case only of Some (_, True) \<Rightarrow> path @ DELETED | _ \<Rightarrow> path)\<rparr>))"

text \<open>Texts in the order of their UTF-16 code units.\<close>

definition utf16 :: "ustring \<Rightarrow> nat list" where
  "utf16 s = concat (map (\<lambda>c. if c < 0x10000 then [c]
     else [0xD800 + (c - 0x10000) div 1024, 0xDC00 + (c - 0x10000) mod 1024]) s)"

fun units_less :: "nat list \<Rightarrow> nat list \<Rightarrow> bool" where
  "units_less _ [] \<longleftrightarrow> False"
| "units_less [] (_ # _) \<longleftrightarrow> True"
| "units_less (a # as) (b # bs) \<longleftrightarrow> a < b \<or> a = b \<and> units_less as bs"

definition cmp_text :: "ustring \<Rightarrow> ustring \<Rightarrow> int" where
  "cmp_text a b = (if units_less (utf16 a) (utf16 b) then - 1 else if units_less (utf16 b) (utf16 a) then 1 else 0)"

text \<open>\<^verbatim>\<open>a || b\<close> of comparisons.\<close>

definition or_cmp :: "int \<Rightarrow> int \<Rightarrow> int" where
  "or_cmp a b = (if a = 0 then b else a)"

definition cmp_rule_rows :: "rule_row \<Rightarrow> rule_row \<Rightarrow> int" where
  "cmp_rule_rows a b =
     (let ka = sortKey (sh_path (rr_path a)); kb = sortKey (sh_path (rr_path b)) in
      or_cmp (cmp_text (sh_path (rr_program a)) (sh_path (rr_program b)))
        (or_cmp (int (fst ka) - int (fst kb)) (cmp_text (snd ka) (snd kb))))"

definition byProgramThenPath :: "rule_row list \<Rightarrow> rule_row list" where
  "byProgramThenPath rows = js_sort cmp_rule_rows rows"

definition summary_finish :: "summary_options \<Rightarrow> summary_state \<Rightarrow> audit_summary" where
  "summary_finish o' s =
     (let (paths, pathLines) = lines_finish (paths_options o' s) (ss_paths s);
          (details, detailLines) = lines_finish (details_options o' s) (ss_details s);
          tally = map_option (tally_finish (tally_options o' s)) (ss_tally s);
          proposedCut = (case tally of None \<Rightarrow> None | Some (_, t) \<Rightarrow> tally_cut t);
          proposed = (case tally of None \<Rightarrow> None | Some (rows, _) \<Rightarrow> kept_part (map_option (map (rule_row_of o' s)) rows) proposedCut) in
      \<lparr>au_ended = ss_ended s, au_lost = ss_lost s, au_hostMissed = ss_hostMissed s,
       au_paths = map_option (map (access_row o' s)) (kept_part paths (lines_cut pathLines)),
       au_details = map_option (map (detail_row o' s)) (kept_part details (lines_cut detailLines)),
       au_killed = map snd (ss_killed s), au_pathsCut = lines_cut pathLines, au_detailsCut = lines_cut detailLines,
       au_proposed = map_option byProgramThenPath proposed, au_proposedCut = proposedCut,
       au_matched = (case tally of None \<Rightarrow> 0 | Some (_, t) \<Rightarrow> tl_matched t),
       au_unexpected = (case tally of None \<Rightarrow> 0 | Some (_, t) \<Rightarrow> tl_unexpected t)\<rparr>)"

end
