(* ===== verification/FsRecording.thy ===== *)
theory FsRecording
  imports FsReduce FsStrip
begin

text \<open>
  \<^verbatim>\<open>reduceRecording\<close> of \<^verbatim>\<open>src/lib/filesystem-audit/reduce.ts\<close>: the recording read twice, first for
  buildcage's machinery and what each process loaded, then for the lines of the step, which go to
  the sink, and for the summary. Parameters are \<^verbatim>\<open>parse\<close>, \<^verbatim>\<open>JSON.parse\<close> of a line where that is an object,
  \<^verbatim>\<open>stringify\<close> and \<^verbatim>\<open>quote\<close>, \<^verbatim>\<open>JSON.stringify\<close> of a record and of a text. The summary, a parameter of the
  code too, is the three functions \<^verbatim>\<open>summary_ops\<close>, each of which may throw.
\<close>

section \<open>Lines\<close>

text \<open>What follows the first place a text is in another.\<close>

fun text_after :: "ustring \<Rightarrow> ustring \<Rightarrow> ustring option" where
  "text_after pat [] = None"
| "text_after pat (c # s) = (if starts_with pat (c # s) then Some (drop (length pat) (c # s)) else text_after pat s)"

definition KIND :: ustring where
  "KIND = [QUOTE] @ u ''kind'' @ [QUOTE] @ u '':'' @ [QUOTE]"

definition firstPassNeeds :: "ustring \<Rightarrow> bool" where
  "firstPassNeeds line \<longleftrightarrow>
     (case text_after KIND line of
        None \<Rightarrow> False
      | Some rest \<Rightarrow> list_ex (\<lambda>kind. starts_with (kind @ [QUOTE]) rest) (map u [''exec'', ''fork'', ''mmap'']))"

text \<open>The line with its mark as the last field.\<close>

definition mark_field :: "(ustring \<Rightarrow> ustring) \<Rightarrow> rule_mark \<Rightarrow> ustring" where
  "mark_field quote mark =
     (case mark of
        By_rule ref \<Rightarrow> [QUOTE] @ u ''rule'' @ [QUOTE] @ u '':'' @ (case ref of None \<Rightarrow> u ''undefined'' | Some t \<Rightarrow> quote t)
      | Unexpected \<Rightarrow> [QUOTE] @ u ''unexpected'' @ [QUOTE] @ u '':true'')"

definition withMark :: "(ustring \<Rightarrow> ustring) \<Rightarrow> ustring \<Rightarrow> rule_mark \<Rightarrow> ustring" where
  "withMark quote line mark = butlast line @ u '','' @ mark_field quote mark @ u ''}''"

section \<open>The two reads\<close>

record ('s, 'r, 'e) summary_ops =
  sm_observe :: "recorded option \<Rightarrow> 's \<Rightarrow> 'e + 's"
  sm_add :: "recorded option \<Rightarrow> bool \<Rightarrow> 's \<Rightarrow> 'e + rule_mark option \<times> 's"
  sm_finish :: "'s \<Rightarrow> 'e + 'r"

text \<open>A step of the summary, which once failed takes none.\<close>

definition summarize :: "('s \<Rightarrow> 'e + 'a \<times> 's) \<Rightarrow> 'e + 's \<Rightarrow> 'a option \<times> ('e + 's)" where
  "summarize step s =
     (case s of
        Inl e \<Rightarrow> (None, Inl e)
      | Inr st \<Rightarrow> (case step st of Inl e \<Rightarrow> (None, Inl e) | Inr (a, st') \<Rightarrow> (Some a, Inr st')))"

definition read_first ::
    "ustring \<Rightarrow> (ustring \<Rightarrow> recorded option) \<Rightarrow> ('s, 'r, 'e) summary_ops \<Rightarrow> ustring \<Rightarrow>
     stripper \<times> ('e + 's) \<Rightarrow> stripper \<times> ('e + 's)" where
  "read_first base parse ops line st =
     (let r = (if firstPassNeeds line then parse line else None) in
      (observe base r (fst st), snd (summarize (\<lambda>s. map_e (Pair ()) (sm_observe ops r s)) (snd st))))"

record ('s, 'e) reading =
  rg_stripper :: stripper
  rg_summary :: "'e + 's"
  rg_ended :: bool
  rg_sink :: "ustring list"

definition is_end :: "recorded option \<Rightarrow> bool" where
  "is_end rec \<longleftrightarrow> (case as_record rec of None \<Rightarrow> False | Some r \<Rightarrow> ar_kind r = ''end'')"

definition sink_line :: "(ustring \<Rightarrow> ustring) \<Rightarrow> ustring \<Rightarrow> rule_mark option \<Rightarrow> ustring" where
  "sink_line quote line mark = (case mark of None \<Rightarrow> line | Some m \<Rightarrow> withMark quote line m)"

definition read_second ::
    "ustring \<Rightarrow> (ustring \<Rightarrow> recorded option) \<Rightarrow> (recorded \<Rightarrow> ustring) \<Rightarrow> (ustring \<Rightarrow> ustring) \<Rightarrow> ('s, 'r, 'e) summary_ops \<Rightarrow>
     ustring \<Rightarrow> ('s, 'e) reading \<Rightarrow> ('s, 'e) reading" where
  "read_second base parse stringify quote ops line g =
     (let r = parse line; (kept, stripper) = filter_line base stringify (line, r) (rg_stripper g);
          (mark, s) = summarize (sm_add ops (case kept of None \<Rightarrow> r | Some k \<Rightarrow> snd k) (kept \<noteq> None)) (rg_summary g) in
      \<lparr>rg_stripper = stripper, rg_summary = s, rg_ended = rg_ended g \<or> is_end r,
       rg_sink = (case kept of
           None \<Rightarrow> rg_sink g
         | Some k \<Rightarrow> rg_sink g @ [sink_line quote (fst k) (case mark of None \<Rightarrow> None | Some m \<Rightarrow> m)])\<rparr>)"

record ('r, 'e) reduced_recording =
  rd_summary :: "'r option"
  rd_error :: "'e option"
  rd_ended :: bool

datatype recording_error = Recording_changed

definition lines_length :: "ustring list \<Rightarrow> nat" where
  "lines_length ls = sum_list (map utf16_length ls)"

text \<open>What the sink was given, and the result, from the lines each read saw.\<close>

definition reduceRecording ::
    "ustring \<Rightarrow> (ustring \<Rightarrow> recorded option) \<Rightarrow> (recorded \<Rightarrow> ustring) \<Rightarrow> (ustring \<Rightarrow> ustring) \<Rightarrow> ('s, 'r, 'e) summary_ops \<Rightarrow>
     's \<Rightarrow> ustring list \<Rightarrow> ustring list \<Rightarrow> ustring list \<times> (recording_error + ('r, 'e) reduced_recording)" where
  "reduceRecording base parse stringify quote ops init lines again =
     (let (stripper, s) = fold (read_first base parse ops) lines (createStripper, Inr init);
          g = fold (read_second base parse stringify quote ops) again
            \<lparr>rg_stripper = stripper, rg_summary = s, rg_ended = False, rg_sink = []\<rparr> in
      (rg_sink g,
       if length again \<noteq> length lines \<or> lines_length again \<noteq> lines_length lines then Inl Recording_changed
       else
         (let (result, s) = summarize (\<lambda>st. map_e (\<lambda>r. (r, st)) (sm_finish ops st)) (rg_summary g) in
          Inr \<lparr>rd_summary = result, rd_error = (case s of Inl e \<Rightarrow> Some e | Inr _ \<Rightarrow> None), rd_ended = rg_ended g\<rparr>)))"

text \<open>The summary of the audit, which throws nothing.\<close>

definition audit_observe :: "summary_options \<Rightarrow> recorded option \<Rightarrow> summary_state \<Rightarrow> 'e + summary_state" where
  "audit_observe o' r s = Inr (s\<lparr>ss_pass := pass_observe o' r (ss_pass s)\<rparr>)"

definition audit_add :: "summary_options \<Rightarrow> recorded option \<Rightarrow> bool \<Rightarrow> summary_state \<Rightarrow> 'e + rule_mark option \<times> summary_state" where
  "audit_add o' r counted s = Inr (summary_add o' r counted s)"

definition audit_finish :: "summary_options \<Rightarrow> summary_state \<Rightarrow> 'e + audit_summary" where
  "audit_finish o' s = Inr (summary_finish o' s)"

definition createAuditSummary :: "summary_options \<Rightarrow> (summary_state, audit_summary, 'e) summary_ops" where
  "createAuditSummary o' = \<lparr>sm_observe = audit_observe o', sm_add = audit_add o', sm_finish = audit_finish o'\<rparr>"

section \<open>What the sink gets\<close>

text \<open>What the program relies on in the tracer's lines, \<^verbatim>\<open>{"t":"...","kind":"exec",\<close> and so on: the kind comes
  right after the time, before any field whose text the step chooses. So in a line that parses to an
  exec, a fork or an mmap the first \<^verbatim>\<open>"kind":"\<close> has that kind behind it.\<close>

definition json_text :: "string \<Rightarrow> ustring" where
  "json_text s = map (\<lambda>c. if c = 96 then QUOTE else c) (u s)"

definition kind_leads :: "(ustring \<Rightarrow> recorded option) \<Rightarrow> ustring list \<Rightarrow> bool" where
  "kind_leads parse lines \<longleftrightarrow>
     (\<forall>line\<in>set lines. \<forall>r. parse line = Some r \<longrightarrow> ar_kind r \<in> {''exec'', ''fork'', ''mmap''} \<longrightarrow>
        (\<exists>pre rest. line = pre @ json_text ''`kind`:`'' @ u (ar_kind r) @ [QUOTE] @ rest \<and>
           (\<forall>a b. pre @ json_text ''`kind`:`'' = a @ json_text ''`kind`:`'' @ b \<longrightarrow> b = [])))"

lemma text_after_first:
  assumes "\<forall>a b. pre @ p = a @ p @ b \<longrightarrow> b = []" "p \<noteq> []" shows "text_after p (pre @ p @ s) = Some s"
  using assms(1)
proof (induction pre)
  case Nil
  then show ?case using assms(2) by (cases p) (auto simp: starts_with_def)
next
  case (Cons c pre)
  have "\<not> starts_with p ((c # pre) @ p @ s)"
  proof
    assume "starts_with p ((c # pre) @ p @ s)"
    moreover have "take (length p) ((c # pre) @ p @ s) = take (length p) ((c # pre) @ p)"
      using take_append [of "length p" "(c # pre) @ p" s] by simp
    ultimately have "take (length p) ((c # pre) @ p) = p" unfolding starts_with_def by simp
    then have "(c # pre) @ p = [] @ p @ drop (length p) ((c # pre) @ p)" by (metis append_Nil append_take_drop_id)
    then have "drop (length p) ((c # pre) @ p) = []" using Cons.prems by blast
    then show False by simp
  qed
  moreover have "\<forall>a b. pre @ p = a @ p @ b \<longrightarrow> b = []"
  proof (intro allI impI)
    fix a b assume "pre @ p = a @ p @ b"
    then have "(c # pre) @ p = (c # a) @ p @ b" by simp
    then show "b = []" using Cons.prems by blast
  qed
  ultimately show ?case using Cons.IH by simp
qed

lemma kind_leads_needed:
  assumes "kind_leads parse lines" "line \<in> set lines" "parse line = Some r" "ar_kind r \<in> {''exec'', ''fork'', ''mmap''}"
  shows "firstPassNeeds line"
proof -
  obtain pre rest where l: "line = pre @ json_text ''`kind`:`'' @ u (ar_kind r) @ [QUOTE] @ rest"
    "\<forall>a b. pre @ json_text ''`kind`:`'' = a @ json_text ''`kind`:`'' @ b \<longrightarrow> b = []"
    using assms unfolding kind_leads_def by blast
  have k: "json_text ''`kind`:`'' = KIND" by (simp add: json_text_def KIND_def u_def)
  have "text_after KIND line = Some (u (ar_kind r) @ [QUOTE] @ rest)"
    using text_after_first [OF l(2)] l(1) unfolding k by (simp add: KIND_def)
  then show ?thesis using assms(4) by (auto simp: firstPassNeeds_def starts_with_def u_def)
qed

text \<open>A line as the tracer writes it, with the time before the kind, is such a line.\<close>

definition tracer_line :: "ustring \<Rightarrow> string \<Rightarrow> ustring \<Rightarrow> ustring" where
  "tracer_line time kind rest = json_text ''{`t`:`'' @ time @ json_text ''`,`kind`:`'' @ u kind @ [QUOTE] @ rest"

lemma mark_not_before:
  assumes "c \<notin> set pre" "pre @ QUOTE # c # m = a @ QUOTE # c # n" "c \<noteq> QUOTE" shows "length pre \<le> length a"
proof (rule ccontr)
  assume "\<not> length pre \<le> length a"
  then consider "Suc (length a) < length pre" | "Suc (length a) = length pre" by linarith
  moreover have k: "(pre @ QUOTE # c # m) ! Suc (length a) = c" unfolding assms(2) by (simp add: nth_append)
  ultimately show False
  proof cases
    case 1
    then have "pre ! Suc (length a) = c" using k by (simp add: nth_append)
    then show False using assms(1) 1 nth_mem by metis
  next
    case 2
    then show False using k assms(3) by (simp add: nth_append)
  qed
qed

lemma tracer_line_leads:
  assumes "107 \<notin> set time"
  shows "\<exists>pre rest'. tracer_line time kind rest = pre @ json_text ''`kind`:`'' @ u kind @ [QUOTE] @ rest' \<and>
    (\<forall>a b. pre @ json_text ''`kind`:`'' = a @ json_text ''`kind`:`'' @ b \<longrightarrow> b = [])"
proof (intro exI conjI allI impI)
  let ?pre = "json_text ''{`t`:`'' @ time @ json_text ''`,''"
  show "tracer_line time kind rest = ?pre @ json_text ''`kind`:`'' @ u kind @ [QUOTE] @ rest"
    by (simp add: tracer_line_def json_text_def u_def)
  fix a b
  assume e: "?pre @ json_text ''`kind`:`'' = a @ json_text ''`kind`:`'' @ b"
  have m: "json_text ''`kind`:`'' = QUOTE # 107 # json_text ''ind`:`''" by (simp add: json_text_def u_def)
  have p: "107 \<notin> set ?pre" using assms by (auto simp: json_text_def u_def)
  have "length ?pre \<le> length a" using mark_not_before [OF p, of "json_text ''ind`:`''" a "json_text ''ind`:`'' @ b"] e unfolding m by simp
  then show "b = []" using arg_cong [OF e, of length] by simp
qed

definition parsed_lines :: "(ustring \<Rightarrow> recorded option) \<Rightarrow> ustring list \<Rightarrow> (ustring \<times> recorded option) list" where
  "parsed_lines parse lines = map (\<lambda>line. (line, parse line)) lines"

lemma observe_other: "ar_kind r \<noteq> ''exec'' \<Longrightarrow> observe base (Some r) s = observe base (None :: recorded option) s"
  by (simp add: observe_def isShellExec_def)

lemma unneeded_kind:
  "kind_leads parse lines \<Longrightarrow> line \<in> set lines \<Longrightarrow> \<not> firstPassNeeds line \<Longrightarrow> parse line = Some r \<Longrightarrow>
   ar_kind r \<notin> {''exec'', ''fork'', ''mmap''}"
  using kind_leads_needed by blast

lemma observe_skips:
  assumes "kind_leads parse lines" and "line \<in> set lines"
  shows "observe base (if firstPassNeeds line then parse line else None) s = observe base (parse line) s"
proof (cases "firstPassNeeds line")
  case False
  then show ?thesis using unneeded_kind [OF assms] by (cases "parse line") (auto simp: observe_other)
qed simp

lemma pass_observe_other: "ar_kind r \<notin> {''exec'', ''fork'', ''mmap''} \<Longrightarrow> pass_observe o' (Some r) f = f"
  by (auto simp: pass_observe_def as_record_def procOf_def isLibraryMap_def Let_def)

lemma pass_observe_None [simp]: "pass_observe o' None f = f"
  by (simp add: pass_observe_def as_record_def)

lemma pass_observe_skips:
  assumes "kind_leads parse lines" and "line \<in> set lines"
  shows "pass_observe o' (if firstPassNeeds line then parse line else None) f = pass_observe o' (parse line) f"
proof (cases "firstPassNeeds line")
  case False
  then show ?thesis using unneeded_kind [OF assms] by (cases "parse line") (auto simp: pass_observe_other)
qed simp

lemma fst_read_first:
  "kind_leads parse all \<Longrightarrow> set lines \<subseteq> set all \<Longrightarrow>
   fst (fold (read_first base parse ops) lines st) = fold (observe base) (map parse lines) (fst st)"
  by (induction lines arbitrary: st) (simp_all add: read_first_def observe_skips Let_def)

text \<open>What the second read hands the summary: a line kept with the record it now holds, counted, and
  any other as it parsed, not counted.\<close>

definition fed :: "(ustring \<times> recorded option) option \<Rightarrow> recorded option \<Rightarrow> recorded option \<times> bool" where
  "fed kept r = (case kept of None \<Rightarrow> (r, False) | Some k \<Rightarrow> (snd k, True))"

definition add_fed ::
    "('s, 'r, 'e) summary_ops \<Rightarrow> recorded option \<times> bool \<Rightarrow> 'e + 's \<Rightarrow> rule_mark option \<times> ('e + 's)" where
  "add_fed ops rc s =
     (let (mark, s') = summarize (sm_add ops (fst rc) (snd rc)) s in (case mark of None \<Rightarrow> None | Some m \<Rightarrow> m, s'))"

fun run_fed ::
    "('s, 'r, 'e) summary_ops \<Rightarrow> (recorded option \<times> bool) list \<Rightarrow> 'e + 's \<Rightarrow> rule_mark option list \<times> ('e + 's)" where
  "run_fed ops [] s = ([], s)"
| "run_fed ops (rc # rcs) s =
     (let (mark, s1) = add_fed ops rc s; (marks, s2) = run_fed ops rcs s1 in (mark # marks, s2))"

text \<open>The lines kept, each with its mark.\<close>

definition kept_sink ::
    "(ustring \<Rightarrow> ustring) \<Rightarrow> (ustring \<times> recorded option) option list \<Rightarrow> rule_mark option list \<Rightarrow> ustring list" where
  "kept_sink quote kept marks =
     concat (map2 (\<lambda>k mark. case k of None \<Rightarrow> [] | Some k \<Rightarrow> [sink_line quote (fst k) mark]) kept marks)"

lemma kept_sink_Cons:
  "kept_sink quote (k # kept) (m # marks) =
     (case k of None \<Rightarrow> [] | Some k \<Rightarrow> [sink_line quote (fst k) m]) @ kept_sink quote kept marks"
  by (simp add: kept_sink_def)

definition feed_of ::
    "(ustring \<Rightarrow> recorded option) \<Rightarrow> ustring list \<Rightarrow> (ustring \<times> recorded option) option list \<Rightarrow> (recorded option \<times> bool) list" where
  "feed_of parse lines kept = map2 (\<lambda>k line. fed k (parse line)) kept lines"

lemma second_reads:
  fixes ops :: "('s, 'r, 'e) summary_ops" and base parse stringify quote
  defines "step \<equiv> read_second base parse stringify quote ops"
  shows "let kept = filter_lines base stringify (parsed_lines parse lines) (rg_stripper g);
           (marks, s) = run_fed ops (feed_of parse lines kept) (rg_summary g) in
       rg_sink (fold step lines g) = rg_sink g @ kept_sink quote kept marks \<and> rg_summary (fold step lines g) = s \<and>
       rg_ended (fold step lines g) = (rg_ended g \<or> list_ex is_end (map parse lines))"
proof (induction lines arbitrary: g)
  case Nil
  then show ?case by (simp add: parsed_lines_def feed_of_def kept_sink_def)
next
  case (Cons line lines)
  obtain kept st where k: "filter_line base stringify (line, parse line) (rg_stripper g) = (kept, st)" by (metis surj_pair)
  obtain mark s where m: "add_fed ops (fed kept (parse line)) (rg_summary g) = (mark, s)" by (metis surj_pair)
  have "step line g =
      \<lparr>rg_stripper = st, rg_summary = s, rg_ended = rg_ended g \<or> is_end (parse line),
       rg_sink = rg_sink g @ (case kept of None \<Rightarrow> [] | Some k \<Rightarrow> [sink_line quote (fst k) mark])\<rparr>"
    using m by (auto simp: step_def read_second_def k fed_def add_fed_def split: option.splits prod.splits)
  then show ?case
    using Cons [of "step line g"]
    by (simp add: parsed_lines_def feed_of_def k m kept_sink_Cons Let_def split: prod.splits)
qed

text \<open>A reduction that parses every line on both reads, and strips the recording before it is
  summarized.\<close>

definition reduce_reference ::
    "ustring \<Rightarrow> (ustring \<Rightarrow> recorded option) \<Rightarrow> (recorded \<Rightarrow> ustring) \<Rightarrow> (ustring \<Rightarrow> ustring) \<Rightarrow> summary_options \<Rightarrow>
     ustring list \<Rightarrow> ustring list \<times> (audit_summary, 'e) reduced_recording" where
  "reduce_reference base parse stringify quote o' lines =
     (let kept = strip_recording base stringify (parsed_lines parse lines);
          start = newSummary o' (fold (pass_observe o') (map parse lines) newPass);
          (marks, s) = run_fed (createAuditSummary o' :: (summary_state, audit_summary, 'e) summary_ops)
            (feed_of parse lines kept) (Inr start) in
      (kept_sink quote kept marks,
       \<lparr>rd_summary = (case s of Inl _ \<Rightarrow> None | Inr st \<Rightarrow> Some (summary_finish o' st)), rd_error = None,
        rd_ended = list_ex is_end (map parse lines)\<rparr>))"

lemma add_fed_audit:
  "add_fed (createAuditSummary o') rc (Inr s) =
     (fst (summary_add o' (fst rc) (snd rc) s), Inr (snd (summary_add o' (fst rc) (snd rc) s)))"
  by (simp add: add_fed_def summarize_def createAuditSummary_def audit_observe_def audit_add_def audit_finish_def split: prod.splits)

lemma run_fed_audit: "\<exists>s'. snd (run_fed (createAuditSummary o') rcs (Inr s)) = Inr s'"
  by (induction rcs arbitrary: s) (simp_all add: add_fed_audit case_prod_beta)

lemma first_reads_audit:
  assumes "kind_leads parse all"
  shows "set lines \<subseteq> set all \<Longrightarrow>
    snd (fold (read_first base parse (createAuditSummary o')) lines (st, Inr s)) =
    Inr (s\<lparr>ss_pass := fold (pass_observe o') (map parse lines) (ss_pass s)\<rparr>)"
  by (induction lines arbitrary: st s)
    (simp_all add: read_first_def summarize_def createAuditSummary_def audit_observe_def audit_add_def audit_finish_def pass_observe_skips [OF assms] Let_def)

text \<open>The reduction by the lines kept and the marks of the summary.\<close>

lemma reduceRecording_runs:
  fixes ops :: "('s, 'r, 'e) summary_ops"
  assumes "kind_leads parse lines"
  shows "reduceRecording base parse stringify quote ops init lines lines =
    (let kept = strip_recording base stringify (parsed_lines parse lines);
         (marks, s) = run_fed ops (feed_of parse lines kept) (snd (fold (read_first base parse ops) lines (createStripper, Inr init)));
         (result, s') = summarize (\<lambda>st. map_e (\<lambda>r. (r, st)) (sm_finish ops st)) s in
     (kept_sink quote kept marks,
      Inr \<lparr>rd_summary = result, rd_error = (case s' of Inl e \<Rightarrow> Some e | Inr _ \<Rightarrow> None),
         rd_ended = list_ex is_end (map parse lines)\<rparr>))"
proof -
  let ?first = "fold (read_first base parse ops) lines (createStripper, Inr init)"
  have "fst ?first = observed base (map snd (parsed_lines parse lines))"
    using fst_read_first [OF assms, of lines base ops "(createStripper, Inr init)"]
    by (simp add: observed_def parsed_lines_def comp_def)
  then show ?thesis
    using second_reads [of base stringify parse lines
        "\<lparr>rg_stripper = fst ?first, rg_summary = snd ?first, rg_ended = False, rg_sink = []\<rparr>" ops quote]
    by (simp add: reduceRecording_def strip_recording_def Let_def case_prod_beta)
qed

text \<open>C21. On a recording whose lines name their kind before any text of the step's, as the tracer
  writes them, reading it twice, the first time parsing only the lines that may matter, comes to
  parsing every line, stripping the machinery and then summarizing: the sink gets the lines the
  stripper keeps, in order and once each, with the mark the summary gives each, and the summary
  and the end of the recording are those of the whole of it.\<close>

theorem reduceRecording_reference:
  assumes "kind_leads parse lines"
  shows "reduceRecording base parse stringify quote (createAuditSummary o' :: (summary_state, audit_summary, 'e) summary_ops)
      (newSummary o' newPass) lines lines =
    map_prod id Inr (reduce_reference base parse stringify quote o' lines)"
proof -
  let ?ops = "createAuditSummary o' :: (summary_state, audit_summary, 'e) summary_ops"
  let ?start = "newSummary o' (fold (pass_observe o') (map parse lines) newPass)"
  have "(newSummary o' newPass)\<lparr>ss_pass := fold (pass_observe o') (map parse lines) newPass\<rparr> = ?start"
    "ss_pass (newSummary o' newPass) = newPass"
    by (simp_all add: newSummary_def)
  moreover have "sm_finish ?ops st = Inr (summary_finish o' st)" for st
    by (simp add: createAuditSummary_def audit_observe_def audit_add_def audit_finish_def)
  moreover have "\<exists>s'. snd (run_fed ?ops (feed_of parse lines (strip_recording base stringify (parsed_lines parse lines)))
      (Inr ?start)) = Inr s'" by (rule run_fed_audit)
  ultimately show ?thesis
    by (auto simp: reduceRecording_runs [OF assms, of _ _ _ ?ops] reduce_reference_def first_reads_audit [OF assms] summarize_def case_prod_beta Let_def)
qed

text \<open>A line of the sink with the mark of any summary.\<close>

definition sinks_line :: "(ustring \<Rightarrow> ustring) \<Rightarrow> ustring \<times> recorded option \<Rightarrow> ustring \<Rightarrow> bool" where
  "sinks_line quote k out \<longleftrightarrow> out = fst k \<or> (\<exists>m. out = withMark quote (fst k) m)"

lemma run_fed_length [simp]: "length (fst (run_fed ops rcs s)) = length rcs"
  by (induction rcs arbitrary: s) (simp_all add: case_prod_beta)

lemma kept_sink_lines:
  "length marks = length kept \<Longrightarrow> list_all2 (sinks_line quote) (List.map_filter (\<lambda>k. k) kept) (kept_sink quote kept marks)"
proof (induction kept marks rule: list_induct2')
  case (4 k kept m marks)
  then show ?case
    by (cases k; cases m) (auto simp: kept_sink_Cons sinks_line_def sink_line_def List.map_filter_simps)
qed (simp_all add: kept_sink_def List.map_filter_simps)

lemma filter_lines_length: "length (filter_lines base stringify lrs s) = length lrs"
  by (induction lrs arbitrary: s) (simp_all add: case_prod_beta)

text \<open>C22. On a recording whose lines name their kind before any text of the step's, whatever the summary does, a failure at any of its steps included, the sink gets every line
  the stripper keeps, once and in order, verbatim but for a mark, and the end of the recording is
  told.\<close>

theorem reduceRecording_sink:
  fixes ops :: "('s, 'r, 'e) summary_ops"
  assumes "kind_leads parse lines"
  shows "case reduceRecording base parse stringify quote ops init lines lines of
      (sink, Inr res) \<Rightarrow>
        list_all2 (sinks_line quote) (List.map_filter (\<lambda>k. k) (strip_recording base stringify (parsed_lines parse lines))) sink \<and>
        rd_ended res = list_ex is_end (map parse lines) \<and> (rd_summary res = None \<longleftrightarrow> rd_error res \<noteq> None)
    | (_, Inl _) \<Rightarrow> False"
proof -
  let ?kept = "strip_recording base stringify (parsed_lines parse lines)"
  have "length (feed_of parse lines ?kept) = length ?kept"
    by (simp add: strip_recording_def parsed_lines_def filter_lines_length feed_of_def)
  then show ?thesis
    by (simp add: reduceRecording_runs [OF assms] Let_def case_prod_beta kept_sink_lines summarize_def split: sum.splits)
qed

definition sample_record :: "string \<Rightarrow> nat \<Rightarrow> string \<Rightarrow> string \<Rightarrow> recorded" where
  "sample_record kind pid comm path =
     \<lparr>ar_kind = kind, ar_pid = Some pid, ar_ppid = Some (pid - 1), ar_nspid = None, ar_comm = Some (u comm), ar_program = None,
      ar_path = Some (u path), ar_name = None, ar_to = None, ar_access = None, ar_err = None, ar_failed = False,
      ar_image = False, ar_memfd = False, ar_deleted = False, ar_exchange = False, rc_isRecord = True, rc_t = None,
      rc_syscall = None, rc_killed = False, rc_lost = False, rc_hostMissed = 0\<rparr>"

definition sample_recording :: "(ustring \<times> recorded) list" where
  "sample_recording =
     [(tracer_line (u ''2026-07-01T00:00:00Z'') ''exec'' (u '',2}''), sample_record ''exec'' 2 ''run-script.sh'' ''/s/run-script.sh''),
      (json_text ''{`kind`:`read`,`pid`:3}'', sample_record ''read'' 3 ''cat'' ''/w/a''),
      (json_text ''{`kind`:`end`}'', (sample_record ''end'' 0 [] [])\<lparr>ar_pid := None\<rparr>)]"

definition sample_summary :: "summary_options" where
  "sample_summary =
     \<lparr>so_prefixes = \<lparr>px_cwd = None, px_workspace = [u ''/w''], px_home = [], px_runnerFiles = Map.empty\<rparr>,
      so_rules = Some (new_matcher []), so_propose = False, so_toolCache = [], so_fanout = DEFAULT_FANOUT, so_limits = LIMITS\<rparr>"

lemma sample_kinds: "kind_leads (map_of sample_recording) (map fst sample_recording)"
  unfolding kind_leads_def
proof (intro ballI allI impI)
  fix line r
  assume "map_of sample_recording line = Some r" "ar_kind r \<in> {''exec'', ''fork'', ''mmap''}"
  then have "line = tracer_line (u ''2026-07-01T00:00:00Z'') ''exec'' (u '',2}'')" "ar_kind r = ''exec''"
    using map_of_SomeD [of sample_recording line r] by (auto simp: sample_recording_def sample_record_def)
  then show "\<exists>pre rest. line = pre @ json_text ''`kind`:`'' @ u (ar_kind r) @ [QUOTE] @ rest \<and>
      (\<forall>a b. pre @ json_text ''`kind`:`'' = a @ json_text ''`kind`:`'' @ b \<longrightarrow> b = [])"
    using tracer_line_leads [of "u ''2026-07-01T00:00:00Z''" "''exec''" "u '',2}''"] by (simp add: u_def)
qed

lemma reduceRecording_reference_witness:
  "reduceRecording (u ''/s'') (map_of sample_recording) (\<lambda>_. []) (\<lambda>t. [QUOTE] @ t @ [QUOTE])
     (createAuditSummary sample_summary :: (summary_state, audit_summary, unit) summary_ops)
     (newSummary sample_summary newPass) (map fst sample_recording) (map fst sample_recording) =
   map_prod id Inr
     (reduce_reference (u ''/s'') (map_of sample_recording) (\<lambda>_. []) (\<lambda>t. [QUOTE] @ t @ [QUOTE]) sample_summary (map fst sample_recording))"
proof -
  show ?thesis by (rule reduceRecording_reference [OF sample_kinds])
qed

definition failing_ops :: "(unit, unit, string) summary_ops" where
  "failing_ops = \<lparr>sm_observe = (\<lambda>_ _. Inl ''boom''), sm_add = (\<lambda>_ _ s. Inr (None, s)), sm_finish = Inr\<rparr>"

lemma reduceRecording_sink_witness:
  "case reduceRecording (u ''/s'') (map_of sample_recording) (\<lambda>_. []) (\<lambda>t. t) failing_ops () (map fst sample_recording)
      (map fst sample_recording) of
     (sink, Inr res) \<Rightarrow>
       list_all2 (sinks_line (\<lambda>t. t)) (List.map_filter (\<lambda>k. k)
         (strip_recording (u ''/s'') (\<lambda>_. []) (parsed_lines (map_of sample_recording) (map fst sample_recording)))) sink \<and>
       rd_ended res \<and> rd_error res = Some ''boom'' \<and> sink = map fst (drop 1 sample_recording)
   | (_, Inl _) \<Rightarrow> False"
proof -
  have "case reduceRecording (u ''/s'') (map_of sample_recording) (\<lambda>_. []) (\<lambda>t. t) failing_ops () (map fst sample_recording)
      (map fst sample_recording) of
     (sink, Inr res) \<Rightarrow> rd_ended res \<and> rd_error res = Some ''boom'' \<and> sink = map fst (drop 1 sample_recording)
   | (_, Inl _) \<Rightarrow> False" by code_simp
  then show ?thesis
    using reduceRecording_sink [OF sample_kinds, where base = "u ''/s''" and stringify = "\<lambda>_. []" and quote = "\<lambda>t. t" and
        ops = failing_ops and init = "()"]
    by (auto split: prod.splits sum.splits)
qed

end
