(* ===== verification/FsSummary.thy ===== *)
theory FsSummary
  imports FsRecording
begin

text \<open>
  What the summary of \<^theory_text>\<open>FsReduce\<close> holds of a recording: without rules, each access that is not left
  out is in the table of accessed paths, in the details and, where rules are proposed, among them.
\<close>

section \<open>An access in a table\<close>

text \<open>A table that gave up holds nothing; any other holds the access, or says it dropped one.\<close>

definition table_ok :: "lines \<Rightarrow> bool" where
  "table_ok s \<longleftrightarrow> ln_stopped s \<noteq> None \<or> lines_ok s"

definition in_table :: "access \<Rightarrow> lines \<Rightarrow> bool" where
  "in_table x s \<longleftrightarrow> ln_stopped s \<noteq> None \<or> lines_ok s \<and> (held s x \<or> ln_dropped s)"

lemma table_ok_new: "table_ok newLines"
  by (simp add: table_ok_def newLines_def lines_ok_def member_keys_def climbing_lines_def tight_trees_def)

lemma table_ok_add:
  assumes "table_ok s" and "0 \<notin> set (ac_comm x)"
  shows "table_ok (lines_add o' x (components (ac_path x)) s)"
proof (cases "ln_stopped s \<noteq> None \<or> ac_bit x = 0")
  case True
  then show ?thesis using assms(1) lines_add_none lines_add_stopped by auto
next
  case False
  then show ?thesis using lines_add_adds [of s x o'] assms by (auto simp: table_ok_def adds_def keeps_def)
qed

lemma in_table_add:
  assumes "table_ok s" and "0 \<notin> set (ac_comm x)" and "ac_bit x \<noteq> 0"
  shows "in_table x (lines_add o' x (components (ac_path x)) s)"
proof (cases "ln_stopped s \<noteq> None")
  case True
  then show ?thesis by (simp add: lines_add_stopped in_table_def)
next
  case False
  then show ?thesis using lines_add_adds [of s x o'] assms by (auto simp: table_ok_def in_table_def adds_def keeps_def)
qed

lemma in_table_kept:
  assumes "in_table y s" and "0 \<notin> set (ac_comm y)" and "0 \<notin> set (ac_comm x)"
  shows "in_table y (lines_add o' x (components (ac_path x)) s)"
proof (cases "ln_stopped s \<noteq> None \<or> ac_bit x = 0")
  case True
  then show ?thesis using assms(1) lines_add_none lines_add_stopped by auto
next
  case False
  then show ?thesis using lines_add_adds [of s x o'] assms by (auto simp: in_table_def adds_def keeps_def)
qed

lemma in_table_shown:
  assumes "in_table x s" and "0 \<notin> set (ac_comm x)" and "ac_bit x \<noteq> 0"
    and "lines_finish o' s = (rows, s')" and "lines_cut s' = None"
  shows "\<exists>out. rows = Some out \<and> shown_in (lo_showWalked o') (rows_of (ac_comm x) out) x"
proof (cases "ln_stopped s")
  case (Some c)
  then show ?thesis using assms(4,5) by (auto simp: lines_finish_def lines_cut_def)
next
  case None
  then obtain out where out: "rows = Some out" using assms(4) by (auto simp: lines_finish_def Let_def split: prod.splits if_splits)
  have "lines_ok s" "held s x \<or> ln_dropped s" using assms(1) None by (auto simp: in_table_def)
  moreover obtain t where t: "keeps s t" "out = fst (all_lines o' t)" "\<not> ln_dropped s"
    using lines_finish_rows [OF \<open>lines_ok s\<close>, of o' out s'] assms(4,5) out by blast
  ultimately have "held t x" using assms(2) by (auto simp: keeps_def)
  then show ?thesis using all_lines_show [OF _ assms(2,3)] out t(2) by blast
qed

section \<open>Names leave the tables alone\<close>

lemma rank_frame [simp]:
  "ss_paths (snd (rank o' k n s)) = ss_paths s" "ss_details (snd (rank o' k n s)) = ss_details s"
  "ss_tally (snd (rank o' k n s)) = ss_tally s" "ss_pass (snd (rank o' k n s)) = ss_pass s"
  "ss_commandKeys (snd (rank o' k n s)) = ss_commandKeys s" "ss_nsPids (snd (rank o' k n s)) = ss_nsPids s"
  "ss_seq (snd (rank o' k n s)) = ss_seq s" "ss_runNames (snd (rank o' k n s)) = ss_runNames s"
  "ss_programs (snd (rank o' k n s)) = ss_programs s" "ss_added (snd (rank o' k n s)) = ss_added s"
  by (simp_all add: rank_def Let_def split: option.split)

lemma programOf_frame [simp]:
  "ss_paths (snd (programOf o' p c s)) = ss_paths s" "ss_details (snd (programOf o' p c s)) = ss_details s"
  "ss_tally (snd (programOf o' p c s)) = ss_tally s" "ss_pass (snd (programOf o' p c s)) = ss_pass s"
  "ss_commandKeys (snd (programOf o' p c s)) = ss_commandKeys s" "ss_nsPids (snd (programOf o' p c s)) = ss_nsPids s"
  "ss_seq (snd (programOf o' p c s)) = ss_seq s" "ss_runNames (snd (programOf o' p c s)) = ss_runNames s"
  "ss_added (snd (programOf o' p c s)) = ss_added s"
  by (simp_all add: programOf_def case_prod_beta Let_def split: option.split)

lemma commandKey_frame [simp]:
  "ss_paths (snd (commandKey o' p c s)) = ss_paths s" "ss_details (snd (commandKey o' p c s)) = ss_details s"
  "ss_tally (snd (commandKey o' p c s)) = ss_tally s" "ss_pass (snd (commandKey o' p c s)) = ss_pass s"
  "ss_nsPids (snd (commandKey o' p c s)) = ss_nsPids s" "ss_seq (snd (commandKey o' p c s)) = ss_seq s"
  "ss_runNames (snd (commandKey o' p c s)) = ss_runNames s" "ss_added (snd (commandKey o' p c s)) = ss_added s"
  by (simp_all add: commandKey_def case_prod_beta Let_def split: option.split)

text \<open>The programs known only grow, and each process's is one of them.\<close>

definition ranks_ok :: "summary_state \<Rightarrow> bool" where
  "ranks_ok s \<longleftrightarrow>
     (\<forall>k r. ss_rankOf s k = Some r \<longrightarrow> r < length (ss_ranks s)) \<and> (\<forall>p r. ss_programs s p = Some r \<longrightarrow> r < length (ss_ranks s))"

definition names_grow :: "summary_state \<Rightarrow> summary_state \<Rightarrow> bool" where
  "names_grow s s' \<longleftrightarrow> ranks_ok s' \<and> prefix (ss_ranks s) (ss_ranks s')"

lemma names_grow_trans: "names_grow s s' \<Longrightarrow> names_grow s' s'' \<Longrightarrow> names_grow s s''"
  by (auto simp: names_grow_def)

lemma names_grow_refl: "ranks_ok s \<Longrightarrow> names_grow s s"
  by (simp add: names_grow_def)

lemma rank_grows: "ranks_ok s \<Longrightarrow> names_grow s (snd (rank o' k n s)) \<and> fst (rank o' k n s) < length (ss_ranks (snd (rank o' k n s)))"
  by (auto simp: names_grow_def ranks_ok_def rank_def Let_def less_SucI split: option.split)

lemma programOf_grows:
  "ranks_ok s \<Longrightarrow> names_grow s (snd (programOf o' p c s)) \<and>
   fst (programOf o' p c s) < length (ss_ranks (snd (programOf o' p c s)))"
  using rank_grows [of s o' c True]
  by (auto simp: programOf_def case_prod_beta Let_def names_grow_def ranks_ok_def split: option.split)

lemma commandKey_names [simp]:
  "ss_programs (snd (commandKey o' p c s)) = ss_programs (snd (programOf o' p c s))"
  "ss_ranks (snd (commandKey o' p c s)) = ss_ranks (snd (programOf o' p c s))"
  "ss_rankOf (snd (commandKey o' p c s)) = ss_rankOf (snd (programOf o' p c s))"
  by (simp_all add: commandKey_def case_prod_beta Let_def split: option.split)

lemma commandKey_grows: "ranks_ok s \<Longrightarrow> names_grow s (snd (commandKey o' p c s))"
  using programOf_grows [of s o' p c] by (simp add: names_grow_def ranks_ok_def)

lemma programOf_known [simp]: "ss_programs (snd (programOf o' p c s)) p = Some (fst (programOf o' p c s))"
  by (auto simp: programOf_def case_prod_beta Let_def split: option.split)

lemma programOf_settled: "ss_programs s p = Some r \<Longrightarrow> programOf o' p c s = (r, s)"
  by (simp add: programOf_def)

text \<open>A command is asked for twice with the same answer.\<close>

definition same_names :: "summary_state \<Rightarrow> summary_state \<Rightarrow> bool" where
  "same_names s s' \<longleftrightarrow>
     ss_programs s' = ss_programs s \<and> ss_ranks s' = ss_ranks s \<and> ss_rankOf s' = ss_rankOf s \<and>
     ss_runNames s' = ss_runNames s \<and> ss_commandKeys s' = ss_commandKeys s"

lemma commandKey_again:
  "\<exists>m. ss_programs (snd (commandKey o' p c s)) p = Some (fst (programOf o' p c s)) \<and>
     m = u (show_nat (fst (programOf o' p c s))) @ [0] @ text_or_empty (ss_runNames s p) @ [0] @ c \<and>
     ss_commandKeys (snd (commandKey o' p c s)) m = Some (fst (commandKey o' p c s))"
  by (auto simp: commandKey_def case_prod_beta Let_def split: option.split)

lemma commandKey_settled:
  assumes "same_names (snd (commandKey o' p c s)) s'"
  shows "commandKey o' p c s' = (fst (commandKey o' p c s), s') \<and> programOf o' p c s' = (fst (programOf o' p c s), s')"
proof -
  have prog: "programOf o' p c s' = (fst (programOf o' p c s), s')"
    using assms by (intro programOf_settled) (simp add: same_names_def)
  have "ss_commandKeys s' (u (show_nat (fst (programOf o' p c s))) @ [0] @ text_or_empty (ss_runNames s' p) @ [0] @ c) =
      Some (fst (commandKey o' p c s))"
    using commandKey_again [of o' p c s] assms by (auto simp: same_names_def)
  then show ?thesis using prog by (simp add: commandKey_def)
qed

section \<open>Commands hold no separator\<close>

lemma escapeChar_free: "0 \<notin> set (escapeChar c)"
proof (cases "map_of NAMED_ESCAPES c")
  case None
  have "list_all is_hex (show_hex n)" for n using show_hex_reads by blast
  then have "0 \<notin> set (show_hex n)" for n by (force simp: list_all_iff is_hex_def)
  then show ?thesis using None by (auto simp: escapeChar_def u_def)
next
  case (Some e)
  then have "(c, e) \<in> set NAMED_ESCAPES" by (rule map_of_SomeD)
  then show ?thesis using Some by (auto simp: escapeChar_def NAMED_ESCAPES_def u_def)
qed

lemma escapeWith_free: "unsafe 0 \<Longrightarrow> 0 \<notin> set (escapeWith unsafe name)"
proof -
  assume "unsafe 0"
  then have "0 \<notin> set (escape_rest unsafe s)" for s
    by (induction s) (auto simp: escapeChar_free intro!: gr0I)
  then show ?thesis by (auto simp: escapeWith_def escapeChar_free)
qed

lemma escapeCommandName_free: "0 \<notin> set (escapeCommandName name)"
  unfolding escapeCommandName_def by (rule escapeWith_free) (simp add: UNSAFE_COMMAND_CHARS_def in_ranges_def UNSAFE_def)

lemma command_free: "0 \<notin> set (cm_text (commandOf program runName comm))"
  using escapeCommandName_free by (auto simp: commandOf_def Let_def MEMFD_PREFIX_def u_def split: option.split)

lemma show_nat_free: "0 \<notin> set (u (show_nat n))"
proof -
  have "list_all is_digit (show_nat n)" by (rule show_nat_digits)
  then show ?thesis by (force simp: u_def list_all_iff is_digit_def)
qed

definition keys_free :: "summary_state \<Rightarrow> bool" where
  "keys_free s \<longleftrightarrow> (\<forall>m k. ss_commandKeys s m = Some k \<longrightarrow> 0 \<notin> set k)"

lemma commandKey_free:
  assumes "keys_free s"
  shows "keys_free (snd (commandKey o' p c s)) \<and> 0 \<notin> set (fst (commandKey o' p c s))"
  using assms command_free show_nat_free
  by (auto simp: keys_free_def commandKey_def case_prod_beta Let_def split: option.split if_splits)

section \<open>One access\<close>

lemma classify_bits: "c \<in> set (classify r) \<Longrightarrow> bitsOf (cl_letter c) \<noteq> 0"
proof -
  assume c: "c \<in> set (classify r)"
  have letter: "LETTER k = Some l \<Longrightarrow> l \<in> {''R'', ''W'', ''X'', ''M'', ''D'', ''A''}" for k l
    unfolding LETTER_def by (drule map_of_SomeD) auto
  let ?letters = "{[], ''R'', ''W'', ''RW'', ''X'', ''M'', ''D'', ''A''}"
  have two: "(if P then [] else ''R'') @ (if Q then ''W'' else []) \<in> ?letters" "(if P then ''W'' else ''R'') \<in> ?letters"
    "(if P then ''W'' else []) \<in> ?letters" "''W'' \<in> ?letters" "''R'' \<in> ?letters" for P Q
    by simp_all
  have some: "(case LETTER k of None \<Rightarrow> [] | Some l \<Rightarrow> l) \<in> ?letters" for k
    using letter [of k] by (auto split: option.split)
  have "classify_letter r \<in> ?letters"
    unfolding classify_letter_def Let_def
    by (cases "ar_access r") (simp_all only: two some option.case insertI1 if_split_mem1 simp_thms)
  then have "cl_letter c \<in> {''R'', ''W'', ''RW'', ''X'', ''M'', ''D'', ''A'', ''L''}"
    using c by (auto simp: classify_def classifyLink_def Let_def split: if_splits)
  moreover have "\<forall>l\<in>{''R'', ''W'', ''RW'', ''X'', ''M'', ''D'', ''A'', ''L''}. bitsOf l \<noteq> 0" by code_simp
  ultimately show ?thesis by blast
qed

text \<open>An access as the tables take it: the table's key, the path, the command and its place.\<close>

definition given_access ::
    "summary_options \<Rightarrow> recorded \<Rightarrow> classified \<Rightarrow> nat option \<Rightarrow> ustring \<Rightarrow> ustring option \<Rightarrow> enat \<Rightarrow> access" where
  "given_access o' r c ns key cmd n =
     \<lparr>ac_comm = key, ac_path = walk_path (escaped_path (normalize (access_path o' r c) ns)), ac_bit = bitsOf (cl_letter c),
      ac_failed = cl_failed c, ac_perm = cl_perm c, ac_t = rc_t r, ac_seq = n, ac_cmd = cmd\<rparr>"

text \<open>A rule's path names no deleted file as such.\<close>

definition rule_path :: "ustring \<Rightarrow> ustring" where
  "rule_path path = (if starts_with MEMFD path then path else unmarked path)"

definition tally_free :: "summary_state \<Rightarrow> bool" where
  "tally_free s \<longleftrightarrow> (\<forall>t. ss_tally s = Some t \<longrightarrow> tl_rules t = None)"

definition same_tables :: "summary_state \<Rightarrow> summary_state \<Rightarrow> bool" where
  "same_tables s s' \<longleftrightarrow>
     ss_paths s' = ss_paths s \<and> ss_details s' = ss_details s \<and> ss_tally s' = ss_tally s \<and> ss_pass s' = ss_pass s"

lemma note_deleted_frame [simp]:
  "same_tables s (note_deleted i p f a b s)" "same_names s (note_deleted i p f a b s)"
  "ss_nsPids (note_deleted i p f a b s) = ss_nsPids s" "ss_added (note_deleted i p f a b s) = ss_added s"
  by (simp_all add: note_deleted_def Let_def same_tables_def same_names_def)

lemma takeForRules_free:
  assumes "tl_rules t = None" and "ac_bit x \<noteq> 0"
  shows "\<exists>o1 s1. takeForRules o' x (components (ac_path x)) by' cmd t s = (ac_bit x, s1) \<and>
    (let p = rule_path (ac_path x) in
     same_tables (s\<lparr>ss_tally := Some (t\<lparr>tl_lines := lines_add o1
       (x\<lparr>ac_comm := u (show_nat (rk_ruleId (ss_ranks s ! by'))), ac_path := p, ac_cmd := Some cmd\<rparr>) (components p) (tl_lines t)\<rparr>)\<rparr>) s1) \<and>
    same_names s s1 \<and> ss_nsPids s1 = ss_nsPids s \<and> ss_added s1 = ss_added s"
proof -
  define p where "p = rule_path (ac_path x)"
  have path: "(if \<not> starts_with MEMFD (ac_path x) \<and> ends_with DELETED (ac_path x) then unmarked (ac_path x) else ac_path x) = p"
    "(if \<not> starts_with MEMFD (ac_path x) \<and> ends_with DELETED (ac_path x) then components p else components (ac_path x)) = components p"
    by (auto simp: p_def rule_path_def unmarked_def)
  define i where "i = rk_ruleId (ss_ranks s ! by')"
  define t' where "t' = t\<lparr>tl_lines := lines_add (tally_options o' s)
      (x\<lparr>ac_comm := u (show_nat i), ac_path := p, ac_cmd := Some cmd\<rparr>) (components p) (tl_lines t)\<rparr>"
  have take: "tally_take (tally_options o' s) (tally_names o' s) x (components p) i p cmd t = (ac_bit x, t')"
    by (simp add: tally_take_def tally_match_def assms(1) t'_def)
  define full where "full = tally_full (tally_options o' s) t"
  define a where "a = sh_deleted (rk_shown (ss_ranks s ! by'))"
  define b where "b \<longleftrightarrow> \<not> starts_with MEMFD (ac_path x) \<and> ends_with DELETED (ac_path x)"
  have r: "takeForRules o' x (components (ac_path x)) by' cmd t s =
      (ac_bit x, if tally_givenUp t' then s\<lparr>ss_tally := Some t'\<rparr> else note_deleted i p full a b (s\<lparr>ss_tally := Some t'\<rparr>))"
    unfolding takeForRules_def Let_def path i_def [symmetric] take a_def b_def full_def using assms(2) by simp
  define res where "res = (if tally_givenUp t' then s\<lparr>ss_tally := Some t'\<rparr> else note_deleted i p full a b (s\<lparr>ss_tally := Some t'\<rparr>))"
  have "takeForRules o' x (components (ac_path x)) by' cmd t s = (ac_bit x, res)" using r by (simp add: res_def)
  moreover have "same_tables (s\<lparr>ss_tally := Some t'\<rparr>) res" by (simp add: res_def same_tables_def [of _ "s\<lparr>ss_tally := Some t'\<rparr>"])
  moreover have "same_names s res \<and> ss_nsPids res = ss_nsPids s \<and> ss_added res = ss_added s"
    using note_deleted_frame(2) [of "s\<lparr>ss_tally := Some t'\<rparr>" i p full a b] by (simp add: res_def same_names_def)
  ultimately show ?thesis
    unfolding Let_def p_def [symmetric] i_def [symmetric]
    by (intro exI [of _ "tally_options o' s"] exI [of _ res]) (simp add: t'_def)
qed

text \<open>The program and the command an access of a record is of: those that ran it for an exec.\<close>

definition runs_by :: "summary_options \<Rightarrow> recorded \<Rightarrow> (nat \<times> ustring) option \<Rightarrow> summary_state \<Rightarrow> nat \<times> ustring" where
  "runs_by o' r runner s =
     (case runner of
        Some rk \<Rightarrow> rk
      | None \<Rightarrow> (fst (programOf o' (ar_pid r) (text_or_empty (ar_comm r)) s),
          fst (commandKey o' (ar_pid r) (text_or_empty (ar_comm r)) s)))"

definition named_once :: "summary_options \<Rightarrow> recorded \<Rightarrow> summary_state \<Rightarrow> summary_state" where
  "named_once o' r s = snd (commandKey o' (ar_pid r) (text_or_empty (ar_comm r)) s)"

text \<open>What an access that is not left out does to the tables, without rules.\<close>

lemma take_access_effect:
  fixes runner :: "(nat \<times> ustring) option" and proc o' r s c
  assumes "so_rules o' = None" and "\<not> left_out o' r proc (ss_pass s) c" and "bitsOf (cl_letter c) \<noteq> 0" and "tally_free s"
  defines "s' \<equiv> take_access o' r proc runner c s" and "by' \<equiv> fst (runs_by o' r runner s)" and "cmd \<equiv> snd (runs_by o' r runner s)"
  shows "\<exists>o1 o2 o3 n. let x = given_access o' r c (ss_nsPids s (ar_pid r)); p = x (u (show_nat by')) (Some cmd) n; d = x cmd None n;
      q = p\<lparr>ac_comm := u (show_nat (rk_ruleId (ss_ranks (named_once o' r s) ! by'))), ac_path := rule_path (ac_path p)\<rparr> in
    ss_paths s' = lines_add o1 p (components (ac_path p)) (ss_paths s) \<and>
    ss_details s' = lines_add o2 d (components (ac_path d)) (ss_details s) \<and>
    ss_tally s' = map_option (\<lambda>t. t\<lparr>tl_lines := lines_add o3 q (components (ac_path q)) (tl_lines t)\<rparr>) (ss_tally s) \<and>
    same_names (named_once o' r s) s' \<and> ss_pass s' = ss_pass s \<and> ss_nsPids s' = ss_nsPids s \<and> ss_added s' = ss_added s"
proof -
  define comm where "comm = text_or_empty (ar_comm r)"
  define K where "K = fst (commandKey o' (ar_pid r) comm s)"
  define s1 where "s1 = named_once o' r s"
  define n where "n = (if rc_t r = None then \<infinity> else enat (ss_seq s))"
  define x where "x = access_of o' r c K s1"
  define s2 where "s2 = s1\<lparr>ss_seq := (if rc_t r = None then ss_seq s1 else ss_seq s1 + 1)\<rparr>"
  have f: "commandKey o' (ar_pid r) comm s = (K, s1)"
    by (simp add: s1_def named_once_def comm_def K_def)
  have same: "same_names s1 s2" by (simp add: s2_def same_names_def)
  have prog: "programOf o' (ar_pid r) comm s2 = (fst (programOf o' (ar_pid r) comm s), s2)"
    using commandKey_settled [of o' "ar_pid r" comm s s2] same by (simp add: s1_def named_once_def comm_def)
  have who: "(case runner of None \<Rightarrow> programOf o' (ar_pid r) comm s2 | Some (rk, _) \<Rightarrow> (rk, s2)) = (by', s2)"
    "(case runner of None \<Rightarrow> K | Some (_, key) \<Rightarrow> key) = cmd"
    by (auto simp: by'_def cmd_def runs_by_def prog [unfolded comm_def] comm_def K_def split: option.split)
  have s': "s' = give_tables o' x by' cmd s2"
    unfolding s'_def take_access_def comm_def [symmetric] f Let_def prod.case x_def [symmetric] s2_def [symmetric] who
    using assms(2) by simp
  define s3 where "s3 = s2\<lparr>ss_paths := lines_add (paths_options o' s2) (x\<lparr>ac_comm := u (show_nat by'), ac_cmd := Some cmd\<rparr>)
      (components (ac_path x)) (ss_paths s2)\<rparr>"
  have paths3: "(if so_rules o' = None then s2\<lparr>ss_paths := lines_add (paths_options o' s2) (x\<lparr>ac_comm := u (show_nat by'), ac_cmd := Some cmd\<rparr>)
      (components (ac_path x)) (ss_paths s2)\<rparr> else s2) = s3"
    by (simp add: s3_def assms(1))
  obtain left s4 where l: "(case ss_tally s3 of None \<Rightarrow> (ac_bit x, s3)
      | Some t \<Rightarrow> takeForRules o' x (components (ac_path x)) by' cmd t s3) = (left, s4)" by (metis surj_pair)
  have s'4: "s' = (if left \<noteq> 0 then s4\<lparr>ss_details := lines_add (details_options o' s4) (x\<lparr>ac_comm := cmd, ac_bit := left\<rparr>)
      (components (ac_path x)) (ss_details s4)\<rparr> else s4)"
    unfolding s' give_tables_def Let_def paths3 l prod.case by (rule refl)
  have x: "x = given_access o' r c (ss_nsPids s (ar_pid r)) K None n"
    by (simp add: x_def access_of_def given_access_def s1_def named_once_def n_def)
  have bit: "ac_bit x \<noteq> 0" using assms(3) by (simp add: x given_access_def)
  have fields: "ss_tally s3 = ss_tally s" "ss_details s3 = ss_details s" "ss_pass s3 = ss_pass s" "ss_nsPids s3 = ss_nsPids s"
    "ss_added s3 = ss_added s" "ss_ranks s3 = ss_ranks s1" "same_names s1 s3"
    by (simp_all add: s3_def s2_def s1_def named_once_def same_names_def)
  have paths: "ss_paths s3 = lines_add (paths_options o' s2) (x\<lparr>ac_comm := u (show_nat by'), ac_cmd := Some cmd\<rparr>)
      (components (ac_path x)) (ss_paths s)"
    by (simp add: s3_def s2_def s1_def named_once_def)
  let ?q = "x\<lparr>ac_comm := u (show_nat (rk_ruleId (ss_ranks s1 ! by'))), ac_path := rule_path (ac_path x), ac_cmd := Some cmd\<rparr>"
  have "\<exists>o3. left = ac_bit x \<and> ss_paths s4 = ss_paths s3 \<and> ss_details s4 = ss_details s3 \<and> ss_pass s4 = ss_pass s3 \<and>
      ss_tally s4 = map_option (\<lambda>t. t\<lparr>tl_lines := lines_add o3 ?q (components (ac_path ?q)) (tl_lines t)\<rparr>) (ss_tally s) \<and>
      same_names s3 s4 \<and> ss_nsPids s4 = ss_nsPids s3 \<and> ss_added s4 = ss_added s3"
  proof (cases "ss_tally s")
    case None
    then show ?thesis using l fields by (simp add: same_names_def)
  next
    case (Some t)
    then have "tl_rules t = None" using assms(4) by (simp add: tally_free_def)
    from takeForRules_free [OF this bit, of o' by' cmd s3] show ?thesis
      using l fields Some by (auto simp: same_tables_def Let_def)
  qed
  then obtain o3 where t: "left = ac_bit x" "ss_paths s4 = ss_paths s3" "ss_details s4 = ss_details s3" "ss_pass s4 = ss_pass s3"
    "ss_tally s4 = map_option (\<lambda>t. t\<lparr>tl_lines := lines_add o3 ?q (components (ac_path ?q)) (tl_lines t)\<rparr>) (ss_tally s)"
    "same_names s3 s4" "ss_nsPids s4 = ss_nsPids s3" "ss_added s4 = ss_added s3" by blast
  show ?thesis
    unfolding Let_def s1_def [symmetric]
    by (intro exI [of _ "paths_options o' s2"] exI [of _ "details_options o' s4"] exI [of _ o3] exI [of _ n])
      (use s'4 t bit fields paths in \<open>simp add: x given_access_def same_names_def\<close>)
qed

section \<open>Steps that lose nothing\<close>

definition state_ok :: "summary_state \<Rightarrow> bool" where
  "state_ok s \<longleftrightarrow>
     table_ok (ss_paths s) \<and> table_ok (ss_details s) \<and>
     (\<forall>t. ss_tally s = Some t \<longrightarrow> tl_rules t = None \<and> table_ok (tl_lines t)) \<and> keys_free s \<and> ranks_ok s"

definition in_tally :: "access \<Rightarrow> summary_state \<Rightarrow> bool" where
  "in_tally x s \<longleftrightarrow> (\<forall>t. ss_tally s = Some t \<longrightarrow> in_table x (tl_lines t))"

definition evolves :: "summary_state \<Rightarrow> summary_state \<Rightarrow> bool" where
  "evolves s s' \<longleftrightarrow>
     state_ok s' \<and> names_grow s s' \<and> ss_pass s' = ss_pass s \<and> (ss_tally s' = None) = (ss_tally s = None) \<and>
     (\<forall>x. 0 \<notin> set (ac_comm x) \<longrightarrow>
        (in_table x (ss_paths s) \<longrightarrow> in_table x (ss_paths s')) \<and> (in_table x (ss_details s) \<longrightarrow> in_table x (ss_details s')) \<and>
        (in_tally x s \<longrightarrow> in_tally x s'))"

lemma evolves_trans: "evolves s s' \<Longrightarrow> evolves s' s'' \<Longrightarrow> evolves s s''"
  by (auto simp: evolves_def intro: names_grow_trans)

lemma evolves_refl: "state_ok s \<Longrightarrow> evolves s s"
  by (simp add: evolves_def names_grow_refl state_ok_def)

lemma evolves_names:
  assumes "state_ok s" and "same_tables s s'" and "names_grow s s'" and "keys_free s'"
  shows "evolves s s'"
  using assms by (auto simp: evolves_def state_ok_def same_tables_def names_grow_def in_tally_def)

lemma evolves_ok: "evolves s s' \<Longrightarrow> state_ok s'"
  by (simp add: evolves_def)

lemma same_names_grow: "same_names s s' \<Longrightarrow> ranks_ok s \<Longrightarrow> names_grow s s'"
  by (simp add: same_names_def names_grow_def ranks_ok_def)

lemma programOf_evolves:
  assumes "state_ok s" shows "evolves s (snd (programOf o' p c s))"
  using assms programOf_grows [of s o' p c]
  by (intro evolves_names) (simp_all add: same_tables_def state_ok_def keys_free_def)

lemma commandKey_evolves:
  assumes "state_ok s" shows "evolves s (snd (commandKey o' p c s))"
  using assms commandKey_grows [of s o' p c] commandKey_free [of s o' p c]
  by (intro evolves_names) (simp_all add: same_tables_def state_ok_def)

lemma rank_evolves:
  assumes "state_ok s" shows "evolves s (snd (rank o' k n s))"
  using assms rank_grows [of s o' k n]
  by (intro evolves_names) (simp_all add: same_tables_def state_ok_def keys_free_def)

text \<open>Where an access is: on the table of its program, in the details of its command, and among what the
  rules are proposed from, under the first program of the same name.\<close>

definition recorded_in ::
    "summary_options \<Rightarrow> recorded \<Rightarrow> classified \<Rightarrow> nat option \<Rightarrow> nat \<times> ustring \<Rightarrow> rank_info list \<Rightarrow> summary_state \<Rightarrow> bool" where
  "recorded_in o' r c ns who ranks s \<longleftrightarrow>
     (\<exists>n. let p = given_access o' r c ns (u (show_nat (fst who))) (Some (snd who)) n in
        in_table p (ss_paths s) \<and> in_table (given_access o' r c ns (snd who) None n) (ss_details s) \<and>
        in_tally (p\<lparr>ac_comm := u (show_nat (rk_ruleId (ranks ! fst who))), ac_path := rule_path (ac_path p)\<rparr>) s)"

lemma given_comm [simp]: "ac_comm (given_access o' r c ns key cmd n) = key" "ac_bit (given_access o' r c ns key cmd n) = bitsOf (cl_letter c)"
  by (simp_all add: given_access_def)

lemma recorded_in_evolves:
  "recorded_in o' r c ns who ranks s \<Longrightarrow> evolves s s' \<Longrightarrow> 0 \<notin> set (snd who) \<Longrightarrow> recorded_in o' r c ns who ranks s'"
proof -
  assume ev: "evolves s s'" and free: "0 \<notin> set (snd who)" and "recorded_in o' r c ns who ranks s"
  then obtain n where "let p = given_access o' r c ns (u (show_nat (fst who))) (Some (snd who)) n in
        in_table p (ss_paths s) \<and> in_table (given_access o' r c ns (snd who) None n) (ss_details s) \<and>
        in_tally (p\<lparr>ac_comm := u (show_nat (rk_ruleId (ranks ! fst who))), ac_path := rule_path (ac_path p)\<rparr>) s"
    unfolding recorded_in_def by blast
  then show "recorded_in o' r c ns who ranks s'"
    using ev free show_nat_free unfolding recorded_in_def evolves_def Let_def by (intro exI [of _ n]) simp
qed

lemma take_access_evolves:
  fixes runner :: "(nat \<times> ustring) option" and proc o' r s c
  assumes "so_rules o' = None" and "state_ok s" and "bitsOf (cl_letter c) \<noteq> 0" and "0 \<notin> set (snd (runs_by o' r runner s))"
  defines "s' \<equiv> take_access o' r proc runner c s"
  shows "evolves s s' \<and> runs_by o' r runner s' = runs_by o' r runner s \<and> ss_nsPids s' = ss_nsPids s \<and>
    (\<not> left_out o' r proc (ss_pass s) c \<longrightarrow>
      recorded_in o' r c (ss_nsPids s (ar_pid r)) (runs_by o' r runner s) (ss_ranks s') s' \<and>
      same_names (named_once o' r s) s')"
proof (cases "left_out o' r proc (ss_pass s) c")
  case True
  then show ?thesis using evolves_refl [OF assms(2)] by (simp add: s'_def take_access_def)
next
  case False
  have free: "tally_free s" using assms(2) by (simp add: tally_free_def state_ok_def)
  let ?who = "runs_by o' r runner s" and ?x = "given_access o' r c (ss_nsPids s (ar_pid r))"
  obtain o1 o2 o3 n where "let x = ?x; p = x (u (show_nat (fst ?who))) (Some (snd ?who)) n; d = x (snd ?who) None n;
      q = p\<lparr>ac_comm := u (show_nat (rk_ruleId (ss_ranks (named_once o' r s) ! fst ?who))), ac_path := rule_path (ac_path p)\<rparr> in
    ss_paths s' = lines_add o1 p (components (ac_path p)) (ss_paths s) \<and>
    ss_details s' = lines_add o2 d (components (ac_path d)) (ss_details s) \<and>
    ss_tally s' = map_option (\<lambda>t. t\<lparr>tl_lines := lines_add o3 q (components (ac_path q)) (tl_lines t)\<rparr>) (ss_tally s) \<and>
    same_names (named_once o' r s) s' \<and> ss_pass s' = ss_pass s \<and> ss_nsPids s' = ss_nsPids s \<and> ss_added s' = ss_added s"
    using take_access_effect [OF assms(1) False assms(3) free, where runner = runner] unfolding s'_def by blast
  moreover define p where "p = ?x (u (show_nat (fst ?who))) (Some (snd ?who)) n"
  moreover define d where "d = ?x (snd ?who) None n"
  moreover define q where "q = p\<lparr>ac_comm := u (show_nat (rk_ruleId (ss_ranks (named_once o' r s) ! fst ?who))), ac_path := rule_path (ac_path p)\<rparr>"
  ultimately have e: "ss_paths s' = lines_add o1 p (components (ac_path p)) (ss_paths s)"
    "ss_details s' = lines_add o2 d (components (ac_path d)) (ss_details s)"
    "ss_tally s' = map_option (\<lambda>t. t\<lparr>tl_lines := lines_add o3 q (components (ac_path q)) (tl_lines t)\<rparr>) (ss_tally s)"
    "same_names (named_once o' r s) s'" "ss_pass s' = ss_pass s" "ss_nsPids s' = ss_nsPids s"
    by (simp_all add: Let_def)
  have x: "0 \<notin> set (ac_comm p)" "0 \<notin> set (ac_comm d)" "0 \<notin> set (ac_comm q)" "ac_bit p \<noteq> 0" "ac_bit d \<noteq> 0" "ac_bit q \<noteq> 0"
    using assms(3,4) show_nat_free by (simp_all add: p_def d_def q_def)
  have tables: "table_ok (ss_paths s)" "table_ok (ss_details s)" "\<And>t. ss_tally s = Some t \<Longrightarrow> tl_rules t = None \<and> table_ok (tl_lines t)"
    using assms(2) by (simp_all add: state_ok_def)
  have once: "evolves s (named_once o' r s)" unfolding named_once_def by (rule commandKey_evolves [OF assms(2)])
  have grow: "names_grow s s'" "keys_free s'"
    using once e(4) by (auto simp: evolves_def state_ok_def names_grow_def same_names_def ranks_ok_def keys_free_def)
  have "runs_by o' r runner s' = runs_by o' r runner s"
    using commandKey_settled [of o' "ar_pid r" "text_or_empty (ar_comm r)" s s'] e(4)
    by (auto simp: runs_by_def named_once_def split: option.split)
  moreover have "state_ok s'"
    using tables table_ok_add [OF _ x(1)] table_ok_add [OF _ x(2)] table_ok_add [OF _ x(3)] grow
    by (auto simp: state_ok_def e names_grow_def)
  moreover have "evolves s s'"
    using grow in_table_kept [OF _ _ x(1)] in_table_kept [OF _ _ x(2)] in_table_kept [OF _ _ x(3)] \<open>state_ok s'\<close>
    by (auto simp: evolves_def e in_tally_def)
  moreover have "in_table p (ss_paths s') \<and> in_table d (ss_details s') \<and> in_tally q s'"
    using tables in_table_add x by (auto simp: in_tally_def e)
  then have "recorded_in o' r c (ss_nsPids s (ar_pid r)) ?who (ss_ranks (named_once o' r s)) s'"
    unfolding recorded_in_def Let_def p_def d_def q_def by blast
  moreover have "ss_ranks s' = ss_ranks (named_once o' r s)" using e(4) by (simp add: same_names_def)
  ultimately show ?thesis using e(4,6) by simp
qed

section \<open>A record\<close>

definition runner_ok :: "(nat \<times> ustring) option \<Rightarrow> summary_state \<Rightarrow> bool" where
  "runner_ok runner s \<longleftrightarrow>
     (case runner of None \<Rightarrow> True | Some rk \<Rightarrow> fst rk < length (ss_ranks s) \<and> 0 \<notin> set (snd rk))"

lemma runner_ok_grows: "runner_ok runner s \<Longrightarrow> names_grow s s' \<Longrightarrow> runner_ok runner s'"
  by (auto simp: runner_ok_def names_grow_def dest: prefix_length_le split: option.splits)

lemma runs_by_ok:
  assumes "state_ok s" and "runner_ok runner s"
  shows "0 \<notin> set (snd (runs_by o' r runner s)) \<and> fst (runs_by o' r runner s) < length (ss_ranks (named_once o' r s))"
proof (cases runner)
  case None
  then show ?thesis
    using assms(1) commandKey_free [of s o' "ar_pid r"] programOf_grows [of s o' "ar_pid r"]
    by (simp add: runs_by_def named_once_def state_ok_def)
next
  case (Some rk)
  have "names_grow s (named_once o' r s)"
    using commandKey_evolves [OF assms(1)] by (simp add: named_once_def evolves_def)
  then show ?thesis using runner_ok_grows [OF assms(2)] Some by (simp add: runs_by_def runner_ok_def)
qed

lemma recorded_in_ranks:
  "fst who < length ranks \<Longrightarrow> prefix ranks ranks' \<Longrightarrow> recorded_in o' r c ns who ranks' s = recorded_in o' r c ns who ranks s"
  by (auto simp: recorded_in_def prefix_def nth_append)

lemma accesses_recorded:
  assumes "so_rules o' = None" and "state_ok s" and "runner_ok runner s" and "\<forall>c\<in>set cs. bitsOf (cl_letter c) \<noteq> 0"
  shows "let s' = fold (take_access o' r proc runner) cs s in
    evolves s s' \<and> (\<forall>c\<in>set cs. \<not> left_out o' r proc (ss_pass s) c \<longrightarrow>
      recorded_in o' r c (ss_nsPids s (ar_pid r)) (runs_by o' r runner s) (ss_ranks s') s' \<and>
      fst (runs_by o' r runner s) < length (ss_ranks s'))"
  using assms(2-)
proof (induction cs arbitrary: s)
  case Nil
  then show ?case by (simp add: evolves_refl)
next
  case (Cons c cs)
  let ?t = "take_access o' r proc runner c s" and ?who = "runs_by o' r runner s"
  let ?s' = "fold (take_access o' r proc runner) cs ?t"
  have who: "0 \<notin> set (snd ?who)" "fst ?who < length (ss_ranks (named_once o' r s))" using runs_by_ok Cons.prems by blast+
  note t = take_access_evolves [OF assms(1) Cons.prems(1) _ who(1), of c proc]
  have ev: "evolves s ?t" "runs_by o' r runner ?t = ?who" "ss_nsPids ?t = ss_nsPids s" using t Cons.prems(3) by simp_all
  have ih: "let s' = ?s' in evolves ?t s' \<and> (\<forall>c\<in>set cs. \<not> left_out o' r proc (ss_pass ?t) c \<longrightarrow>
      recorded_in o' r c (ss_nsPids ?t (ar_pid r)) (runs_by o' r runner ?t) (ss_ranks s') s' \<and>
      fst (runs_by o' r runner ?t) < length (ss_ranks s'))"
    using Cons.prems(3) runner_ok_grows [OF Cons.prems(2)] ev(1)
    by (intro Cons.IH) (auto simp: evolves_def)
  then have grow: "prefix (ss_ranks ?t) (ss_ranks ?s')" "evolves ?t ?s'" by (simp_all add: Let_def evolves_def names_grow_def)
  have "recorded_in o' r c (ss_nsPids s (ar_pid r)) ?who (ss_ranks ?s') ?s' \<and> fst ?who < length (ss_ranks ?s')"
    if "\<not> left_out o' r proc (ss_pass s) c"
  proof -
    have r: "recorded_in o' r c (ss_nsPids s (ar_pid r)) ?who (ss_ranks ?t) ?t" "same_names (named_once o' r s) ?t"
      using t that Cons.prems(3) by simp_all
    then have "fst ?who < length (ss_ranks ?t)" using who(2) by (simp add: same_names_def)
    moreover have "recorded_in o' r c (ss_nsPids s (ar_pid r)) ?who (ss_ranks ?t) ?s'"
      by (rule recorded_in_evolves [OF r(1) grow(2) who(1)])
    moreover have "length (ss_ranks ?t) \<le> length (ss_ranks ?s')" by (rule prefix_length_le [OF grow(1)])
    ultimately show ?thesis using recorded_in_ranks [OF _ grow(1)] by simp
  qed
  moreover have "ss_pass ?t = ss_pass s" using ev(1) by (simp add: evolves_def)
  ultimately show ?case using ih evolves_trans [OF ev(1) grow(2)] unfolding Let_def ev(2,3) fold_simps by simp
qed

section \<open>A recording\<close>

lemma evolves_fields:
  assumes "state_ok s" and "same_tables s s'" and "ss_ranks s' = ss_ranks s" and "ss_rankOf s' = ss_rankOf s"
    and "ss_commandKeys s' = ss_commandKeys s" and "\<forall>p r. ss_programs s' p = Some r \<longrightarrow> r < length (ss_ranks s)"
  shows "evolves s s'"
  using assms by (intro evolves_names) (auto simp: names_grow_def ranks_ok_def state_ok_def keys_free_def)

lemma known_programs: "state_ok s \<Longrightarrow> ss_programs s p = Some r \<Longrightarrow> r < length (ss_ranks s)"
  by (simp add: state_ok_def ranks_ok_def)

lemma set_nspid_evolves: "state_ok s \<Longrightarrow> evolves s (set_nspid r (s\<lparr>ss_added := g\<rparr>))"
  by (rule evolves_fields) (auto simp: set_nspid_def same_tables_def known_programs)

lemma take_fork_evolves: "state_ok s \<Longrightarrow> evolves s (take_fork o' r s)"
proof (cases "ar_kind r = ''fork''")
  case True
  assume ok: "state_ok s"
  let ?p = "programOf o' (ar_ppid r) (text_or_empty (ar_comm r)) s"
  have ev: "evolves s (snd ?p)" by (rule programOf_evolves [OF ok])
  have "fst ?p < length (ss_ranks (snd ?p))" using programOf_grows ok by (simp add: state_ok_def)
  then have "evolves (snd ?p) (take_fork o' r s)"
    using evolves_ok [OF ev] True
    by (intro evolves_fields) (auto simp: take_fork_def case_prod_beta Let_def same_tables_def known_programs)
  then show ?thesis by (rule evolves_trans [OF ev])
qed (simp add: take_fork_def evolves_refl)

lemma take_exec_evolves: "state_ok s \<Longrightarrow> evolves s (take_exec o' r s)"
proof (cases "ar_kind r = ''exec'' \<and> truthy (ar_path r)")
  case True
  assume ok: "state_ok s"
  let ?k = "rank o' (walk_path (normalize (mark_of r (canonical_path (the (ar_path r)) (so_prefixes o'))) (ss_nsPids s (ar_pid r)))) False s"
  have ev: "evolves s (snd ?k)" by (rule rank_evolves [OF ok])
  have "fst ?k < length (ss_ranks (snd ?k))" using rank_grows ok by (simp add: state_ok_def)
  then have "evolves (snd ?k) (take_exec o' r s)"
    using evolves_ok [OF ev] True known_programs [OF evolves_ok [OF ev]]
    by (intro evolves_fields) (auto simp: take_exec_def case_prod_beta Let_def same_tables_def)
  then show ?thesis by (rule evolves_trans [OF ev])
next
  case False
  assume ok: "state_ok s"
  then show ?thesis using False
    by (intro evolves_fields) (auto simp: take_exec_def same_tables_def known_programs)
qed

lemma take_syscall_evolves: "state_ok s \<Longrightarrow> evolves s (take_syscall o' r s)"
proof (cases "rc_killed r")
  case True
  assume ok: "state_ok s"
  let ?k = "commandKey o' (ar_pid r) (text_or_empty (ar_comm r)) s"
  have ev: "evolves s (snd ?k)" by (rule commandKey_evolves [OF ok])
  have "evolves (snd ?k) (take_syscall o' r s)"
    using evolves_ok [OF ev] True known_programs [OF evolves_ok [OF ev]]
    by (intro evolves_fields) (auto simp: take_syscall_def case_prod_beta Let_def same_tables_def)
  then show ?thesis by (rule evolves_trans [OF ev])
qed (simp add: take_syscall_def evolves_refl)

lemma endLine_fields: "tl_lines (snd (tally_endLine t)) = tl_lines t" "tl_rules (snd (tally_endLine t)) = tl_rules t"
  by (simp_all add: tally_endLine_def split: option.split rule_mark.split)

lemma end_line_snd: "snd (end_line s) = s\<lparr>ss_tally := map_option (\<lambda>t. snd (tally_endLine t)) (ss_tally s)\<rparr>"
  by (cases "ss_tally s") (simp_all add: end_line_def case_prod_beta)

lemma end_line_evolves:
  assumes "state_ok s" shows "evolves s (snd (end_line s))"
proof -
  have "names_grow s (snd (end_line s))" by (rule same_names_grow) (use assms in \<open>simp_all add: end_line_snd same_names_def state_ok_def\<close>)
  moreover have "state_ok (snd (end_line s))"
    using assms by (auto simp: end_line_snd state_ok_def endLine_fields keys_free_def ranks_ok_def)
  ultimately show ?thesis by (auto simp: evolves_def end_line_snd in_tally_def endLine_fields)
qed

lemma asked_twice:
  fixes o' p c d s
  assumes "state_ok s"
  defines "s1 \<equiv> snd (programOf o' p c s)" and "s2 \<equiv> snd (commandKey o' p d (snd (programOf o' p c s)))"
  shows "evolves s s2 \<and> fst (programOf o' p c s) < length (ss_ranks s2) \<and> 0 \<notin> set (fst (commandKey o' p d s1))"
proof -
  have ev: "evolves s s1" unfolding s1_def by (rule programOf_evolves [OF assms(1)])
  have ev2: "evolves s1 s2" using commandKey_evolves [OF evolves_ok [OF ev]] by (simp add: s1_def s2_def)
  have "fst (programOf o' p c s) < length (ss_ranks s1)" using programOf_grows assms(1) by (simp add: s1_def state_ok_def)
  moreover have "length (ss_ranks s1) \<le> length (ss_ranks s2)"
    using ev2 by (intro prefix_length_le) (simp add: evolves_def names_grow_def)
  moreover have "0 \<notin> set (fst (commandKey o' p d s1))" using commandKey_free evolves_ok [OF ev] by (simp add: state_ok_def)
  ultimately show ?thesis using evolves_trans [OF ev ev2] by simp
qed

lemma runnerOf_evolves:
  assumes "state_ok s"
  shows "evolves s (snd (runnerOf o' r s)) \<and> runner_ok (Some (fst (runnerOf o' r s))) (snd (runnerOf o' r s))"
  using asked_twice [OF assms] unfolding runnerOf_def runner_ok_def Let_def case_prod_beta
  by (simp split: option.split)

text \<open>What precedes the accesses of a record: its process, what ran it, and the state.\<close>

definition file_start :: "summary_options \<Rightarrow> recorded \<Rightarrow> summary_state \<Rightarrow> (nat \<times> ustring) option \<times> summary_state" where
  "file_start o' r s =
     (let (runner, s) = (if ar_kind r = ''exec'' then (let (rn, s) = runnerOf o' r s in (Some rn, s)) else (None, s));
          s = (if ar_image r then s else s\<lparr>ss_commsBefore := (ss_commsBefore s)(ar_pid r \<mapsto> text_or_empty (ar_comm r))\<rparr>) in
      (runner, take_exec o' r s))"

lemma file_start_evolves:
  assumes "state_ok s"
  shows "evolves s (snd (file_start o' r s)) \<and> runner_ok (fst (file_start o' r s)) (snd (file_start o' r s))"
proof -
  define rs where "rs = (if ar_kind r = ''exec'' then (let (rn, s) = runnerOf o' r s in (Some rn, s)) else (None, s))"
  define s1 where "s1 = (if ar_image r then snd rs else (snd rs)\<lparr>ss_commsBefore := (ss_commsBefore (snd rs))(ar_pid r \<mapsto> text_or_empty (ar_comm r))\<rparr>)"
  have a: "evolves s (snd rs)" "runner_ok (fst rs) (snd rs)"
    using runnerOf_evolves [OF assms, of o' r] evolves_refl [OF assms] by (simp_all add: rs_def case_prod_beta runner_ok_def)
  have b: "evolves (snd rs) s1"
    using evolves_ok [OF a(1)] unfolding s1_def by (intro evolves_fields) (auto simp: same_tables_def known_programs)
  have c: "evolves s1 (take_exec o' r s1)" by (rule take_exec_evolves [OF evolves_ok [OF b]])
  have bc: "names_grow (snd rs) (take_exec o' r s1)" using evolves_trans [OF b c] by (simp add: evolves_def)
  have f: "file_start o' r s = (fst rs, take_exec o' r s1)"
    by (simp only: file_start_def rs_def s1_def Let_def case_prod_beta)
  show ?thesis unfolding f using evolves_trans [OF evolves_trans [OF a(1) b] c] runner_ok_grows [OF a(2) bc] by simp
qed

lemma take_file_start:
  "take_file o' r proc s =
     (let (runner, s) = file_start o' r s in
      if isLibraryMap r then (None, s) else end_line (fold (take_access o' r proc runner) (classify r) s))"
  by (simp add: take_file_def file_start_def case_prod_beta Let_def)

lemma take_file_recorded:
  fixes o' r proc s
  assumes "so_rules o' = None" and "state_ok s" and "file_start o' r s = (runner, s1)"
  defines "s' \<equiv> snd (take_file o' r proc s)"
  shows "evolves s s' \<and> (\<forall>c\<in>set (classify r). \<not> isLibraryMap r \<longrightarrow> \<not> left_out o' r proc (ss_pass s) c \<longrightarrow>
      recorded_in o' r c (ss_nsPids s1 (ar_pid r)) (runs_by o' r runner s1) (ss_ranks s') s' \<and>
      fst (runs_by o' r runner s1) < length (ss_ranks s') \<and> 0 \<notin> set (snd (runs_by o' r runner s1)))"
proof (cases "isLibraryMap r")
  case True
  then show ?thesis using file_start_evolves [OF assms(2), of o' r] by (simp add: s'_def take_file_start assms(3))
next
  case False
  let ?t = "fold (take_access o' r proc runner) (classify r) s1"
  have st: "evolves s s1" "runner_ok runner s1" using file_start_evolves [OF assms(2), of o' r] by (simp_all add: assms(3))
  have bits: "\<forall>c\<in>set (classify r). bitsOf (cl_letter c) \<noteq> 0" using classify_bits by blast
  have acc: "evolves s1 ?t \<and> (\<forall>c\<in>set (classify r). \<not> left_out o' r proc (ss_pass s1) c \<longrightarrow>
      recorded_in o' r c (ss_nsPids s1 (ar_pid r)) (runs_by o' r runner s1) (ss_ranks ?t) ?t \<and>
      fst (runs_by o' r runner s1) < length (ss_ranks ?t))"
    using accesses_recorded [OF assms(1) evolves_ok [OF st(1)] st(2) bits, of r proc] by (simp add: Let_def)
  have s': "s' = snd (end_line ?t)" using False by (simp add: s'_def take_file_start assms(3))
  have fin: "evolves ?t s'" "ss_ranks s' = ss_ranks ?t"
    using end_line_evolves [OF evolves_ok, of s1 ?t] acc by (simp_all add: s' end_line_snd)
  have free: "0 \<notin> set (snd (runs_by o' r runner s1))" using runs_by_ok evolves_ok [OF st(1)] st(2) by blast
  have "ss_pass s1 = ss_pass s" using st(1) by (simp add: evolves_def)
  then show ?thesis
    using acc fin free recorded_in_evolves [OF _ fin(1) free] evolves_trans [OF st(1) evolves_trans [OF _ fin(1)]]
    by auto
qed

text \<open>The state a record's accesses start from, and the records one after the other.\<close>

definition record_start :: "summary_options \<Rightarrow> recorded \<Rightarrow> summary_state \<Rightarrow> proc \<times> (nat \<times> ustring) option \<times> summary_state" where
  "record_start o' r s =
     (let (proc, gens) = procOf (ss_added s) r in
      (proc, file_start o' r (take_fork o' r (set_nspid r (s\<lparr>ss_added := gens\<rparr>)))))"

definition summary_run :: "summary_options \<Rightarrow> (recorded option \<times> bool) list \<Rightarrow> summary_state \<Rightarrow> summary_state" where
  "summary_run o' recs s = fold (\<lambda>rc s. snd (summary_add o' (fst rc) (snd rc) s)) recs s"

lemma summary_add_evolves:
  assumes "so_rules o' = None" and "state_ok s"
  shows "evolves s (snd (summary_add o' rec counted s))"
proof (cases "as_record rec")
  case None
  then show ?thesis by (simp add: summary_add_def evolves_refl assms(2))
next
  case (Some r)
  obtain proc gens where p: "procOf (ss_added s) r = (proc, gens)" by fastforce
  let ?s1 = "set_nspid r (s\<lparr>ss_added := gens\<rparr>)"
  let ?s2 = "take_fork o' r ?s1"
  have e1: "evolves s ?s1" by (rule set_nspid_evolves [OF assms(2)])
  have e2: "evolves s ?s2" by (rule evolves_trans [OF e1 take_fork_evolves [OF evolves_ok [OF e1]]])
  obtain runner s3 where f: "file_start o' r ?s2 = (runner, s3)" by fastforce
  have files: "evolves ?s2 (snd (take_file o' r proc ?s2))"
    using take_file_recorded [OF assms(1) evolves_ok [OF e2] f, of proc] by blast
  have end': "evolves ?s2 (?s2\<lparr>ss_ended := True, ss_lost := rc_lost r, ss_hostMissed := rc_hostMissed r\<rparr>)"
    using evolves_ok [OF e2] by (intro evolves_fields) (auto simp: same_tables_def known_programs)
  have "evolves ?s2 (snd (take_counted o' r proc ?s1))"
    using files end' take_syscall_evolves [OF evolves_ok [OF e2]] by (simp add: take_counted_def Let_def)
  then show ?thesis using e1 evolves_trans [OF e2] by (simp add: summary_add_def Some p Let_def)
qed

lemma summary_run_evolves:
  assumes "so_rules o' = None"
  shows "state_ok s \<Longrightarrow> evolves s (summary_run o' recs s)"
proof (induction recs arbitrary: s)
  case (Cons rc recs)
  have "evolves s (snd (summary_add o' (fst rc) (snd rc) s))" by (rule summary_add_evolves [OF assms Cons.prems])
  from evolves_trans [OF this Cons.IH [OF evolves_ok [OF this]]] show ?case by (simp add: summary_run_def)
qed (simp add: summary_run_def evolves_refl)

lemma newSummary_ok: "so_rules o' = None \<Longrightarrow> state_ok (newSummary o' f)"
  by (auto simp: state_ok_def newSummary_def table_ok_new newTally_def keys_free_def ranks_ok_def)

lemma record_recorded:
  fixes o' r rec s s1 proc runner c
  assumes "so_rules o' = None" and "state_ok s" and "as_record rec = Some r" and "ar_kind r \<notin> {''end'', ''syscall''}"
    and "record_start o' r s = (proc, runner, s1)" and "\<not> isLibraryMap r" and "c \<in> set (classify r)"
    and "\<not> left_out o' r proc (ss_pass s) c"
  defines "s' \<equiv> snd (summary_add o' rec True s)" and "who \<equiv> runs_by o' r runner s1"
  shows "recorded_in o' r c (ss_nsPids s1 (ar_pid r)) who (ss_ranks s') s' \<and> fst who < length (ss_ranks s') \<and> 0 \<notin> set (snd who)"
proof -
  obtain gens where p: "procOf (ss_added s) r = (proc, gens)"
    and f: "file_start o' r (take_fork o' r (set_nspid r (s\<lparr>ss_added := gens\<rparr>))) = (runner, s1)"
    using assms(5) by (auto simp: record_start_def split: prod.splits)
  let ?s2 = "take_fork o' r (set_nspid r (s\<lparr>ss_added := gens\<rparr>))"
  have e1: "evolves s (set_nspid r (s\<lparr>ss_added := gens\<rparr>))" by (rule set_nspid_evolves [OF assms(2)])
  have e2: "evolves s ?s2" by (rule evolves_trans [OF e1 take_fork_evolves [OF evolves_ok [OF e1]]])
  have "s' = snd (take_file o' r proc ?s2)"
    using assms(3,4) by (simp add: s'_def summary_add_def p take_counted_def Let_def)
  moreover have "ss_pass ?s2 = ss_pass s" using e2 by (simp add: evolves_def)
  ultimately show ?thesis
    using take_file_recorded [OF assms(1) evolves_ok [OF e2] f, of proc] assms(6-8) by (simp add: who_def)
qed

section \<open>The summary's parts\<close>

definition rank_row :: "fold_line \<Rightarrow> nat \<times> ustring \<times> agg" where
  "rank_row line = (case line of (comm, path, a) \<Rightarrow> (rank_of_text comm, path, a))"

lemma finish_parts:
  assumes "summary_finish o' s = a"
  shows "\<exists>l l'. lines_finish (paths_options o' s) (ss_paths s) = (l, l') \<and>
      au_pathsCut a = lines_cut l' \<and> au_paths a = map_option (map (access_row o' s)) (kept_part l (lines_cut l'))"
    "\<exists>l l'. lines_finish (details_options o' s) (ss_details s) = (l, l') \<and>
      au_detailsCut a = lines_cut l' \<and> au_details a = map_option (map (detail_row o' s)) (kept_part l (lines_cut l'))"
    "ss_tally s = Some t \<Longrightarrow> \<exists>l l'. lines_finish (tally_options o' s) (tl_lines t) = (l, l') \<and> au_proposedCut a = lines_cut l' \<and>
      au_proposed a = map_option byProgramThenPath (kept_part (map_option (map (rule_row_of o' s \<circ> rank_row)) l) (lines_cut l'))"
  using assms
  by (auto simp: summary_finish_def Let_def case_prod_beta tally_finish_def tally_cut_def rank_row_def [abs_def] option.map_comp
      comp_def intro!: exI)

text \<open>Rows that are made of a table's lines and show an access.\<close>

definition shows_row :: "bool \<Rightarrow> (fold_line list \<Rightarrow> 'b list) \<Rightarrow> 'b list option \<Rightarrow> access \<Rightarrow> bool" where
  "shows_row walks rows parts x \<longleftrightarrow> (\<exists>out. parts = Some (rows out) \<and> shown_in walks (rows_of (ac_comm x) out) x)"

lemma part_shows:
  assumes "in_table x s" and "0 \<notin> set (ac_comm x)" and "ac_bit x \<noteq> 0" and "lines_finish o' s = (l, l')" and "lines_cut l' = None"
  shows "shows_row (lo_showWalked o') (map row) (map_option (map row) (kept_part l (lines_cut l'))) x"
  using in_table_shown [OF assms] assms(5) by (auto simp: shows_row_def kept_part_def)

text \<open>C20. Without rules, no file access of the recording is lost: an access of a line that counts, unless it is
  of no file or a read of what its process loaded, shows under its program in the table of
  accessed paths, under its command in the details, and where rules are proposed, among them
  under the first program of the same name, unless the part says that it was cut or gave up.\<close>

theorem summary_shows_access:
  assumes "so_rules o' = None" and "as_record rec = Some r" and "ar_kind r \<notin> {''end'', ''syscall''}" and "\<not> isLibraryMap r"
    and "record_start o' r (summary_run o' before (newSummary o' f)) = (proc, runner, s)"
    and "c \<in> set (classify r)" and "\<not> left_out o' r proc f c"
    and "summary_run o' (before @ (rec, True) # after) (newSummary o' f) = final" and "summary_finish o' final = a"
  shows "\<exists>n. let (by', cmd) = runs_by o' r runner s; x = given_access o' r c (ss_nsPids s (ar_pid r));
      p = x (u (show_nat by')) (Some cmd) n;
      q = p\<lparr>ac_comm := u (show_nat (rk_ruleId (ss_ranks final ! by'))), ac_path := rule_path (ac_path p)\<rparr> in
    (au_pathsCut a = None \<longrightarrow> shows_row False (map (access_row o' final)) (au_paths a) p) \<and>
    (au_detailsCut a = None \<longrightarrow> shows_row False (map (detail_row o' final)) (au_details a) (x cmd None n)) \<and>
    (so_propose o' \<and> au_proposedCut a = None \<longrightarrow>
      shows_row True (\<lambda>out. byProgramThenPath (map (rule_row_of o' final \<circ> rank_row) out)) (au_proposed a) q)"
proof -
  let ?start = "newSummary o' f" and ?who = "runs_by o' r runner s" and ?x = "given_access o' r c (ss_nsPids s (ar_pid r))"
  let ?pre = "summary_run o' before ?start"
  let ?mid = "snd (summary_add o' rec True ?pre)"
  have pre: "evolves ?start ?pre" by (rule summary_run_evolves [OF assms(1) newSummary_ok [OF assms(1)]])
  have mid: "evolves ?pre ?mid" by (rule summary_add_evolves [OF assms(1) evolves_ok [OF pre]])
  have final: "final = summary_run o' after ?mid" using assms(8) by (simp add: summary_run_def)
  have ev: "evolves ?mid final" unfolding final by (rule summary_run_evolves [OF assms(1) evolves_ok [OF mid]])
  have pass: "ss_pass ?pre = f" using pre by (simp add: evolves_def newSummary_def)
  have r: "recorded_in o' r c (ss_nsPids s (ar_pid r)) ?who (ss_ranks ?mid) ?mid" "fst ?who < length (ss_ranks ?mid)" "0 \<notin> set (snd ?who)"
    using record_recorded [OF assms(1) evolves_ok [OF pre] assms(2,3,5,4,6)] assms(7) pass by simp_all
  have "prefix (ss_ranks ?mid) (ss_ranks final)" using ev by (simp add: evolves_def names_grow_def)
  from recorded_in_ranks [OF r(2) this] recorded_in_evolves [OF r(1) ev r(3)]
  have "recorded_in o' r c (ss_nsPids s (ar_pid r)) ?who (ss_ranks final) final" by simp
  then obtain n where n: "in_table (?x (u (show_nat (fst ?who))) (Some (snd ?who)) n) (ss_paths final)"
    "in_table (?x (snd ?who) None n) (ss_details final)"
    "in_tally ((?x (u (show_nat (fst ?who))) (Some (snd ?who)) n)\<lparr>ac_comm := u (show_nat (rk_ruleId (ss_ranks final ! fst ?who))),
       ac_path := rule_path (ac_path (?x (u (show_nat (fst ?who))) (Some (snd ?who)) n))\<rparr>) final"
    unfolding recorded_in_def Let_def by blast
  define p where "p = ?x (u (show_nat (fst ?who))) (Some (snd ?who)) n"
  define q where "q = p\<lparr>ac_comm := u (show_nat (rk_ruleId (ss_ranks final ! fst ?who))), ac_path := rule_path (ac_path p)\<rparr>"
  have bits: "ac_bit p \<noteq> 0" "ac_bit q \<noteq> 0" "ac_bit (?x (snd ?who) None n) \<noteq> 0"
    using classify_bits [OF assms(6)] by (simp_all add: p_def q_def)
  have free: "0 \<notin> set (ac_comm p)" "0 \<notin> set (ac_comm q)" "0 \<notin> set (ac_comm (?x (snd ?who) None n))"
    using show_nat_free r(3) by (simp_all add: p_def q_def)
  have paths: "au_pathsCut a = None \<longrightarrow> shows_row False (map (access_row o' final)) (au_paths a) p"
  proof
    assume uncut: "au_pathsCut a = None"
    obtain l l' where l: "lines_finish (paths_options o' final) (ss_paths final) = (l, l')" "au_pathsCut a = lines_cut l'"
      "au_paths a = map_option (map (access_row o' final)) (kept_part l (lines_cut l'))"
      using finish_parts(1) [OF assms(9)] by blast
    have "lines_cut l' = None" using l(2) uncut by simp
    from part_shows [OF n(1) [folded p_def] free(1) bits(1) l(1) this, of "access_row o' final"]
    show "shows_row False (map (access_row o' final)) (au_paths a) p" by (simp add: l(3) paths_options_def)
  qed
  have details: "au_detailsCut a = None \<longrightarrow> shows_row False (map (detail_row o' final)) (au_details a) (?x (snd ?who) None n)"
  proof
    assume uncut: "au_detailsCut a = None"
    obtain l l' where l: "lines_finish (details_options o' final) (ss_details final) = (l, l')" "au_detailsCut a = lines_cut l'"
      "au_details a = map_option (map (detail_row o' final)) (kept_part l (lines_cut l'))"
      using finish_parts(2) [OF assms(9)] by blast
    have "lines_cut l' = None" using l(2) uncut by simp
    from part_shows [OF n(2) free(3) bits(3) l(1) this, of "detail_row o' final"]
    show "shows_row False (map (detail_row o' final)) (au_details a) (?x (snd ?who) None n)"
      by (simp add: l(3) details_options_def assms(1))
  qed
  have "shows_row True (\<lambda>out. byProgramThenPath (map (rule_row_of o' final \<circ> rank_row) out)) (au_proposed a) q"
    if "so_propose o'" "au_proposedCut a = None"
  proof -
    have "ss_tally final \<noteq> None"
      using that(1) pre mid ev by (simp add: evolves_def newSummary_def)
    then obtain t where t: "ss_tally final = Some t" by blast
    then have "in_table q (tl_lines t)" using n(3) by (simp add: in_tally_def p_def q_def)
    obtain l l' where l: "lines_finish (tally_options o' final) (tl_lines t) = (l, l')" "au_proposedCut a = lines_cut l'"
      "au_proposed a = map_option byProgramThenPath (kept_part (map_option (map (rule_row_of o' final \<circ> rank_row)) l) (lines_cut l'))"
      using finish_parts(3) [OF assms(9) t] by blast
    have cut: "lines_cut l' = None" using l(2) that(2) by simp
    obtain out where "l = Some out" "shown_in True (rows_of (ac_comm q) out) q"
      using in_table_shown [OF \<open>in_table q (tl_lines t)\<close> free(2) bits(2) l(1) cut] by (auto simp: tally_options_def)
    then show ?thesis by (auto simp: shows_row_def l(3) cut kept_part_def)
  qed
  then show ?thesis using paths details unfolding p_def q_def by (auto simp: Let_def case_prod_beta)
qed

definition audit_sample :: summary_options where
  "audit_sample = sample_summary\<lparr>so_rules := None\<rparr>"

definition read_sample :: recorded where
  "read_sample = sample_record ''read'' 3 ''cat'' ''/w/a''"

definition final_sample :: summary_state where
  "final_sample = summary_run audit_sample [(Some read_sample, True)] (newSummary audit_sample newPass)"

lemma summary_shows_access_witness:
  "\<exists>n. shows_row False (map (access_row audit_sample final_sample)) (au_paths (summary_finish audit_sample final_sample))
     (given_access audit_sample read_sample (hd (classify read_sample)) None (u ''0'') (Some (u ''0/cat'')) n)"
proof -
  let ?r = read_sample and ?o = audit_sample
  let ?start = "record_start ?o ?r (summary_run ?o [] (newSummary ?o newPass))"
  have a: "so_rules ?o = None \<and> as_record (Some ?r) = Some ?r \<and> ar_kind ?r \<notin> {''end'', ''syscall''} \<and> \<not> isLibraryMap ?r"
    by (simp add: audit_sample_def as_record_def read_sample_def sample_record_def isLibraryMap_def)
  have b: "hd (classify ?r) \<in> set (classify ?r) \<and> \<not> left_out ?o ?r (fst ?start) newPass (hd (classify ?r))"
    by code_simp
  have c: "runs_by ?o ?r (fst (snd ?start)) (snd (snd ?start)) = (0, u ''0/cat'') \<and>
      ss_nsPids (snd (snd ?start)) (ar_pid ?r) = None \<and> u (show_nat 0) = u ''0''"
    by code_simp
  have d: "au_pathsCut (summary_finish ?o final_sample) = None" by code_simp
  have "?start = (fst ?start, fst (snd ?start), snd (snd ?start))" by simp
  from summary_shows_access [where before = "[]" and after = "[]", OF _ _ _ _ this, of "Some ?r" "hd (classify ?r)" final_sample
      "summary_finish ?o final_sample"] a b c d
  show ?thesis by (auto simp: final_sample_def Let_def)
qed

end
