(* ===== verification/FsShown.thy ===== *)
theory FsShown
  imports FsRules
begin

text \<open>
  A name as \<^verbatim>\<open>escape.ts\<close> shows it, taken as a glob by \<^verbatim>\<open>rules.ts\<close>: the tokens it is written in, the
  turns of the compiler over them, and that the glob takes the name. The proposed rules rest on it.
\<close>

section \<open>Tokens\<close>

text \<open>A character, and whether it is written as an escape.\<close>

type_synonym token = "nat \<times> bool"

definition tk :: "token \<Rightarrow> ustring" where
  "tk p = (if snd p then escapeChar (fst p) else [fst p])"

abbreviation text_of :: "token list \<Rightarrow> ustring" where
  "text_of ps \<equiv> concat (map tk ps)"

text \<open>The tokens the compiler reads one by one, and those of a shown name.\<close>

definition loop_token :: "token \<Rightarrow> bool" where
  "loop_token p \<longleftrightarrow> fst p \<le> 0x10FFFF \<and> (if snd p then UNSAFE_CHARS (fst p) else fst p \<noteq> BACKSLASH \<and> fst p \<noteq> STAR)"

definition shown_token :: "token \<Rightarrow> bool" where
  "shown_token p \<longleftrightarrow> fst p \<le> 0x10FFFF \<and> (if snd p then UNSAFE_CHARS (fst p) else UNSAFE_CHARS (fst p) \<longrightarrow> fst p = BLANK)"

lemma unsafe_codes:
  "UNSAFE_CHARS BACKSLASH" "UNSAFE_CHARS STAR" "UNSAFE_CHARS QUOTE" "UNSAFE_CHARS BLANK" "UNSAFE_CHARS 9"
  "UNSAFE_CHARS 10" "\<not> UNSAFE_CHARS SLASH" "\<not> UNSAFE_CHARS 58" "\<not> UNSAFE_CHARS 35"
  by (simp_all add: UNSAFE_CHARS_def UNSAFE_def in_ranges_def)

lemma shown_loop: "shown_token p \<Longrightarrow> loop_token p"
  using unsafe_codes by (auto simp: shown_token_def loop_token_def split: if_splits)

lemma tk_pair [simp]: "tk (c, e) = (if e then escapeChar c else [c])"
  by (simp add: tk_def)

lemma tk_ne [simp]: "tk p \<noteq> []"
  by (auto simp: tk_def escapeChar_def NAMED_ESCAPES_def u_def)

text \<open>The escape of a character reads back, and is what the compiler takes of a text.\<close>

lemma escape_reads:
  assumes "c \<le> 0x10FFFF"
  obtains cs where "escapeChar c @ r = BACKSLASH # cs" "read_escape cs = (Some c, r)"
proof (cases "map_of NAMED_ESCAPES c")
  case (Some named)
  then show thesis using named_escape_reads [OF Some, of r] that by (auto simp: escapeChar_def)
next
  case None
  then show thesis
    using raw_escape_reads [of c r] hex_escape_reads [OF assms, of r] that
    by (cases "RAW_BYTE_FIRST \<le> c \<and> c \<le> RAW_BYTE_LAST") (simp_all add: escapeChar_def)
qed

lemma unescapes_x: "UNESCAPES 120 = None"
  by code_simp

lemma escape_text_read:
  assumes "read_escape cs = (Some d, r)" shows "escape_text (BACKSLASH # cs) @ r = BACKSLASH # cs"
proof -
  have dw: "takeWhile is_hex (drop 2 cs) @ dropWhile is_hex (drop 2 cs) = drop 2 cs" by simp
  consider "hex_escape cs" | "\<not> hex_escape cs" "raw_escape cs"
    | "\<not> hex_escape cs" "\<not> raw_escape cs" "cs \<noteq> []" "\<not> line_terminator (hd cs)"
    | "\<not> hex_escape cs" "\<not> raw_escape cs" "cs = [] \<or> line_terminator (hd cs)" by blast
  then show ?thesis
  proof cases
    case 1
    let ?h = "takeWhile is_hex (drop 2 cs)"
    have "r = drop 1 (dropWhile is_hex (drop 2 cs))" using assms 1 by (auto simp: read_escape_def Let_def)
    also have "\<dots> = drop (3 + length ?h) cs" by (simp add: dropWhile_eq_drop numeral_3_eq_3)
    finally have r: "r = drop (3 + length ?h) cs" .
    define n where "n = 3 + length ?h"
    have "escape_text (BACKSLASH # cs) = take (Suc n) (BACKSLASH # cs)"
      using 1 by (simp add: escape_text_def Let_def n_def)
    then show ?thesis unfolding r n_def [symmetric] by simp
  next
    case 2
    then show ?thesis using assms
      by (auto simp: read_escape_def raw_escape_def escape_text_def u_def is_hex_def)
  next
    case 3
    then have "hd cs \<noteq> 120" using assms unescapes_x by (auto simp: read_escape_def)
    then show ?thesis using 3 assms
      by (cases cs) (auto simp: read_escape_def escape_text_def u_def)
  next
    case 4
    then show ?thesis using assms by (auto simp: read_escape_def)
  qed
qed

lemma hd_escapeChar: "c \<le> 0x10FFFF \<Longrightarrow> hd (escapeChar c) = BACKSLASH"
  using escape_reads [of c "[]"] by (metis append_Nil2 list.sel(1))

lemma escape_text_escapeChar: "c \<le> 0x10FFFF \<Longrightarrow> escape_text (escapeChar c @ r) = escapeChar c"
  using escape_reads [of c r] escape_text_read by (metis append_same_eq)

lemma unescape_one: "c \<le> 0x10FFFF \<Longrightarrow> unescapeDisplay (escapeChar c) = Some [c]"
  using unescape_escapeChar [of c "[]"] by simp

lemma SPACE_eq: "SPACE = escapeChar BLANK"
  by (simp add: SPACE_def escapeForDisplay_def escapeWith_def)

lemma escape_one: "UNSAFE_CHARS c \<Longrightarrow> escapeForDisplay [c] = escapeChar c"
  by (simp add: escapeForDisplay_def escapeWith_def blanks_def)

lemma escape_SPACE: "c \<le> 0x10FFFF \<Longrightarrow> escapeChar c = SPACE \<longleftrightarrow> c = BLANK"
  using unescape_one [of c] unescape_one [of BLANK] by (auto simp: SPACE_eq)

text \<open>What the compiler takes at a token: all of it, or the glob fails at a space.\<close>

definition misplaced :: "ustring \<Rightarrow> bool \<Rightarrow> nat \<Rightarrow> token \<Rightarrow> bool" where
  "misplaced g whole i p \<longleftrightarrow>
     fst p = BLANK \<and>
     (if snd p then \<not> atEdge g i (length (tk p)) SPACES_OR_STARS whole else atEdge g i (length (tk p)) ONLY_SPACES whole)"

lemma drop_token: "drop i g = tk p @ r \<Longrightarrow> i < length g"
  by (rule ccontr) simp

lemma next_token:
  assumes "drop i g = tk p @ r" "loop_token p"
  shows "next_text g whole i = (if misplaced g whole i p then None else Some (tk p))"
proof -
  have hd: "g ! i = hd (tk p)"
    using assms(1) drop_token [OF assms(1)] by (simp flip: hd_drop_conv_nth)
  show ?thesis
  proof (cases "snd p")
    case True
    have "g ! i = BACKSLASH" using hd True assms(2) hd_escapeChar by (simp add: tk_def loop_token_def)
    then show ?thesis
      using assms True unescape_one [of "fst p"] escape_one [of "fst p"] escape_text_escapeChar [of "fst p" r]
        escape_SPACE [of "fst p"]
      by (cases "fst p = BLANK") (simp_all add: next_text_def misplaced_def tk_def loop_token_def Let_def)
  next
    case False
    then show ?thesis using assms hd by (simp add: next_text_def misplaced_def tk_def loop_token_def)
  qed
qed

section \<open>The compiler on tokens\<close>

lemma token_plain:
  assumes "drop i g = tk p @ r" "loop_token p"
  shows "i < length g" "\<not> starts_with [STAR, STAR] (drop i g)" "g ! i \<noteq> STAR"
proof -
  show i: "i < length g" by (rule drop_token [OF assms(1)])
  have "hd (tk p) \<noteq> STAR"
    using assms(2) hd_escapeChar [of "fst p"] by (cases "snd p") (simp_all add: tk_def loop_token_def)
  then have "hd (drop i g) \<noteq> STAR" using assms(1) by simp
  then show "\<not> starts_with [STAR, STAR] (drop i g)" "g ! i \<noteq> STAR" using hd_drop_conv_nth [OF i] by auto
qed

definition compile_at :: "ustring \<Rightarrow> bool \<Rightarrow> token list \<Rightarrow> (gpart list \<times> nat option) option" where
  "compile_at g whole us = compile_loop g whole (length (text_of us)) (lead g (length (text_of us))) None"

definition fails_at :: "ustring \<Rightarrow> bool \<Rightarrow> token list \<Rightarrow> token \<Rightarrow> bool" where
  "fails_at g whole us p \<longleftrightarrow> misplaced g whole (length (text_of us)) p"

text \<open>Whether the compiler fails at one of the tokens from \<^term>\<open>us\<close> on.\<close>

fun fails_in :: "ustring \<Rightarrow> bool \<Rightarrow> token list \<Rightarrow> token list \<Rightarrow> bool" where
  "fails_in g whole us [] = False"
| "fails_in g whole us (p # vs) = (fails_at g whole us p \<or> fails_in g whole (us @ [p]) vs)"

lemma fails_in_split: "fails_in g whole us vs \<Longrightarrow> \<exists>us' p vs'. vs = us' @ p # vs' \<and> fails_at g whole (us @ us') p"
proof (induction vs arbitrary: us)
  case (Cons p vs)
  from Cons.prems consider "fails_at g whole us p" | "fails_in g whole (us @ [p]) vs" by auto
  then show ?case
  proof cases
    case 1
    then show ?thesis by (intro exI [of _ "[]"]) simp
  next
    case 2
    from Cons.IH [OF this] obtain us' q vs' where "vs = us' @ q # vs'" "fails_at g whole ((us @ [p]) @ us') q" by blast
    then show ?thesis by (intro exI [of _ "p # us'"]) simp
  qed
qed simp

lemma compile_token:
  assumes "g = text_of (us @ p # vs) @ suf" "loop_token p"
  shows "compile_at g whole us = (if fails_at g whole us p then None else compile_at g whole (us @ [p]))"
proof -
  let ?i = "length (text_of us)"
  have d: "drop ?i g = tk p @ text_of vs @ suf" using assms by simp
  note t = token_plain [OF d assms(2)] next_token [OF d assms(2)]
  have "add_text (lead g ?i) (tk p) = lead g (?i + length (tk p))"
    by (rule lead_text) (use d t(1) in simp_all)
  then show ?thesis
    using t unfolding compile_at_def fails_at_def by (subst compile_loop.simps) (simp del: starts_with_Cons)
qed

lemma compile_tokens:
  assumes "g = text_of (us @ vs) @ suf" "\<forall>p\<in>set vs. loop_token p"
  shows "compile_at g whole us = (if fails_in g whole us vs then None else compile_at g whole (us @ vs))"
  using assms
proof (induction vs arbitrary: us)
  case (Cons p vs)
  then show ?case using Cons.IH [of "us @ [p]"] compile_token [OF Cons.prems(1)] by simp
qed simp

section \<open>Spaces at the ends of a name\<close>

lemma unescape_tokens: "\<forall>p\<in>set ps. shown_token p \<Longrightarrow> unescapeDisplay (text_of ps) = Some (map fst ps)"
proof (induction ps)
  case (Cons p ps)
  then have p: "shown_token p" by simp
  then have "\<not> snd p \<Longrightarrow> fst p \<noteq> BACKSLASH" using unsafe_codes by (auto simp: shown_token_def)
  then have "unescapeDisplay (tk p @ text_of ps) = map_option (Cons (fst p)) (unescapeDisplay (text_of ps))"
    using p unescape_escapeChar [of "fst p" "text_of ps"] by (simp add: tk_def shown_token_def)
  then show ?case using Cons by simp
qed simp

lemma made_of_spaces: "made_of [SPACE] s \<Longrightarrow> \<exists>n. s = text_of (replicate n (BLANK, True))"
proof (induction "[SPACE]" s rule: made_of.induct)
  case (1 s)
  show ?case
  proof (cases "s = []")
    case False
    with 1(2) have s: "starts_with SPACE s" "made_of [SPACE] (drop (length SPACE) s)"
      by (simp_all add: made_of.simps [of "[SPACE]" s] split: if_splits)
    then obtain n where "drop (length SPACE) s = text_of (replicate n (BLANK, True))"
      using 1(1) [of SPACE] False SPACE_eq tk_ne [of "(BLANK, True)"] by (auto simp: tk_def)
    then have "s = text_of (replicate (Suc n) (BLANK, True))"
      using s(1) by (auto simp: starts_with_iff tk_def SPACE_eq)
    then show ?thesis by blast
  qed (intro exI [of _ 0], simp)
qed

lemma only_spaces_blank:
  assumes "ONLY_SPACES (text_of b)" "\<forall>p\<in>set b. shown_token p" "q \<in> set b" shows "fst q = BLANK"
proof -
  obtain n where n: "text_of b = text_of (replicate n (BLANK, True))"
    using assms(1) made_of_spaces by (auto simp: ONLY_SPACES_def)
  have "\<forall>p\<in>set (replicate n (BLANK, True)). shown_token p"
    using unsafe_codes by (simp add: shown_token_def)
  from unescape_tokens [OF this] have "map fst b = replicate n BLANK"
    using unescape_tokens [OF assms(2)] n by (simp add: map_replicate)
  then show ?thesis using assms(3) by (metis in_set_replicate in_set_conv_nth length_map nth_map nth_mem)
qed

lemma spaces_or_stars: "\<forall>q\<in>set b. q = (BLANK, True) \<Longrightarrow> SPACES_OR_STARS (text_of b)"
proof (induction b)
  case Nil
  show ?case by (simp add: SPACES_OR_STARS_def made_of.simps)
next
  case (Cons q b)
  have "SPACE \<noteq> []" using tk_ne [of "(BLANK, True)"] by (simp add: tk_def SPACE_eq)
  then have "made_of [SPACE, [STAR]] (SPACE @ text_of b)"
    using Cons by (simp add: SPACES_OR_STARS_def made_of.simps [of _ "SPACE @ text_of b"] starts_with_def)
  moreover have "text_of (q # b) = SPACE @ text_of b" using Cons.prems by (simp add: tk_def SPACE_eq)
  ultimately show ?case by (simp add: SPACES_OR_STARS_def)
qed

definition well_placed :: "token list \<Rightarrow> token \<Rightarrow> token list \<Rightarrow> bool" where
  "well_placed b p a \<longleftrightarrow>
     (fst p = BLANK \<longrightarrow>
       (if snd p then (\<forall>q\<in>set b. q = (BLANK, True)) \<or> (\<forall>q\<in>set a. q = (BLANK, True))
        else (\<exists>q\<in>set b. fst q \<noteq> BLANK) \<and> (\<exists>q\<in>set a. fst q \<noteq> BLANK)))"

text \<open>A token of a name that stands between \<^term>\<open>X\<close> and \<^term>\<open>Y\<close> in the glob.\<close>

lemma not_misplaced:
  assumes "g = X @ text_of b @ tk p @ text_of a @ Y" "i = length X + length (text_of b)"
    and "name_start g i whole = length X" "name_end g i whole = length g - length Y"
    and "\<forall>q\<in>set b. shown_token q" "\<forall>q\<in>set a. shown_token q" "well_placed b p a"
  shows "\<not> misplaced g whole i p"
proof -
  have edge: "atEdge g i (length (tk p)) edge whole \<longleftrightarrow> edge (text_of b) \<or> edge (text_of a)" for edge
    unfolding atEdge_def FsGlob.slice_def assms(3,4) by (simp add: assms(1,2))
  show ?thesis
    using assms(5-7) only_spaces_blank [of b] only_spaces_blank [of a] spaces_or_stars [of a] spaces_or_stars [of b]
    unfolding misplaced_def edge well_placed_def by (auto split: if_splits)
qed

section \<open>The tokens of a name\<close>

fun esc_tokens :: "ustring \<Rightarrow> ustring \<Rightarrow> token list" where
  "esc_tokens pre [] = []"
| "esc_tokens pre (c # cs) =
     (c, if c = BLANK then blanks pre \<or> blanks cs else UNSAFE_CHARS c) # esc_tokens (pre @ [c]) cs"

lemma esc_tokens_split:
  "esc_tokens pre n = b @ p # a \<Longrightarrow>
   (snd p \<longleftrightarrow> (if fst p = BLANK then blanks (pre @ map fst b) \<or> blanks (map fst a) else UNSAFE_CHARS (fst p)))"
proof (induction b arbitrary: pre n)
  case Nil
  have "map fst (esc_tokens pre n) = n" for pre n by (induction pre n rule: esc_tokens.induct) simp_all
  then show ?case using Nil by (cases n) auto
next
  case (Cons q b)
  then obtain c cs where n: "n = c # cs" "esc_tokens (pre @ [c]) cs = b @ p # a" "fst q = c" by (cases n) auto
  show ?case using Cons.IH [OF n(2)] n(3) by simp
qed

lemma esc_tokens_fst [simp]: "map fst (esc_tokens pre n) = n"
  by (induction pre n rule: esc_tokens.induct) simp_all

lemma esc_tokens_shown:
  assumes "\<forall>c\<in>set n. c \<le> 0x10FFFF" shows "\<forall>p\<in>set (esc_tokens pre n). shown_token p"
proof
  fix p assume p: "p \<in> set (esc_tokens pre n)"
  then obtain b a where s: "esc_tokens pre n = b @ p # a" by (meson split_list)
  have "fst p \<in> set n" using p by (metis esc_tokens_fst image_eqI list.set_map)
  then show "shown_token p" using esc_tokens_split [OF s] assms unsafe_codes by (auto simp: shown_token_def)
qed

lemma blank_tokens:
  assumes "esc_tokens pre n = b @ a" "blanks (pre @ map fst b)" shows "\<forall>q\<in>set b. q = (BLANK, True)"
proof
  fix q assume "q \<in> set b"
  then obtain b1 b2 where s: "b = b1 @ q # b2" by (meson split_list)
  have "esc_tokens pre n = b1 @ q # (b2 @ a)" using assms(1) s by simp
  from esc_tokens_split [OF this] show "q = (BLANK, True)" using assms(2) s by (cases q) (auto simp: blanks_def)
qed

lemma blank_tokens_after:
  assumes "esc_tokens pre n = b @ a" "blanks (map fst a)" shows "\<forall>q\<in>set a. q = (BLANK, True)"
proof
  fix q assume "q \<in> set a"
  then obtain a1 a2 where s: "a = a1 @ q # a2" by (meson split_list)
  have "esc_tokens pre n = (b @ a1) @ q # a2" using assms(1) s by simp
  from esc_tokens_split [OF this] show "q = (BLANK, True)" using assms(2) s by (cases q) (auto simp: blanks_def)
qed

lemma esc_tokens_placed:
  assumes "esc_tokens [] n = b @ p # a" shows "well_placed b p a"
proof -
  have all: "esc_tokens [] n = (b @ [p]) @ a" using assms by simp
  have "\<not> blanks s \<longleftrightarrow> (\<exists>c\<in>set s. c \<noteq> BLANK)" for s by (auto simp: blanks_def list_all_iff)
  then show ?thesis
    using esc_tokens_split [OF assms] blank_tokens [OF assms] blank_tokens_after [OF all]
    unfolding well_placed_def by auto
qed

lemma esc_tokens_text: "text_of (esc_tokens [] n) = escapeForDisplay n"
proof -
  have rest: "\<not> blanks pre \<Longrightarrow> text_of (esc_tokens pre cs) = escape_rest UNSAFE_CHARS cs" for pre cs
  proof (induction pre cs rule: esc_tokens.induct)
    case (2 pre c cs)
    have ne: "\<not> blanks (pre @ [c])" using 2(2) by (simp add: blanks_def)
    show ?case
    proof (cases "c = BLANK \<and> blanks cs")
      case True
      have "\<forall>q\<in>set (esc_tokens (pre @ [c]) cs). q = (BLANK, True)"
        using blank_tokens_after [of "pre @ [c]" cs "[]"] True by simp
      then have "text_of (esc_tokens (pre @ [c]) cs) = concat (map (\<lambda>_. escapeChar BLANK) (esc_tokens (pre @ [c]) cs))"
        by (intro arg_cong [where f = concat] map_cong) (auto simp: tk_def)
      also have "\<dots> = concat (map (\<lambda>_. escapeChar BLANK) cs)"
        by (metis (no_types) esc_tokens_fst map_map comp_def map_eq_conv)
      also have "\<dots> = concat (map escapeChar cs)"
        using True by (intro arg_cong [where f = concat] map_cong) (auto simp: blanks_def list_all_iff)
      finally show ?thesis using True by simp
    next
      case False
      then show ?thesis using 2 ne by auto
    qed
  qed simp
  have "blanks pre \<Longrightarrow> text_of (esc_tokens pre n) =
      concat (map escapeChar (takeWhile (\<lambda>c. c = BLANK) n)) @ escape_rest UNSAFE_CHARS (dropWhile (\<lambda>c. c = BLANK) n)" for pre
  proof (induction n arbitrary: pre)
    case (Cons c n)
    show ?case
    proof (cases "c = BLANK")
      case True
      then show ?thesis using Cons by (simp add: blanks_def)
    next
      case False
      then have "\<not> blanks (pre @ [c])" by (simp add: blanks_def)
      then show ?thesis using False rest by simp
    qed
  qed simp
  from this [of "[]"] show ?thesis by (simp add: escapeForDisplay_def escapeWith_def blanks_def)
qed

section \<open>Quotes and slashes\<close>

text \<open>After its first two characters an escape holds hexadecimal digits and braces alone.\<close>

lemma escape_shape:
  assumes "c \<le> 0x10FFFF"
  obtains d r where "escapeChar c = BACKSLASH # d # r" "d \<in> set (u ''nrt[]*xu'') \<union> {BACKSLASH, QUOTE}"
    "\<forall>x\<in>set r. is_hex x \<or> x = 123 \<or> x = 125"
proof (cases "map_of NAMED_ESCAPES c")
  case (Some named)
  have "list_all (\<lambda>(c, named). \<exists>d\<in>set (u ''nrt[]*xu'') \<union> {BACKSLASH, QUOTE}. named = [BACKSLASH, d]) NAMED_ESCAPES"
    by (simp add: NAMED_ESCAPES_def u_def)
  then have "\<exists>d\<in>set (u ''nrt[]*xu'') \<union> {BACKSLASH, QUOTE}. named = [BACKSLASH, d]"
    using map_of_SomeD [OF Some] unfolding list_all_iff by blast
  then show thesis using that Some by (auto simp: escapeChar_def)
next
  case None
  have "\<forall>x\<in>set (show_hex n). is_hex x" for n using show_hex_reads [of n] by (simp add: list_all_iff)
  then show thesis
    using None that [of 120 "show_hex (c mod 256)"] that [of 117 "123 # show_hex c @ [125]"]
    by (cases "RAW_BYTE_FIRST \<le> c \<and> c \<le> RAW_BYTE_LAST") (simp_all add: escapeChar_def u_def)
qed

lemma escape_chars:
  assumes "c \<le> 0x10FFFF" "x \<in> set (escapeChar c)" shows "33 \<le> x \<and> x \<le> 125 \<and> x \<noteq> SLASH"
proof -
  obtain d r where e: "escapeChar c = BACKSLASH # d # r" "d \<in> set (u ''nrt[]*xu'') \<union> {BACKSLASH, QUOTE}"
    "\<forall>x\<in>set r. is_hex x \<or> x = 123 \<or> x = 125" using escape_shape [OF assms(1)] .
  have d: "33 \<le> d \<and> d \<le> 125 \<and> d \<noteq> SLASH" using e(2) by (auto simp: u_def)
  consider "x = BACKSLASH" | "x = d" | "x \<in> set r" using assms(2) e(1) by auto
  then show ?thesis
  proof cases
    case 3
    then show ?thesis using e(3) by (auto simp: is_hex_def)
  qed (use d in simp_all)
qed

lemma shown_chars:
  assumes "shown_token p" "x \<in> set (tk p)"
  shows "33 \<le> x \<and> x \<le> 125 \<and> x \<noteq> SLASH \<or> p = (x, False) \<and> (UNSAFE_CHARS x \<longrightarrow> x = BLANK)"
  using assms escape_chars [of "fst p" x] by (cases p) (auto simp: shown_token_def split: if_splits)

text \<open>A text in which no quote would close a quoted field.\<close>

definition closed_text :: "ustring \<Rightarrow> bool" where
  "closed_text t \<longleftrightarrow> (\<forall>r. closing_quote (t @ r) = map_option (\<lambda>i. length t + i) (closing_quote r))"

lemma closing_plain: "c \<noteq> QUOTE \<Longrightarrow> c \<noteq> BACKSLASH \<Longrightarrow> closing_quote (c # s) = map_option Suc (closing_quote s)"
  by (cases s) simp_all

lemma closed_Nil [simp]: "closed_text []"
  unfolding closed_text_def
proof
  show "closing_quote ([] @ r) = map_option (\<lambda>i. length [] + i) (closing_quote r)" for r
    by (cases "closing_quote r") simp_all
qed

lemma closed_append: "closed_text s \<Longrightarrow> closed_text t \<Longrightarrow> closed_text (s @ t)"
  by (simp add: closed_text_def option.map_comp o_def add.assoc)

lemma closed_plain: "\<forall>c\<in>set t. c \<noteq> QUOTE \<and> c \<noteq> BACKSLASH \<Longrightarrow> closed_text t"
proof (induction t)
  case (Cons c t)
  then show ?case by (simp add: closed_text_def closing_plain option.map_comp o_def)
qed simp

lemma closed_token:
  assumes "shown_token p" shows "closed_text (tk p)"
proof (cases "snd p")
  case True
  then have "fst p \<le> 0x10FFFF" using assms by (simp add: shown_token_def)
  then obtain d r where e: "tk p = [BACKSLASH, d] @ r" "\<forall>x\<in>set r. is_hex x \<or> x = 123 \<or> x = 125"
    using True escape_shape by (metis tk_def append_Cons append_Nil)
  have "closed_text r" using e(2) by (intro closed_plain) (auto simp: is_hex_def)
  moreover have "closed_text [BACKSLASH, d]" by (simp add: closed_text_def)
  ultimately show ?thesis unfolding e(1) by (rule closed_append [rotated])
next
  case False
  then have "fst p \<noteq> QUOTE" "fst p \<noteq> BACKSLASH" using assms unsafe_codes by (auto simp: shown_token_def)
  then show ?thesis using False by (intro closed_plain) (simp add: tk_def)
qed

lemma closed_tokens: "\<forall>p\<in>set ps. shown_token p \<Longrightarrow> closed_text (text_of ps)"
  by (induction ps) (simp_all add: closed_append closed_token)

lemma closed_not_memfd: "closed_text t \<Longrightarrow> \<not> starts_with (MEMFD_PREFIX @ [QUOTE]) t"
proof
  assume "closed_text t" "starts_with (MEMFD_PREFIX @ [QUOTE]) t"
  then obtain r where r: "t = MEMFD_PREFIX @ QUOTE # r" by (auto simp: starts_with_iff)
  have "closed_text MEMFD_PREFIX" by (rule closed_plain) (simp add: MEMFD_PREFIX_def u_def)
  then have "closing_quote t \<noteq> None" unfolding r by (simp add: closed_text_def closing_quote.simps del: closing_quote.simps)
      (cases r; simp)
  moreover have "closing_quote t = None" using \<open>closed_text t\<close> by (simp add: closed_text_def) (metis append_Nil2 closing_quote.simps(1) option.map(1))
  ultimately show False by simp
qed

lemma closed_not_memfd_name: "closed_text t \<Longrightarrow> \<not> memfd_name t"
  using closed_not_memfd by (auto simp: memfd_name_def)

section \<open>The tokens of a path\<close>

abbreviation slash_token :: token where "slash_token \<equiv> (SLASH, False)"

definition path_tokens :: "ustring \<Rightarrow> token list" where
  "path_tokens p = join_with [slash_token] (map (esc_tokens []) (split_on SLASH p))"

lemma text_of_join: "text_of (join_with sep ws) = join_with (text_of sep) (map text_of ws)"
  by (induction sep ws rule: join_with.induct) simp_all

lemma path_tokens_text: "text_of (path_tokens p) = escapePath p"
  by (simp add: path_tokens_def text_of_join escapePath_def o_def esc_tokens_text)

lemma set_join: "set (join_with sep ws) \<subseteq> set sep \<union> (\<Union>w\<in>set ws. set w)"
  by (induction sep ws rule: join_with.induct) auto

lemma path_tokens_shown:
  assumes "\<forall>c\<in>set p. c \<le> 0x10FFFF" shows "\<forall>q\<in>set (path_tokens p). shown_token q"
proof -
  have "\<forall>q\<in>set (esc_tokens [] w). shown_token q" if "w \<in> set (split_on SLASH p)" for w
    using assms split_on_subset [OF that] by (intro esc_tokens_shown) blast
  moreover have "shown_token slash_token" using unsafe_codes by (simp add: shown_token_def)
  ultimately show ?thesis
    using set_join [of "[slash_token]" "map (esc_tokens []) (split_on SLASH p)"] by (fastforce simp: path_tokens_def)
qed

text \<open>A token of a path is a slash or stands in a component.\<close>

definition in_component :: "token list list \<Rightarrow> token list \<Rightarrow> token \<Rightarrow> token list \<Rightarrow> bool" where
  "in_component ws us q vs \<longleftrightarrow>
     (\<exists>w X b a Y. w \<in> set ws \<and> w = b @ q # a \<and> us = X @ b \<and> vs = a @ Y \<and>
       (X = [] \<or> last X = slash_token) \<and> (if Y = [] then w = last ws else hd Y = slash_token))"

lemma in_component_later:
  assumes "ws \<noteq> []" "in_component ws us q vs" shows "in_component (w # ws) (w @ slash_token # us) q vs"
proof -
  obtain v X b a Y where s: "v \<in> set ws" "v = b @ q # a" "us = X @ b" "vs = a @ Y"
    "X = [] \<or> last X = slash_token" "if Y = [] then v = last ws else hd Y = slash_token"
    using assms(2) unfolding in_component_def by blast
  have "w @ slash_token # us = (w @ slash_token # X) @ b" "last (w @ slash_token # X) = slash_token"
    using s(3,5) by auto
  then show ?thesis unfolding in_component_def using s assms(1) by (metis last.simps list.set_intros(2))
qed

lemma token_of_path:
  "join_with [slash_token] ws = us @ q # vs \<Longrightarrow> q = slash_token \<or> in_component ws us q vs"
proof (induction "[slash_token]" ws arbitrary: us rule: join_with.induct)
  case (2 w)
  then have "w \<in> set [w] \<and> w = us @ q # vs \<and> us = [] @ us \<and> vs = vs @ []" by simp
  then show ?case unfolding in_component_def by (metis last.simps)
next
  case (3 w v ws)
  let ?rest = "join_with [slash_token] (v # ws)"
  from 3(2) have "w @ slash_token # ?rest = us @ q # vs" by simp
  then consider r where "w = us @ q # r" "vs = r @ slash_token # ?rest"
    | "us = w" "q = slash_token"
    | r where "us = w @ slash_token # r" "?rest = r @ q # vs"
    by (auto simp: append_eq_append_conv2 append_eq_Cons_conv Cons_eq_append_conv)
  then show ?case
  proof cases
    case (1 r)
    then have "w \<in> set (w # v # ws) \<and> us = [] @ us \<and> hd (slash_token # ?rest) = slash_token" by simp
    then show ?thesis unfolding in_component_def using 1 by (metis list.distinct(1))
  next
    case (3 r)
    then show ?thesis using "3.hyps" [OF 3(2)] in_component_later [of "v # ws" r q vs w] by blast
  qed simp
qed simp

lemma component_no_slash:
  assumes "esc_tokens [] w = b @ q # a" "\<forall>c\<in>set w. c \<le> 0x10FFFF" "SLASH \<notin> set w"
  shows "SLASH \<notin> set (text_of b)" "SLASH \<notin> set (tk q)" "SLASH \<notin> set (text_of a)"
proof -
  have "SLASH \<notin> set (tk p)" if "p \<in> set (esc_tokens [] w)" for p
  proof
    assume "SLASH \<in> set (tk p)"
    moreover have "shown_token p" using esc_tokens_shown [OF assms(2)] that by blast
    ultimately have "p = slash_token" using shown_chars by blast
    then have "SLASH \<in> set w" using that by (metis esc_tokens_fst fst_conv image_eqI list.set_map)
    then show False using assms(3) by contradiction
  qed
  then show "SLASH \<notin> set (text_of b)" "SLASH \<notin> set (tk q)" "SLASH \<notin> set (text_of a)" using assms(1) by auto
qed

lemma path_token_fits:
  assumes p: "\<forall>c\<in>set p. c \<le> 0x10FFFF" "path_tokens p = us @ q # vs"
    and g: "g = text_of (path_tokens p) @ suf" "\<not> memfd_name g" "suf = [] \<or> ends_with [SLASH] p"
  shows "\<not> fails_at g False us q"
proof (cases "q = slash_token")
  case False
  let ?ws = "map (esc_tokens []) (split_on SLASH p)"
  obtain w X b a Y where s: "w \<in> set (split_on SLASH p)" "esc_tokens [] w = b @ q # a" "us = X @ b" "vs = a @ Y"
    "X = [] \<or> last X = slash_token" "if Y = [] then esc_tokens [] w = last ?ws else hd Y = slash_token"
    using token_of_path [of ?ws us q vs] p(2) False unfolding in_component_def path_tokens_def by auto
  have w: "\<forall>c\<in>set w. c \<le> 0x10FFFF" "SLASH \<notin> set w"
    using s(1) p(1) split_on_subset [OF s(1)] split_on_no_sep [OF s(1)] by blast+
  note no = component_no_slash [OF s(2) w]
  have sh: "\<forall>r\<in>set (b @ q # a). shown_token r" using esc_tokens_shown [OF w(1), of "[]"] s(2) by metis
  let ?i = "length (text_of us)"
  have G: "g = text_of X @ text_of b @ tk q @ text_of a @ text_of Y @ suf" using g(1) p(2) s(3,4) by simp
  have Y: "text_of Y @ suf = [] \<or> (\<exists>r. text_of Y @ suf = SLASH # r)"
  proof (cases "Y = []")
    case True
    then have "esc_tokens [] w = esc_tokens [] (last (split_on SLASH p))" using s(6) by (simp add: last_map)
    then have "last (split_on SLASH p) \<noteq> []" using s(2) by auto
    then have "\<not> ends_with [SLASH] p" by (auto simp: ends_with_iff split_on_append_slash [of SLASH _ "[]"])
    then show ?thesis using g(3) True by simp
  next
    case False
    then show ?thesis using s(6) by (cases Y) auto
  qed
  have take: "take ?i g = text_of X @ text_of b" "drop ?i g = tk q @ text_of a @ text_of Y @ suf"
    by (simp_all add: G s(3))
  have st: "name_start g ?i False = length (text_of X)"
  proof (cases "X = []")
    case True
    then show ?thesis using g(2) no(1) take(1) by (simp add: name_start_def)
  next
    case False
    then obtain X' where "X = X' @ [slash_token]" using s(5) by (metis append_butlast_last_id)
    then show ?thesis using g(2) no(1) take(1) by (simp add: name_start_def)
  qed
  have en: "name_end g ?i False = length g - length (text_of Y @ suf)"
  proof -
    have "SLASH \<notin> set (tk q @ text_of a)" using no(2,3) by simp
    then have "index_of SLASH (drop ?i g) =
        (if text_of Y @ suf = [] then None else Some (length (tk q @ text_of a)))"
      using Y index_of_append_sep [of SLASH "tk q @ text_of a"] unfolding take(2) by auto
    moreover have "length g = ?i + length (tk q @ text_of a) + length (text_of Y @ suf)" using G s(3) by simp
    ultimately show ?thesis using g(2) by (simp add: name_end_def)
  qed
  have "\<not> misplaced g False ?i q"
    by (rule not_misplaced [OF _ _ st en]) (use G s(3) sh esc_tokens_placed [OF s(2)] in simp_all)
  then show ?thesis by (simp add: fails_at_def)
qed (simp add: fails_at_def misplaced_def)

section \<open>A shown name as a glob\<close>

lemma compile_at_0: "compile_at g whole [] = compile_loop g whole 0 [] None"
  by (simp add: compile_at_def lead_def)

lemma compile_at_end: "g = text_of us \<Longrightarrow> compile_at g whole us = Some (lead g (length g), None)"
  by (simp add: compile_at_def compile_loop.simps)

lemma lead_takes: "glob_takes (lead g (length g)) g"
  by (simp add: lead_def)

text \<open>Once the compiler gets past the tokens of a text, the glob takes the text.\<close>

lemma tokens_take_self:
  assumes "\<forall>p\<in>set ps. loop_token p" "compileGlob (text_of ps) whole = Some gl" shows "glob_test gl (text_of ps)"
proof -
  have "compile_loop (text_of ps) whole 0 [] None = Some (lead (text_of ps) (length (text_of ps)), None)"
    using assms(2) compile_tokens [of "text_of ps" "[]" ps "[]" whole] assms(1) compile_at_end [OF refl, of ps whole]
    by (auto simp: compileGlob_def compile_at_0 split: if_splits)
  then show ?thesis using assms(2) lead_takes by (auto simp: compileGlob_def glob_test_takes)
qed

lemma tokens_compile:
  assumes "\<forall>p\<in>set ps. loop_token p" "\<And>us p vs. ps = us @ p # vs \<Longrightarrow> \<not> fails_at (text_of ps) whole us p"
  obtains gl where "compileGlob (text_of ps) whole = Some gl"
proof -
  have "\<not> fails_in (text_of ps) whole [] ps"
    using fails_in_split [of "text_of ps" whole "[]" ps] assms(2) by auto
  then show thesis
    using that compile_tokens [of "text_of ps" "[]" ps "[]" whole] assms(1) compile_at_end [OF refl, of ps whole]
    by (simp add: compileGlob_def compile_at_0)
qed

lemma escaped_closed:
  assumes "\<forall>c\<in>set n. c \<le> 0x10FFFF"
  shows "closed_text (escapeForDisplay n)" "closed_text (escapePath n)"
  using closed_tokens esc_tokens_shown [OF assms] path_tokens_shown [OF assms]
  by (metis esc_tokens_text, metis path_tokens_text)

lemma path_glob:
  assumes "\<forall>c\<in>set p. c \<le> 0x10FFFF"
  obtains gl where "compileGlob (escapePath p) False = Some gl" "glob_test gl (escapePath p)"
proof -
  have t: "\<forall>q\<in>set (path_tokens p). loop_token q" using path_tokens_shown [OF assms] shown_loop by blast
  have "\<not> memfd_name (escapePath p)" using escaped_closed(2) [OF assms] by (rule closed_not_memfd_name)
  then have "\<not> fails_at (text_of (path_tokens p)) False us q" if "path_tokens p = us @ q # vs" for us q vs
    using path_token_fits [OF assms that, of "text_of (path_tokens p)" "[]"] by (simp add: path_tokens_text)
  then obtain gl where "compileGlob (text_of (path_tokens p)) False = Some gl" using tokens_compile [OF t] by blast
  then show thesis using that tokens_take_self [OF t] by (simp add: path_tokens_text)
qed

lemma name_self_glob:
  assumes "\<forall>c\<in>set n. c \<le> 0x10FFFF" "compileGlob (escapeForDisplay n) whole = Some gl"
  shows "glob_test gl (escapeForDisplay n)"
  using tokens_take_self [of "esc_tokens [] n"] esc_tokens_shown [OF assms(1)] shown_loop assms(2)
  by (metis esc_tokens_text)

lemma name_glob:
  assumes "\<forall>c\<in>set n. c \<le> 0x10FFFF" obtains gl where "compileGlob (escapeForDisplay n) True = Some gl"
proof -
  let ?g = "text_of (esc_tokens [] n)"
  have sh: "\<forall>q\<in>set (esc_tokens [] n). shown_token q" using esc_tokens_shown [OF assms] .
  have m: "\<not> memfd_name ?g" using closed_tokens [OF sh] by (rule closed_not_memfd_name)
  have "\<not> fails_at ?g True us q" if s: "esc_tokens [] n = us @ q # vs" for us q vs
  proof -
    have "\<not> misplaced ?g True (length (text_of us)) q"
    proof (rule not_misplaced [where X = "[]" and Y = "[]"])
      show "?g = [] @ text_of us @ tk q @ text_of vs @ []" by (simp add: s)
    qed (use m sh s esc_tokens_placed [OF s] in \<open>simp_all add: name_start_def name_end_def\<close>)
    then show ?thesis by (simp add: fails_at_def)
  qed
  then show thesis using tokens_compile [of "esc_tokens [] n" True] sh shown_loop that by (metis esc_tokens_text)
qed

text \<open>The line of a fold, everything under a directory, as a glob.\<close>

lemma escapePath_slash: "escapePath (p @ [SLASH]) = escapePath p @ [SLASH]"
proof -
  have "ws \<noteq> [] \<Longrightarrow> join_with [c] (ws @ [[]]) = join_with [c] ws @ [c]" for ws :: "'a list list" and c
    by (induction "[c]" ws rule: join_with.induct) simp_all
  from this [of "map escapeForDisplay (split_on SLASH p)" SLASH] show ?thesis
    by (simp add: escapePath_def split_on_append_slash escapeForDisplay_def escapeWith_def)
qed

lemma trailing_slash: "trailing [Txt (e @ [SLASH])] = (if e = [] then [] else [Txt e]) @ [Under]"
  by (simp add: trailing_def Let_def ends_with_iff)

lemma compile_end_stars:
  assumes "drop i g = [STAR, STAR]" "i \<noteq> 0" "g ! (i - 1) = SLASH"
  shows "compile_loop g whole i parts None = Some (trailing parts, Some i)"
proof -
  have "length g = i + 2" using arg_cong [OF assms(1), of length] by simp
  moreover from this have "compile_loop g whole (Suc (Suc i)) ps st = Some (ps, st)" for ps st
    by (simp add: compile_loop.simps)
  ultimately show ?thesis
    using assms by (subst compile_loop.simps) (simp add: first_star_def Let_def)
qed

lemma under_glob:
  assumes "\<forall>c\<in>set p. c \<le> 0x10FFFF"
  obtains gl where "compileGlob (escapePath p @ u ''/**'') False = Some gl"
    "gl_parts gl = (if escapePath p = [] then [] else [Txt (escapePath p)]) @ [Under]"
proof -
  let ?ps = "path_tokens (p @ [SLASH])" and ?g = "escapePath p @ u ''/**''"
  let ?i = "length (text_of ?ps)"
  have p: "\<forall>c\<in>set (p @ [SLASH]). c \<le> 0x10FFFF" using assms by simp
  have tp: "text_of ?ps = escapePath p @ [SLASH]" by (simp add: path_tokens_text escapePath_slash)
  have g: "?g = text_of ?ps @ [STAR, STAR]" unfolding tp by (simp add: u_def)
  have sh: "\<forall>q\<in>set ?ps. loop_token q" using path_tokens_shown [OF p] shown_loop by blast
  have "closed_text ?g"
    unfolding g using closed_tokens [OF path_tokens_shown [OF p]] by (rule closed_append) (simp add: closed_plain)
  then have m: "\<not> memfd_name ?g" by (rule closed_not_memfd_name)
  have "\<not> fails_at ?g False us q" if "?ps = us @ q # vs" for us q vs
    using path_token_fits [OF p that g m] by (simp add: ends_with_iff)
  then have "\<not> fails_in ?g False [] ?ps" using fails_in_split [of ?g False "[]" ?ps] by auto
  then have "compile_loop ?g False 0 [] None = compile_at ?g False ?ps"
    using compile_tokens [of ?g "[]" ?ps "[STAR, STAR]" False] sh g by (simp add: compile_at_0)
  also have "\<dots> = Some (trailing (lead ?g ?i), Some ?i)"
    unfolding compile_at_def
  proof (rule compile_end_stars)
    show "drop ?i ?g = [STAR, STAR]" unfolding g by simp
    show "?i \<noteq> 0" using arg_cong [OF tp, of length] by simp
    show "?g ! (?i - 1) = SLASH" unfolding g tp by (simp add: nth_append)
  qed
  also have "lead ?g ?i = [Txt (escapePath p @ [SLASH])]"
  proof -
    have "take ?i ?g = escapePath p @ [SLASH]" unfolding g by (simp add: tp)
    moreover have "?i \<noteq> 0" using arg_cong [OF tp, of length] by simp
    ultimately show ?thesis unfolding lead_def by simp
  qed
  finally show thesis using that trailing_slash by (simp add: compileGlob_def)
qed

text \<open>A file in memory is quoted.\<close>

definition memfd_shown :: "ustring \<Rightarrow> ustring" where
  "memfd_shown n = MEMFD_PREFIX @ [QUOTE] @ escapeForDisplay n @ [QUOTE]"

lemma middle_split:
  assumes "A @ n @ B = us @ q # vs" "q \<notin> set A \<union> set B"
  shows "\<exists>b a. n = b @ q # a \<and> us = A @ b \<and> vs = a @ B"
  using assms by (auto simp: append_eq_append_conv2 append_eq_Cons_conv Cons_eq_append_conv)

lemma memfd_glob:
  assumes "\<forall>c\<in>set n. c \<le> 0x10FFFF"
  obtains gl where "compileGlob (memfd_shown n) False = Some gl" "glob_test gl (memfd_shown n)"
proof -
  let ?X = "map (\<lambda>c. (c, False)) (MEMFD_PREFIX @ [QUOTE])" and ?Y = "[(QUOTE, False)]"
  let ?ps = "?X @ esc_tokens [] n @ ?Y"
  have X: "text_of ?X = MEMFD_PREFIX @ [QUOTE]" by (simp add: o_def)
  have g: "memfd_shown n = text_of ?ps" using X esc_tokens_text [of n] by (simp add: memfd_shown_def)
  have m: "memfd_name (memfd_shown n)"
    by (auto simp: memfd_name_def memfd_shown_def starts_with_iff ends_with_iff)
  have sh: "\<forall>q\<in>set (esc_tokens [] n). shown_token q" using esc_tokens_shown [OF assms] .
  have "\<forall>q\<in>set ?X \<union> set ?Y. loop_token q" by (auto simp: loop_token_def MEMFD_PREFIX_def u_def)
  then have t: "\<forall>q\<in>set ?ps. loop_token q" using sh shown_loop by auto
  have "\<not> fails_at (text_of ?ps) False us q" if s: "?ps = us @ q # vs" for us q vs
  proof (cases "fst q = BLANK")
    case True
    have "q \<notin> set ?X \<union> set ?Y" using True by (auto simp: MEMFD_PREFIX_def u_def)
    from middle_split [OF s this] obtain b a where n: "esc_tokens [] n = b @ q # a" "us = ?X @ b" "vs = a @ ?Y"
      by blast
    let ?g = "text_of ?ps"
    have "\<not> misplaced ?g False (length (text_of us)) q"
    proof (rule not_misplaced [where X = "text_of ?X" and Y = "text_of ?Y"])
      show "?g = text_of ?X @ text_of b @ tk q @ text_of a @ text_of ?Y" by (simp add: n(1))
      show "name_start ?g (length (text_of us)) False = length (text_of ?X)"
        using m unfolding g X by (simp add: name_start_def)
      show "name_end ?g (length (text_of us)) False = length ?g - length (text_of ?Y)"
        using m unfolding g by (simp add: name_end_def)
    qed (use sh n esc_tokens_placed [OF n(1)] in simp_all)
    then show ?thesis by (simp add: fails_at_def)
  next
    case False
    then show ?thesis by (simp add: fails_at_def misplaced_def)
  qed
  then obtain gl where "compileGlob (text_of ?ps) False = Some gl" using tokens_compile [OF t] by blast
  then show thesis using that tokens_take_self [OF t] g by simp
qed

lemma memfds_glob: "compileGlob (MEMFD_PREFIX @ u ''**'') False = Some \<lparr>gl_parts = [Txt MEMFD_PREFIX, Any], gl_start = []\<rparr>"
  by code_simp

end
