(* ===== verification/FsPropose.thy ===== *)
theory FsPropose
  imports FsShown FsSummary FsMatch
begin

text \<open>
  \<^verbatim>\<open>src/lib/filesystem-audit/proposed-rules.ts\<close>: the rules that would take the accesses of a run no rule
  took, written as a file for the user to add, and how its fields are read. \<^verbatim>\<open>FsProposeRead\<close> reads the
  whole file.
\<close>

section \<open>The file\<close>

text \<open>What writing the file came to.\<close>

datatype proposed_rules = Written | TooManyPaths | WriteFailed

definition EXPECTED_RULES_INPUT :: ustring where
  "EXPECTED_RULES_INPUT = u ''expected-filesystem-rules''"

definition RECORD_FILE :: ustring where
  "RECORD_FILE = u ''filesystem-audit.jsonl''"

definition ruleField :: "ustring \<Rightarrow> ustring" where
  "ruleField text' =
     (if starts_with (MEMFD_PREFIX @ [QUOTE]) text' then text'
      else if text' = [] \<or> starts_with (u ''#'') text' then [QUOTE] @ text' @ [QUOTE]
      else field text')"

definition RULES_TO_ADD_HEADER :: "ustring list" where
  "RULES_TO_ADD_HEADER =
     [u ''# Rules for the file accesses no '' @ EXPECTED_RULES_INPUT @ u '' matched in this run.'',
      u ''# Review them, then add them to '' @ EXPECTED_RULES_INPUT @ u '', under with: or in a config-file.'',
      u ''#'',
      u ''# Each line is <program> <access> <path>. In a program or path, * matches within one'',
      u ''# component and ** across them; ./ is the working directory, $GITHUB_WORKSPACE/ the'',
      u ''# workspace and ~/ $HOME. A part that changes between runs needs * or ** to match'',
      u ''# the next run.'',
      u ''#'',
      u ''# A dir/** rule stands for everything the run touched under one directory; check what'',
      u ''# it covers before adding it. Where the files under it matter, find them in'',
      u ''# '' @ RECORD_FILE @ u '' in this artifact and list them instead.'']"

definition RULES_CUT_NOTE :: ustring where
  "RULES_CUT_NOTE =
     u ''# Cut short at the Job Summary'' @ [39] @ u ''s size limit. '' @ RECORD_FILE @ u '' in this artifact has every access.''"

text \<open>A line of a block: its program and path as fields, and its accesses.\<close>

type_synonym rule_cells = "ustring \<times> ustring \<times> ustring"

definition row_cells :: "rule_row \<Rightarrow> rule_cells" where
  "row_cells r = (ruleField (sh_path (rr_program r)), u (rr_flags r), ruleField (sh_path (rr_path r)))"

definition add_to_blocks :: "rule_cells list list \<Rightarrow> rule_cells \<Rightarrow> rule_cells list list" where
  "add_to_blocks blocks row =
     (if blocks \<noteq> [] \<and> fst (hd (last blocks)) = fst row then butlast blocks @ [last blocks @ [row]]
      else blocks @ [[row]])"

definition pad_end :: "nat \<Rightarrow> ustring \<Rightarrow> ustring" where
  "pad_end n s = s @ replicate (n - length s) BLANK"

definition cells_line :: "nat \<Rightarrow> rule_cells \<Rightarrow> ustring" where
  "cells_line flagsW row =
     (case row of (program, flags, path) \<Rightarrow> program @ u ''  '' @ pad_end flagsW flags @ u ''  '' @ path)"

definition block_text :: "rule_cells list \<Rightarrow> ustring" where
  "block_text block =
     (let flagsW = foldl (\<lambda>m (_, flags, _). max m (length flags)) 0 block in
      join_with [10] (map (cells_line flagsW) block))"

definition rulesToAdd :: "rule_row list \<Rightarrow> bool \<Rightarrow> ustring" where
  "rulesToAdd proposed cut' =
     (let blocks = foldl add_to_blocks [] (map row_cells proposed) in
      join_with [10]
        (RULES_TO_ADD_HEADER @ [[], join_with [10, 10] (map block_text blocks)] @
         (if cut' then [[], RULES_CUT_NOTE] else []) @ [[]]))"

text \<open>The state the write leaves: what it came to, the warnings, and the files with their texts.
  \<^verbatim>\<open>write_error\<close> is the message of the error the write of a file throws, if it throws.\<close>

record proposal_write =
  pw_result :: proposed_rules
  pw_warnings :: "ustring list"
  pw_files :: "(ustring \<times> ustring) list"

definition writeProposedRules ::
    "(ustring \<Rightarrow> ustring \<Rightarrow> ustring option) \<Rightarrow> audit_summary option \<Rightarrow> ustring \<Rightarrow> proposal_write" where
  "writeProposedRules write_error summary path =
     (case summary of
        None \<Rightarrow> \<lparr>pw_result = WriteFailed, pw_warnings = [], pw_files = []\<rparr>
      | Some s \<Rightarrow>
          (case au_proposed s of
             None \<Rightarrow> \<lparr>pw_result = TooManyPaths, pw_warnings = [], pw_files = []\<rparr>
           | Some proposed \<Rightarrow>
               (let content = rulesToAdd proposed (au_proposedCut s = Some Size) in
                case write_error path content of
                  None \<Rightarrow> \<lparr>pw_result = Written, pw_warnings = [], pw_files = [(path, content)]\<rparr>
                | Some e \<Rightarrow>
                    \<lparr>pw_result = WriteFailed,
                     pw_warnings = [u ''Failed to write the proposed '' @ EXPECTED_RULES_INPUT @ u '': '' @ e],
                     pw_files = []\<rparr>)))"

section \<open>The names of a rule\<close>

text \<open>What the program or the path of a row can be: a process's own name, a path, a directory with all
  under it, a file in memory, or all of those.\<close>

datatype shown_name = NameOf ustring | PathOf ustring | UnderOf ustring | MemfdOf ustring | Memfds

fun spelled :: "shown_name \<Rightarrow> ustring" where
  "spelled (NameOf n) = escapeForDisplay n"
| "spelled (PathOf p) = escapePath p"
| "spelled (UnderOf p) = escapePath p @ u ''/**''"
| "spelled (MemfdOf n) = memfd_shown n"
| "spelled Memfds = MEMFD_PREFIX @ u ''**''"

fun code_points :: "shown_name \<Rightarrow> bool" where
  "code_points Memfds = True"
| "code_points (NameOf s) = (\<forall>c\<in>set s. c \<le> 0x10FFFF)"
| "code_points (PathOf s) = (\<forall>c\<in>set s. c \<le> 0x10FFFF)"
| "code_points (UnderOf s) = (\<forall>c\<in>set s. c \<le> 0x10FFFF)"
| "code_points (MemfdOf s) = (\<forall>c\<in>set s. c \<le> 0x10FFFF)"

text \<open>The names of the summary that it stands for.\<close>

fun covers :: "shown_name \<Rightarrow> ustring \<Rightarrow> bool" where
  "covers (UnderOf p) name \<longleftrightarrow> name = escapePath p \<or> starts_with (escapePath p @ [SLASH]) name"
| "covers Memfds name \<longleftrightarrow> starts_with MEMFD_PREFIX name"
| "covers s name \<longleftrightarrow> name = spelled s"

lemma rule_glob_covers:
  assumes "code_points s" "asProgram \<or> (\<forall>n. s \<noteq> NameOf n)"
  obtains gl where "rule_glob (spelled s) asProgram ref = Inr gl" "\<And>name. covers s name \<Longrightarrow> glob_test gl name"
proof (cases s)
  case (NameOf n)
  then have n: "\<forall>c\<in>set n. c \<le> 0x10FFFF" "asProgram" using assms by simp_all
  obtain gl where gl: "compileGlob (escapeForDisplay n) True = Some gl" using name_glob [OF n(1)] .
  show thesis
    using that gl n(2) NameOf name_self_glob [OF n(1)]
    by (cases "compileGlob (escapeForDisplay n) False") (auto simp: rule_glob_def)
next
  case (PathOf p)
  then obtain gl where "compileGlob (escapePath p) False = Some gl" "glob_test gl (escapePath p)"
    using assms(1) path_glob by auto
  then show thesis using that PathOf by (simp add: rule_glob_def)
next
  case (UnderOf p)
  then obtain gl where gl: "compileGlob (escapePath p @ u ''/**'') False = Some gl"
    "gl_parts gl = (if escapePath p = [] then [] else [Txt (escapePath p)]) @ [Under]"
    using assms(1) under_glob by auto
  have "glob_test gl name" if "covers s name" for name
    using that gl(2) UnderOf by (auto simp: glob_test_takes starts_with_iff)
  then show thesis using that [of gl] gl(1) UnderOf by (simp add: rule_glob_def)
next
  case (MemfdOf n)
  then obtain gl where "compileGlob (memfd_shown n) False = Some gl" "glob_test gl (memfd_shown n)"
    using assms(1) memfd_glob by auto
  then show thesis using that MemfdOf by (simp add: rule_glob_def)
next
  case Memfds
  have "glob_test \<lparr>gl_parts = [Txt MEMFD_PREFIX, Any], gl_start = []\<rparr> name" if "covers s name" for name
    using that Memfds by (auto simp: glob_test_takes starts_with_iff)
  then show thesis using that memfds_glob Memfds by (simp add: rule_glob_def)
qed

lemma no_star_text: "\<forall>p\<in>set ps. shown_token p \<Longrightarrow> text_of ps \<noteq> [STAR]"
proof
  assume sh: "\<forall>p\<in>set ps. shown_token p" and "text_of ps = [STAR]"
  then have "unescapeDisplay [STAR] = Some (map fst ps)" using unescape_tokens by metis
  then have "map fst ps = [STAR]" by simp
  then obtain e where "ps = [(STAR, e)]" by auto
  then show False using sh unsafe_codes \<open>text_of ps = [STAR]\<close> hd_escapeChar [of STAR]
    by (auto simp: shown_token_def split: if_splits)
qed

lemma spelled_no_star: "code_points s \<Longrightarrow> spelled s \<noteq> [STAR]"
proof (cases s)
  case (NameOf n)
  assume "code_points s"
  then have "text_of (esc_tokens [] n) \<noteq> [STAR]" using NameOf by (intro no_star_text esc_tokens_shown) simp
  then show ?thesis using NameOf by (simp add: esc_tokens_text)
next
  case (PathOf p)
  assume "code_points s"
  then have "text_of (path_tokens p) \<noteq> [STAR]" using PathOf by (intro no_star_text path_tokens_shown) simp
  then show ?thesis using PathOf by (simp add: path_tokens_text)
next
  case (UnderOf p)
  have "length (escapePath p @ u ''/**'') \<noteq> length [STAR]" by (simp add: u_def)
  then show ?thesis using UnderOf by (metis spelled.simps(3))
qed (simp_all add: memfd_shown_def MEMFD_PREFIX_def u_def)

section \<open>Fields\<close>

definition blank_or_plain :: "ustring \<Rightarrow> bool" where
  "blank_or_plain t \<longleftrightarrow> (\<forall>x\<in>set t. x = BLANK \<or> \<not> uspace x)"

definition SPACE_RANGES :: "(nat \<times> nat) list" where
  "SPACE_RANGES =
     [(9, 13), (32, 32), (0xA0, 0xA0), (0x1680, 0x1680), (0x2000, 0x200A), (0x2028, 0x2028), (0x2029, 0x2029), (0x202F, 0x202F),
      (0x205F, 0x205F), (0x3000, 0x3000), (0xFEFF, 0xFEFF)]"

lemma ranges_within:
  assumes "list_all (\<lambda>(lo, hi). list_ex (\<lambda>(l, h). l \<le> lo \<and> hi \<le> h) bs) as" "in_ranges as x"
  shows "in_ranges bs x"
proof -
  obtain lo hi where a: "(lo, hi) \<in> set as" "lo \<le> x" "x \<le> hi" using assms(2) by (auto simp: in_ranges_def list_ex_iff)
  then obtain l h where "(l, h) \<in> set bs" "l \<le> lo" "hi \<le> h" using assms(1) by (fastforce simp: list_all_iff list_ex_iff)
  then show ?thesis using a(2,3) unfolding in_ranges_def list_ex_iff by (intro bexI [of _ "(l, h)"]) auto
qed

lemma uspace_codes: "uspace x \<Longrightarrow> UNSAFE_CHARS x" "uspace x \<Longrightarrow> x \<le> 32 \<or> 126 \<le> x"
proof -
  assume "uspace x"
  then have s: "in_ranges SPACE_RANGES x" by (auto simp: uspace_def SPACE_RANGES_def in_ranges_def)
  have "list_all (\<lambda>(lo, hi). list_ex (\<lambda>(l, h). l \<le> lo \<and> hi \<le> h) UNSAFE) SPACE_RANGES" by code_simp
  then show "UNSAFE_CHARS x" using s ranges_within by (simp add: UNSAFE_CHARS_def)
  have "list_all (\<lambda>(lo, hi). hi \<le> 32 \<or> 126 \<le> lo) SPACE_RANGES" by code_simp
  then show "x \<le> 32 \<or> 126 \<le> x" using s by (fastforce simp: in_ranges_def list_all_iff list_ex_iff)
qed

lemma uspace_tab: "uspace 9" and uspace_newline: "uspace 10"
  by (simp_all add: uspace_def in_ranges_def)

lemma printable_plain: "\<forall>x\<in>set t. 33 \<le> x \<and> x \<le> 125 \<Longrightarrow> blank_or_plain t"
  unfolding blank_or_plain_def using uspace_codes(2) by fastforce

lemma tokens_plain:
  assumes "\<forall>p\<in>set ps. shown_token p" shows "blank_or_plain (text_of ps)"
  unfolding blank_or_plain_def
proof
  fix x assume "x \<in> set (text_of ps)"
  then obtain p where "p \<in> set ps" "x \<in> set (tk p)" by auto
  then show "x = BLANK \<or> \<not> uspace x"
    using shown_chars [of p x] assms uspace_codes [of x] by auto
qed

lemma spelled_field:
  assumes "code_points s"
  shows "blank_or_plain (spelled s) \<and>
    ((\<exists>n. s = MemfdOf n \<and> (\<forall>c\<in>set n. c \<le> 0x10FFFF)) \<or> closed_text (spelled s))"
proof (cases s)
  case (NameOf n)
  then show ?thesis
    using assms escaped_closed(1) tokens_plain esc_tokens_shown by (metis code_points.simps(2) esc_tokens_text spelled.simps(1))
next
  case (PathOf p)
  then show ?thesis
    using assms escaped_closed(2) tokens_plain path_tokens_shown
    by (metis code_points.simps(3) path_tokens_text spelled.simps(2))
next
  case (UnderOf p)
  then have "blank_or_plain (escapePath p)" "closed_text (escapePath p)"
    using assms escaped_closed(2) tokens_plain path_tokens_shown by (simp, metis path_tokens_text, simp)
  moreover have "blank_or_plain (u ''/**'')" "closed_text (u ''/**'')"
    by (auto intro!: closed_plain printable_plain simp: u_def)
  ultimately show ?thesis using UnderOf by (auto simp: blank_or_plain_def closed_append)
next
  case (MemfdOf n)
  then have n: "\<forall>c\<in>set n. c \<le> 0x10FFFF" using assms by simp
  have "blank_or_plain (escapeForDisplay n)"
    using tokens_plain [OF esc_tokens_shown [OF n, of "[]"]] esc_tokens_text by metis
  moreover have "blank_or_plain (MEMFD_PREFIX @ [QUOTE])"
    by (intro printable_plain) (auto simp: MEMFD_PREFIX_def u_def)
  ultimately show ?thesis using n MemfdOf by (auto simp: blank_or_plain_def memfd_shown_def)
next
  case Memfds
  have "blank_or_plain (MEMFD_PREFIX @ u ''**'')" "closed_text (MEMFD_PREFIX @ u ''**'')"
    by (auto intro!: closed_plain printable_plain simp: MEMFD_PREFIX_def u_def)
  then show ?thesis using Memfds by simp
qed

text \<open>Where a field ends.\<close>

definition field_over :: "ustring \<Rightarrow> bool" where
  "field_over s \<longleftrightarrow> s = [] \<or> field_blank (hd s)"

lemma fields_blank: "rule_fields ref (BLANK # s) = rule_fields ref s"
  by (simp add: rule_fields.simps field_blank_def)

lemma fields_blanks: "rule_fields ref (replicate n BLANK @ s) = rule_fields ref s"
  by (induction n) (simp_all add: fields_blank)

lemma closed_none: "closed_text t \<Longrightarrow> closing_quote t = None"
  unfolding closed_text_def by (metis append_Nil2 closing_quote.simps(1) option.map(1))

lemma fields_bare:
  assumes "t \<noteq> []" "closed_text t" "\<forall>x\<in>set t. \<not> field_blank x" "field_over s"
  shows "rule_fields ref (t @ s) = map_e (Cons t) (rule_fields ref s)"
proof -
  obtain c cs where t: "t = c # cs" using assms(1) by (cases t) auto
  have "c \<noteq> QUOTE"
  proof
    assume "c = QUOTE"
    then have "closing_quote t = Some 0" using t by (cases cs) simp_all
    then show False using closed_none [OF assms(2)] by simp
  qed
  moreover have "\<not> starts_with (MEMFD_PREFIX @ [QUOTE]) (t @ s)"
  proof
    assume "starts_with (MEMFD_PREFIX @ [QUOTE]) (t @ s)"
    then obtain r where r: "t @ s = (MEMFD_PREFIX @ [QUOTE]) @ r" by (auto simp: starts_with_iff)
    then consider m where "t = (MEMFD_PREFIX @ [QUOTE]) @ m" | d m where "MEMFD_PREFIX @ [QUOTE] = t @ d # m" "hd s = d" "s \<noteq> []"
      unfolding append_eq_append_conv2 by (metis append_Nil2 hd_append2 list.exhaust_sel list.sel(1) append_is_Nil_conv)
    then show False
    proof cases
      case (1 m)
      then show False using closed_not_memfd [OF assms(2)] by (auto simp: starts_with_iff)
    next
      case (2 d m)
      then have "d \<in> set (MEMFD_PREFIX @ [QUOTE])" by (metis in_set_conv_decomp)
      moreover have "field_blank d" using assms(4) 2 by (simp add: field_over_def)
      ultimately show False by (auto simp: MEMFD_PREFIX_def u_def field_blank_def)
    qed
  qed
  moreover have "takeWhile (\<lambda>d. \<not> field_blank d) (t @ s) = t" "dropWhile (\<lambda>d. \<not> field_blank d) (t @ s) = s"
    using assms(3,4) by (cases s; simp add: takeWhile_append2 dropWhile_append2 field_over_def)+
  ultimately show ?thesis using assms(3) t by (simp add: rule_fields.simps)
qed

lemma fields_quoted:
  assumes "closed_text t" "field_over s"
  shows "rule_fields ref ([QUOTE] @ t @ [QUOTE] @ s) = map_e (Cons t) (rule_fields ref s)"
proof -
  have "closing_quote (t @ QUOTE # s) = Some (length t)" using assms(1) unfolding closed_text_def by (cases s) simp_all
  then show ?thesis
    using assms(2) by (auto simp: rule_fields.simps(2) quoted_field_def MEMFD_PREFIX_def u_def field_blank_def field_over_def)
qed

lemma fields_memfd:
  assumes "\<forall>c\<in>set n. c \<le> 0x10FFFF" "field_over s"
  shows "rule_fields ref (memfd_shown n @ s) = map_e (Cons (memfd_shown n)) (rule_fields ref s)"
proof -
  let ?t = "escapeForDisplay n"
  have "closing_quote (?t @ QUOTE # s) = Some (length ?t)"
    using escaped_closed(1) [OF assms(1)] unfolding closed_text_def by (cases s) simp_all
  moreover have "memfd_shown n @ s = 109 # u ''emfd:'' @ [QUOTE] @ ?t @ [QUOTE] @ s"
    by (simp add: memfd_shown_def MEMFD_PREFIX_def u_def)
  ultimately show ?thesis
    using assms(2)
    by (auto simp: rule_fields.simps(2) quoted_field_def MEMFD_PREFIX_def u_def field_blank_def field_over_def
        memfd_shown_def)
qed

text \<open>A field of the file is read back as the name it was written for.\<close>

lemma field_reads:
  assumes "code_points s" "field_over r"
  shows "rule_fields ref (ruleField (spelled s) @ r) = map_e (Cons (spelled s)) (rule_fields ref r)"
proof -
  note f = spelled_field [OF assms(1)]
  show ?thesis
  proof (cases "\<exists>n. s = MemfdOf n \<and> (\<forall>c\<in>set n. c \<le> 0x10FFFF)")
    case True
    then obtain n where n: "s = MemfdOf n" "\<forall>c\<in>set n. c \<le> 0x10FFFF" by blast
    have "ruleField (spelled s) = memfd_shown n"
      using n(1) by (simp add: ruleField_def memfd_shown_def starts_with_def)
    then show ?thesis using fields_memfd [OF n(2) assms(2)] n(1) by simp
  next
    case False
    then have c: "closed_text (spelled s)" using f by blast
    have m: "\<not> starts_with (MEMFD_PREFIX @ [QUOTE]) (spelled s)" using closed_not_memfd [OF c] .
    show ?thesis
    proof (cases "spelled s = [] \<or> starts_with (u ''#'') (spelled s) \<or> BLANK \<in> set (spelled s)")
      case True
      then have "ruleField (spelled s) = [QUOTE] @ spelled s @ [QUOTE]" using m by (auto simp: ruleField_def field_def)
      then show ?thesis using fields_quoted [OF c assms(2)] by simp
    next
      case False
      then have "ruleField (spelled s) = spelled s" using m by (simp add: ruleField_def field_def)
      moreover have "\<forall>x\<in>set (spelled s). \<not> field_blank x"
        using False f uspace_codes(1) unfolding blank_or_plain_def field_blank_def
        by (metis (no_types) uspace_tab)
      ultimately show ?thesis using fields_bare [OF _ c _ assms(2)] False by simp
    qed
  qed
qed

text \<open>The ends of a field are no white space, and its start no comment's.\<close>

lemma ruleField_cases:
  "ruleField t = [QUOTE] @ t @ [QUOTE] \<or> ruleField t = t \<and> starts_with (MEMFD_PREFIX @ [QUOTE]) t \<or>
   ruleField t = t \<and> t \<noteq> [] \<and> hd t \<noteq> 35 \<and> BLANK \<notin> set t"
  by (cases t) (auto simp: ruleField_def field_def u_def)

lemma field_ends:
  assumes "code_points s"
  shows "ruleField (spelled s) \<noteq> []" "\<not> uspace (hd (ruleField (spelled s)))" "hd (ruleField (spelled s)) \<noteq> 35"
    "\<not> uspace (last (ruleField (spelled s)))" "10 \<notin> set (ruleField (spelled s))"
proof -
  let ?t = "spelled s"
  have q: "\<not> uspace QUOTE" using uspace_codes(2) [of QUOTE] by auto
  have b: "blank_or_plain ?t" using spelled_field [OF assms] by blast
  have nl: "10 \<notin> set ?t" using b uspace_newline unfolding blank_or_plain_def by fastforce
  consider (quoted) "ruleField ?t = [QUOTE] @ ?t @ [QUOTE]" | (memfd) "ruleField ?t = ?t" "starts_with (MEMFD_PREFIX @ [QUOTE]) ?t"
    | (bare) "ruleField ?t = ?t" "?t \<noteq> []" "hd ?t \<noteq> 35" "BLANK \<notin> set ?t"
    using ruleField_cases [of ?t] by blast
  then have "ruleField ?t \<noteq> [] \<and> \<not> uspace (hd (ruleField ?t)) \<and> hd (ruleField ?t) \<noteq> 35 \<and>
      \<not> uspace (last (ruleField ?t)) \<and> 10 \<notin> set (ruleField ?t)"
  proof cases
    case memfd
    then have "\<not> closed_text ?t" using closed_not_memfd by blast
    then obtain n where n: "s = MemfdOf n" using spelled_field [OF assms] by blast
    moreover have "\<not> uspace 109" using uspace_codes(2) [of 109] by fastforce
    ultimately show ?thesis using memfd(1) q nl by (simp add: memfd_shown_def MEMFD_PREFIX_def u_def)
  next
    case bare
    then have "\<forall>x\<in>set ?t. \<not> uspace x" using b by (auto simp: blank_or_plain_def)
    then show ?thesis using bare nl by (simp add: hd_in_set last_in_set)
  qed (use q nl in simp)
  then show "ruleField (spelled s) \<noteq> []" "\<not> uspace (hd (ruleField (spelled s)))" "hd (ruleField (spelled s)) \<noteq> 35"
    "\<not> uspace (last (ruleField (spelled s)))" "10 \<notin> set (ruleField (spelled s))" by blast+
qed

end
