(* ===== verification/FsProposeRead.thy ===== *)
theory FsProposeRead
  imports FsPropose
begin

text \<open>
  What the file of \<^verbatim>\<open>proposed-rules.ts\<close> says to \<^verbatim>\<open>rules.ts\<close>: the flags of a row as the accesses of a rule, a
  line as a rule, the lines between the comments as the rows, and the rules as what takes the
  accesses the rows stand for.
\<close>

section \<open>Flags\<close>

text \<open>The actions of letters together.\<close>

definition bits_of :: "char list \<Rightarrow> actions" where
  "bits_of cs = foldr (\<lambda>c b. BIT c OR b) cs 0"

lemma bits_of_simps [simp]: "bits_of [] = 0" "bits_of (c # cs) = BIT c OR bits_of cs"
  by (simp_all add: bits_of_def)


lemma letter_codes:
  "list_all (\<lambda>c. upper_letter (of_char c) \<and> access_letter (of_char (lower_char c)) \<and> \<not> upper_letter (of_char (lower_char c)) \<and>
     is_upper_code (of_char c) \<and> \<not> is_upper_code (of_char (lower_char c)) \<and> to_upper_code (of_char (lower_char c)) = of_char c \<and>
     to_upper_code (of_char c) = of_char c \<and>
     code_BIT (of_char c) = BIT c \<and> (of_char c :: nat) \<noteq> 33 \<and> (of_char (lower_char c) :: nat) \<noteq> 33) ORDER"
  by code_simp

lemma letter [simp]:
  assumes "c \<in> set ORDER"
  shows "upper_letter (of_char c)" "access_letter (of_char (lower_char c))" "\<not> upper_letter (of_char (lower_char c))"
    "is_upper_code (of_char c)" "\<not> is_upper_code (of_char (lower_char c))" "to_upper_code (of_char (lower_char c)) = of_char c"
    "to_upper_code (of_char c) = of_char c" "code_BIT (of_char c) = BIT c" "(of_char c :: nat) \<noteq> 33"
    "(of_char (lower_char c) :: nat) \<noteq> 33"
  using letter_codes assms by (auto simp: list_all_iff)





lemma u_letters [simp]: "u [] = []" "u (c # s) = of_char c # u s" "u (s @ t) = u s @ u t" "u s = [] \<longleftrightarrow> s = []"
  by (simp_all add: u_def)















section \<open>A line\<close>











section \<open>The file\<close>
















section \<open>What the file does to the next run\<close>







end
