(* ===== verification/Spec2Isabelle.thy ===== *)
theory Spec2Isabelle
  imports HaproxyConfig StepSummary ExampleRules FsMatch FsStrip FsInput FsLineFile FsFoldLines FsSummary FsProposeRead
begin

text \<open>
  Buildcage isolated run: the action that runs a step's command in a sandbox whose traffic passes
  a filtering proxy and a resolver, and reports what the step reached and which files it touched.

  \<^bold>\<open>The program.\<close> The inputs of the action are lists of rules. They are compiled to regular
  expressions and narrower matchers, from which the configuration of the proxy (\<^verbatim>\<open>haproxy.cfg\<close>, in
  one of two engines: \<^emph>\<open>inspect\<close>, which decrypts, and \<^emph>\<open>universal\<close>, which does not) and of the resolver
  (\<^verbatim>\<open>Corefile\<close>) is written. While the command runs, both write logs. After it, the logs are scanned
  into traffic events, the events are judged against the rules of connections known to be
  blocked, reduced to tables, and rendered into the job summary, the annotations and the exit
  code; in an audit run the requests seen are turned into the rules that would permit them. A
  tracer writes a recording of file accesses, which the filesystem audit matches against expected
  rules and folds into lines. Only the files under \<^verbatim>\<open>src/src\<close> are the program; \<^verbatim>\<open>src/dist\<close> holds bundles
  of the same sources. File names below are relative to \<^verbatim>\<open>src/src\<close>.

  \<^bold>\<open>Conventions.\<close> A text of the core is a list of 8-bit code units (\<^typ>\<open>string\<close>), with a non-ASCII literal
  as its UTF-8 bytes; the filesystem audit, which reads code points, has \<^typ>\<open>ustring\<close>. An exception is
  the left side of a sum (\<^verbatim>\<open>acl_error\<close>, or a component's own error type); \<^verbatim>\<open>undefined\<close> is \<^const>\<open>None\<close>. A
  \<^verbatim>\<open>Map\<close> or \<^verbatim>\<open>Set\<close> that is iterated is an association list in insertion order (\<^const>\<open>omap_update\<close>). State
  that a class or closure keeps is a record passed through. Times are milliseconds. What is not
  under \<^verbatim>\<open>src\<close> is a parameter: \<^verbatim>\<open>syn\<close> is the \<^verbatim>\<open>RegExp\<close> constructor's check of user text, \<^verbatim>\<open>rt\<close> is
  \<^verbatim>\<open>RegExp.test\<close> on the rules of a report, \<^verbatim>\<open>exec\<close> is \<^verbatim>\<open>docker exec\<close>, \<^verbatim>\<open>parse\<close> and \<^verbatim>\<open>stringify\<close> are those of \<^verbatim>\<open>JSON\<close>,
  \<^verbatim>\<open>writeSync\<close> is how much of the data a write takes.

  \<^bold>\<open>Foundations.\<close>
  \<^item> \<^theory_text>\<open>Prelude\<close>: string operations of JavaScript, errors, the ordered map; every theory's hints.
  \<^item> \<^theory_text>\<open>JsSort\<close>: the stable sort with a comparator and code unit order.
  \<^item> \<^theory_text>\<open>Regex\<close>, \<^theory_text>\<open>RegexMeaning\<close>, \<^theory_text>\<open>LogPattern\<close>: regular expressions: a syntax, a parser of the texts the
    program writes, the backtracking matcher as a list of successes, its agreement with the
    language of an expression, and the first match of the log formats. Expressions loop at most as often as the
    text is long, so the matcher needs no fuel.
  \<^item> \<^theory_text>\<open>LogScan\<close>, \<^theory_text>\<open>Memo\<close>: the interfaces (locales) that the log scanners, the tables and the caches share,
    each interpreted on the components that provide them.

  \<^bold>\<open>Rules\<close> (\<^verbatim>\<open>core/lib/acl\<close>).
  \<^item> \<^theory_text>\<open>RuleText\<close>, \<^theory_text>\<open>PartialWildcard\<close>, \<^theory_text>\<open>RawRegex\<close>: comments and tokens (\<^verbatim>\<open>line-comments.ts\<close>), the wildcard compiler
    and the checks of raw expressions (\<^verbatim>\<open>partial-wildcard.ts\<close>). \<^theory_text>\<open>WildcardLang\<close> says what a pattern means
    without regular expressions and proves the compiled text matches exactly that.
  \<^item> \<^theory_text>\<open>Ipv4\<close>, \<^theory_text>\<open>WildcardRules\<close>, \<^theory_text>\<open>UrlRules\<close>: address predicates, host and CIDR rules, the list of known
    blocked connections, URL rules: each compiled rule matches what it says and nothing else. What it
    says is stated apart from the code: \<^const>\<open>names_port\<close> tells the port a URL writes from the colons of
    an address, and \<^const>\<open>port_opens\<close> the place where the port of a raw expression starts.
  \<^item> \<^theory_text>\<open>HaproxyMatchers\<close>, \<^theory_text>\<open>HaproxyRules\<close>, \<^theory_text>\<open>RuleBlock\<close>: the narrowing of an expression to a string comparison, which
    accepts the same texts; the compiled rule set and its identifiers; the lines of a listener. As the proxy ors the acls of
    one name, each acl a rule requires is shown to be declared once, above the rule.
  \<^item> \<^theory_text>\<open>ConfigSections\<close>, \<^theory_text>\<open>DetectFrontend\<close>, \<^theory_text>\<open>InspectStage\<close>, \<^theory_text>\<open>UniversalConfig\<close>, \<^theory_text>\<open>HaproxyConfig\<close>, \<^theory_text>\<open>Coredns\<close>: the
    configurations as lists of lines (they agree with the repository's golden files), with the
    order in which a request is checked: no address is resolved or dialled before the rules have
    been asked, and every acl a line names is declared above it.

  \<^bold>\<open>Logs\<close> (\<^verbatim>\<open>core/lib/log\<close>).
  \<^item> \<^theory_text>\<open>TrafficEvent\<close>, \<^theory_text>\<open>ProxyLog\<close>: events, what a report leaves out, the tally of a log: restarts, unreadable
    and dropped lines, the intact head.
  \<^item> \<^theory_text>\<open>HaproxyLog\<close>, \<^theory_text>\<open>InspectLog\<close>, \<^theory_text>\<open>DnsLog\<close>, \<^theory_text>\<open>Aggregate\<close>: the scanners and the counted tables. A log that is a
    stream in the code is the list of its lines. A line is read back in every form the configuration
    gives it, with and without the state and destination (\<^const>\<open>line_ending\<close>) behind it.

  \<^bold>\<open>Report\<close> (\<^verbatim>\<open>core/lib/report\<close>, \<^verbatim>\<open>core/lib/docker\<close> health readers).
  \<^item> \<^theory_text>\<open>ReportBuild\<close>, \<^theory_text>\<open>ReportOutcome\<close>: the tables, the known-blocked rules, the emissions and the exit code, and
    that the verdict line says what the exit code does, whatever items the action adds to it.
  \<^item> \<^theory_text>\<open>Markdown\<close>, \<^theory_text>\<open>StepSummary\<close>: table cells no name can break out of, and the summary cut to its size,
    where the line loop is shown to stop and to keep the bound.
  \<^item> \<^theory_text>\<open>RestrictExample\<close>, \<^theory_text>\<open>ExampleRules\<close>: the proposed rules, and that the rule compiler accepts them, that
    they permit every request seen and nothing of another host, method or directory.

  \<^bold>\<open>Filesystem audit\<close> (\<^verbatim>\<open>lib/filesystem-audit\<close>).
  \<^item> \<^theory_text>\<open>FsNames\<close>, \<^theory_text>\<open>FsPaths\<close> (\<^verbatim>\<open>escape.ts\<close>, \<^verbatim>\<open>paths.ts\<close>): escapes that read back, keys of paths.
  \<^item> \<^theory_text>\<open>FsGlob\<close>, \<^theory_text>\<open>FsRules\<close>, \<^theory_text>\<open>FsMatch\<close> (\<^verbatim>\<open>rules.ts\<close>): globs and their table, the rule lines, the matcher; its index
    and its cache change no result.
  \<^item> \<^theory_text>\<open>FsInput\<close> (\<^verbatim>\<open>mode.ts\<close>, \<^verbatim>\<open>rules-input.ts\<close>, the line numbers of \<^verbatim>\<open>config-file.ts\<close>): where the rules come from, and that a
    message names the line the user wrote.
  \<^item> \<^theory_text>\<open>FsLineFile\<close> (\<^verbatim>\<open>line-file.ts\<close>, \<^verbatim>\<open>command.ts\<close>): a file read and written a chunk at a time, whose lines read
    back; how a row names a command.
  \<^item> \<^theory_text>\<open>FsRecord\<close> (\<^verbatim>\<open>record.ts\<close>, \<^verbatim>\<open>agg.ts\<close>): records and the aggregates of lines, merged without loss.
  \<^item> \<^theory_text>\<open>FsStrip\<close> (\<^verbatim>\<open>strip.ts\<close>): the sandbox's own machinery taken out of a recording, and nothing else.
  \<^item> \<^theory_text>\<open>FsFold\<close>, \<^theory_text>\<open>FsFoldKeeps\<close>, \<^theory_text>\<open>FsFoldHeld\<close>, \<^theory_text>\<open>FsFoldLines\<close> (\<^verbatim>\<open>fold-tree.ts\<close>): the table of a summary, a tree of path
    components that folds as it grows. The first holds the definitions; the others show that no
    access is lost, on the way down the tree, in the table as accesses are added, and in the lines
    that are written out.
  \<^item> \<^theory_text>\<open>FsTally\<close>, \<^theory_text>\<open>FsReduce\<close>, \<^theory_text>\<open>FsRecording\<close> (\<^verbatim>\<open>rule-tally.ts\<close>, \<^verbatim>\<open>reduce.ts\<close>): a recording read twice and reduced to
    the summary: programs and commands, what each process loaded, the three tables, the marks of
    the lines. The two reads come to stripping the recording and summarizing it once, and a
    failure of the summary loses no line of the stripped recording. Both rest on \<^const>\<open>kind_leads\<close>: the tracer
    writes the kind of a line before any text of the step's.
  \<^item> \<^theory_text>\<open>FsSummary\<close>: without rules each access that is not left out shows in the table of paths, in the details
    and in the proposals, unless that part says it was cut.
  \<^item> \<^theory_text>\<open>FsShown\<close>, \<^theory_text>\<open>FsPropose\<close>, \<^theory_text>\<open>FsProposeRead\<close> (\<^verbatim>\<open>proposed-rules.ts\<close>): the file of rules a run proposes. A name as it
    is shown, read as a glob, takes itself; the file reads back as one rule for each row, and once it is
    added nothing a row stands for is left.

  \<^bold>\<open>Bounds and fuel.\<close> No definition takes fuel. The limits of the code are values of the model
  (\<^const>\<open>CACHE_MAX\<close>, \<^const>\<open>LIMITS\<close>, \<^const>\<open>STEP_SUMMARY_LIMIT_BYTES\<close>), and no theorem rests on what they are; actions
  are 32-bit words, as the code's bitwise operators take them.

  \<^bold>\<open>Not modelled.\<close> What spawns processes, mounts, talks to Docker or the network, or reads the
  environment has no content a definition could keep: the Docker client, image provenance, the
  sandbox, the steps of the action and their inputs. Request signing inside the proxy rests on its
  own HMAC and clock. Of the filesystem audit, the text of the summary (\<^verbatim>\<open>render.ts\<close>, \<^verbatim>\<open>report.ts\<close>), the upload
  (\<^verbatim>\<open>artifact.ts\<close>) and what a write that throws leaves of a file are left out.
\<close>

end
